(* ===== verification/Prelude.thy ===== *)
theory Prelude
  imports Main "HOL-Library.Word" "HOL-Library.Sublist"
begin

text \<open>
  Shared vocabulary of the development. Machine integers keep their width (\<open>u32\<close>,
  \<open>u64\<close>); an octet of a byte buffer or of a \<open>std::string\<close> is a \<open>char\<close> (HOL's
  \<open>char\<close> has exactly the 256 values of an \<open>unsigned char\<close>); sizes and offsets of
  objects in memory are \<open>nat\<close>, which is faithful as long as no object is larger than the
  address space. The theory also models the pieces of the C++ standard library that the
  sources call everywhere: the search functions of \<open>std::string_view\<close> and
  \<open>std::to_string\<close>.
\<close>

section \<open>Types and collections of the library\<close>

type_synonym u8 = "8 word"
type_synonym u16 = "16 word"
type_synonym u32 = "32 word"
type_synonym u64 = "64 word"

named_theorems ok_simps "definitions of the small result constructors that component proofs unfold"
named_theorems len_intros "facts that a scanner leaves at most as much input as it was given"

abbreviation u64_max :: nat where
  "u64_max \<equiv> 18446744073709551615"

abbreviation nl :: char where "nl \<equiv> CHR 0x0A"
abbreviation cr :: char where "cr \<equiv> CHR 0x0D"
abbreviation tab :: char where "tab \<equiv> CHR 0x09"
abbreviation sp :: char where "sp \<equiv> CHR 0x20"
abbreviation dquote :: char where "dquote \<equiv> CHR 0x22"
abbreviation squote :: char where "squote \<equiv> CHR 0x27"
abbreviation bslash :: char where "bslash \<equiv> CHR 0x5C"

lemma unat_u64_le: "unat (w :: u64) \<le> u64_max"
proof -
  have "unat w < 2 ^ LENGTH(64)" by (rule unsigned_less)
  then show ?thesis by simp
qed

lemma unat_u32_le: "unat (w :: u32) \<le> 4294967295"
proof -
  have "unat w < 2 ^ LENGTH(32)" by (rule unsigned_less)
  then show ?thesis by simp
qed

section \<open>Octets\<close>

definition byte_val :: "char \<Rightarrow> nat" where
  "byte_val c = of_char c"

definition byte_of :: "nat \<Rightarrow> char" where
  "byte_of n = char_of n"

lemma byte_of_val [simp]: "byte_of (byte_val c) = c"
  by (simp add: byte_of_def byte_val_def)

lemma byte_val_of [simp]: "byte_val (byte_of n) = n mod 256"
  by (simp add: byte_of_def byte_val_def)

lemma byte_val_less [simp]: "byte_val c < 256"
proof -
  have "byte_val (byte_of (byte_val c)) = byte_val c mod 256" by (rule byte_val_of)
  then show ?thesis by (metis byte_of_val mod_less_divisor zero_less_numeral)
qed

lemma byte_val_inj [simp]: "byte_val c = byte_val d \<longleftrightarrow> c = d"
  by (metis byte_of_val)

lemma byte_of_eqD: "byte_of m = byte_of n \<Longrightarrow> m < 256 \<Longrightarrow> n < 256 \<Longrightarrow> m = n"
  by (metis byte_val_of mod_less)

section \<open>Decimal text\<close>

definition is_digit :: "char \<Rightarrow> bool" where
  "is_digit c \<longleftrightarrow> 48 \<le> byte_val c \<and> byte_val c \<le> 57"

definition digit_val :: "char \<Rightarrow> nat" where
  "digit_val c = byte_val c - 48"

definition digit_char :: "nat \<Rightarrow> char" where
  "digit_char d = byte_of (48 + d)"

lemma digit_char_is_digit [simp]: "d < 10 \<Longrightarrow> is_digit (digit_char d)"
  by (simp add: is_digit_def digit_char_def)

lemma digit_val_char [simp]: "d < 10 \<Longrightarrow> digit_val (digit_char d) = d"
  by (simp add: digit_val_def digit_char_def)

lemma digit_val_less: "is_digit c \<Longrightarrow> digit_val c < 10"
  by (auto simp: is_digit_def digit_val_def)

text \<open>\<open>std::isspace\<close> in the C locale.\<close>

definition is_space :: "char \<Rightarrow> bool" where
  "is_space c \<longleftrightarrow> c = sp \<or> (9 \<le> byte_val c \<and> byte_val c \<le> 13)"

text \<open>\<open>std::to_string\<close> on an unsigned value.\<close>

fun show_nat :: "nat \<Rightarrow> string" where
  "show_nat n = (if n < 10 then [digit_char n] else show_nat (n div 10) @ [digit_char (n mod 10)])"

declare show_nat.simps [simp del]

definition dec_value :: "nat \<Rightarrow> string \<Rightarrow> nat" where
  "dec_value v s = foldl (\<lambda>a c. 10 * a + digit_val c) v s"

lemma dec_value_simps [simp]:
  "dec_value v [] = v"
  "dec_value v (c # s) = dec_value (10 * v + digit_val c) s"
  "dec_value v (s @ t) = dec_value (dec_value v s) t"
  by (simp_all add: dec_value_def)

lemma dec_value_mono: "v \<le> dec_value v s"
proof (induction s arbitrary: v)
  case (Cons c s)
  have "v \<le> 10 * v + digit_val c" by simp
  also have "\<dots> \<le> dec_value (10 * v + digit_val c) s" by (rule Cons.IH)
  finally show ?case by simp
qed simp

lemma show_nat_nonempty [simp]: "show_nat n \<noteq> []"
  by (subst show_nat.simps) simp

lemma show_nat_digits: "list_all is_digit (show_nat n)"
proof (induction n rule: show_nat.induct)
  case (1 n)
  then show ?case by (cases "n < 10") (simp_all add: show_nat.simps [of n])
qed

lemma dec_value_show_nat: "dec_value 0 (show_nat n) = n"
proof (induction n rule: show_nat.induct)
  case (1 n)
  then show ?case by (cases "n < 10") (simp_all add: show_nat.simps [of n])
qed

lemma show_nat_inject [simp]: "show_nat m = show_nat n \<longleftrightarrow> m = n"
  by (metis dec_value_show_nat)

section \<open>Searching strings\<close>

text \<open>
  \<open>find_char c s\<close> is \<open>s.find(c)\<close>, \<open>find_sub p s\<close> is \<open>s.find(p)\<close> and
  \<open>rfind_char c s\<close> is \<open>s.rfind(c)\<close>; \<open>None\<close> stands for \<open>npos\<close>.
\<close>

fun find_char :: "char \<Rightarrow> string \<Rightarrow> nat option" where
  "find_char c [] = None"
| "find_char c (x # xs) = (if x = c then Some 0 else map_option Suc (find_char c xs))"

definition rfind_char :: "char \<Rightarrow> string \<Rightarrow> nat option" where
  "rfind_char c s = map_option (\<lambda>i. length s - 1 - i) (find_char c (rev s))"

definition starts_with :: "string \<Rightarrow> string \<Rightarrow> bool" where
  "starts_with s p \<longleftrightarrow> length p \<le> length s \<and> take (length p) s = p"

definition ends_with :: "string \<Rightarrow> string \<Rightarrow> bool" where
  "ends_with s p \<longleftrightarrow> length p \<le> length s \<and> drop (length s - length p) s = p"

fun find_sub :: "string \<Rightarrow> string \<Rightarrow> nat option" where
  "find_sub p [] = (if p = [] then Some 0 else None)"
| "find_sub p (x # xs) = (if starts_with (x # xs) p then Some 0 else map_option Suc (find_sub p xs))"

lemma find_char_None [simp]: "find_char c s = None \<longleftrightarrow> c \<notin> set s"
  by (induction s) auto

lemma find_char_SomeD:
  "find_char c s = Some i \<Longrightarrow> i < length s \<and> s ! i = c \<and> c \<notin> set (take i s)"
  by (induction s arbitrary: i) (auto split: if_splits)

lemma find_char_append:
  "c \<notin> set u \<Longrightarrow> find_char c (u @ c # v) = Some (length u)"
  by (induction u) auto

lemma find_char_Some_split:
  "find_char c s = Some i \<Longrightarrow> s = take i s @ c # drop (Suc i) s"
  by (metis find_char_SomeD id_take_nth_drop)

lemma starts_with_prefix: "starts_with s p \<longleftrightarrow> prefix p s"
  by (auto simp: starts_with_def prefix_def) (metis append_take_drop_id)

lemma ends_with_suffix: "ends_with s p \<longleftrightarrow> suffix p s"
  by (auto simp: ends_with_def suffix_def) (metis append_take_drop_id)

lemma find_sub_SomeD: "find_sub p s = Some i \<Longrightarrow> i \<le> length s \<and> prefix p (drop i s)"
  by (induction s arbitrary: i) (auto simp: starts_with_prefix split: if_splits)

lemma find_sub_None: "find_sub p s = None \<Longrightarrow> \<not> sublist p s"
proof (induction s)
  case (Cons x xs)
  then show ?case by (auto simp: sublist_Cons_right starts_with_prefix split: if_splits)
qed (auto split: if_splits)

lemma find_sub_sublist: "find_sub p s \<noteq> None \<longleftrightarrow> sublist p s"
proof
  assume "find_sub p s \<noteq> None"
  then obtain i where i: "find_sub p s = Some i" by blast
  then have "prefix p (drop i s)" using find_sub_SomeD by blast
  then show "sublist p s"
    by (metis append_take_drop_id prefix_imp_sublist sublist_appendI sublist_order.order.trans append_Nil2)
qed (use find_sub_None in blast)

text \<open>\<open>find_sub_from p s k\<close> is \<open>s.find(p, k)\<close>.\<close>

definition find_sub_from :: "string \<Rightarrow> string \<Rightarrow> nat \<Rightarrow> nat option" where
  "find_sub_from p s k = (if k > length s then None else map_option ((+) k) (find_sub p (drop k s)))"

lemma find_sub_first: "find_sub p s = Some i \<Longrightarrow> j < i \<Longrightarrow> \<not> prefix p (drop j s)"
proof (induction s arbitrary: i j)
  case (Cons x xs)
  then show ?case by (cases j) (auto simp: starts_with_prefix split: if_splits)
qed (auto split: if_splits)

lemma find_sub_from_SomeD:
  assumes "find_sub_from p s k = Some i"
  shows "k \<le> i \<and> i + length p \<le> length s \<and> prefix p (drop i s)"
proof -
  obtain d where d: "find_sub p (drop k s) = Some d" "i = k + d" and k: "k \<le> length s"
    using assms by (auto simp: find_sub_from_def split: if_splits)
  have "d \<le> length (drop k s)" "prefix p (drop i s)" using find_sub_SomeD [OF d(1)] d(2) by (auto simp: add.commute)
  then show ?thesis using d(2) k prefix_length_le [of p "drop i s"] by auto
qed

lemma find_sub_from_first:
  assumes "find_sub_from p s k = Some i" "k \<le> j" "j < i"
  shows "\<not> prefix p (drop j s)"
proof -
  obtain d where "find_sub p (drop k s) = Some d" "i = k + d"
    using assms(1) by (auto simp: find_sub_from_def split: if_splits)
  then show ?thesis using find_sub_first [of p "drop k s" d "j - k"] assms(2,3) by simp
qed

lemma find_sub_from_None:
  assumes "find_sub_from p s k = None" "k \<le> j" "j \<le> length s"
  shows "\<not> prefix p (drop j s)"
proof
  assume "prefix p (drop j s)"
  moreover have "drop j s = drop (j - k) (drop k s)" using assms(2) by simp
  ultimately have "sublist p (drop k s)" by (metis append_take_drop_id prefix_def sublist_appendI)
  moreover have "find_sub p (drop k s) = None" using assms by (auto simp: find_sub_from_def split: if_splits)
  ultimately show False using find_sub_None by blast
qed

section \<open>Trimming one trailing carriage return\<close>

text \<open>The idiom \<open>if (!l.empty() && l.back() == '\r') l.remove_suffix(1)\<close> of the line readers.\<close>

definition chop_cr :: "string \<Rightarrow> string" where
  "chop_cr l = (if l \<noteq> [] \<and> last l = cr then butlast l else l)"

lemma chop_cr_id: "(l = [] \<or> last l \<noteq> cr) \<Longrightarrow> chop_cr l = l"
  by (auto simp: chop_cr_def)

lemma chop_cr_set: "set (chop_cr l) \<subseteq> set l"
  by (auto simp: chop_cr_def dest: in_set_butlastD)

section \<open>Lists\<close>

lemma takeWhile_dropWhile_nl:
  "dropWhile P s = [] \<or> (\<exists>c t. dropWhile P s = c # t \<and> \<not> P c)"
  by (cases "dropWhile P s") (auto dest: hd_dropWhile [of P s, simplified] simp: dropWhile_eq_Cons_conv)

lemma length_dropWhile_tl [termination_simp]:
  "dropWhile P s = c # t \<Longrightarrow> length t < length s"
  "c # t = dropWhile P s \<Longrightarrow> length t < length s"
  by (metis Suc_le_eq length_Cons length_dropWhile_le)+

end
