(* ===== verification/Errors.thy ===== *)
theory Errors
  imports Prelude
begin

text \<open>
  The error vocabulary of \<open>src/core/error.h\<close>: the enumerations \<open>Err\<close>, \<open>ErrCat\<close> and
  \<open>Retry\<close>, the ABI status enumeration of \<open>opencode.h\<close>, the classification functions and
  the value class \<open>error_code\<close>. Every fallible operation of the development returns a value
  of type \<open>error_code\<close> (or a sum with it), as the sources do.
\<close>

section \<open>Enumerations\<close>

datatype ErrCat = cat_net | cat_provider | cat_config | cat_core | cat_tool | cat_verify
  | cat_agent | cat_abi

datatype Err = err_ok
  | e_net_connect | e_net_resolve | e_net_tls | e_net_http | e_net_timeout | e_net_overflow
  | e_net_offline
  | e_proto_parse | e_auth | e_rate_limit | e_provider_err | e_model_unsup
  | e_invalid_cfg | e_missing_cfg
  | e_busy | e_cancelled | e_internal | e_not_impl | e_oom
  | e_tool_reject | e_tool_notfound | e_verify_fail | e_budget | e_aborted | e_overflow
  | err_last

datatype Retry = retry_none | retry_retryable | retry_fatal

datatype opencode_status = OPENCODE_OK | OPENCODE_ERR_NETWORK | OPENCODE_ERR_AUTH
  | OPENCODE_ERR_VALIDATION | OPENCODE_ERR_BUSY | OPENCODE_ERR_CANCELLED
  | OPENCODE_ERR_FATAL | OPENCODE_ERR_NO_NETWORK

text \<open>The numbers of \<open>Err\<close> are part of the serialized surface (\<open>AgentEvent::status\<close>).\<close>

fun err_num :: "Err \<Rightarrow> int" where
  "err_num err_ok = 0"
| "err_num e_net_connect = 1" | "err_num e_net_resolve = 2" | "err_num e_net_tls = 3"
| "err_num e_net_http = 4" | "err_num e_net_timeout = 5" | "err_num e_net_overflow = 6"
| "err_num e_net_offline = 7" | "err_num e_proto_parse = 8" | "err_num e_auth = 9"
| "err_num e_rate_limit = 10" | "err_num e_provider_err = 11" | "err_num e_model_unsup = 12"
| "err_num e_invalid_cfg = 13" | "err_num e_missing_cfg = 14" | "err_num e_busy = 15"
| "err_num e_cancelled = 16" | "err_num e_internal = 17" | "err_num e_not_impl = 18"
| "err_num e_oom = 19" | "err_num e_tool_reject = 20" | "err_num e_tool_notfound = 21"
| "err_num e_verify_fail = 22" | "err_num e_budget = 23" | "err_num e_aborted = 24"
| "err_num e_overflow = 25" | "err_num err_last = 26"

section \<open>Classification\<close>

definition category :: "Err \<Rightarrow> ErrCat" where
  "category e = (case e of
     e_net_connect \<Rightarrow> cat_net | e_net_resolve \<Rightarrow> cat_net | e_net_tls \<Rightarrow> cat_net
   | e_net_http \<Rightarrow> cat_net | e_net_timeout \<Rightarrow> cat_net | e_net_overflow \<Rightarrow> cat_net
   | e_net_offline \<Rightarrow> cat_net
   | e_proto_parse \<Rightarrow> cat_provider | e_auth \<Rightarrow> cat_provider | e_rate_limit \<Rightarrow> cat_provider
   | e_provider_err \<Rightarrow> cat_provider | e_model_unsup \<Rightarrow> cat_provider
   | e_invalid_cfg \<Rightarrow> cat_config | e_missing_cfg \<Rightarrow> cat_config
   | e_busy \<Rightarrow> cat_core | e_cancelled \<Rightarrow> cat_core | e_internal \<Rightarrow> cat_core
   | e_not_impl \<Rightarrow> cat_core | e_oom \<Rightarrow> cat_core | e_overflow \<Rightarrow> cat_core
   | e_tool_reject \<Rightarrow> cat_tool | e_tool_notfound \<Rightarrow> cat_tool
   | e_verify_fail \<Rightarrow> cat_verify
   | e_budget \<Rightarrow> cat_agent | e_aborted \<Rightarrow> cat_agent
   | err_ok \<Rightarrow> cat_core | err_last \<Rightarrow> cat_core)"

definition retry_class :: "Err \<Rightarrow> Retry" where
  "retry_class e = (case e of
     e_net_connect \<Rightarrow> retry_retryable | e_net_resolve \<Rightarrow> retry_retryable
   | e_net_tls \<Rightarrow> retry_retryable | e_net_http \<Rightarrow> retry_retryable
   | e_net_timeout \<Rightarrow> retry_retryable | e_net_overflow \<Rightarrow> retry_retryable
   | e_net_offline \<Rightarrow> retry_retryable | e_rate_limit \<Rightarrow> retry_retryable
   | e_provider_err \<Rightarrow> retry_retryable
   | e_auth \<Rightarrow> retry_none | e_invalid_cfg \<Rightarrow> retry_none | e_missing_cfg \<Rightarrow> retry_none
   | e_model_unsup \<Rightarrow> retry_none | e_tool_reject \<Rightarrow> retry_none | e_tool_notfound \<Rightarrow> retry_none
   | e_proto_parse \<Rightarrow> retry_none | e_verify_fail \<Rightarrow> retry_none | e_budget \<Rightarrow> retry_none
   | e_aborted \<Rightarrow> retry_none | e_busy \<Rightarrow> retry_none | e_not_impl \<Rightarrow> retry_none
   | e_overflow \<Rightarrow> retry_none
   | e_internal \<Rightarrow> retry_fatal | e_oom \<Rightarrow> retry_fatal
   | err_ok \<Rightarrow> retry_none | err_last \<Rightarrow> retry_none | e_cancelled \<Rightarrow> retry_none)"

definition err_name :: "Err \<Rightarrow> string" where
  "err_name e = (case e of
     err_ok \<Rightarrow> ''ok'' | e_net_connect \<Rightarrow> ''net_connect'' | e_net_resolve \<Rightarrow> ''net_resolve''
   | e_net_tls \<Rightarrow> ''net_tls'' | e_net_http \<Rightarrow> ''net_http'' | e_net_timeout \<Rightarrow> ''net_timeout''
   | e_net_overflow \<Rightarrow> ''net_overflow'' | e_net_offline \<Rightarrow> ''net_offline''
   | e_proto_parse \<Rightarrow> ''proto_parse'' | e_auth \<Rightarrow> ''auth'' | e_rate_limit \<Rightarrow> ''rate_limit''
   | e_provider_err \<Rightarrow> ''provider_err'' | e_model_unsup \<Rightarrow> ''model_unsupported''
   | e_invalid_cfg \<Rightarrow> ''invalid_config'' | e_missing_cfg \<Rightarrow> ''missing_config''
   | e_busy \<Rightarrow> ''busy'' | e_cancelled \<Rightarrow> ''cancelled'' | e_internal \<Rightarrow> ''internal''
   | e_not_impl \<Rightarrow> ''not_implemented'' | e_oom \<Rightarrow> ''out_of_memory''
   | e_tool_reject \<Rightarrow> ''tool_rejected'' | e_tool_notfound \<Rightarrow> ''tool_not_found''
   | e_verify_fail \<Rightarrow> ''verify_failed'' | e_budget \<Rightarrow> ''budget_exhausted''
   | e_aborted \<Rightarrow> ''aborted'' | e_overflow \<Rightarrow> ''buffer_overflow'' | err_last \<Rightarrow> ''unknown'')"

definition to_abi_status :: "Err \<Rightarrow> opencode_status" where
  "to_abi_status e = (case e of
     err_ok \<Rightarrow> OPENCODE_OK
   | e_net_connect \<Rightarrow> OPENCODE_ERR_NETWORK | e_net_resolve \<Rightarrow> OPENCODE_ERR_NETWORK
   | e_net_tls \<Rightarrow> OPENCODE_ERR_NETWORK | e_net_http \<Rightarrow> OPENCODE_ERR_NETWORK
   | e_net_timeout \<Rightarrow> OPENCODE_ERR_NETWORK | e_net_overflow \<Rightarrow> OPENCODE_ERR_NETWORK
   | e_net_offline \<Rightarrow> OPENCODE_ERR_NO_NETWORK
   | e_auth \<Rightarrow> OPENCODE_ERR_AUTH | e_model_unsup \<Rightarrow> OPENCODE_ERR_AUTH
   | e_invalid_cfg \<Rightarrow> OPENCODE_ERR_VALIDATION | e_missing_cfg \<Rightarrow> OPENCODE_ERR_VALIDATION
   | e_tool_reject \<Rightarrow> OPENCODE_ERR_VALIDATION | e_tool_notfound \<Rightarrow> OPENCODE_ERR_VALIDATION
   | e_proto_parse \<Rightarrow> OPENCODE_ERR_VALIDATION | e_not_impl \<Rightarrow> OPENCODE_ERR_VALIDATION
   | e_busy \<Rightarrow> OPENCODE_ERR_BUSY
   | e_cancelled \<Rightarrow> OPENCODE_ERR_CANCELLED | e_budget \<Rightarrow> OPENCODE_ERR_CANCELLED
   | e_aborted \<Rightarrow> OPENCODE_ERR_CANCELLED
   | e_internal \<Rightarrow> OPENCODE_ERR_FATAL | e_oom \<Rightarrow> OPENCODE_ERR_FATAL
   | e_overflow \<Rightarrow> OPENCODE_ERR_VALIDATION
   | e_verify_fail \<Rightarrow> OPENCODE_ERR_VALIDATION | e_rate_limit \<Rightarrow> OPENCODE_ERR_VALIDATION
   | e_provider_err \<Rightarrow> OPENCODE_ERR_VALIDATION | err_last \<Rightarrow> OPENCODE_ERR_VALIDATION)"

section \<open>The value class\<close>

record error_code =
  ec_code :: Err
  ec_detail :: u32

definition make_error_code :: "Err \<Rightarrow> u32 \<Rightarrow> error_code" where
  "make_error_code e d = \<lparr>ec_code = e, ec_detail = d\<rparr>"

abbreviation make_error :: "Err \<Rightarrow> error_code" where
  "make_error e \<equiv> make_error_code e 0"

definition ok :: error_code where
  "ok = make_error_code err_ok 0"

definition is_ok :: "error_code \<Rightarrow> bool" where
  "is_ok ec \<longleftrightarrow> ec_code ec = err_ok"

definition is_retryable :: "error_code \<Rightarrow> bool" where
  "is_retryable ec \<longleftrightarrow> retry_class (ec_code ec) = retry_retryable"

definition message :: "error_code \<Rightarrow> string" where
  "message ec = err_name (ec_code ec)"

lemma ec_code_make [simp, ok_simps]:
  "ec_code (make_error_code e d) = e" "ec_detail (make_error_code e d) = d"
  by (simp_all add: make_error_code_def)

lemma make_error_code_inject [simp]:
  "make_error_code e d = make_error_code e' d' \<longleftrightarrow> e = e' \<and> d = d'"
  by (auto simp: make_error_code_def)

lemma is_ok_simps [simp, ok_simps]:
  "is_ok ok" "is_ok (make_error_code e d) \<longleftrightarrow> e = err_ok"
  by (simp_all add: is_ok_def ok_def)

lemma ok_neq_error [simp]: "e \<noteq> err_ok \<Longrightarrow> ok \<noteq> make_error_code e d"
  "e \<noteq> err_ok \<Longrightarrow> make_error_code e d \<noteq> ok"
  by (simp_all add: ok_def)

lemma is_retryable_not_ok: "is_retryable ec \<Longrightarrow> \<not> is_ok ec"
  by (auto simp: is_retryable_def is_ok_def retry_class_def)

section \<open>Laws of the vocabulary\<close>

text \<open>
  The C ABI reports success exactly for the code \<open>ok\<close>, reports FATAL exactly for the
  codes whose retry class is \<open>fatal\<close>, and reports one of the two network statuses exactly
  for the codes of category \<open>net\<close>, all of which are retryable. So a host that looks only at
  the ABI status never mistakes a failure for a success or a fatal error for a transient one.
\<close>

theorem abi_status_faithful:
  "(to_abi_status e = OPENCODE_OK \<longleftrightarrow> e = err_ok) \<and>
   (to_abi_status e = OPENCODE_ERR_FATAL \<longleftrightarrow> retry_class e = retry_fatal) \<and>
   (to_abi_status e \<in> {OPENCODE_ERR_NETWORK, OPENCODE_ERR_NO_NETWORK} \<longleftrightarrow> category e = cat_net) \<and>
   {e'. category e' = cat_net} \<subseteq> {e'. retry_class e' = retry_retryable}"
proof -
  have "retry_class e' = retry_retryable" if "category e' = cat_net" for e'
    using that by (cases e') (simp_all add: category_def retry_class_def)
  then show ?thesis
    by (cases e) (auto simp: to_abi_status_def retry_class_def category_def)
qed

lemma err_num_inj: "err_num e = err_num e' \<Longrightarrow> e = e'"
  by (cases e; cases e') simp_all

lemma err_name_inj: "err_name e = err_name e' \<Longrightarrow> e = e'"
  by (cases e; cases e') (simp_all add: err_name_def)

lemma is_ok_ok [simp]: "is_ok ok"
  by (simp add: is_ok_def ok_def make_error_code_def)

lemma is_ok_error [simp]: "is_ok (make_error_code e d) \<longleftrightarrow> e = err_ok"
  by (simp add: is_ok_def make_error_code_def)

end
