(* ===== verification/Text_Util.thy ===== *)
theory Text_Util
  imports Prelude
begin

text \<open>
  The string and path helpers of \<open>src/util/string.h\<close> and \<open>src/util/path.h\<close>: trimming,
  ASCII case mapping, token splitting, the checked integer parsers, and the lexical path
  operations. The integer parsers work on 64-bit words and the theorems relate them to the
  decimal value of the text.
\<close>

section \<open>Trimming and case\<close>

definition is_trim_ws :: "char \<Rightarrow> bool" where
  "is_trim_ws c \<longleftrightarrow> c = sp \<or> c = tab \<or> c = cr \<or> c = nl"

definition trim :: "string \<Rightarrow> string" where
  "trim s = rev (dropWhile is_trim_ws (rev (dropWhile is_trim_ws s)))"

definition contains :: "string \<Rightarrow> string \<Rightarrow> bool" where
  "contains s needle \<longleftrightarrow> find_sub needle s \<noteq> None"

definition ascii_lower :: "char \<Rightarrow> char" where
  "ascii_lower c = (if 65 \<le> byte_val c \<and> byte_val c \<le> 90 then byte_of (byte_val c + 32) else c)"

definition ascii_upper :: "char \<Rightarrow> char" where
  "ascii_upper c = (if 97 \<le> byte_val c \<and> byte_val c \<le> 122 then byte_of (byte_val c - 32) else c)"

definition to_lower :: "string \<Rightarrow> string" where
  "to_lower s = map ascii_lower s"

lemma trim_idem: "trim (trim s) = trim s"
proof -
  let ?t = "dropWhile is_trim_ws (rev (dropWhile is_trim_ws s))"
  have hd: "dropWhile is_trim_ws (rev ?t) = rev ?t"
  proof (cases "rev ?t")
    case (Cons c u)
    have "suffix ?t (rev (dropWhile is_trim_ws s))" by (rule suffix_dropWhile)
    then have "prefix (rev ?t) (dropWhile is_trim_ws s)" by (simp add: suffix_to_prefix)
    then obtain v where "dropWhile is_trim_ws s = c # v"
      unfolding Cons by (auto simp: prefix_def)
    then have "\<not> is_trim_ws c" by (simp add: dropWhile_eq_Cons_conv)
    then show ?thesis unfolding Cons by simp
  next
    case Nil
    then show ?thesis by (simp only: dropWhile.simps)
  qed
  have "dropWhile is_trim_ws ?t = ?t" by simp
  with hd show ?thesis by (simp add: trim_def)
qed

lemma ascii_lower_idem [simp]: "ascii_lower (ascii_lower c) = ascii_lower c"
  by (auto simp: ascii_lower_def)

section \<open>Splitting\<close>

text \<open>\<open>util::split\<close>: the tokens handed to the callback, in order; empty tokens are skipped.\<close>

function split :: "string \<Rightarrow> string \<Rightarrow> string list" where
  "split delims s =
     (let tok = takeWhile (\<lambda>c. c \<notin> set delims) s; rest = dropWhile (\<lambda>c. c \<notin> set delims) s
      in (if tok \<noteq> [] then [tok] else []) @
         (case rest of [] \<Rightarrow> [] | _ # rest' \<Rightarrow> split delims rest'))"
  by pat_completeness auto
termination
  by (relation "measure (\<lambda>(d, s). length s)") (auto simp: length_dropWhile_tl)

declare split.simps [simp del]

lemma split_Nil [simp]: "split d [] = []"
  by (simp add: split.simps)

lemma split_tokens: "t \<in> set (split d s) \<Longrightarrow> t \<noteq> [] \<and> set t \<inter> set d = {}"
proof (induction d s rule: split.induct)
  case (1 d s)
  have tw: "set (takeWhile (\<lambda>c. c \<notin> set d) s) \<inter> set d = {}"
    by (auto dest: set_takeWhileD)
  from 1(2) consider "t = takeWhile (\<lambda>c. c \<notin> set d) s" "t \<noteq> []"
    | c u where "dropWhile (\<lambda>c. c \<notin> set d) s = c # u" "t \<in> set (split d u)"
    by (simp add: split.simps [of d s] Let_def split: if_splits list.splits) metis
  then show ?case
  proof cases
    case 1
    with tw show ?thesis by simp
  next
    case (2 c u)
    then show ?thesis using "1.IH" [OF refl refl] by simp
  qed
qed

lemma split_token: "t \<noteq> [] \<Longrightarrow> set t \<inter> set d = {} \<Longrightarrow> split d t = [t]"
proof -
  assume "t \<noteq> []" and "set t \<inter> set d = {}"
  then have "takeWhile (\<lambda>c. c \<notin> set d) t = t" and "dropWhile (\<lambda>c. c \<notin> set d) t = []"
    by (auto simp: takeWhile_eq_all_conv dropWhile_eq_Nil_conv)
  then show ?thesis using \<open>t \<noteq> []\<close>
    by (subst split.simps) (simp only: Let_def list.case if_True append_Nil2 not_False_eq_True)
qed

lemma split_token_sep:
  assumes "set t \<inter> set d = {}" and "c \<in> set d"
  shows "split d (t @ c # u) = (if t \<noteq> [] then [t] else []) @ split d u"
proof -
  have "takeWhile (\<lambda>c. c \<notin> set d) (t @ c # u) = t"
    and "dropWhile (\<lambda>c. c \<notin> set d) (t @ c # u) = c # u"
    using assms by (auto simp: takeWhile_append dropWhile_append)
  then show ?thesis by (subst split.simps) simp
qed

section \<open>Checked integers\<close>

fun parse_u64_go :: "u64 \<Rightarrow> string \<Rightarrow> u64 option" where
  "parse_u64_go v [] = Some v"
| "parse_u64_go v (c # cs) =
     (if \<not> is_digit c then None
      else let d = of_nat (digit_val c) in
        if v > (18446744073709551615 - d) div 10 then None else parse_u64_go (v * 10 + d) cs)"

definition parse_u64 :: "string \<Rightarrow> u64 option" where
  "parse_u64 s = (if s = [] then None else parse_u64_go 0 s)"

lemma parse_u64_guard:
  assumes "d < 10"
  shows "v > (18446744073709551615 - (of_nat d :: u64)) div 10 \<longleftrightarrow> u64_max < 10 * unat v + d"
proof -
  have d: "unat (of_nat d :: u64) = d" using assms by (simp add: unat_of_nat)
  have le: "of_nat d \<le> (18446744073709551615 :: u64)" using d assms by (simp add: word_le_nat_alt)
  have "unat (18446744073709551615 - (of_nat d :: u64)) = u64_max - d"
    using unat_sub [OF le] d by simp
  then have "unat ((18446744073709551615 - (of_nat d :: u64)) div 10) = (u64_max - d) div 10"
    by (simp add: unat_div)
  then have "v > (18446744073709551615 - (of_nat d :: u64)) div 10 \<longleftrightarrow> (u64_max - d) div 10 < unat v"
    by (simp add: word_less_nat_alt)
  also have "\<dots> \<longleftrightarrow> u64_max < 10 * unat v + d" using assms by (simp add: div_less_iff_less_mult) arith
  finally show ?thesis .
qed

lemma parse_u64_go_correct:
  "parse_u64_go v s =
     (if list_all is_digit s \<and> dec_value (unat v) s \<le> u64_max
      then Some (of_nat (dec_value (unat v) s)) else None)"
proof (induction v s rule: parse_u64_go.induct)
  case (1 v)
  then show ?case using unat_u64_le [of v] by simp
next
  case (2 v c cs)
  show ?case
  proof (cases "is_digit c")
    case True
    let ?d = "of_nat (digit_val c) :: u64"
    have dl: "digit_val c < 10" using True by (rule digit_val_less)
    show ?thesis
    proof (cases "v > (18446744073709551615 - ?d) div 10")
      case over: True
      then have "u64_max < 10 * unat v + digit_val c" using parse_u64_guard [OF dl] by simp
      then have "\<not> dec_value (10 * unat v + digit_val c) cs \<le> u64_max"
        using dec_value_mono [of "10 * unat v + digit_val c" cs] by linarith
      with True over show ?thesis by (simp add: Let_def)
    next
      case fits: False
      then have "10 * unat v + digit_val c \<le> u64_max" using parse_u64_guard [OF dl] by simp
      then have "unat (v * 10 + ?d) = 10 * unat v + digit_val c"
        using dl by (simp add: unat_word_ariths unat_of_nat)
      then show ?thesis using "2.IH" [OF _ refl fits] True fits by (simp add: Let_def)
    qed
  qed simp
qed

lemma parse_u64_show_nat [simp]: "parse_u64 (show_nat (unat w)) = Some w"
  using unat_u64_le [of w]
  by (simp add: parse_u64_def parse_u64_go_correct show_nat_digits dec_value_show_nat)

text \<open>
  C2: \<open>parse_u64\<close> accepts exactly the non-empty all-digit texts whose decimal value fits in 64
  bits, and returns that value; the overflow guard \<open>v > (UINT64_MAX - d) / 10\<close> is exact, so it
  neither wraps nor rejects a representable number. Printing an unsigned 64-bit value with
  \<open>std::to_string\<close> and parsing it back gives the value.
\<close>

theorem parse_u64_correct:
  "parse_u64 s =
     (if s \<noteq> [] \<and> list_all is_digit s \<and> dec_value 0 s \<le> u64_max
      then Some (of_nat (dec_value 0 s)) else None)
   \<and> parse_u64 (show_nat (unat w)) = Some w"
proof -
  have *: "parse_u64 t = (if t \<noteq> [] \<and> list_all is_digit t \<and> dec_value 0 t \<le> u64_max
      then Some (of_nat (dec_value 0 t)) else None)" for t
    by (simp add: parse_u64_def parse_u64_go_correct)
  show ?thesis using unat_u64_le [of w] * [of s] * [of "show_nat (unat w)"]
    by (simp add: show_nat_digits dec_value_show_nat)
qed

text \<open>\<open>parse_i64\<close>: an optional sign, then \<open>parse_u64\<close>; the result is the mathematical value of
  the \<open>int64_t\<close>.\<close>

definition parse_i64 :: "string \<Rightarrow> int option" where
  "parse_i64 s =
     (case s of [] \<Rightarrow> None
      | c # cs \<Rightarrow>
        let neg = (c = CHR ''-''); s' = (if neg \<or> c = CHR ''+'' then cs else s) in
        (case parse_u64 s' of None \<Rightarrow> None
         | Some mag \<Rightarrow>
           if neg then (if mag > 9223372036854775808 then None
                        else if mag = 9223372036854775808 then Some (- 9223372036854775808)
                        else Some (- int (unat mag)))
           else (if mag > 9223372036854775807 then None else Some (int (unat mag)))))"

lemma parse_i64_range:
  "parse_i64 s = Some i \<Longrightarrow> - 9223372036854775808 \<le> i \<and> i \<le> 9223372036854775807"
  by (auto simp: parse_i64_def Let_def word_less_def not_less of_nat_unat
      intro: order_trans [OF _ uint_ge_0] minus_le_iff [THEN iffD1, OF order_trans [OF _ uint_ge_0]]
      split: list.splits if_splits option.splits)

section \<open>Paths\<close>

definition basename :: "string \<Rightarrow> string" where
  "basename p = (case rfind_char (CHR ''/'') p of None \<Rightarrow> p | Some i \<Rightarrow> drop (Suc i) p)"

definition dirname :: "string \<Rightarrow> string" where
  "dirname p = (case rfind_char (CHR ''/'') p of None \<Rightarrow> [] | Some i \<Rightarrow> take i p)"

definition extension :: "string \<Rightarrow> string" where
  "extension p =
     (let base = basename p in
      case rfind_char (CHR ''.'') base of None \<Rightarrow> []
      | Some i \<Rightarrow> if i = 0 then [] else drop (Suc i) base)"

definition path_join :: "string \<Rightarrow> string \<Rightarrow> string" where
  "path_join a b = a @ (if a \<noteq> [] \<and> last a \<noteq> CHR ''/'' \<and> b \<noteq> [] then ''/'' else []) @ b"

definition is_absolute :: "string \<Rightarrow> bool" where
  "is_absolute p \<longleftrightarrow> p \<noteq> [] \<and> hd p = CHR ''/''"

lemma rfind_char_SomeD:
  assumes "rfind_char c s = Some i"
  shows "i < length s \<and> s ! i = c \<and> c \<notin> set (drop (Suc i) s)"
proof -
  from assms obtain j where j: "find_char c (rev s) = Some j" and i: "i = length s - 1 - j"
    by (auto simp: rfind_char_def)
  from find_char_SomeD [OF j] have *: "j < length s" "rev s ! j = c" "c \<notin> set (take j (rev s))"
    by auto
  then have "take j (rev s) = rev (drop (length s - j) s)" by (simp add: take_rev)
  with * i show ?thesis by (auto simp: rev_nth Suc_diff_Suc)
qed

lemma rfind_char_None: "rfind_char c s = None \<longleftrightarrow> c \<notin> set s"
  by (simp add: rfind_char_def)

lemma dirname_basename:
  "CHR ''/'' \<in> set p \<Longrightarrow> dirname p @ ''/'' @ basename p = p"
  by (cases "rfind_char (CHR ''/'') p")
    (auto simp: dirname_def basename_def rfind_char_None dest!: rfind_char_SomeD,
      metis id_take_nth_drop)

lemma basename_no_slash: "CHR ''/'' \<notin> set (basename p)"
proof (cases "rfind_char (CHR ''/'') p")
  case None
  then show ?thesis by (simp add: basename_def) (simp add: rfind_char_None)
next
  case (Some i)
  then show ?thesis by (simp add: basename_def rfind_char_SomeD)
qed

end
