(* ===== verification/Base64.thy ===== *)
theory Base64
  imports Errors
begin

unbundle bit_operations_syntax

text \<open>
  \<open>src/util/base64.cpp\<close>: the encoder with its 32-bit group word, and the decoder with its
  32-bit accumulator whose high bits are never masked. The buffer the decoder writes is the list
  of bytes stored so far; its capacity is a parameter, as in the source.
\<close>

section \<open>Alphabet and sizes\<close>

definition kAlphabet :: string where
  "kAlphabet = ''ABCDEFGHIJKLMNOPQRSTUVWXYZabcdefghijklmnopqrstuvwxyz0123456789+/''"

definition decode_char :: "char \<Rightarrow> nat option" where
  "decode_char c =
     (let n = byte_val c in
      if 65 \<le> n \<and> n \<le> 90 then Some (n - 65)
      else if 97 \<le> n \<and> n \<le> 122 then Some (n - 97 + 26)
      else if 48 \<le> n \<and> n \<le> 57 then Some (n - 48 + 52)
      else if c = CHR ''+'' then Some 62
      else if c = CHR ''/'' then Some 63
      else None)"

definition b64_encoded_size :: "nat \<Rightarrow> nat" where
  "b64_encoded_size n = 4 * ((n + 2) div 3)"

definition b64_decoded_size :: "nat \<Rightarrow> nat" where
  "b64_decoded_size n = n div 4 * 3"

section \<open>Encoder\<close>

definition w32 :: "char \<Rightarrow> u32" where
  "w32 c = of_nat (byte_val c)"

definition sextet :: "nat \<Rightarrow> u32 \<Rightarrow> char" where
  "sextet sh v = kAlphabet ! unat (drop_bit sh v AND 63)"

definition group3 :: "char \<Rightarrow> char \<Rightarrow> char \<Rightarrow> u32" where
  "group3 a b c = push_bit 16 (w32 a) OR push_bit 8 (w32 b) OR w32 c"

fun b64_encode :: "string \<Rightarrow> string" where
  "b64_encode (a # b # c # rest) =
     (let v = group3 a b c in [sextet 18 v, sextet 12 v, sextet 6 v, sextet 0 v] @ b64_encode rest)"
| "b64_encode [a, b] =
     (let v = push_bit 16 (w32 a) OR push_bit 8 (w32 b)
      in [sextet 18 v, sextet 12 v, sextet 6 v, CHR ''=''])"
| "b64_encode [a] = (let v = push_bit 16 (w32 a) in [sextet 18 v, sextet 12 v, CHR ''='', CHR ''=''])"
| "b64_encode [] = []"

section \<open>Decoder\<close>

definition is_b64_ws :: "char \<Rightarrow> bool" where
  "is_b64_ws c \<longleftrightarrow> c = nl \<or> c = cr \<or> c = sp \<or> c = tab"

fun b64_decode_go :: "nat \<Rightarrow> u32 \<Rightarrow> nat \<Rightarrow> bool \<Rightarrow> string \<Rightarrow> string \<Rightarrow> error_code + string" where
  "b64_decode_go cap acc bits saw_pad out [] = Inr out"
| "b64_decode_go cap acc bits saw_pad out (c # cs) =
     (if saw_pad then
        (if c = CHR ''='' \<or> is_b64_ws c then b64_decode_go cap acc bits saw_pad out cs
         else Inl (make_error e_proto_parse))
      else if is_b64_ws c then b64_decode_go cap acc bits saw_pad out cs
      else if c = CHR ''='' then b64_decode_go cap acc bits True out cs
      else (case decode_char c of None \<Rightarrow> Inl (make_error e_proto_parse)
        | Some v \<Rightarrow>
          let acc' = push_bit 6 acc OR of_nat v; bits' = bits + 6 in
          if bits' \<ge> 8 then
            let bits'' = bits' - 8; byte = byte_of (unat (drop_bit bits'' acc' AND 255)) in
            if length out + 1 > cap then Inl (make_error e_overflow)
            else b64_decode_go cap acc' bits'' saw_pad (out @ [byte]) cs
          else b64_decode_go cap acc' bits' saw_pad out cs))"

definition b64_decode :: "nat \<Rightarrow> string \<Rightarrow> error_code + string" where
  "b64_decode out_cap input = (if input = [] then Inr [] else b64_decode_go out_cap 0 0 False [] input)"

section \<open>The alphabet is a bijection\<close>

lemma decode_alphabet_all: "map decode_char kAlphabet = map Some [0..<64]"
  by (simp add: kAlphabet_def decode_char_def byte_val_def upt_rec)

lemma alphabet_plain_all:
  "list_all (\<lambda>c. c \<noteq> CHR ''='' \<and> \<not> is_b64_ws c) kAlphabet"
  by (simp add: kAlphabet_def is_b64_ws_def)

lemma length_kAlphabet [simp]: "length kAlphabet = 64"
  by (simp add: kAlphabet_def)

lemma decode_alphabet [simp]: "k < 64 \<Longrightarrow> decode_char (kAlphabet ! k) = Some k"
  using arg_cong [OF decode_alphabet_all, of "\<lambda>xs. xs ! k"] by simp

lemma alphabet_plain [simp]:
  "k < 64 \<Longrightarrow> kAlphabet ! k \<noteq> CHR ''=''" "k < 64 \<Longrightarrow> \<not> is_b64_ws (kAlphabet ! k)"
  using alphabet_plain_all by (simp_all add: list_all_length)

lemma mask6: "(63 :: u32) = mask 6" and mask8: "(255 :: u32) = mask 8"
  by (simp_all add: mask_eq_exp_minus_1)

lemma sextet_index [simp]: "unat (drop_bit sh (v :: u32) AND 63) < 64"
proof -
  have "unat (drop_bit sh v AND 63) \<le> unat (63 :: u32)"
    by (rule word_and_le1 [THEN word_le_nat_alt [THEN iffD1]])
  then show ?thesis by simp
qed

lemma decode_step:
  "b64_decode_go cap acc bits False out (sextet sh v # cs) =
     (let acc' = push_bit 6 acc OR (drop_bit sh v AND 63); bits' = bits + 6 in
          if bits' \<ge> 8 then
            let bits'' = bits' - 8; byte = byte_of (unat (drop_bit bits'' acc' AND 255)) in
            if length out + 1 > cap then Inl (make_error e_overflow)
            else b64_decode_go cap acc' bits'' False (out @ [byte]) cs
          else b64_decode_go cap acc' bits' False out cs)"
  by (simp add: sextet_def del: word_of_nat_eq_0_iff)

section \<open>Recovering the bytes of a group\<close>

lemma w32_octet: "take_bit 8 (w32 c) = w32 c"
proof -
  have "take_bit 8 (byte_val c) = byte_val c" by (simp add: take_bit_nat_eq_self)
  then show ?thesis unfolding w32_def by (metis take_bit_of_nat)
qed

lemma bit_w32: "bit (w32 c) n \<Longrightarrow> n < 8"
  by (metis bit_take_bit_iff w32_octet)

lemma byte_w32 [simp]: "byte_of (unat (w32 c)) = c"
  using byte_val_less [of c] by (simp add: w32_def unat_of_nat del: byte_val_less)

lemma octet_bits_eqI:
  fixes v w :: u32
  assumes "\<And>n. n \<in> {0, 1, 2, 3, 4, 5, 6, 7} \<Longrightarrow> bit v n = bit w n"
  shows "take_bit 8 v = take_bit 8 w"
proof (rule bit_word_eqI)
  fix n :: nat
  have "n < 8 \<Longrightarrow> n \<in> {0, 1, 2, 3, 4, 5, 6, 7}" by simp linarith
  with assms show "bit (take_bit 8 v) n = bit (take_bit 8 w) n" by (auto simp only: bit_take_bit_iff)
qed

text \<open>The three bytes the decoder cuts out of its accumulator are the three bytes of the group word,
  whatever an earlier group left in the high bits.\<close>

lemma cut_bytes:
  fixes v acc :: u32
  shows "drop_bit 4 (push_bit 6 (push_bit 6 acc OR (drop_bit 18 v AND 63)) OR (drop_bit 12 v AND 63)) AND 255
           = take_bit 8 (drop_bit 16 v)"
    and "drop_bit 2 (push_bit 6 (push_bit 6 acc OR (drop_bit 12 v AND 63)) OR (drop_bit 6 v AND 63)) AND 255
           = take_bit 8 (drop_bit 8 v)"
    and "drop_bit 0 (push_bit 6 (push_bit 6 acc OR (drop_bit 6 v AND 63)) OR (drop_bit 0 v AND 63)) AND 255
           = take_bit 8 v"
  unfolding mask6 mask8 take_bit_eq_mask [symmetric]
  by (rule octet_bits_eqI; auto simp: bit_simps)+

lemma group_bytes:
  "take_bit 8 (drop_bit 16 (group3 a b c)) = w32 a"
  "take_bit 8 (drop_bit 8 (group3 a b c)) = w32 b"
  "take_bit 8 (group3 a b c) = w32 c"
proof -
  have "take_bit 8 (drop_bit 16 (group3 a b c)) = take_bit 8 (w32 a)"
    and "take_bit 8 (drop_bit 8 (group3 a b c)) = take_bit 8 (w32 b)"
    and "take_bit 8 (group3 a b c) = take_bit 8 (w32 c)"
    by (rule octet_bits_eqI; auto simp: group3_def bit_simps dest: bit_w32)+
  then show "take_bit 8 (drop_bit 16 (group3 a b c)) = w32 a"
    and "take_bit 8 (drop_bit 8 (group3 a b c)) = w32 b"
    and "take_bit 8 (group3 a b c) = w32 c"
    by (simp_all only: w32_octet)
qed

lemma w32_nul: "w32 (CHR 0x00) = 0"
  by (simp add: w32_def byte_val_def)

lemma short_groups:
  "push_bit 16 (w32 a) OR push_bit 8 (w32 b) = group3 a b (CHR 0x00)"
  "push_bit 16 (w32 a) = group3 a (CHR 0x00) (CHR 0x00)"
  by (simp_all add: group3_def w32_nul)

section \<open>Round trip\<close>

lemma decode_emit:
  assumes "length out < cap" "bits + 6 = 8 + k"
    and "drop_bit k (push_bit 6 acc OR (drop_bit sh v AND 63)) AND 255 = w32 c"
  shows "b64_decode_go cap acc bits False out (sextet sh v # cs) =
           b64_decode_go cap (push_bit 6 acc OR (drop_bit sh v AND 63)) k False (out @ [c]) cs"
  using assms(1,2) by (simp only: decode_step Let_def assms(3) add_diff_cancel_left' byte_w32) simp

lemma decode_first:
  "b64_decode_go cap acc 0 False out (sextet sh v # cs) =
     b64_decode_go cap (push_bit 6 acc OR (drop_bit sh v AND 63)) 6 False out cs"
  by (simp only: decode_step Let_def) simp

lemma decode_two:
  assumes "length out < cap"
  shows "b64_decode_go cap acc 0 False out (sextet 18 (group3 a b c) # sextet 12 (group3 a b c) # cs) =
           b64_decode_go cap (push_bit 6 (push_bit 6 acc OR (drop_bit 18 (group3 a b c) AND 63))
              OR (drop_bit 12 (group3 a b c) AND 63)) 4 False (out @ [a]) cs"
  unfolding decode_first by (rule decode_emit [OF assms]) (simp, simp only: cut_bytes group_bytes)

lemma decode_third:
  assumes "length out < cap"
  shows "b64_decode_go cap (push_bit 6 acc OR (drop_bit 12 (group3 a b c) AND 63)) 4 False out
             (sextet 6 (group3 a b c) # cs) =
           b64_decode_go cap (push_bit 6 (push_bit 6 acc OR (drop_bit 12 (group3 a b c) AND 63))
              OR (drop_bit 6 (group3 a b c) AND 63)) 2 False (out @ [b]) cs"
  by (rule decode_emit [OF assms]) (simp, simp only: cut_bytes group_bytes)

lemma decode_fourth:
  assumes "length out < cap"
  shows "b64_decode_go cap (push_bit 6 acc OR (drop_bit 6 (group3 a b c) AND 63)) 2 False out
             (sextet 0 (group3 a b c) # cs) =
           b64_decode_go cap (push_bit 6 (push_bit 6 acc OR (drop_bit 6 (group3 a b c) AND 63))
              OR (drop_bit 0 (group3 a b c) AND 63)) 0 False (out @ [c]) cs"
  by (rule decode_emit [OF assms]) (simp, simp only: cut_bytes group_bytes)

lemma decode_pads: "b64_decode_go cap acc bits p out (CHR ''='' # cs) = b64_decode_go cap acc bits True out cs"
  by (simp add: is_b64_ws_def)

lemma decode_go_encode:
  "length out + length xs \<le> cap \<Longrightarrow> b64_decode_go cap acc 0 False out (b64_encode xs) = Inr (out @ xs)"
proof (induction xs arbitrary: acc out rule: b64_encode.induct)
  case (1 a b c rest)
  have enc: "b64_encode (a # b # c # rest) = sextet 18 (group3 a b c) # sextet 12 (group3 a b c)
      # sextet 6 (group3 a b c) # sextet 0 (group3 a b c) # b64_encode rest"
    by (simp add: Let_def)
  have "length out < cap" "length (out @ [a]) < cap" "length ((out @ [a]) @ [b]) < cap"
    using "1.prems" by simp_all
  then show ?case
    using "1.IH" [OF refl, of "((out @ [a]) @ [b]) @ [c]"] "1.prems"
    unfolding enc by (simp only: decode_two decode_third decode_fourth) simp
next
  case (2 a b)
  then have "length out < cap" "length (out @ [a]) < cap" by simp_all
  then show ?case
    by (simp only: b64_encode.simps Let_def short_groups(1) decode_two decode_third decode_pads) simp
next
  case (3 a)
  then have "length out < cap" by simp
  then show ?case by (simp only: b64_encode.simps Let_def short_groups(2) decode_two decode_pads) simp
qed simp

lemma length_b64_encode: "length (b64_encode xs) = b64_encoded_size (length xs)"
  by (induction xs rule: b64_encode.induct) (simp_all add: Let_def b64_encoded_size_def, presburger)

text \<open>
  \<^bold>\<open>C3.\<close> Base64 round trip. A buffer with room for the data gives back exactly the bytes that were
  encoded, and the length of the encoded text is the size the callers allocate.
\<close>

theorem b64_roundtrip:
  assumes "length xs \<le> cap"
  shows "b64_decode cap (b64_encode xs) = Inr xs \<and> length (b64_encode xs) = b64_encoded_size (length xs)"
proof
  show "b64_decode cap (b64_encode xs) = Inr xs"
    using decode_go_encode [of "[]" xs cap 0] assms by (cases xs) (auto simp: b64_decode_def)
  show "length (b64_encode xs) = b64_encoded_size (length xs)"
    by (rule length_b64_encode)
qed

theorem b64_roundtrip_witness:
  "b64_decode 4 (b64_encode ''open'') = Inr ''open''"
  using b64_roundtrip [of "''open''" 4] by simp

lemma decode_go_bounded: "b64_decode_go cap acc bits p out cs = Inr r \<Longrightarrow> length out \<le> cap \<Longrightarrow> length r \<le> cap"
  by (induction cap acc bits p out cs rule: b64_decode_go.induct)
     (auto simp: Let_def split: if_splits option.splits)

text \<open>The decoder never writes past the capacity of the output buffer.\<close>

lemma b64_decode_bounded: "b64_decode cap s = Inr r \<Longrightarrow> length r \<le> cap"
  by (auto simp: b64_decode_def split: if_splits dest: decode_go_bounded)

text \<open>
  The header promises that an unpadded string decodes into a buffer of \<open>b64_decoded_size(len) + 1\<close> bytes.
  Two trailing sextets beyond a whole number of groups need one byte, which fits, but three need two.
\<close>

lemma b64_unpadded_overflow:
  "b64_decode (b64_decoded_size (length ''QUI'') + 1) ''QUI'' = Inl (make_error e_overflow)"
  by (simp add: b64_decode_def b64_decoded_size_def decode_char_def byte_val_def is_b64_ws_def)

end
