(* ===== verification/Tool_Util.thy ===== *)
theory Tool_Util
  imports Text_Util Errors "HOL-Library.While_Combinator"
begin

text \<open>
  The pure helpers of \<open>src/tools/exec/util.cpp\<close>: the lexical sandbox check every file tool runs
  on its path argument, the line splitter and joiner behind the edit tools, and the backtracking
  glob matcher.
\<close>

section \<open>The sandbox\<close>

abbreviation dot :: string where "dot \<equiv> ''.''"
abbreviation dotdot :: string where "dotdot \<equiv> ''..''"

text \<open>The callback handed to \<open>util::split\<close>: \<open>check\<close> is the stack of kept segments (in path
  order) and \<open>escaped\<close> the flag that a \<open>..\<close> met an empty stack.\<close>

definition sandbox_segment :: "string \<Rightarrow> string list \<times> bool \<Rightarrow> string list \<times> bool" where
  "sandbox_segment s st =
     (case st of (check, escaped) \<Rightarrow>
       if s = [] \<or> s = dot then (check, escaped)
       else if s = dotdot then (if check = [] then (check, True) else (butlast check, escaped))
       else (check @ [s], escaped))"

definition join_rel :: "string list \<Rightarrow> string" where
  "join_rel check = foldl (\<lambda>rel s. (if rel \<noteq> [] then rel @ ''/'' else rel) @ s) [] check"

definition resolve_in_sandbox :: "string \<Rightarrow> string \<Rightarrow> string option" where
  "resolve_in_sandbox base path =
     (if path = [] \<or> hd path = CHR ''/'' then None
      else case fold sandbox_segment (split ''/'' path) ([], False) of
        (check, escaped) \<Rightarrow> if escaped then None else Some (path_join base (join_rel check)))"

text \<open>
  What the check promises, stated without the stack: reading the segments from the left, the depth
  below the base never becomes negative.
\<close>

fun depth_ok :: "nat \<Rightarrow> string list \<Rightarrow> bool" where
  "depth_ok d [] = True"
| "depth_ok d (s # ss) =
     (if s = dot then depth_ok d ss
      else if s = dotdot then (d > 0 \<and> depth_ok (d - 1) ss)
      else depth_ok (Suc d) ss)"

definition clean_segment :: "string \<Rightarrow> bool" where
  "clean_segment s \<longleftrightarrow> s \<noteq> [] \<and> s \<noteq> dot \<and> s \<noteq> dotdot \<and> CHR ''/'' \<notin> set s"

lemma sandbox_segment_pair [simp]:
  "sandbox_segment s (check, e) =
     (if s = [] \<or> s = dot then (check, e)
      else if s = dotdot then (if check = [] then (check, True) else (butlast check, e))
      else (check @ [s], e))"
  by (simp add: sandbox_segment_def)

lemma escaped_stays [simp]: "snd (fold sandbox_segment ss (check, True))"
  by (induction ss arbitrary: check) auto

lemma sandbox_escape_iff:
  "[] \<notin> set ss \<Longrightarrow> snd (fold sandbox_segment ss (check, False)) \<longleftrightarrow> \<not> depth_ok (length check) ss"
proof (induction ss arbitrary: check)
  case (Cons s ss)
  then show ?case
    by (cases "s = dotdot \<and> check = []") auto
qed simp

lemma sandbox_stack_clean:
  "\<forall>s \<in> set ss. CHR ''/'' \<notin> set s \<Longrightarrow> \<forall>s \<in> set check. clean_segment s \<Longrightarrow>
   \<forall>s \<in> set (fst (fold sandbox_segment ss (check, e))). clean_segment s"
proof (induction ss arbitrary: check e)
  case (Cons s ss)
  let ?st = "sandbox_segment s (check, e)"
  have bl: "\<forall>s \<in> set (butlast check). clean_segment s" using Cons.prems(2) by (meson in_set_butlastD)
  have "s \<noteq> [] \<Longrightarrow> s \<noteq> dot \<Longrightarrow> s \<noteq> dotdot \<Longrightarrow> clean_segment s"
    using Cons.prems(1) by (simp add: clean_segment_def)
  with bl Cons.prems(2) have "\<forall>s \<in> set (fst ?st). clean_segment s"
    unfolding sandbox_segment_pair by simp
  then show ?case 
    using Cons.IH [of "fst ?st" "snd ?st"] Cons.prems(1)
    by (simp del: sandbox_segment_pair)
qed simp

lemma join_rel_snoc: "join_rel (ss @ [s]) = (if join_rel ss \<noteq> [] then join_rel ss @ ''/'' else []) @ s"
  by (simp add: join_rel_def)

lemma join_rel_Nil [simp]: "join_rel [] = []"
  by (simp add: join_rel_def)

lemma join_rel_prefix: "prefix n (join_rel (n # ns))"
proof (induction ns rule: rev_induct)
  case Nil
  then show ?case by (simp add: join_rel_def)
next
  case (snoc s ns)
  then show ?case using join_rel_snoc [of "n # ns" s] by (cases "join_rel (n # ns) = []") auto
qed

lemma join_rel_split:
  "\<forall>s \<in> set ss. clean_segment s \<Longrightarrow> split ''/'' (join_rel ss) = ss \<and> (join_rel ss = [] \<longleftrightarrow> ss = [])"
proof -
  have app: "split ''/'' (u @ CHR ''/'' # t) = split ''/'' u @ [t]"
    if "clean_segment t" for u t
    using that
  proof (induction "''/''" u rule: split.induct)
    case (1 u)
    let ?P = "\<lambda>c. c \<notin> set ''/''"
    show ?case
    proof (cases "dropWhile ?P u")
      case Nil
      then have u: "set u \<inter> set ''/'' = {}" by (auto simp: dropWhile_eq_Nil_conv)
      have t: "split ''/'' t = [t]" using 1(2) by (intro split_token) (auto simp: clean_segment_def)
      have "split ''/'' (u @ CHR ''/'' # t) = (if u \<noteq> [] then [u] else []) @ [t]"
        using split_token_sep [OF u, of "CHR ''/''" t] t by simp
      then show ?thesis using split_token [OF _ u] by simp
    next
      case (Cons c v)
      let ?w = "takeWhile ?P u"
      have w: "set ?w \<inter> set ''/'' = {}" by (auto dest: set_takeWhileD)
      have c: "c = CHR ''/''" using Cons by (auto simp: dropWhile_eq_Cons_conv)
      have u: "u = ?w @ CHR ''/'' # v" using Cons c takeWhile_dropWhile_id [of ?P u] by simp
      have IH: "split ''/'' (v @ CHR ''/'' # t) = split ''/'' v @ [t]"
        using 1(1) [OF refl refl Cons] 1(2) by simp
      have "split ''/'' (?w @ CHR ''/'' # (v @ CHR ''/'' # t)) =
              (if ?w \<noteq> [] then [?w] else []) @ split ''/'' v @ [t]"
        using split_token_sep [OF w] IH by simp
      moreover have "split ''/'' (?w @ CHR ''/'' # v) = (if ?w \<noteq> [] then [?w] else []) @ split ''/'' v"
        using split_token_sep [OF w] by simp
      ultimately show ?thesis using u by (metis append_Cons append_assoc)
    qed
  qed
  assume "\<forall>s \<in> set ss. clean_segment s"
  then show ?thesis
  proof (induction ss rule: rev_induct)
    case (snoc s ss)
    then show ?case
      by (cases "ss = []")
        (auto simp: join_rel_snoc app split_token clean_segment_def join_rel_snoc [of "[]", simplified])
  qed (simp add: join_rel_def)
qed

text \<open>
  C4: \<open>resolve_in_sandbox\<close> accepts a path exactly when it is relative and never climbs above the base,
  and then the result is the base joined with a chain of plain names: no empty, \<open>.\<close> or \<open>..\<close> segment and
  no slash inside one, so reading the relative part back segment by segment can only descend.
\<close>

theorem sandbox_contained:
  "(resolve_in_sandbox base path \<noteq> None \<longleftrightarrow>
      path \<noteq> [] \<and> \<not> is_absolute path \<and> depth_ok 0 (split ''/'' path)) \<and>
   (resolve_in_sandbox base path = Some out \<longrightarrow>
      (\<exists>rel. out = path_join base rel \<and> (\<forall>s \<in> set (split ''/'' rel). clean_segment s) \<and>
             \<not> is_absolute rel))"
proof -
  let ?r = "fold sandbox_segment (split ''/'' path) ([], False)"
  have "[] \<notin> set (split ''/'' path)" using split_tokens by blast
  from sandbox_escape_iff [OF this, of "[]"] have esc: "snd ?r \<longleftrightarrow> \<not> depth_ok 0 (split ''/'' path)" by simp
  have clean: "\<forall>s \<in> set (fst ?r). clean_segment s"
    using split_tokens [of _ "''/''" path] by (intro sandbox_stack_clean) auto
  note js = join_rel_split [OF clean]
  have "\<not> is_absolute (join_rel (fst ?r))"
  proof
    assume "is_absolute (join_rel (fst ?r))"
    then obtain t where t: "join_rel (fst ?r) = CHR ''/'' # t" by (cases "join_rel (fst ?r)") (auto simp: is_absolute_def)
    obtain n ns where ns: "fst ?r = n # ns" using js t by (cases "fst ?r") auto
    have "prefix n (join_rel (fst ?r))" unfolding ns by (rule join_rel_prefix)
    then show False using clean t ns by (cases n) (auto simp: clean_segment_def)
  qed
  with esc clean js show ?thesis
    by (auto simp: resolve_in_sandbox_def is_absolute_def split: prod.splits)
qed

theorem sandbox_contained_witness:
  "resolve_in_sandbox ''/w'' ''a/./b/../c'' = Some ''/w/a/c'' \<and>
   (\<exists>rel. ''/w/a/c'' = path_join ''/w'' rel \<and> (\<forall>s \<in> set (split ''/'' rel). clean_segment s) \<and> \<not> is_absolute rel)"
proof -
  have "resolve_in_sandbox ''/w'' ''a/./b/../c'' = Some ''/w/a/c''"
    by (simp add: resolve_in_sandbox_def split.simps Let_def path_join_def join_rel_def)
  with sandbox_contained [of "''/w''" "''a/./b/../c''" "''/w/a/c''"] show ?thesis by blast
qed

section \<open>Files\<close>

text \<open>
  The file system is a map from paths to contents. Whether a call of the C library succeeds is not
  the program's to decide: \<open>os_env\<close> answers it per path.
\<close>

type_synonym files = "string \<Rightarrow> string option"

record os_env =
  read_ok :: "string \<Rightarrow> bool"
  create_ok :: "string \<Rightarrow> bool"
  write_ok :: "string \<Rightarrow> bool"
  rename_ok :: "string \<Rightarrow> bool"

definition os_fine :: os_env where
  "os_fine = \<lparr>read_ok = (\<lambda>_. True), create_ok = (\<lambda>_. True), write_ok = (\<lambda>_. True), rename_ok = (\<lambda>_. True)\<rparr>"

definition io_error :: "string \<Rightarrow> error_code" where
  "io_error what = make_error_code e_internal (of_nat (length what))"

definition read_whole_file :: "os_env \<Rightarrow> files \<Rightarrow> string \<Rightarrow> error_code + string" where
  "read_whole_file env fs path =
     (case fs path of None \<Rightarrow> Inl (make_error e_missing_cfg)
      | Some content \<Rightarrow> if read_ok env path then Inr content else Inl (io_error ''read''))"

definition tmp_name :: "string \<Rightarrow> string" where
  "tmp_name path = path @ ''.opencode_tmp''"

definition write_file_atomic :: "os_env \<Rightarrow> string \<Rightarrow> string \<Rightarrow> files \<Rightarrow> error_code \<times> files" where
  "write_file_atomic env path content fs =
     (let tmp = tmp_name path in
      if \<not> create_ok env tmp then (io_error ''create'', fs)
      else if \<not> write_ok env tmp then (io_error ''write'', fs(tmp := None))
      else if \<not> rename_ok env path then (io_error ''rename'', fs(tmp := None))
      else (ok, fs(tmp := None, path := Some content)))"

definition file_exists :: "files \<Rightarrow> string \<Rightarrow> bool" where
  "file_exists fs path \<longleftrightarrow> fs path \<noteq> None"

lemma tmp_name_neq [simp]: "tmp_name p \<noteq> p" "p \<noteq> tmp_name p"
  by (simp_all add: tmp_name_def)

text \<open>A write either installs the whole content or leaves the file as it was.\<close>

lemma write_file_atomic_cases:
  assumes "write_file_atomic env path content fs = (ec, fs')"
  shows "is_ok ec \<and> fs' path = Some content \<or> \<not> is_ok ec \<and> fs' path = fs path"
    and "q \<noteq> path \<Longrightarrow> q \<noteq> tmp_name path \<Longrightarrow> fs' q = fs q"
  using assms
  by (auto simp: write_file_atomic_def Let_def is_ok_def ok_def io_error_def make_error_code_def split: if_splits)

section \<open>Lines\<close>

function split_lines :: "string \<Rightarrow> string list" where
  "split_lines text =
     (if text = [] then []
      else let line = takeWhile (\<lambda>c. c \<noteq> nl) text in
        chop_cr line #
        (case dropWhile (\<lambda>c. c \<noteq> nl) text of [] \<Rightarrow> [] | _ # rest \<Rightarrow> split_lines rest))"
  by pat_completeness auto
termination
  by (relation "measure length") (auto simp: length_dropWhile_tl)

declare split_lines.simps [simp del]

definition join_lines :: "string list \<Rightarrow> string" where
  "join_lines lines = foldl (\<lambda>out l. (out @ l) @ [nl]) [] lines"

lemma join_lines_concat: "join_lines ls = concat (map (\<lambda>l. l @ [nl]) ls)"
proof -
  have "foldl (\<lambda>out l. (out @ l) @ [nl]) acc ls = acc @ concat (map (\<lambda>l. l @ [nl]) ls)" for acc
    by (induction ls arbitrary: acc) auto
  then show ?thesis by (simp add: join_lines_def)
qed

lemma join_lines_simps [simp]:
  "join_lines [] = []" "join_lines (l # ls) = l @ nl # join_lines ls"
  "join_lines (ls @ ms) = join_lines ls @ join_lines ms"
  by (simp_all add: join_lines_concat)

lemma split_lines_Nil [simp]: "split_lines [] = []"
  by (simp add: split_lines.simps)

lemma split_lines_line: "nl \<notin> set l \<Longrightarrow> split_lines (l @ nl # t) = chop_cr l # split_lines t"
proof -
  assume l: "nl \<notin> set l"
  have "takeWhile (\<lambda>c. c \<noteq> nl) (l @ nl # t) = l" and "dropWhile (\<lambda>c. c \<noteq> nl) (l @ nl # t) = nl # t"
    using l by (induction l) auto
  then show ?thesis by (subst split_lines.simps) (simp del: takeWhile_append2 dropWhile_append2)
qed

lemma split_lines_last: "nl \<notin> set l \<Longrightarrow> l \<noteq> [] \<Longrightarrow> split_lines l = [chop_cr l]"
proof -
  assume l: "nl \<notin> set l" and ne: "l \<noteq> []"
  have "takeWhile (\<lambda>c. c \<noteq> nl) l = l" and "dropWhile (\<lambda>c. c \<noteq> nl) l = []" using l by (induction l) auto
  then show ?thesis using ne by (subst split_lines.simps) (simp only: Let_def if_False list.case)
qed

definition plain_line :: "string \<Rightarrow> bool" where
  "plain_line l \<longleftrightarrow> nl \<notin> set l \<and> \<not> (l \<noteq> [] \<and> last l = cr)"

lemma chop_cr_plain [simp]: "plain_line l \<Longrightarrow> chop_cr l = l"
  by (auto simp: plain_line_def chop_cr_def)

lemma split_join_append:
  "\<forall>l \<in> set ls. plain_line l \<Longrightarrow> split_lines (join_lines ls @ t) = ls @ split_lines t"
proof (induction ls)
  case (Cons l ls)
  then have "plain_line l" and "nl \<notin> set l" by (auto simp: plain_line_def)
  with Cons show ?case by (simp add: split_lines_line)
qed simp

lemma split_join: "\<forall>l \<in> set ls. plain_line l \<Longrightarrow> split_lines (join_lines ls) = ls"
  using split_join_append [of ls "[]"] by simp

lemma split_lines_no_nl: "l \<in> set (split_lines t) \<Longrightarrow> nl \<notin> set l"
proof (induction t rule: split_lines.induct)
  case (1 t)
  show ?case
  proof (cases "l = chop_cr (takeWhile (\<lambda>c. c \<noteq> nl) t)")
    case True
    then show ?thesis using chop_cr_set by (fastforce dest: set_takeWhileD)
  next
    case False
    with 1(2) obtain c r where "t \<noteq> []" "dropWhile (\<lambda>c. c \<noteq> nl) t = c # r" "l \<in> set (split_lines r)"
      by (subst (asm) (2) split_lines.simps) (auto simp: Let_def split: if_splits list.splits, metis)
    then show ?thesis using 1(1) by blast
  qed
qed

text \<open>A text without carriage returns comes back from its lines with a final newline added when it
  had none: the normalisation every edit of a file performs.\<close>

lemma join_split:
  assumes "cr \<notin> set t"
  shows "join_lines (split_lines t) = (if t = [] \<or> last t = nl then t else t @ [nl])"
  using assms
proof (induction t rule: split_lines.induct)
  case (1 t)
  let ?P = "\<lambda>c. c \<noteq> nl"
  let ?l = "takeWhile ?P t"
  have "cr \<notin> set ?l" using 1(2) by (meson set_takeWhileD)
  then have "?l \<noteq> [] \<Longrightarrow> last ?l \<noteq> cr" by (metis last_in_set)
  then have l: "nl \<notin> set ?l" "chop_cr ?l = ?l"
    by (auto simp: chop_cr_def dest: set_takeWhileD)
  show ?case
  proof (cases "dropWhile ?P t")
    case Nil
    then have "nl \<notin> set t" by (auto simp: dropWhile_eq_Nil_conv)
    then have "t \<noteq> [] \<Longrightarrow> last t \<noteq> nl" by (metis last_in_set)
    then show ?thesis using split_lines_last [OF \<open>nl \<notin> set t\<close>] 1(2)
      by (cases "t = []") (auto simp: chop_cr_def dest: last_in_set)
  next
    case (Cons c r)
    have c: "c = nl" using Cons by (auto simp: dropWhile_eq_Cons_conv)
    have t: "t = ?l @ nl # r" using Cons c takeWhile_dropWhile_id [of ?P t] by simp
    have "cr \<notin> set r" using 1(2) t by (metis in_set_conv_decomp append_Cons append_assoc)
    then have IH: "join_lines (split_lines r) = (if r = [] \<or> last r = nl then r else r @ [nl])"
      using 1(1) [OF _ refl Cons] Cons by fastforce
    have "split_lines t = ?l # split_lines r" using split_lines_line [OF l(1), of r] l(2) t by simp
    then have "join_lines (split_lines t) = ?l @ nl # join_lines (split_lines r)" by simp
    then show ?thesis using IH t by (metis append_Cons append_assoc last.simps last_appendR list.distinct(1) append_is_Nil_conv)
  qed
qed

section \<open>Glob matching\<close>

text \<open>The loop state of \<open>glob_match\<close>: the two cursors, the last star (\<open>None\<close> is \<open>npos\<close>), the
  subject position it was tried at, and whether the loop took the early \<open>return false\<close>.\<close>

record glob_state =
  pi :: nat
  si :: nat
  star_p :: "nat option"
  star_s :: nat
  failed :: bool

definition glob_init :: glob_state where
  "glob_init = \<lparr>pi = 0, si = 0, star_p = None, star_s = 0, failed = False\<rparr>"

definition glob_step :: "string \<Rightarrow> string \<Rightarrow> glob_state \<Rightarrow> glob_state" where
  "glob_step p s st =
     (if pi st < length p \<and> (p ! pi st = CHR ''?'' \<or> p ! pi st = s ! si st)
      then st\<lparr>pi := pi st + 1, si := si st + 1\<rparr>
      else if pi st < length p \<and> p ! pi st = CHR ''*''
      then st\<lparr>star_p := Some (pi st), pi := pi st + 1, star_s := si st\<rparr>
      else case star_p st of
        Some k \<Rightarrow> st\<lparr>pi := k + 1, star_s := star_s st + 1, si := star_s st + 1\<rparr>
      | None \<Rightarrow> st\<lparr>failed := True\<rparr>)"

definition glob_running :: "string \<Rightarrow> glob_state \<Rightarrow> bool" where
  "glob_running s st \<longleftrightarrow> \<not> failed st \<and> si st < length s"

definition glob_match :: "string \<Rightarrow> string \<Rightarrow> bool option" where
  "glob_match p s =
     (case while_option (glob_running s) (glob_step p s) glob_init of
        None \<Rightarrow> None
      | Some st \<Rightarrow> Some (\<not> failed st \<and> dropWhile (\<lambda>c. c = CHR ''*'') (drop (pi st) p) = []))"

text \<open>What a glob means: \<open>?\<close> is any one character, \<open>*\<close> any run of characters.\<close>

fun glob_sem :: "string \<Rightarrow> string \<Rightarrow> bool" where
  "glob_sem [] s \<longleftrightarrow> s = []"
| "glob_sem (x # p) [] \<longleftrightarrow> x = CHR ''*'' \<and> glob_sem p []"
| "glob_sem (x # p) (c # s) \<longleftrightarrow>
     (if x = CHR ''*'' then glob_sem p (c # s) \<or> glob_sem (x # p) s
      else (x = CHR ''?'' \<or> x = c) \<and> glob_sem p s)"

lemma glob_sem_star: "glob_sem (CHR ''*'' # p) s \<longleftrightarrow> glob_sem p s \<or> glob_sem (CHR ''*'' # p) (drop 1 s)"
  by (cases s) auto

lemma glob_sem_star_weaken: "glob_sem (CHR ''*'' # p) (drop k s) \<Longrightarrow> glob_sem (CHR ''*'' # p) s"
proof (induction k arbitrary: s)
  case (Suc k)
  then show ?case by (cases s) auto
qed simp

lemma glob_sem_fixed:
  "CHR ''*'' \<notin> set q \<Longrightarrow> glob_sem (q @ p) s \<Longrightarrow> length q \<le> length s \<and> glob_sem p (drop (length q) s)"
proof (induction q arbitrary: s)
  case (Cons x q)
  then show ?case by (cases s) auto
qed simp

lemma glob_sem_star_shift:
  assumes "CHR ''*'' \<notin> set q"
  shows "glob_sem (CHR ''*'' # q @ p) s \<Longrightarrow>
    length q \<le> length s \<and> (\<exists>k. length q \<le> k \<and> glob_sem p (drop k s))"
proof (induction s)
  case Nil
  then show ?case using glob_sem_fixed [OF assms, of p "[]"] by auto
next
  case (Cons c s)
  consider "glob_sem (q @ p) (c # s)" | "glob_sem (CHR ''*'' # q @ p) s" using Cons.prems by auto
  then show ?case
  proof cases
    case 1
    then show ?thesis using glob_sem_fixed [OF assms 1] by auto
  next
    case 2
    with Cons.IH obtain k where "length q \<le> length s" "length q \<le> k" "glob_sem p (drop k s)" by blast
    then show ?thesis by (intro conjI exI [of _ "Suc k"]) auto
  qed
qed

lemma glob_sem_stars: "glob_sem p [] \<longleftrightarrow> dropWhile (\<lambda>c. c = CHR ''*'') p = []"
  by (induction p) auto

text \<open>The invariant of the loop: the pattern between the last star and the cursor is free of stars
  and as long as the part of the subject it was matched against.\<close>

definition glob_inv :: "string \<Rightarrow> string \<Rightarrow> glob_state \<Rightarrow> bool" where
  "glob_inv p s st \<longleftrightarrow>
     pi st \<le> length p \<and> si st \<le> length s \<and>
     (case star_p st of
        None \<Rightarrow> (\<not> failed st \<longrightarrow> (glob_sem p s \<longleftrightarrow> glob_sem (drop (pi st) p) (drop (si st) s))) \<and>
                (failed st \<longrightarrow> \<not> glob_sem p s)
      | Some k \<Rightarrow> \<not> failed st \<and>
          (\<exists>q. drop k p = CHR ''*'' # q @ drop (pi st) p \<and> k + 1 + length q = pi st \<and>
             CHR ''*'' \<notin> set q \<and> star_s st + length q = si st \<and>
             (glob_sem p s \<longleftrightarrow> glob_sem (drop (pi st) p) (drop (si st) s) \<or>
                glob_sem (drop k p) (drop (star_s st + 1) s))))"

definition glob_measure :: "string \<Rightarrow> string \<Rightarrow> glob_state \<Rightarrow> nat" where
  "glob_measure p s st =
     (if failed st then 0 else
      1 + (case star_p st of None \<Rightarrow> length s + 2 | Some _ \<Rightarrow> length s + 1 - star_s st) * (length s + length p + 2)
      + (length s - si st) + (length p - pi st))"

lemma glob_inv_SomeE:
  assumes "glob_inv p s st" "star_p st = Some k"
  obtains q where "drop k p = CHR ''*'' # q @ drop (pi st) p" "k + 1 + length q = pi st"
    "CHR ''*'' \<notin> set q" "star_s st + length q = si st"
    "glob_sem p s \<longleftrightarrow> glob_sem (drop (pi st) p) (drop (si st) s) \<or> glob_sem (drop k p) (drop (star_s st + 1) s)"
proof -
  from assms have "\<exists>q. drop k p = CHR ''*'' # q @ drop (pi st) p \<and> k + 1 + length q = pi st \<and>
      CHR ''*'' \<notin> set q \<and> star_s st + length q = si st \<and>
      (glob_sem p s \<longleftrightarrow> glob_sem (drop (pi st) p) (drop (si st) s) \<or>
         glob_sem (drop k p) (drop (star_s st + 1) s))"
    unfolding glob_inv_def by (simp only: option.case)
  then show thesis by (elim exE conjE) (rule that)
qed

lemma glob_inv_init: "glob_inv p s glob_init"
  by (simp add: glob_inv_def glob_init_def)

lemma glob_inv_advance:
  assumes inv: "glob_inv p s st" and run: "glob_running s st" and ns: "CHR ''*'' \<notin> set s"
    and m: "pi st < length p" "p ! pi st = CHR ''?'' \<or> p ! pi st = s ! si st"
  shows "glob_inv p s (st\<lparr>pi := pi st + 1, si := si st + 1\<rparr>)"
proof -
  have si: "si st < length s" "\<not> failed st" using run by (auto simp: glob_running_def)
  have ne: "p ! pi st \<noteq> CHR ''*''" using m(2) ns si(1) nth_mem by fastforce
  have dp: "drop (pi st) p = p ! pi st # drop (pi st + 1) p" using m(1) by (simp add: Cons_nth_drop_Suc)
  have ds: "drop (si st) s = s ! si st # drop (si st + 1) s" using si by (simp add: Cons_nth_drop_Suc)
  have sem: "glob_sem (drop (pi st) p) (drop (si st) s) \<longleftrightarrow> glob_sem (drop (pi st + 1) p) (drop (si st + 1) s)"
    unfolding dp ds using ne m(2) by simp
  show ?thesis
  proof (cases "star_p st")
    case None
    then show ?thesis using inv sem m si by (simp add: glob_inv_def)
  next
    case (Some k)
    from glob_inv_SomeE [OF inv this] obtain q where
      q: "drop k p = CHR ''*'' # q @ drop (pi st) p" "k + 1 + length q = pi st"
      "CHR ''*'' \<notin> set q" "star_s st + length q = si st"
      "glob_sem p s \<longleftrightarrow> glob_sem (drop (pi st) p) (drop (si st) s) \<or> glob_sem (drop k p) (drop (star_s st + 1) s)" .
    have "drop k p = CHR ''*'' # (q @ [p ! pi st]) @ drop (pi st + 1) p" using q(1) dp by simp
    moreover have "CHR ''*'' \<notin> set (q @ [p ! pi st])" using q(3) ne by simp
    moreover have "glob_sem p s \<longleftrightarrow> glob_sem (drop (pi st + 1) p) (drop (si st + 1) s) \<or>
        glob_sem (drop k p) (drop (star_s st + 1) s)" using q(5) sem by simp
    ultimately show ?thesis
      unfolding glob_inv_def using Some si m(1) q(2,4)
      by (simp del: drop_append)
  qed
qed

lemma glob_inv_star:
  assumes inv: "glob_inv p s st" and run: "glob_running s st"
    and m: "pi st < length p" "p ! pi st = CHR ''*''"
  shows "glob_inv p s (st\<lparr>star_p := Some (pi st), pi := pi st + 1, star_s := si st\<rparr>)"
proof -
  have si: "si st < length s" "\<not> failed st" using run by (auto simp: glob_running_def)
  let ?r = "drop (pi st + 1) p"
  have dp: "drop (pi st) p = CHR ''*'' # ?r" using m by (metis Cons_nth_drop_Suc Suc_eq_plus1)
  have "glob_sem p s \<longleftrightarrow> glob_sem (drop (pi st) p) (drop (si st) s)"
  proof (cases "star_p st")
    case None
    then show ?thesis using inv si by (simp add: glob_inv_def)
  next
    case (Some k)
    from glob_inv_SomeE [OF inv this] obtain q where q: "drop k p = CHR ''*'' # q @ drop (pi st) p"
      "CHR ''*'' \<notin> set q" "star_s st + length q = si st"
      "glob_sem p s \<longleftrightarrow> glob_sem (drop (pi st) p) (drop (si st) s) \<or> glob_sem (drop k p) (drop (star_s st + 1) s)" .
    have "glob_sem (drop (pi st) p) (drop (si st) s)" if "glob_sem (drop k p) (drop (star_s st + 1) s)"
    proof -
      obtain j where j: "length q \<le> j" "glob_sem (drop (pi st) p) (drop (j + (star_s st + 1)) s)"
        using glob_sem_star_shift [OF q(2)] \<open>glob_sem (drop k p) _\<close> unfolding q(1) by (metis drop_drop)
      then have "j + (star_s st + 1) = (j + 1 - length q) + si st" using q(3) by simp
      then show ?thesis using j(2) glob_sem_star_weaken [of ?r "j + 1 - length q" "drop (si st) s"]
        unfolding dp by (simp add: add.commute)
    qed
    then show ?thesis using q(4) by blast
  qed
  also have "\<dots> \<longleftrightarrow> glob_sem ?r (drop (si st) s) \<or> glob_sem (drop (pi st) p) (drop (si st + 1) s)"
    using glob_sem_star [of ?r "drop (si st) s"] unfolding dp by (simp add: add.commute)
  finally show ?thesis using si m dp by (auto simp: glob_inv_def)
qed

lemma glob_inv_mismatch:
  assumes inv: "glob_inv p s st" and run: "glob_running s st"
    and m: "\<not> (pi st < length p \<and> (p ! pi st = CHR ''?'' \<or> p ! pi st = s ! si st))"
      "\<not> (pi st < length p \<and> p ! pi st = CHR ''*'')"
  shows "glob_inv p s (case star_p st of
        Some k \<Rightarrow> st\<lparr>pi := k + 1, star_s := star_s st + 1, si := star_s st + 1\<rparr>
      | None \<Rightarrow> st\<lparr>failed := True\<rparr>)"
proof -
  have si: "si st < length s" "\<not> failed st" using run by (auto simp: glob_running_def)
  have ds: "drop (si st) s = s ! si st # drop (si st + 1) s" using si by (simp add: Cons_nth_drop_Suc)
  have no: "\<not> glob_sem (drop (pi st) p) (drop (si st) s)"
  proof (cases "pi st < length p")
    case True
    then have "drop (pi st) p = p ! pi st # drop (pi st + 1) p" by (simp add: Cons_nth_drop_Suc)
    then show ?thesis using m True unfolding ds by simp
  qed (simp add: ds)
  show ?thesis
  proof (cases "star_p st")
    case None
    then show ?thesis using inv no si by (simp add: glob_inv_def)
  next
    case (Some k)
    from glob_inv_SomeE [OF inv this] no obtain q where
      q: "drop k p = CHR ''*'' # q @ drop (pi st) p" "k + 1 + length q = pi st"
      "star_s st + length q = si st"
      "glob_sem p s \<longleftrightarrow> glob_sem (drop k p) (drop (star_s st + 1) s)" by metis
    have k: "drop k p = CHR ''*'' # drop (k + 1) p" using q(1)
      by (metis add.commute drop_drop drop_Suc_Cons drop0 plus_1_eq_Suc)
    have "glob_sem p s \<longleftrightarrow> glob_sem (drop (k + 1) p) (drop (star_s st + 1) s) \<or>
        glob_sem (drop k p) (drop (star_s st + 2) s)"
      using q(4) glob_sem_star [of "drop (k + 1) p" "drop (star_s st + 1) s"] unfolding k by simp
    then show ?thesis using Some inv q si k by (auto simp: glob_inv_def intro!: exI [of _ "[]"])
  qed
qed

lemma glob_step_inv:
  assumes "glob_inv p s st" "glob_running s st" "CHR ''*'' \<notin> set s"
  shows "glob_inv p s (glob_step p s st)"
  using assms glob_inv_advance [OF assms] glob_inv_star [OF assms(1,2)] glob_inv_mismatch [OF assms(1,2)]
  unfolding glob_step_def by (simp only: split: if_splits) blast

lemma glob_step_measure:
  assumes "glob_inv p s st" "glob_running s st"
  shows "glob_measure p s (glob_step p s st) < glob_measure p s st"
proof (cases "star_p st")
  case None
  then show ?thesis using assms
    by (auto simp: glob_step_def glob_measure_def glob_running_def glob_inv_def algebra_simps)
next
  case (Some k)
  have len: "pi st \<le> length p" using assms(1) by (simp add: glob_inv_def)
  from glob_inv_SomeE [OF assms(1) Some] have ord: "star_s st \<le> si st" by (metis le_add1)
  have run: "\<not> failed st" "si st < length s" using assms(2) by (simp_all add: glob_running_def)
  let ?w = "length s + length p + 2"
  have less: "a * ?w + x < b * ?w + y" if "a < b" "x < ?w" for a b x y :: nat
  proof -
    have "a * ?w + ?w \<le> b * ?w" using that(1) by (metis Suc_leI add.commute mult_Suc mult_le_mono1)
    then show ?thesis using that(2) by linarith
  qed
  have same: "(length s + 1 - si st) * ?w + (length s - si st) + (length p - (pi st + 1))
      < (length s + 1 - star_s st) * ?w + (length s - si st) + (length p - pi st)" if "pi st < length p"
  proof -
    have "(length s + 1 - si st) * ?w \<le> (length s + 1 - star_s st) * ?w" using ord by (intro mult_le_mono1) simp
    then show ?thesis using that by linarith
  qed
  have jump: "(length s + 1 - (star_s st + 1)) * ?w + ((length s - (star_s st + 1)) + (length p - (k + 1)))
      < (length s + 1 - star_s st) * ?w + ((length s - si st) + (length p - pi st))"
    using ord run by (intro less) auto
  have old: "glob_measure p s st =
      1 + (length s + 1 - star_s st) * ?w + (length s - si st) + (length p - pi st)"
    using Some run by (simp only: glob_measure_def option.case if_False)
  consider (advance) "glob_step p s st = st\<lparr>pi := pi st + 1, si := si st + 1\<rparr>"
    | (star) "pi st < length p" "glob_step p s st = st\<lparr>star_p := Some (pi st), pi := pi st + 1, star_s := si st\<rparr>"
    | (jump) "glob_step p s st = st\<lparr>pi := k + 1, star_s := star_s st + 1, si := star_s st + 1\<rparr>"
    by (cases "pi st < length p \<and> (p ! pi st = CHR ''?'' \<or> p ! pi st = s ! si st)";
        cases "pi st < length p \<and> p ! pi st = CHR ''*''") (use Some in \<open>simp_all add: glob_step_def\<close>)
  then show ?thesis
  proof cases
    case advance
    then have "glob_measure p s (glob_step p s st) =
        1 + (length s + 1 - star_s st) * ?w + (length s - (si st + 1)) + (length p - (pi st + 1))"
      using Some run by (simp add: glob_measure_def)
    then show ?thesis unfolding old using run by linarith
  next
    case star
    then have "glob_measure p s (glob_step p s st) =
        1 + (length s + 1 - si st) * ?w + (length s - si st) + (length p - (pi st + 1))"
      using Some run by (simp add: glob_measure_def)
    then show ?thesis unfolding old using same [OF star(1)] by linarith
  next
    case jump
    then have "glob_measure p s (glob_step p s st) =
        1 + (length s + 1 - (star_s st + 1)) * ?w + (length s - (star_s st + 1)) + (length p - (k + 1))"
      using Some run by (simp add: glob_measure_def)
    then show ?thesis unfolding old using \<open>_ * ?w + (_ - (star_s st + 1) + _) < _\<close> by linarith
  qed
qed

lemma glob_final:
  assumes inv: "glob_inv p s st" and stop: "\<not> glob_running s st"
  shows "glob_sem p s \<longleftrightarrow> \<not> failed st \<and> glob_sem (drop (pi st) p) []"
proof (cases "star_p st")
  case None
  then show ?thesis using inv stop by (auto simp: glob_inv_def glob_running_def)
next
  case (Some k)
  have nf: "\<not> failed st" using inv Some by (simp add: glob_inv_def)
  have si: "si st = length s" using inv stop nf by (auto simp: glob_inv_def glob_running_def)
  from glob_inv_SomeE [OF inv Some] obtain q where q: "drop k p = CHR ''*'' # q @ drop (pi st) p"
    "CHR ''*'' \<notin> set q" "star_s st + length q = si st"
    "glob_sem p s \<longleftrightarrow> glob_sem (drop (pi st) p) (drop (si st) s) \<or> glob_sem (drop k p) (drop (star_s st + 1) s)" .
  have "glob_sem (drop (pi st) p) []" if "glob_sem (drop k p) (drop (star_s st + 1) s)"
  proof -
    obtain j where "length q \<le> length s - (star_s st + 1)" "length q \<le> j"
      "glob_sem (drop (pi st) p) (drop j (drop (star_s st + 1) s))"
      using glob_sem_star_shift [OF q(2)] \<open>glob_sem (drop k p) _\<close> unfolding q(1) by (metis length_drop)
    then show ?thesis using q(3) si by simp
  qed
  then show ?thesis using q(4) si nf by auto
qed

text \<open>
  C5: the backtracking matcher always returns, and on a subject without a literal star its answer is
  the meaning of the glob: \<open>?\<close> stands for one character and \<open>*\<close> for any run of them. Only the last star
  is ever retried, and that is enough.
\<close>

theorem glob_match_correct:
  assumes "CHR ''*'' \<notin> set s"
  shows "glob_match p s = Some (glob_sem p s)"
proof -
  obtain st where st: "while_option (glob_running s) (glob_step p s) glob_init = Some st"
    using measure_while_option_Some [of "glob_inv p s" "glob_running s" "glob_step p s" "glob_measure p s" glob_init]
      glob_step_inv [OF _ _ assms] glob_step_measure glob_inv_init by blast
  have "glob_inv p s st"
    using while_option_rule [OF _ st, of "glob_inv p s"] glob_step_inv [OF _ _ assms] glob_inv_init by blast
  moreover have "\<not> glob_running s st" using while_option_stop [OF st] .
  ultimately show ?thesis using st glob_final by (auto simp: glob_match_def glob_sem_stars)
qed

theorem glob_match_correct_witness:
  "glob_match ''*.c?p'' ''main.c.cpp'' = Some True \<and> glob_sem ''*.c?p'' ''main.c.cpp''"
  using glob_match_correct [of "''main.c.cpp''" "''*.c?p''"] by simp

text \<open>The equality test of the loop comes before its star test, so a star of the pattern is spent on a
  literal star of the subject and never becomes a wildcard.\<close>

lemma glob_literal_star:
  "glob_match ''*'' ''*a'' = Some False" "glob_sem ''*'' ''*a''"
  by (simp_all add: glob_match_def glob_init_def while_option_unfold glob_running_def glob_step_def)

end
