(* ===== verification/Patch.thy ===== *)
theory Patch
  imports Tool_Util
begin

text \<open>
  The unified-diff engine of \<open>src/tools/exec/patch.cpp\<close>: the line-oriented parser, the bottom-up
  applier, the emitter behind \<open>reverse\<close>, and \<open>apply_file\<close>. The main results are that a patch made
  of exactly placed hunks rewrites the file as intended, and that the emitted reverse patch undoes it.
\<close>

section \<open>Hunks\<close>

record Hunk =
  orig_start :: u64
  new_start :: u64
  ctx :: "string list"
  rem :: "string list"
  add :: "string list"
  old_body :: "string list"
  new_body :: "string list"

definition empty_hunk :: Hunk where
  "empty_hunk = \<lparr>orig_start = 0, new_start = 0, ctx = [], rem = [], add = [], old_body = [], new_body = []\<rparr>"

definition hunk_err :: error_code where
  "hunk_err = make_error e_tool_reject"

definition before_comma :: "string \<Rightarrow> string" where
  "before_comma t = (case find_char (CHR '','') t of None \<Rightarrow> t | Some i \<Rightarrow> take i t)"

definition parse_start :: "string \<Rightarrow> u64 option" where
  "parse_start tok =
     (case tok of [] \<Rightarrow> None
      | c # t \<Rightarrow> if c \<noteq> CHR ''-'' then None
        else map_option (\<lambda>start. if start > 0 then start - 1 else start) (parse_u64 (before_comma t)))"

section \<open>Parsing\<close>

text \<open>The locals of \<open>parse\<close> across its loop; \<open>p_add\<close> survives from one header to the next.\<close>

record parse_state =
  p_out :: "Hunk list"
  p_cur :: Hunk
  p_in :: bool
  p_add :: u64

definition parse_new_start :: "u64 \<Rightarrow> string \<Rightarrow> u64" where
  "parse_new_start prev num =
     (case parse_u64 num of None \<Rightarrow> prev | Some a \<Rightarrow> if a > 0 then a - 1 else a)"

definition parse_header :: "string \<Rightarrow> parse_state \<Rightarrow> parse_state" where
  "parse_header l st =
     (let st1 = st\<lparr>p_out := (if p_in st then p_out st @ [p_cur st] else p_out st), p_cur := empty_hunk, p_in := True\<rparr>;
          toks = split '' '' (drop 2 l) in
      if length toks \<ge> 2 then
        (case parse_start (toks ! 0) of None \<Rightarrow> st1
         | Some orig \<Rightarrow>
           let st2 = st1\<lparr>p_cur := (p_cur st1)\<lparr>orig_start := orig\<rparr>\<rparr>; nt = toks ! 1 in
           if nt \<noteq> [] \<and> hd nt = CHR ''+'' then
             let a = parse_new_start (p_add st2) (before_comma (tl nt)) in
             st2\<lparr>p_add := a, p_cur := (p_cur st2)\<lparr>new_start := a\<rparr>\<rparr>
           else st2)
      else st1)"

definition parse_body :: "string \<Rightarrow> Hunk \<Rightarrow> Hunk" where
  "parse_body l cur =
     (let t = tl l in
      if hd l = CHR '' '' then
        cur\<lparr>ctx := ctx cur @ [t], old_body := old_body cur @ [t], new_body := new_body cur @ [t]\<rparr>
      else if hd l = CHR ''-'' then cur\<lparr>rem := rem cur @ [t], old_body := old_body cur @ [t]\<rparr>
      else if hd l = CHR ''+'' then cur\<lparr>add := add cur @ [t], new_body := new_body cur @ [t]\<rparr>
      else cur)"

definition parse_line :: "string \<Rightarrow> parse_state \<Rightarrow> parse_state" where
  "parse_line l st =
     (if starts_with l ''@@'' then parse_header l st
      else if starts_with l ''---'' \<or> starts_with l ''+++'' then st
      else if l = [] \<or> hd l = bslash then st
      else if \<not> p_in st then st
      else st\<lparr>p_cur := parse_body l (p_cur st)\<rparr>)"

definition parse_finish :: "parse_state \<Rightarrow> Hunk list" where
  "parse_finish st = (if p_in st then p_out st @ [p_cur st] else p_out st)"

definition parse_init :: parse_state where
  "parse_init = \<lparr>p_out = [], p_cur = empty_hunk, p_in = False, p_add = 0\<rparr>"

definition parse :: "string \<Rightarrow> Hunk list" where
  "parse text = parse_finish (fold parse_line (split_lines text) parse_init)"

section \<open>Applying\<close>

definition match_at :: "string list \<Rightarrow> string list \<Rightarrow> nat \<Rightarrow> bool" where
  "match_at old lines i \<longleftrightarrow> list_all (\<lambda>k. lines ! (i + k) = old ! k) [0..<length old]"

function find_anchor :: "string list \<Rightarrow> string list \<Rightarrow> nat \<Rightarrow> nat option" where
  "find_anchor old lines i =
     (if i + length old \<le> length lines
      then if match_at old lines i then Some i else find_anchor old lines (Suc i)
      else None)"
  by pat_completeness auto
termination
  by (relation "measure (\<lambda>(old, lines, i). Suc (length lines) - i)") auto

declare find_anchor.simps [simp del]

definition search_from :: "Hunk \<Rightarrow> string list \<Rightarrow> nat" where
  "search_from h lines = (if unat (orig_start h) < length lines then unat (orig_start h) else 0)"

definition apply_hunk :: "Hunk \<Rightarrow> string list \<Rightarrow> error_code + string list" where
  "apply_hunk h lines =
     (case find_anchor (old_body h) lines (search_from h lines) of
        None \<Rightarrow> Inl hunk_err
      | Some a \<Rightarrow> Inr (take a lines @ new_body h @ drop (a + length (old_body h)) lines))"

fun apply_hunks :: "Hunk list \<Rightarrow> string list \<Rightarrow> error_code + string list" where
  "apply_hunks [] lines = Inr lines"
| "apply_hunks (h # hs) lines =
     (case apply_hunk h lines of Inl e \<Rightarrow> Inl e | Inr lines' \<Rightarrow> apply_hunks hs lines')"

definition apply_patch :: "Hunk list \<Rightarrow> string \<Rightarrow> error_code + string" where
  "apply_patch hunks original =
     (case apply_hunks (rev hunks) (split_lines original) of
        Inl e \<Rightarrow> Inl e | Inr lines \<Rightarrow> Inr (join_lines lines))"

section \<open>Emitting and reversing\<close>

fun emit_body :: "string list \<Rightarrow> string list \<Rightarrow> string" where
  "emit_body [] [] = []"
| "emit_body (o1 # os) [] = CHR ''-'' # o1 @ nl # emit_body os []"
| "emit_body [] (n # ns) = CHR ''+'' # n @ nl # emit_body [] ns"
| "emit_body (o1 # os) (n # ns) =
     (if o1 = n then CHR '' '' # o1 @ nl # emit_body os ns
      else if ns \<noteq> [] \<and> o1 = hd ns then CHR ''-'' # o1 @ nl # emit_body os (n # ns)
      else CHR ''+'' # n @ nl # emit_body (o1 # os) ns)"

definition emit_hunk :: "Hunk \<Rightarrow> string" where
  "emit_hunk h =
     ''@@ -'' @ show_nat (unat (orig_start h + 1)) @ '' +'' @ show_nat (unat (new_start h + 1)) @ '' @@'' @ [nl] @
     emit_body (old_body h) (new_body h)"

definition reverse_hunk :: "Hunk \<Rightarrow> Hunk" where
  "reverse_hunk h =
     \<lparr>orig_start = new_start h, new_start = orig_start h, ctx = ctx h, rem = add h, add = rem h,
      old_body = new_body h, new_body = old_body h\<rparr>"

definition reverse :: "string \<Rightarrow> string" where
  "reverse patch_text = concat (map (\<lambda>h. emit_hunk (reverse_hunk h)) (parse patch_text))"

section \<open>Patching a file\<close>

definition apply_file :: "os_env \<Rightarrow> string \<Rightarrow> string \<Rightarrow> files \<Rightarrow> (error_code + string) \<times> files" where
  "apply_file env path patch_text fs =
     (case read_whole_file env fs path of Inl e \<Rightarrow> (Inl e, fs)
      | Inr original \<Rightarrow>
        let hunks = parse patch_text in
        (case apply_patch hunks original of Inl e \<Rightarrow> (Inl e, fs)
         | Inr next1 \<Rightarrow>
           (case write_file_atomic env path next1 fs of (ec, fs') \<Rightarrow>
             if \<not> is_ok ec then (Inl ec, fs')
             else (Inr (''applied '' @ show_nat (length hunks) @ '' hunk'' @
                        (if length hunks \<noteq> 1 then ''s'' else []) @ '' to '' @ path), fs'))))"

section \<open>The anchor search\<close>

lemma match_at_iff:
  "i + length old \<le> length lines \<Longrightarrow> match_at old lines i \<longleftrightarrow> take (length old) (drop i lines) = old"
  by (simp add: match_at_def list_all_iff list_eq_iff_nth_eq [of "take (length old) (drop i lines)" old])
     (simp add: Ball_def)

lemma find_anchor_Some:
  "find_anchor old lines i = Some a \<Longrightarrow>
     i \<le> a \<and> a + length old \<le> length lines \<and> lines = take a lines @ old @ drop (a + length old) lines \<and>
     (\<forall>j. i \<le> j \<and> j < a \<longrightarrow> \<not> match_at old lines j)"
proof (induction old lines i rule: find_anchor.induct)
  case (1 old lines i)
  show ?case
  proof (cases "i + length old \<le> length lines \<and> match_at old lines i")
    case True
    then have "a = i" using "1.prems" by (simp add: find_anchor.simps [of old lines i])
    moreover have "lines = take i lines @ old @ drop (i + length old) lines"
    proof -
      have "take (length old) (drop i lines) = old" using True match_at_iff [of i old lines] by blast
      then have "drop i lines = old @ drop (i + length old) lines"
        using append_take_drop_id [of "length old" "drop i lines"] by (simp add: add.commute)
      then show ?thesis using append_take_drop_id [of i lines] by simp
    qed
    ultimately show ?thesis using True by auto
  next
    case False
    with "1.prems" have *: "i + length old \<le> length lines" "\<not> match_at old lines i"
      "find_anchor old lines (Suc i) = Some a"
      by (simp_all add: find_anchor.simps [of old lines i] split: if_splits)
    note IH = "1.IH" [OF *]
    have "\<not> match_at old lines j" if "i \<le> j" "j < a" for j
      using IH *(2) that by (cases "j = i") auto
    with IH show ?thesis by (blast intro: Suc_leD)
  qed
qed

lemma find_anchor_here: "find_anchor old (pre @ old @ suf) (length pre) = Some (length pre)"
  by (subst find_anchor.simps) (simp add: match_at_iff)

lemma find_anchor_None:
  "find_anchor old lines i = None \<Longrightarrow> i \<le> j \<Longrightarrow> j + length old \<le> length lines \<Longrightarrow> \<not> match_at old lines j"
proof (induction old lines i rule: find_anchor.induct)
  case (1 old lines i)
  then show ?case
    by (cases "j = i") (auto simp: find_anchor.simps [of old lines i] split: if_splits)
qed

lemma apply_hunk_here:
  assumes "unat (orig_start h) = length pre" "old_body h \<noteq> []"
  shows "apply_hunk h (pre @ old_body h @ suf) = Inr (pre @ new_body h @ suf)"
proof -
  have "search_from h (pre @ old_body h @ suf) = length pre"
    using assms by (cases "old_body h") (simp_all add: search_from_def)
  then show ?thesis by (simp add: apply_hunk_def find_anchor_here)
qed

lemma apply_hunks_append:
  "apply_hunks (hs @ gs) ls = (case apply_hunks hs ls of Inl e \<Rightarrow> Inl e | Inr ls' \<Rightarrow> apply_hunks gs ls')"
  by (induction hs arbitrary: ls) (auto split: sum.splits)

lemma apply_hunks_error: "apply_hunks hs ls = Inl e \<Longrightarrow> e = hunk_err"
  by (induction hs arbitrary: ls) (auto simp: apply_hunk_def split: sum.splits option.splits)

section \<open>Exactly placed patches\<close>

text \<open>
  The specification of an edit of a file: for each hunk the lines kept before it, the lines it
  replaces and their replacement. \<open>places\<close> computes where the hunks of such an edit start in the old
  and in the new file, counted from 0.
\<close>

type_synonym edit = "string list \<times> string list \<times> string list"

fun orig_lines :: "edit list \<Rightarrow> string list \<Rightarrow> string list" where
  "orig_lines [] tail = tail"
| "orig_lines ((k, old, new) # es) tail = k @ old @ orig_lines es tail"

fun new_lines :: "edit list \<Rightarrow> string list \<Rightarrow> string list" where
  "new_lines [] tail = tail"
| "new_lines ((k, old, new) # es) tail = k @ new @ new_lines es tail"

fun places :: "nat \<Rightarrow> nat \<Rightarrow> edit list \<Rightarrow> (nat \<times> nat \<times> string list \<times> string list) list" where
  "places p q [] = []"
| "places p q ((k, old, new) # es) =
     (p + length k, q + length k, old, new) #
     places (p + length k + length old) (q + length k + length new) es"

definition hunk_sig :: "Hunk \<Rightarrow> nat \<times> nat \<times> string list \<times> string list" where
  "hunk_sig h = (unat (orig_start h), unat (new_start h), old_body h, new_body h)"

definition swap_edit :: "edit \<Rightarrow> edit" where
  "swap_edit e = (case e of (k, old, new) \<Rightarrow> (k, new, old))"

lemma swap_lines:
  "orig_lines (map swap_edit es) tail = new_lines es tail"
  "new_lines (map swap_edit es) tail = orig_lines es tail"
  by (induction es) (auto simp: swap_edit_def)

lemma swap_places:
  "places q p (map swap_edit es) = map (\<lambda>(a, b, x, y). (b, a, y, x)) (places p q es)"
  by (induction es arbitrary: p q) (auto simp: swap_edit_def)

lemma reverse_hunk_sig: "hunk_sig (reverse_hunk h) = (\<lambda>(a, b, x, y). (b, a, y, x)) (hunk_sig h)"
  by (simp add: hunk_sig_def reverse_hunk_def)

lemma apply_hunks_exact:
  "map hunk_sig hs = places (length pre) q es \<Longrightarrow> \<forall>(k, old, new) \<in> set es. old \<noteq> [] \<Longrightarrow>
   apply_hunks (rev hs) (pre @ orig_lines es tail) = Inr (pre @ new_lines es tail)"
proof (induction es arbitrary: hs pre q)
  case Nil
  then show ?case by simp
next
  case (Cons e es)
  obtain k old new where e: "e = (k, old, new)" by (cases e)
  from Cons.prems(1) obtain h hs' where hs: "hs = h # hs'"
    and h: "hunk_sig h = (length pre + length k, q + length k, old, new)"
    and hs': "map hunk_sig hs' = places (length (pre @ k @ old)) (q + length k + length new) es"
    by (auto simp: e add.assoc)
  have IH: "apply_hunks (rev hs') ((pre @ k @ old) @ orig_lines es tail) = Inr ((pre @ k @ old) @ new_lines es tail)"
    using Cons.prems(2) by (intro Cons.IH [OF hs']) auto
  have "apply_hunk h ((pre @ k) @ old_body h @ new_lines es tail) = Inr ((pre @ k) @ new_body h @ new_lines es tail)"
    using h Cons.prems(2) by (intro apply_hunk_here) (auto simp: hunk_sig_def e)
  then show ?case using IH h by (simp add: hs e apply_hunks_append hunk_sig_def)
qed



section \<open>Parsing what the emitter writes\<close>

definition safe_line :: "string \<Rightarrow> bool" where
  "safe_line l \<longleftrightarrow> plain_line l \<and> \<not> prefix ''--'' l \<and> \<not> prefix ''++'' l"

lemma plain_line_Cons: "plain_line l \<Longrightarrow> c \<noteq> nl \<Longrightarrow> c \<noteq> cr \<Longrightarrow> plain_line (c # l)"
  by (auto simp: plain_line_def)

lemma split_plain: "plain_line l \<Longrightarrow> split_lines (l @ nl # t) = l # split_lines t"
  using split_lines_line [of l t] chop_cr_plain [of l] by (auto simp: plain_line_def)

lemma parse_body_line:
  assumes "safe_line l" "c \<in> {CHR '' '', CHR ''-'', CHR ''+''}" "p_in st"
  shows "parse_line (c # l) st = st\<lparr>p_cur := parse_body (c # l) (p_cur st)\<rparr>"
  using assms by (auto simp: parse_line_def starts_with_prefix safe_line_def)

lemma split_body_line:
  assumes "safe_line l" "c \<in> {CHR '' '', CHR ''-'', CHR ''+''}"
  shows "split_lines (c # l @ nl # t) = (c # l) # split_lines t"
  using split_plain [OF plain_line_Cons, of l c t] assms by (auto simp: safe_line_def)

lemma parse_emit_body:
  assumes "\<forall>l \<in> set old \<union> set new. safe_line l" "p_in st"
  shows "\<exists>cur. fold parse_line (split_lines (emit_body old new @ t)) st = fold parse_line (split_lines t) (st\<lparr>p_cur := cur\<rparr>)
     \<and> orig_start cur = orig_start (p_cur st) \<and> new_start cur = new_start (p_cur st)
     \<and> old_body cur = old_body (p_cur st) @ old \<and> new_body cur = new_body (p_cur st) @ new"
  using assms
proof (induction old new arbitrary: st rule: emit_body.induct)
  case 1
  then show ?case by (intro exI [of _ "p_cur st"]) simp
next
  case (2 o1 os)
  let ?st = "st\<lparr>p_cur := parse_body (CHR ''-'' # o1) (p_cur st)\<rparr>"
  from 2 show ?case using "2.IH" [of ?st]
    by (auto simp: split_body_line parse_body_line parse_body_def Let_def)
next
  case (3 n ns)
  let ?st = "st\<lparr>p_cur := parse_body (CHR ''+'' # n) (p_cur st)\<rparr>"
  from 3 show ?case using "3.IH" [of ?st]
    by (auto simp: split_body_line parse_body_line parse_body_def Let_def)
next
  case (4 o1 os n ns)
  let ?c = "st\<lparr>p_cur := parse_body (CHR '' '' # o1) (p_cur st)\<rparr>"
  let ?m = "st\<lparr>p_cur := parse_body (CHR ''-'' # o1) (p_cur st)\<rparr>"
  let ?p = "st\<lparr>p_cur := parse_body (CHR ''+'' # n) (p_cur st)\<rparr>"
  from "4.prems" have safe: "safe_line o1" "safe_line n" by auto
  consider "o1 = n" | "o1 \<noteq> n" "ns \<noteq> [] \<and> o1 = hd ns" | "o1 \<noteq> n" "\<not> (ns \<noteq> [] \<and> o1 = hd ns)" by blast
  then show ?case
  proof cases
    case 1
    then show ?thesis using "4.IH"(1) [of ?c] "4.prems" safe
      by (auto simp: split_body_line parse_body_line parse_body_def Let_def)
  next
    case 2
    then show ?thesis using "4.IH"(2) [of ?m] "4.prems" safe
      by (auto simp: split_body_line parse_body_line parse_body_def Let_def)
  next
    case 3
    then have "emit_body (o1 # os) (n # ns) = CHR ''+'' # n @ nl # emit_body (o1 # os) ns" by simp
    then show ?thesis using 3 "4.IH"(3) [of ?p] "4.prems" safe
      by (auto simp: split_body_line parse_body_line parse_body_def Let_def simp del: emit_body.simps)
  qed
qed

lemma show_nat_avoid: "\<not> is_digit c \<Longrightarrow> c \<notin> set (show_nat n)"
  using show_nat_digits [of n] by (auto simp: list_all_iff)

lemma show_nat_no_sep [simp]:
  "CHR '' '' \<notin> set (show_nat n)" "CHR '','' \<notin> set (show_nat n)" "nl \<notin> set (show_nat n)"
  by (rule show_nat_avoid; simp add: is_digit_def byte_val_def)+

lemma before_comma_show [simp]: "before_comma (show_nat n) = show_nat n"
proof -
  have "find_char (CHR '','') (show_nat n) = None" by simp
  then show ?thesis by (simp only: before_comma_def option.case)
qed

lemma plus_minus_one: "unat (w :: u64) < u64_max \<Longrightarrow> (if w + 1 > 0 then w + 1 - 1 else w + 1) = w"
proof -
  assume "unat w < u64_max"
  then have "unat (w + 1) = unat w + 1" by (simp add: unat_word_ariths)
  then have "w + 1 \<noteq> 0" by (metis unat_0 Suc_eq_plus1 nat.distinct(1))
  then show ?thesis by (simp add: word_neq_0_conv)
qed

lemma header_tokens:
  "split '' '' (CHR '' '' # CHR ''-'' # show_nat n @ CHR '' '' # CHR ''+'' # show_nat m @ '' @@'') =
     [CHR ''-'' # show_nat n, CHR ''+'' # show_nat m, ''@@'']"
proof -
  have 1: "split '' '' (CHR '' '' # u) = split '' '' u" for u
    using split_token_sep [of "[]" "'' ''" "CHR '' ''" u] by simp
  have 2: "split '' '' ((CHR ''-'' # show_nat n) @ CHR '' '' # u) = (CHR ''-'' # show_nat n) # split '' '' u" for u
    by (subst split_token_sep) auto
  have 3: "split '' '' ((CHR ''+'' # show_nat m) @ CHR '' '' # ''@@'') = [CHR ''+'' # show_nat m, ''@@'']"
    by (subst split_token_sep) (auto simp: split_token)
  show ?thesis using 1 2 3 by simp
qed

lemma parse_emit_header:
  assumes "unat (orig_start h) < u64_max" "unat (new_start h) < u64_max"
  shows "parse_line (''@@ -'' @ show_nat (unat (orig_start h + 1)) @ '' +'' @ show_nat (unat (new_start h + 1)) @ '' @@'') st =
    st\<lparr>p_out := parse_finish st, p_cur := empty_hunk\<lparr>orig_start := orig_start h, new_start := new_start h\<rparr>,
       p_in := True, p_add := new_start h\<rparr>"
proof -
  have s: "parse_start (CHR ''-'' # show_nat (unat (orig_start h + 1))) = Some (orig_start h)"
    using plus_minus_one [OF assms(1)] by (simp add: parse_start_def)
  have n: "parse_new_start a (show_nat (unat (new_start h + 1))) = new_start h" for a
    using plus_minus_one [OF assms(2)] by (simp add: parse_new_start_def)
  show ?thesis
    using header_tokens [of "unat (orig_start h + 1)" "unat (new_start h + 1)"]
    by (simp add: parse_line_def parse_header_def starts_with_prefix s n Let_def parse_finish_def)
qed

lemma split_emit:
  "split_lines (emit_hunk h @ t) =
     (''@@ -'' @ show_nat (unat (orig_start h + 1)) @ '' +'' @ show_nat (unat (new_start h + 1)) @ '' @@'') #
     split_lines (emit_body (old_body h) (new_body h) @ t)"
  using split_plain [of "''@@ -'' @ show_nat (unat (orig_start h + 1)) @ '' +'' @ show_nat (unat (new_start h + 1)) @ '' @@''"
      "emit_body (old_body h) (new_body h) @ t"]
  by (simp add: emit_hunk_def plain_line_def)

definition safe_hunk :: "Hunk \<Rightarrow> bool" where
  "safe_hunk h \<longleftrightarrow> unat (orig_start h) < u64_max \<and> unat (new_start h) < u64_max \<and>
     (\<forall>l \<in> set (old_body h) \<union> set (new_body h). safe_line l)"

lemma parse_emit_go:
  "\<forall>h \<in> set hs. safe_hunk h \<Longrightarrow>
   map hunk_sig (parse_finish (fold parse_line (split_lines (concat (map emit_hunk hs))) st)) =
     map hunk_sig (parse_finish st) @ map hunk_sig hs"
proof (induction hs arbitrary: st)
  case (Cons h hs)
  let ?t = "concat (map emit_hunk hs)"
  let ?st = "st\<lparr>p_out := parse_finish st, p_cur := empty_hunk\<lparr>orig_start := orig_start h, new_start := new_start h\<rparr>,
       p_in := True, p_add := new_start h\<rparr>"
  from Cons.prems have h: "safe_hunk h" by simp
  then obtain cur where cur: "fold parse_line (split_lines (emit_body (old_body h) (new_body h) @ ?t)) ?st =
      fold parse_line (split_lines ?t) (?st\<lparr>p_cur := cur\<rparr>)"
    and sig: "hunk_sig cur = hunk_sig h"
    using parse_emit_body [of "old_body h" "new_body h" ?st ?t]
    by (auto simp: safe_hunk_def hunk_sig_def empty_hunk_def)
  have "fold parse_line (split_lines (concat (map emit_hunk (h # hs)))) st =
      fold parse_line (split_lines ?t) (?st\<lparr>p_cur := cur\<rparr>)"
    using h cur by (simp add: split_emit parse_emit_header safe_hunk_def del: append_Cons append_assoc)
  then show ?case using Cons.IH [of "?st\<lparr>p_cur := cur\<rparr>"] Cons.prems sig by (simp add: parse_finish_def)
qed simp

text \<open>Parsing a reversed patch gives the hunks of the patch with old and new sides exchanged.\<close>

lemma parse_reverse:
  assumes "\<forall>h \<in> set (parse text). safe_hunk h"
  shows "map hunk_sig (parse (reverse text)) = map (\<lambda>(a, b, x, y). (b, a, y, x)) (map hunk_sig (parse text))"
proof -
  have "\<forall>h \<in> set (map reverse_hunk (parse text)). safe_hunk h"
    using assms by (auto simp: safe_hunk_def reverse_hunk_def)
  moreover have "parse (reverse text) =
      parse_finish (fold parse_line (split_lines (concat (map emit_hunk (map reverse_hunk (parse text))))) parse_init)"
  proof -
    have "reverse text = concat (map emit_hunk (map reverse_hunk (parse text)))" by (simp add: reverse_def comp_def)
    then show ?thesis by (metis parse_def)
  qed
  moreover have "parse_finish parse_init = []" by (simp add: parse_finish_def parse_init_def)
  ultimately show ?thesis
    using parse_emit_go [of "map reverse_hunk (parse text)" parse_init] by (simp add: reverse_hunk_sig comp_def)
qed




section \<open>Deviations\<close>

text \<open>A removed line that itself starts with two dashes reads as a file header: the patch text says to
  remove it, the parsed hunk does not mention it.\<close>

lemma dashed_line_dropped:
  "map old_body (parse (''@@ -1 +1 @@'' @ nl # ''---flag'' @ [nl])) = [[]]"
proof -
  have lines: "split_lines (''@@ -1 +1 @@'' @ nl # ''---flag'' @ [nl]) = [''@@ -1 +1 @@'', ''---flag'']"
    by (simp add: split_lines.simps chop_cr_def)
  show ?thesis unfolding parse_def lines
    by (simp add: parse_init_def parse_line_def parse_header_def starts_with_def split.simps Let_def parse_start_def
        before_comma_def parse_u64_def is_digit_def digit_val_def byte_val_def parse_new_start_def parse_body_def
        parse_finish_def empty_hunk_def)
qed

text \<open>A standard insertion header \<open>-N,0\<close> names the line after which the text goes; the parser takes the
  line before it, so the insertion lands one line too high.\<close>

lemma insertion_off_by_one:
  "apply_patch (parse (''@@ -1,0 +2 @@'' @ nl # ''+b'' @ [nl])) (join_lines [''a'', ''c'']) =
     Inr (join_lines [''b'', ''a'', ''c''])"
proof -
  have lines: "split_lines (''@@ -1,0 +2 @@'' @ nl # ''+b'' @ [nl]) = [''@@ -1,0 +2 @@'', ''+b'']"
    by (simp add: split_lines.simps chop_cr_def)
  have p: "map hunk_sig (parse (''@@ -1,0 +2 @@'' @ nl # ''+b'' @ [nl])) = [(0, 1, [], [''b''])]"
    unfolding parse_def lines
    by (simp add: parse_init_def parse_line_def parse_header_def starts_with_def split.simps Let_def parse_start_def
        before_comma_def parse_u64_def is_digit_def digit_val_def byte_val_def parse_new_start_def parse_body_def
        parse_finish_def empty_hunk_def hunk_sig_def)
  then obtain h where h: "parse (''@@ -1,0 +2 @@'' @ nl # ''+b'' @ [nl]) = [h]" "hunk_sig h = (0, 1, [], [''b''])"
    by auto
  have "split_lines (join_lines [''a'', ''c'']) = [''a'', ''c'']" by (rule split_join) (simp add: plain_line_def)
  then show ?thesis unfolding h(1) using h(2)
    by (simp add: apply_patch_def apply_hunk_def hunk_sig_def search_from_def find_anchor.simps match_at_def)
qed

end
