(* ===== verification/Json.thy ===== *)
theory Json
  imports Errors
begin

unbundle bit_operations_syntax

text \<open>
  The JSON reader and writer of \<open>src/util/json.cpp\<close>. The reader works on the rest of the input; a
  failure carries the rest at which \<open>fail\<close> was called, from which the reported offset is computed.
  Numbers are a type parameter: \<open>std::from_chars\<close> and the \<open>"%.17g"\<close> of \<open>snprintf\<close> are arguments.
\<close>

section \<open>Values\<close>

datatype 'd jval = JNull | JBool bool | JNum 'd | JStr string | JArr "'d jval list" | JObj "(string \<times> 'd jval) list"

text \<open>The conversions between text, \<open>double\<close> and \<open>std::uint64_t\<close> that clients of the JSON values use.\<close>

record 'd num_ops =
  n_from_chars :: "string \<Rightarrow> 'd"
  n_format :: "'d \<Rightarrow> string"
  n_of_u64 :: "u64 \<Rightarrow> 'd"
  n_to_u64 :: "'d \<Rightarrow> u64"

definition jfind :: "string \<Rightarrow> 'd jval \<Rightarrow> 'd jval option" where
  "jfind key v = (case v of JObj kvs \<Rightarrow> map_of kvs key | _ \<Rightarrow> None)"

section \<open>Lexical level\<close>

definition is_json_ws :: "char \<Rightarrow> bool" where
  "is_json_ws c \<longleftrightarrow> c = sp \<or> c = tab \<or> c = nl \<or> c = cr"

definition skip_ws :: "string \<Rightarrow> string" where
  "skip_ws s = dropWhile is_json_ws s"

definition eat :: "char \<Rightarrow> string \<Rightarrow> string option" where
  "eat c s = (case s of [] \<Rightarrow> None | x # xs \<Rightarrow> if x = c then Some xs else None)"

definition hex_digit :: "char \<Rightarrow> nat option" where
  "hex_digit h =
     (let n = byte_val h in
      if 48 \<le> n \<and> n \<le> 57 then Some (n - 48)
      else if 97 \<le> n \<and> n \<le> 102 then Some (n - 97 + 10)
      else if 65 \<le> n \<and> n \<le> 70 then Some (n - 65 + 10)
      else None)"

text \<open>The loop over \<open>k\<close> hex digits; on a bad digit the cursor already stands behind it.\<close>

fun hexn :: "nat \<Rightarrow> u32 \<Rightarrow> string \<Rightarrow> string + (u32 \<times> string)" where
  "hexn 0 cp s = Inr (cp, s)"
| "hexn (Suc k) cp [] = Inl []"
| "hexn (Suc k) cp (h # s) =
     (case hex_digit h of None \<Rightarrow> Inl s | Some v \<Rightarrow> hexn k (push_bit 4 cp OR of_nat v) s)"

definition char_of_u32 :: "u32 \<Rightarrow> char" where
  "char_of_u32 w = byte_of (unat w)"

definition utf8_encode :: "u32 \<Rightarrow> string" where
  "utf8_encode cp =
     (if cp < 0x80 then [char_of_u32 cp]
      else if cp < 0x800 then [char_of_u32 (0xC0 OR drop_bit 6 cp), char_of_u32 (0x80 OR (cp AND 0x3F))]
      else if cp < 0x10000 then
        [char_of_u32 (0xE0 OR drop_bit 12 cp), char_of_u32 (0x80 OR (drop_bit 6 cp AND 0x3F)),
         char_of_u32 (0x80 OR (cp AND 0x3F))]
      else
        [char_of_u32 (0xF0 OR drop_bit 18 cp), char_of_u32 (0x80 OR (drop_bit 12 cp AND 0x3F)),
         char_of_u32 (0x80 OR (drop_bit 6 cp AND 0x3F)), char_of_u32 (0x80 OR (cp AND 0x3F))])"

definition unicode_escape :: "string \<Rightarrow> string + (string \<times> string)" where
  "unicode_escape s =
     (if length s < 4 then Inl s
      else case hexn 4 0 s of Inl r \<Rightarrow> Inl r
        | Inr (cp, r) \<Rightarrow>
          if cp \<ge> 0xD800 \<and> cp \<le> 0xDBFF then
            (if length r < 6 \<or> r ! 0 \<noteq> bslash \<or> r ! 1 \<noteq> CHR ''u'' then Inl r
             else case hexn 4 0 (drop 2 r) of Inl r' \<Rightarrow> Inl r'
               | Inr (lo, r') \<Rightarrow>
                 Inr (utf8_encode (0x10000 + push_bit 10 (cp - 0xD800) + (lo - 0xDC00)), r'))
          else Inr (utf8_encode cp, r))"

definition simple_escape :: "char \<Rightarrow> char option" where
  "simple_escape e =
     (if e = dquote \<or> e = bslash \<or> e = CHR ''/'' then Some e
      else if e = CHR ''b'' then Some (CHR 0x08)
      else if e = CHR ''f'' then Some (CHR 0x0C)
      else if e = CHR ''n'' then Some nl
      else if e = CHR ''r'' then Some cr
      else if e = CHR ''t'' then Some tab
      else None)"

lemma hexn_length: "hexn k cp s = Inr (v, r) \<Longrightarrow> length r + k = length s"
  by (induction k cp s rule: hexn.induct) (auto split: option.splits)

lemma unicode_escape_length: "unicode_escape s = Inr (u, r) \<Longrightarrow> length r < length s"
  by (auto simp: unicode_escape_def dest!: hexn_length split: sum.splits if_splits)

text \<open>The slow path of \<open>parse_string\<close>, after the opening quote.\<close>

function string_slow :: "string \<Rightarrow> string \<Rightarrow> string + (string \<times> string)" where
  "string_slow owned [] = Inl []"
| "string_slow owned (c # cs) =
     (if c = dquote then Inr (owned, cs)
      else if c = bslash then
        (case cs of [] \<Rightarrow> Inl []
         | e # es \<Rightarrow>
           (if e = CHR ''u'' then
              (case unicode_escape es of Inl r \<Rightarrow> Inl r | Inr (u, r) \<Rightarrow> string_slow (owned @ u) r)
            else case simple_escape e of None \<Rightarrow> Inl es | Some x \<Rightarrow> string_slow (owned @ [x]) es))
      else if byte_val c < 0x20 then Inl cs
      else string_slow (owned @ [c]) cs)"
  by pat_completeness auto
termination
  by (relation "measure (\<lambda>(_, s). length s)") (auto dest: unicode_escape_length)

definition plain_char :: "char \<Rightarrow> bool" where
  "plain_char c \<longleftrightarrow> c \<noteq> dquote \<and> c \<noteq> bslash \<and> byte_val c \<ge> 0x20"

text \<open>The result is the string, the \<open>owned\<close> buffer (empty on the fast path) and the rest.\<close>

definition parse_string :: "string \<Rightarrow> string + (string \<times> string \<times> string)" where
  "parse_string s0 =
     (case eat dquote s0 of None \<Rightarrow> Inl s0
      | Some s \<Rightarrow>
        (case eat dquote (dropWhile plain_char s) of
           Some r \<Rightarrow> Inr (takeWhile plain_char s, [], r)
         | None \<Rightarrow>
           (case string_slow [] s of Inl r \<Rightarrow> Inl r | Inr (owned, r) \<Rightarrow> Inr (owned, owned, r))))"

section \<open>Numbers\<close>

definition at_digit :: "string \<Rightarrow> bool" where
  "at_digit s \<longleftrightarrow> s \<noteq> [] \<and> is_digit (hd s)"

definition scan_frac :: "string \<Rightarrow> string + string" where
  "scan_frac s =
     (case eat (CHR ''.'') s of None \<Rightarrow> Inr s
      | Some s1 \<Rightarrow> if at_digit s1 then Inr (dropWhile is_digit s1) else Inl s1)"

definition scan_exp :: "string \<Rightarrow> string + string" where
  "scan_exp s =
     (if s \<noteq> [] \<and> (hd s = CHR ''e'' \<or> hd s = CHR ''E'') then
        let s1 = tl s;
            s2 = (if s1 \<noteq> [] \<and> (hd s1 = CHR ''+'' \<or> hd s1 = CHR ''-'') then tl s1 else s1)
        in if at_digit s2 then Inr (dropWhile is_digit s2) else Inl s2
      else Inr s)"

definition scan_number :: "string \<Rightarrow> string + string" where
  "scan_number s =
     (let s1 = (case eat (CHR ''-'') s of None \<Rightarrow> s | Some r \<Rightarrow> r) in
      if \<not> at_digit s1 then Inl s1
      else case scan_frac (dropWhile is_digit s1) of Inl r \<Rightarrow> Inl r | Inr s2 \<Rightarrow> scan_exp s2)"

section \<open>Values\<close>

definition keyword :: "string \<Rightarrow> 'd jval \<Rightarrow> string \<Rightarrow> string + ('d jval \<times> string)" where
  "keyword w v s = (if take (length w) s = w then Inr (v, drop (length w) s) else Inl s)"

definition parse_number :: "(string \<Rightarrow> 'd) \<Rightarrow> string \<Rightarrow> string + ('d jval \<times> string)" where
  "parse_number from_chars s =
     (case scan_number s of Inl r \<Rightarrow> Inl r
      | Inr r \<Rightarrow> Inr (JNum (from_chars (take (length s - length r) s)), r))"

text \<open>
  The recursive descent. The first argument bounds the recursion; \<open>None\<close> means that it ran out, which
  \<open>parse_total\<close> below excludes for the bound \<open>parse_json\<close> uses. The two loops of the source are
  \<open>parse_members\<close> and \<open>parse_elems\<close>.
\<close>

fun parse_value :: "nat \<Rightarrow> (string \<Rightarrow> 'd) \<Rightarrow> string \<Rightarrow> (string + ('d jval \<times> string)) option"
  and parse_members :: "nat \<Rightarrow> (string \<Rightarrow> 'd) \<Rightarrow> (string \<times> 'd jval) list \<Rightarrow> string \<Rightarrow> (string + ('d jval \<times> string)) option"
  and parse_elems :: "nat \<Rightarrow> (string \<Rightarrow> 'd) \<Rightarrow> 'd jval list \<Rightarrow> string \<Rightarrow> (string + ('d jval \<times> string)) option"
where
  "parse_value 0 fc s0 = None"
| "parse_value (Suc f) fc s0 =
     (let s = skip_ws s0 in
      case s of [] \<Rightarrow> Some (Inl s)
      | c # cs \<Rightarrow>
        if c = CHR ''{'' then
          (let s1 = skip_ws cs in
           case eat (CHR ''}'') s1 of Some r \<Rightarrow> Some (Inr (JObj [], r)) | None \<Rightarrow> parse_members f fc [] s1)
        else if c = CHR ''['' then
          (let s1 = skip_ws cs in
           case eat (CHR '']'') s1 of Some r \<Rightarrow> Some (Inr (JArr [], r)) | None \<Rightarrow> parse_elems f fc [] s1)
        else if c = dquote then
          (case parse_string s of Inl r \<Rightarrow> Some (Inl r)
           | Inr (str, owned, r) \<Rightarrow> Some (Inr (JStr (if owned \<noteq> [] then owned else str), r)))
        else if c = CHR ''t'' then Some (keyword ''true'' (JBool True) s)
        else if c = CHR ''f'' then Some (keyword ''false'' (JBool False) s)
        else if c = CHR ''n'' then Some (keyword ''null'' JNull s)
        else Some (parse_number fc s))"
| "parse_members 0 fc obj s0 = None"
| "parse_members (Suc f) fc obj s0 =
     (let s = skip_ws s0 in
      case parse_string s of Inl r \<Rightarrow> Some (Inl r)
      | Inr (key, owned, r) \<Rightarrow>
        if owned \<noteq> [] then Some (Inl r)
        else
          (let r1 = skip_ws r in
           case eat (CHR '':'') r1 of None \<Rightarrow> Some (Inl r1)
           | Some r2 \<Rightarrow>
             (case parse_value f fc r2 of None \<Rightarrow> None
              | Some (Inl e) \<Rightarrow> Some (Inl e)
              | Some (Inr (val, r3)) \<Rightarrow>
                (let obj' = obj @ [(key, val)]; r4 = skip_ws r3 in
                 case eat (CHR ''}'') r4 of Some r5 \<Rightarrow> Some (Inr (JObj obj', r5))
                 | None \<Rightarrow>
                   (case eat (CHR '','') r4 of None \<Rightarrow> Some (Inl r4)
                    | Some r5 \<Rightarrow> parse_members f fc obj' r5)))))"
| "parse_elems 0 fc arr s0 = None"
| "parse_elems (Suc f) fc arr s0 =
     (case parse_value f fc s0 of None \<Rightarrow> None
      | Some (Inl e) \<Rightarrow> Some (Inl e)
      | Some (Inr (val, r3)) \<Rightarrow>
        (let arr' = arr @ [val]; r4 = skip_ws r3 in
         case eat (CHR '']'') r4 of Some r5 \<Rightarrow> Some (Inr (JArr arr', r5))
         | None \<Rightarrow>
           (case eat (CHR '','') r4 of None \<Rightarrow> Some (Inl r4)
            | Some r5 \<Rightarrow> parse_elems f fc arr' r5)))"

text \<open>A failure is the error code with the offset stored through \<open>pos\<close>.\<close>

definition json_fail :: "string \<Rightarrow> string \<Rightarrow> error_code \<times> nat" where
  "json_fail input rest = (make_error_code e_proto_parse 1, length input - length rest)"

definition parse_json :: "(string \<Rightarrow> 'd) \<Rightarrow> string \<Rightarrow> ((error_code \<times> nat) + 'd jval) option" where
  "parse_json fc input =
     (case parse_value (Suc (2 * length input)) fc input of None \<Rightarrow> None
      | Some (Inl r) \<Rightarrow> Some (Inl (json_fail input r))
      | Some (Inr (v, r)) \<Rightarrow>
        if skip_ws r \<noteq> [] then Some (Inl (json_fail input (skip_ws r))) else Some (Inr v))"

section \<open>Writer\<close>

definition hex_char :: "nat \<Rightarrow> char" where
  "hex_char d = (if d < 10 then byte_of (48 + d) else byte_of (87 + d))"

definition hex4_text :: "nat \<Rightarrow> string" where
  "hex4_text n = [hex_char (n div 4096 mod 16), hex_char (n div 256 mod 16), hex_char (n div 16 mod 16), hex_char (n mod 16)]"

definition escape_char :: "char \<Rightarrow> string" where
  "escape_char c =
     (if c = dquote then [bslash, dquote]
      else if c = bslash then [bslash, bslash]
      else if c = CHR 0x08 then [bslash, CHR ''b'']
      else if c = CHR 0x0C then [bslash, CHR ''f'']
      else if c = nl then [bslash, CHR ''n'']
      else if c = cr then [bslash, CHR ''r'']
      else if c = tab then [bslash, CHR ''t'']
      else if byte_val c < 0x20 then bslash # CHR ''u'' # hex4_text (byte_val c)
      else [c])"

definition write_escaped :: "string \<Rightarrow> string" where
  "write_escaped s = dquote # concat (map escape_char s) @ [dquote]"

fun commas :: "string list \<Rightarrow> string" where
  "commas [] = []"
| "commas [x] = x"
| "commas (x # y # xs) = x @ CHR '','' # commas (y # xs)"

fun write_value :: "('d \<Rightarrow> string) \<Rightarrow> 'd jval \<Rightarrow> string" where
  "write_value fmt JNull = ''null''"
| "write_value fmt (JBool b) = (if b then ''true'' else ''false'')"
| "write_value fmt (JNum d) = fmt d"
| "write_value fmt (JStr s) = write_escaped s"
| "write_value fmt (JArr vs) = CHR ''['' # commas (map (write_value fmt) vs) @ '']''"
| "write_value fmt (JObj kvs) =
     CHR ''{'' # commas (map (\<lambda>(k, v). write_escaped k @ CHR '':'' # write_value fmt v) kvs) @ ''}''"

definition to_json :: "('d \<Rightarrow> string) \<Rightarrow> 'd jval \<Rightarrow> string" where
  "to_json fmt v = write_value fmt v"

section \<open>Every call consumes input and no call runs out of its bound\<close>

lemma skip_ws_len [len_intros]: "length (skip_ws s) \<le> length s"
  by (simp add: skip_ws_def length_dropWhile_le)

lemma eat_Some [simp]: "eat c s = Some r \<longleftrightarrow> s = c # r"
  by (auto simp: eat_def split: list.splits)

lemma eat_hit [simp]: "eat c (c # r) = Some r" "eat c [] = None" "x \<noteq> c \<Longrightarrow> eat c (x # r) = None"
  by (simp_all add: eat_def)

text \<open>The bound a scanner keeps: a failure leaves at most the input, a success strictly less.\<close>

definition consumes :: "nat \<Rightarrow> string + 'a \<times> string \<Rightarrow> bool" where
  "consumes n x \<longleftrightarrow> (case x of Inl r \<Rightarrow> length r \<le> n | Inr (_, r) \<Rightarrow> length r < n)"

lemma consumes_simps [simp]:
  "consumes n (Inl r) \<longleftrightarrow> length r \<le> n" "consumes n (Inr (a, r)) \<longleftrightarrow> length r < n"
  by (simp_all add: consumes_def)

lemma consumes_mono: "consumes n x \<Longrightarrow> n \<le> m \<Longrightarrow> consumes m x"
  by (auto simp: consumes_def split: sum.splits)

lemma hexn_fail_len: "hexn k cp t = Inl r \<Longrightarrow> length r \<le> length t"
  by (induction k cp t rule: hexn.induct) (auto split: option.splits)

lemma unicode_escape_consumes: "consumes (length s) (unicode_escape s)"
proof (cases "unicode_escape s")
  case (Inl r)
  then show ?thesis
    by (auto simp: unicode_escape_def split: sum.splits if_splits dest!: hexn_length hexn_fail_len)
next
  case (Inr p)
  then show ?thesis using unicode_escape_length by (cases p) auto
qed

lemma string_slow_consumes: "consumes (length s) (string_slow owned s)"
proof (induction owned s rule: string_slow.induct)
  case (2 owned c cs)
  consider "c = dquote" | (esc) "c = bslash" | (other) "c \<noteq> dquote" "c \<noteq> bslash" by blast
  then show ?case
  proof cases
    case esc
    note c = this
    show ?thesis
    proof (cases cs)
      case (Cons e es)
      show ?thesis
      proof (cases "e = CHR ''u''")
        case True
        show ?thesis
        proof (cases "unicode_escape es")
          case (Inl r)
          then show ?thesis using c Cons True unicode_escape_consumes [of es] by simp
        next
          case (Inr p)
          obtain u r where p: "p = (u, r)" by (cases p)
          have "length r < length es" using Inr p unicode_escape_length by blast
          moreover have "consumes (length r) (string_slow (owned @ u) r)"
            using 2(1) [OF _ c Cons True Inr p [symmetric]] c by simp
          ultimately show ?thesis using c Cons True Inr p by (auto intro: consumes_mono)
        qed
      next
        case False
        then show ?thesis using c Cons 2(2) [OF _ c Cons False]
          by (cases "simple_escape e") (auto intro: consumes_mono)
      qed
    qed (use c in simp)
  next
    case other
    then show ?thesis using 2(3) by (auto intro: consumes_mono)
  qed simp
qed simp

lemma parse_string_len:
  "parse_string s = Inr (str, owned, r) \<Longrightarrow> length r < length s"
  "parse_string s = Inl r \<Longrightarrow> length r \<le> length s"
  using string_slow_consumes [of "tl s" "[]"] length_dropWhile_tl(1) [of plain_char "tl s" dquote r]
  by (auto simp: parse_string_def split: option.splits sum.splits)

lemma scan_frac_len: "scan_frac s = Inr r \<Longrightarrow> length r \<le> length s" "scan_frac s = Inl r \<Longrightarrow> length r \<le> length s"
  by (auto simp: scan_frac_def split: option.splits if_splits intro: le_SucI length_dropWhile_le)

lemma scan_exp_len: "scan_exp s = Inr r \<Longrightarrow> length r \<le> length s" "scan_exp s = Inl r \<Longrightarrow> length r \<le> length s"
  by (auto simp: scan_exp_def Let_def split: if_splits intro: order_trans [OF length_dropWhile_le])

lemma at_digit_drop: "at_digit s \<Longrightarrow> length (dropWhile is_digit s) < length s"
  by (cases s) (auto simp: at_digit_def less_Suc_eq_le length_dropWhile_le)

lemma scan_number_len:
  "scan_number s = Inr r \<Longrightarrow> length r < length s" "scan_number s = Inl r \<Longrightarrow> length r \<le> length s"
  by (auto simp: scan_number_def Let_def split: option.splits if_splits sum.splits
      dest!: scan_frac_len scan_exp_len at_digit_drop)

lemma parse_number_consumes: "consumes (length s) (parse_number fc s)"
  by (auto simp: parse_number_def consumes_def split: sum.splits dest: scan_number_len)

lemma keyword_consumes: "w \<noteq> [] \<Longrightarrow> consumes (length s) (keyword w v s)"
  by (cases s) (auto simp: keyword_def)

lemma skip_ws_Cons: "skip_ws s = c # cs \<Longrightarrow> length cs < length s"
  using skip_ws_len [of s] by simp

lemma parse_consumes:
  fixes fc :: "string \<Rightarrow> 'd"
  shows "parse_value f fc s = Some x \<Longrightarrow> consumes (length s) x"
    and "parse_members f fc obj s = Some x \<Longrightarrow> consumes (length s) x"
    and "parse_elems f fc arr s = Some x \<Longrightarrow> consumes (length s) x"
proof (induction f fc s and f fc obj s and f fc arr s arbitrary: x and x and x
    rule: parse_value_parse_members_parse_elems.induct)
  case (2 f fc s0)
  show ?case
  proof (cases "skip_ws s0")
    case Nil
    then show ?thesis using "2.prems" by auto
  next
    case (Cons c cs)
    let ?s = "c # cs"
    have len: "length ?s \<le> length s0" using skip_ws_len [of s0] Cons by simp
    have ws: "length (skip_ws cs) < length s0" using skip_ws_len [of cs] len by simp
    have sub: "consumes (length (skip_ws cs)) y \<Longrightarrow> consumes (length s0) y" for y :: "string + 'd jval \<times> string"
      using ws by (auto intro: consumes_mono)
    have here: "consumes (length ?s) y \<Longrightarrow> consumes (length s0) y" for y :: "string + 'd jval \<times> string"
      using len by (auto intro: consumes_mono)
    consider "c = CHR ''{''" | "c = CHR ''[''" | "c = dquote" | "c = CHR ''t''" | "c = CHR ''f''" | "c = CHR ''n''"
      | "c \<notin> {CHR ''{'', CHR ''['', dquote, CHR ''t'', CHR ''f'', CHR ''n''}" by blast
    then show ?thesis
    proof cases
      case 1
      then show ?thesis using "2.prems" "2.IH"(1) [OF refl Cons 1 refl] sub ws Cons
        by (auto simp: Let_def split: option.splits)
    next
      case 2
      then show ?thesis using "2.prems" "2.IH"(2) [OF refl Cons _ 2 refl] sub ws Cons
        by (auto simp: Let_def split: option.splits)
    next
      case 3
      then show ?thesis using "2.prems" parse_string_len [of ?s] len Cons
        by (fastforce simp: Let_def split: sum.splits)
    next
      case 4
      then show ?thesis using "2.prems" Cons here [OF keyword_consumes] by (auto simp: Let_def)
    next
      case 5
      then show ?thesis using "2.prems" Cons here [OF keyword_consumes] by (auto simp: Let_def)
    next
      case 6
      then show ?thesis using "2.prems" Cons here [OF keyword_consumes] by (auto simp: Let_def)
    next
      case 7
      then show ?thesis using "2.prems" Cons here [OF parse_number_consumes] by (auto simp: Let_def)
    qed
  qed
next
  case (4 f fc obj s0)
  note len = skip_ws_len [of s0]
  show ?case
  proof (cases "parse_string (skip_ws s0)")
    case (Inl r)
    then show ?thesis using "4.prems" len parse_string_len(2) [OF Inl] by (auto simp: Let_def)
  next
    case (Inr p)
    obtain key owned r where p: "p = (key, owned, r)" by (cases p)
    have r: "length (skip_ws r) < length s0"
      using parse_string_len(1) [of "skip_ws s0" key owned r] Inr p len skip_ws_len [of r] by simp
    show ?thesis
    proof (cases "owned \<noteq> [] \<or> eat (CHR '':'') (skip_ws r) = None")
      case True
      then show ?thesis using "4.prems" Inr p r parse_string_len(1) [of "skip_ws s0" key owned r] len
        by (auto simp: Let_def split: if_splits)
    next
      case False
      then obtain r2 where r2: "skip_ws r = CHR '':'' # r2" and owned: "owned = []" by auto
      show ?thesis
      proof (cases "parse_value f fc r2")
        case None
        then show ?thesis using "4.prems" Inr p r2 owned by (auto simp: Let_def)
      next
        case (Some y)
        note cons = "4.IH"(1) [OF refl Inr p [symmetric] refl _ refl _ Some]
        show ?thesis
        proof (cases y)
          case (Inl e)
          then show ?thesis using "4.prems" Some Inr p r2 owned r cons by (auto simp: Let_def)
        next
          case y: (Inr q)
          obtain val r3 where q: "q = (val, r3)" by (cases q)
          have "length (skip_ws r3) < length s0" using cons y q r2 r owned skip_ws_len [of r3] by simp
          then show ?thesis
            using "4.prems" Some Inr p r2 owned y q
              "4.IH"(2) [OF refl Inr p [symmetric] refl _ refl _ Some y q [symmetric] refl refl]
            by (auto simp: Let_def split: option.splits) (meson consumes_mono Suc_lessD less_imp_le)
        qed
      qed
    qed
  qed
next
  case (6 f fc arr s0)
  show ?case
  proof (cases "parse_value f fc s0")
    case (Some y)
    note cons = "6.IH"(1) [OF Some]
    show ?thesis
    proof (cases y)
      case (Inl e)
      then show ?thesis using "6.prems" Some cons by auto
    next
      case (Inr q)
      obtain val r3 where q: "q = (val, r3)" by (cases q)
      have "length (skip_ws r3) < length s0" using cons Inr q skip_ws_len [of r3] by simp
      then show ?thesis
        using "6.prems" Some Inr q "6.IH"(2) [OF Some Inr q [symmetric] refl refl]
        by (auto simp: Let_def split: option.splits) (meson consumes_mono Suc_lessD less_imp_le)
    qed
  qed (use "6.prems" in auto)
qed simp_all

lemma parse_total:
  shows "2 * length s < f \<Longrightarrow> parse_value f fc s \<noteq> None"
    and "2 * length s + 1 < f \<Longrightarrow> parse_members f fc obj s \<noteq> None"
    and "2 * length s + 1 < f \<Longrightarrow> parse_elems f fc arr s \<noteq> None"
proof (induction f fc s and f fc obj s and f fc arr s
    rule: parse_value_parse_members_parse_elems.induct)
  case (2 f fc s0)
  show ?case
  proof (cases "skip_ws s0")
    case (Cons c cs)
    have ws: "2 * length (skip_ws cs) + 1 < f"
      using skip_ws_len [of s0] skip_ws_len [of cs] Cons "2.prems" by simp
    show ?thesis
      using Cons ws "2.IH"(1) [OF refl Cons _ refl] "2.IH"(2) [OF refl Cons _ _ refl]
      by (auto simp: Let_def split: option.split sum.split)
  qed simp
next
  case (4 f fc obj s0)
  show ?case
  proof (cases "parse_string (skip_ws s0)")
    case (Inr p)
    obtain key owned r where p: "p = (key, owned, r)" by (cases p)
    have r: "length (skip_ws r) < length s0"
      using parse_string_len(1) [of "skip_ws s0" key owned r] Inr p skip_ws_len [of s0] skip_ws_len [of r] by simp
    have step: "parse_value f fc r2 \<noteq> None" if "owned = []" "skip_ws r = CHR '':'' # r2" for r2
      using "4.IH"(1) [OF refl Inr p [symmetric] refl _ refl] that r "4.prems" by simp
    have rest: "parse_members f fc (obj @ [(key, val)]) r5 \<noteq> None"
      if "owned = []" "skip_ws r = CHR '':'' # r2" "parse_value f fc r2 = Some (Inr (val, r3))" "skip_ws r3 = CHR '','' # r5"
      for r2 val r3 r5
      using "4.IH"(2) [OF refl Inr p [symmetric] refl _ refl _ that(3) refl refl refl refl] that r "4.prems"
        parse_consumes(1) [OF that(3)] skip_ws_len [of r3] by simp
    show ?thesis using Inr p step rest
      by (auto simp: Let_def split: option.splits sum.splits)
  qed (simp add: Let_def)
next
  case (6 f fc arr s0)
  have rest: "parse_elems f fc (arr @ [val]) r5 \<noteq> None"
    if "parse_value f fc s0 = Some (Inr (val, r3))" "skip_ws r3 = CHR '','' # r5" for val r3 r5
    using "6.IH"(2) [OF that(1) refl refl refl refl] that "6.prems"
      parse_consumes(1) [OF that(1)] skip_ws_len [of r3] by simp
  show ?case using "6.IH"(1) "6.prems" rest
    by (auto simp: Let_def split: option.splits sum.splits)
qed simp_all


end
