(* ===== verification/Json_Roundtrip.thy ===== *)
theory Json_Roundtrip
  imports Json
begin

text \<open>
  Reading back what the writer of \<open>src/util/json.cpp\<close> produces. The two functions of the C++ library
  that turn a double into text and back are parameters; what the round trip needs of them is
  \<open>number_text_ok\<close>: on finite numbers the text is a JSON number and scans to the number.
\<close>

section \<open>Strings\<close>

lemma hex_digit_char [simp]: "d < 16 \<Longrightarrow> hex_digit (hex_char d) = Some d"
  by (simp add: hex_digit_def hex_char_def)

lemma nibbles: "push_bit 4 (of_nat (n div 16)) OR of_nat (n mod 16) = (of_nat n :: u32)"
proof -
  have "push_bit 4 (drop_bit 4 n) OR take_bit 4 n = n"
    by (rule bit_eqI) (auto simp: bit_simps not_le)
  then have "push_bit 4 (n div 16) OR (n mod 16) = n" by (simp add: drop_bit_eq_div take_bit_eq_mod)
  then show ?thesis by (metis of_nat_or_eq push_bit_of_nat)
qed

lemma hexn_text:
  assumes "n < 32"
  shows "hexn 4 0 (hex4_text n @ t) = Inr (of_nat n, t)"
proof -
  have four: "hexn 4 = hexn (Suc (Suc (Suc (Suc 0))))" by (simp add: eval_nat_numeral)
  have "n div 4096 = 0" "n div 256 = 0" "n div 16 < 16" "n mod 16 < 16" using assms by simp_all
  then have "hexn 4 0 (hex4_text n @ t) = Inr (push_bit 4 (of_nat (n div 16)) OR of_nat (n mod 16), t)"
    unfolding four hex4_text_def by (simp del: push_bit_numeral)
  then show ?thesis by (simp only: nibbles)
qed

lemma unicode_escape_text:
  assumes "n < 32"
  shows "unicode_escape (hex4_text n @ t) = Inr ([byte_of n], t)"
proof -
  have "unat (of_nat n :: u32) = n" using assms by (simp add: unat_of_nat)
  moreover have "length (hex4_text n) = 4" by (simp add: hex4_text_def)
  moreover have "\<not> (of_nat n :: u32) \<ge> 0xD800" "(of_nat n :: u32) < 0x80"
    using assms \<open>unat _ = n\<close> by (simp_all add: word_le_nat_alt word_less_nat_alt)
  ultimately show ?thesis
    by (simp add: unicode_escape_def hexn_text [OF assms] utf8_encode_def char_of_u32_def)
qed

lemma string_slow_escape: "string_slow acc (escape_char c @ t) = string_slow (acc @ [c]) t"
proof -
  consider "c \<in> {dquote, bslash, CHR 0x08, CHR 0x0C, nl, cr, tab}"
    | "c \<notin> {dquote, bslash, CHR 0x08, CHR 0x0C, nl, cr, tab}" "byte_val c < 0x20"
    | "c \<notin> {dquote, bslash, CHR 0x08, CHR 0x0C, nl, cr, tab}" "\<not> byte_val c < 0x20" by blast
  then show ?thesis
  proof cases
    case 1
    then show ?thesis by (auto simp: escape_char_def simple_escape_def)
  next
    case 2
    then show ?thesis by (simp add: escape_char_def unicode_escape_text)
  next
    case 3
    then show ?thesis by (simp add: escape_char_def)
  qed
qed

lemma string_slow_text:
  "string_slow acc (concat (map escape_char s) @ dquote # t) = Inr (acc @ s, t)"
  by (induction s arbitrary: acc) (simp_all add: string_slow_escape)

lemma escape_plain: "plain_char c \<Longrightarrow> escape_char c = [c]"
  by (auto simp: escape_char_def plain_char_def byte_val_def)

lemma escape_special: "\<not> plain_char c \<Longrightarrow> \<exists>u. escape_char c = bslash # u"
  by (auto simp: escape_char_def plain_char_def)

lemma escaped_scan:
  "list_all plain_char s \<Longrightarrow> takeWhile plain_char (concat (map escape_char s) @ dquote # t) = s \<and>
     dropWhile plain_char (concat (map escape_char s) @ dquote # t) = dquote # t"
  "\<not> list_all plain_char s \<Longrightarrow> \<exists>u. dropWhile plain_char (concat (map escape_char s) @ dquote # t) = bslash # u"
proof (induction s)
  case (Cons c s)
  {
    case 1
    then show ?case using Cons.IH(1) by (simp add: escape_plain)
  next
    case 2
    then show ?case using Cons.IH(2) escape_special [of c]
      by (cases "plain_char c") (auto simp: escape_plain plain_char_def [of bslash])
  }
qed (simp_all add: plain_char_def)

lemma parse_string_text:
  "parse_string (write_escaped s @ t) = Inr (s, if list_all plain_char s then [] else s, t)"
proof (cases "list_all plain_char s")
  case True
  then show ?thesis using escaped_scan(1) [of s t] by (simp add: parse_string_def write_escaped_def)
next
  case False
  then obtain u where "dropWhile plain_char (concat (map escape_char s) @ dquote # t) = bslash # u"
    using escaped_scan(2) by blast
  then show ?thesis using False string_slow_text [of "[]" s t]
    by (simp add: parse_string_def write_escaped_def)
qed

section \<open>Numbers\<close>

text \<open>The grammar \<open>-?digits[.digits][e[+-]digits]\<close>, and the characters that may follow a value.\<close>

definition digits :: "string \<Rightarrow> bool" where
  "digits s \<longleftrightarrow> s \<noteq> [] \<and> list_all is_digit s"

definition number_text :: "string \<Rightarrow> bool" where
  "number_text s \<longleftrightarrow> (\<exists>neg int frac ex. s = neg @ int @ frac @ ex \<and> neg \<in> {[], ''-''} \<and> digits int \<and>
     (frac = [] \<or> (\<exists>d. frac = CHR ''.'' # d \<and> digits d)) \<and>
     (ex = [] \<or> (\<exists>e sg d. ex = e # sg @ d \<and> e \<in> {CHR ''e'', CHR ''E''} \<and> sg \<in> {[], ''+'', ''-''} \<and> digits d)))"

definition ok_tail :: "string \<Rightarrow> bool" where
  "ok_tail t \<longleftrightarrow> t = [] \<or> hd t \<in> {CHR '','', CHR '']'', CHR ''}''}"

definition not_digit_first :: "string \<Rightarrow> bool" where
  "not_digit_first t \<longleftrightarrow> t = [] \<or> \<not> is_digit (hd t)"

lemma digits_drop: "digits d \<Longrightarrow> not_digit_first t \<Longrightarrow> dropWhile is_digit (d @ t) = t \<and> at_digit (d @ t)"
  by (cases d; cases t) (auto simp: digits_def not_digit_first_def at_digit_def list_all_iff)

lemma sign_not_digit [simp]:
  "\<not> is_digit (CHR ''.'')" "\<not> is_digit (CHR ''e'')" "\<not> is_digit (CHR ''E'')" "\<not> is_digit (CHR ''-'')"
  "\<not> is_digit (CHR ''+'')" "\<not> is_digit (CHR '','')" "\<not> is_digit (CHR '']'')" "\<not> is_digit (CHR ''}'')"
  by (simp_all add: is_digit_def byte_val_def)

lemma ok_tail_facts:
  assumes "ok_tail t"
  shows "not_digit_first t" "eat (CHR ''.'') t = None" "\<not> (t \<noteq> [] \<and> (hd t = CHR ''e'' \<or> hd t = CHR ''E''))"
    "skip_ws t = t"
  using assms by (cases t; auto simp: ok_tail_def not_digit_first_def skip_ws_def is_json_ws_def)+

lemma digit_hd: "digits d \<Longrightarrow> \<exists>c u. d = c # u \<and> is_digit c"
  by (cases d) (auto simp: digits_def)

lemma scan_exp_text:
  assumes "ex = [] \<or> (\<exists>e sg d. ex = e # sg @ d \<and> e \<in> {CHR ''e'', CHR ''E''} \<and> sg \<in> {[], ''+'', ''-''} \<and> digits d)"
    and "ok_tail t"
  shows "scan_exp (ex @ t) = Inr t"
proof (cases "ex = []")
  case True
  then show ?thesis using ok_tail_facts(3) [OF assms(2)] by (auto simp: scan_exp_def)
next
  case False
  then obtain e sg d where ex: "ex = e # sg @ d" "e \<in> {CHR ''e'', CHR ''E''}" "sg \<in> {[], ''+'', ''-''}" "digits d"
    using assms(1) by blast
  have hd: "hd (d @ t) \<noteq> CHR ''+''" "hd (d @ t) \<noteq> CHR ''-''" using digit_hd [OF ex(4)] by auto
  have "dropWhile is_digit (d @ t) = t" "at_digit (d @ t)"
    using digits_drop [OF ex(4) ok_tail_facts(1) [OF assms(2)]] by auto
  then show ?thesis using ex hd by (auto simp: scan_exp_def)
qed

lemma scan_number_text:
  assumes "number_text s" "ok_tail t"
  shows "scan_number (s @ t) = Inr t"
proof -
  from assms(1) obtain neg int frac ex where s: "s = neg @ int @ frac @ ex" and neg: "neg \<in> {[], ''-''}"
    and int: "digits int" and frac: "frac = [] \<or> (\<exists>d. frac = CHR ''.'' # d \<and> digits d)"
    and ex: "ex = [] \<or> (\<exists>e sg d. ex = e # sg @ d \<and> e \<in> {CHR ''e'', CHR ''E''} \<and> sg \<in> {[], ''+'', ''-''} \<and> digits d)"
    unfolding number_text_def by blast
  have nd_ex: "not_digit_first (ex @ t)" using ex ok_tail_facts(1) [OF assms(2)] by (auto simp: not_digit_first_def)
  have nd_frac: "not_digit_first (frac @ ex @ t)" using frac nd_ex by (auto simp: not_digit_first_def)
  have "scan_frac (frac @ ex @ t) = Inr (ex @ t)"
    using frac
  proof
    assume "frac = []"
    moreover have "eat (CHR ''.'') (ex @ t) = None" using ex ok_tail_facts(2) [OF assms(2)] by auto
    ultimately show ?thesis by (simp add: scan_frac_def)
  next
    assume "\<exists>d. frac = CHR ''.'' # d \<and> digits d"
    then show ?thesis using digits_drop [OF _ nd_ex] by (auto simp: scan_frac_def)
  qed
  moreover have "(case eat (CHR ''-'') (neg @ int @ u) of None \<Rightarrow> neg @ int @ u | Some r \<Rightarrow> r) = int @ u" for u
    using neg digit_hd [OF int] by (auto simp: eat_def)
  ultimately show ?thesis
    using digits_drop [OF int nd_frac] scan_exp_text [OF ex assms(2)] by (simp add: scan_number_def s)
qed

section \<open>Values\<close>

definition number_text_ok :: "('d \<Rightarrow> bool) \<Rightarrow> ('d \<Rightarrow> string) \<Rightarrow> (string \<Rightarrow> 'd) \<Rightarrow> bool" where
  "number_text_ok fin fmt from_chars \<longleftrightarrow> (\<forall>d. fin d \<longrightarrow> number_text (fmt d) \<and> from_chars (fmt d) = d)"

text \<open>The values that can be read back: finite numbers, and object keys that need no escape.\<close>

fun json_ok :: "('d \<Rightarrow> bool) \<Rightarrow> 'd jval \<Rightarrow> bool" where
  "json_ok fin (JNum d) \<longleftrightarrow> fin d"
| "json_ok fin (JArr vs) \<longleftrightarrow> list_all (json_ok fin) vs"
| "json_ok fin (JObj kvs) \<longleftrightarrow> list_all (\<lambda>(k, v). list_all plain_char k \<and> json_ok fin v) kvs"
| "json_ok fin v \<longleftrightarrow> True"

lemma number_first:
  assumes "number_text s"
  obtains c u where "s = c # u" "is_digit c \<or> c = CHR ''-''"
  using assms unfolding number_text_def by (auto dest!: digit_hd)

lemma digit_not_special:
  "is_digit c \<or> c = CHR ''-'' \<Longrightarrow> \<not> is_json_ws c \<and>
     c \<notin> {CHR '']'', CHR ''}'', CHR ''{'', CHR ''['', dquote, CHR ''t'', CHR ''f'', CHR ''n''}"
  by (auto simp: is_json_ws_def is_digit_def byte_val_def)

lemma write_value_first:
  assumes "number_text_ok fin fmt fc" "json_ok fin v"
  obtains c u where "write_value fmt v = c # u" "\<not> is_json_ws c" "c \<noteq> CHR '']''"
proof (cases v)
  case (JNum d)
  then have "number_text (fmt d)" using assms by (simp add: number_text_ok_def)
  then obtain c u where "fmt d = c # u" "is_digit c \<or> c = CHR ''-''" by (rule number_first)
  then show ?thesis using that JNum digit_not_special by fastforce
next
  case (JBool b)
  then show ?thesis by (cases b) (auto simp: is_json_ws_def intro: that)
qed (auto simp: write_escaped_def is_json_ws_def intro: that)

lemma skip_ws_first: "\<not> is_json_ws c \<Longrightarrow> skip_ws (c # u) = c # u"
  by (simp add: skip_ws_def)

lemma skip_ws_punct [simp]:
  "skip_ws (CHR '']'' # t) = CHR '']'' # t" "skip_ws (CHR ''}'' # t) = CHR ''}'' # t"
  "skip_ws (CHR '','' # t) = CHR '','' # t" "skip_ws (CHR '':'' # t) = CHR '':'' # t"
  "skip_ws (dquote # t) = dquote # t" "skip_ws (CHR ''['' # t) = CHR ''['' # t" "skip_ws (CHR ''{'' # t) = CHR ''{'' # t"
  by (simp_all add: skip_ws_def is_json_ws_def)

lemma ok_tail_punct [simp]: "ok_tail (CHR '']'' # t)" "ok_tail (CHR ''}'' # t)" "ok_tail (CHR '','' # t)" "ok_tail []"
  by (simp_all add: ok_tail_def)

text \<open>What it means that a value text is read back, for every recursion bound that suffices.\<close>

definition reads_back :: "('d \<Rightarrow> string) \<Rightarrow> (string \<Rightarrow> 'd) \<Rightarrow> 'd jval \<Rightarrow> bool" where
  "reads_back fmt fc v \<longleftrightarrow> (\<forall>f t. ok_tail t \<longrightarrow> parse_value f fc (write_value fmt v @ t) \<noteq> None \<longrightarrow>
     parse_value f fc (write_value fmt v @ t) = Some (Inr (v, t)))"

lemma parse_elems_text:
  "vs \<noteq> [] \<Longrightarrow> \<forall>v \<in> set vs. reads_back fmt fc v \<Longrightarrow>
   parse_elems f fc arr (commas (map (write_value fmt) vs) @ CHR '']'' # t) \<noteq> None \<Longrightarrow>
   parse_elems f fc arr (commas (map (write_value fmt) vs) @ CHR '']'' # t) = Some (Inr (JArr (arr @ vs), t))"
proof (induction vs arbitrary: f arr)
  case (Cons v vs)
  show ?case
  proof (cases f)
    case 0
    then show ?thesis using Cons.prems by simp
  next
    case (Suc g)
    let ?rest = "case vs of [] \<Rightarrow> CHR '']'' # t | _ \<Rightarrow> CHR '','' # commas (map (write_value fmt) vs) @ CHR '']'' # t"
    have shape: "commas (map (write_value fmt) (v # vs)) @ CHR '']'' # t = write_value fmt v @ ?rest"
      by (cases vs) simp_all
    have tail: "ok_tail ?rest" by (cases vs) simp_all
    have "parse_value g fc (write_value fmt v @ ?rest) \<noteq> None"
      using Cons.prems(3) unfolding shape Suc by (rule contrapos_nn) (simp del: parse_value.simps)
    then have val: "parse_value g fc (write_value fmt v @ ?rest) = Some (Inr (v, ?rest))"
      using Cons.prems(2) tail by (simp add: reads_back_def del: parse_value.simps)
    show ?thesis
    proof (cases vs)
      case Nil
      then show ?thesis using val unfolding shape Suc by (simp del: parse_value.simps)
    next
      case vs: (Cons w ws)
      then have step: "parse_elems f fc arr (write_value fmt v @ ?rest) =
          parse_elems g fc (arr @ [v]) (commas (map (write_value fmt) vs) @ CHR '']'' # t)"
        using val unfolding Suc by (simp del: parse_value.simps)
      then show ?thesis using Cons.IH [of g "arr @ [v]"] vs Cons.prems unfolding shape by simp
    qed
  qed
qed simp

lemma parse_members_text:
  "kvs \<noteq> [] \<Longrightarrow> \<forall>(k, v) \<in> set kvs. list_all plain_char k \<and> reads_back fmt fc v \<Longrightarrow>
   s = commas (map (\<lambda>(k, v). write_escaped k @ CHR '':'' # write_value fmt v) kvs) @ CHR ''}'' # t \<Longrightarrow>
   parse_members f fc obj s \<noteq> None \<Longrightarrow>
   parse_members f fc obj s = Some (Inr (JObj (obj @ kvs), t))"
proof (induction kvs arbitrary: f obj s)
  case (Cons kv kvs)
  obtain k v where kv: "kv = (k, v)" by (cases kv)
  show ?case
  proof (cases f)
    case 0
    then show ?thesis using Cons.prems by simp
  next
    case (Suc g)
    let ?more = "commas (map (\<lambda>(k, v). write_escaped k @ CHR '':'' # write_value fmt v) kvs) @ CHR ''}'' # t"
    let ?rest = "case kvs of [] \<Rightarrow> CHR ''}'' # t | _ \<Rightarrow> CHR '','' # ?more"
    have shape: "s = write_escaped k @ CHR '':'' # write_value fmt v @ ?rest"
      using Cons.prems(3) kv by (cases kvs) simp_all
    have tail: "ok_tail ?rest" by (cases kvs) simp_all
    have plain: "list_all plain_char k" "reads_back fmt fc v" using Cons.prems(2) kv by auto
    have ws: "skip_ws s = s" unfolding shape by (simp add: write_escaped_def)
    have str: "parse_string (skip_ws s) = Inr (k, [], CHR '':'' # write_value fmt v @ ?rest)"
      unfolding ws unfolding shape using plain(1) by (simp only: parse_string_text if_True)
    have "parse_value g fc (write_value fmt v @ ?rest) \<noteq> None"
      using Cons.prems(4) unfolding Suc by (rule contrapos_nn) (simp add: str Let_def del: parse_value.simps)
    then have val: "parse_value g fc (write_value fmt v @ ?rest) = Some (Inr (v, ?rest))"
      using plain(2) tail by (simp add: reads_back_def del: parse_value.simps)
    show ?thesis
    proof (cases kvs)
      case Nil
      then show ?thesis using val str kv unfolding Suc by (simp add: Let_def del: parse_value.simps)
    next
      case kvs: (Cons w ws)
      then have step: "parse_members f fc obj s = parse_members g fc (obj @ [(k, v)]) ?more"
        using val str unfolding Suc by (simp add: Let_def del: parse_value.simps)
      then show ?thesis using Cons.IH [of ?more g "obj @ [(k, v)]"] kvs Cons.prems kv by simp
    qed
  qed
qed simp

lemma parse_value_at:
  "\<not> is_json_ws c \<Longrightarrow> parse_value (Suc f) fc (c # cs) =
     (if c = CHR ''{'' then
        (case eat (CHR ''}'') (skip_ws cs) of Some r \<Rightarrow> Some (Inr (JObj [], r)) | None \<Rightarrow> parse_members f fc [] (skip_ws cs))
      else if c = CHR ''['' then
        (case eat (CHR '']'') (skip_ws cs) of Some r \<Rightarrow> Some (Inr (JArr [], r)) | None \<Rightarrow> parse_elems f fc [] (skip_ws cs))
      else if c = dquote then
        (case parse_string (c # cs) of Inl r \<Rightarrow> Some (Inl r)
         | Inr (str, owned, r) \<Rightarrow> Some (Inr (JStr (if owned \<noteq> [] then owned else str), r)))
      else if c = CHR ''t'' then Some (keyword ''true'' (JBool True) (c # cs))
      else if c = CHR ''f'' then Some (keyword ''false'' (JBool False) (c # cs))
      else if c = CHR ''n'' then Some (keyword ''null'' JNull (c # cs))
      else Some (parse_number fc (c # cs)))"
  by (simp add: skip_ws_first Let_def)

declare parse_value.simps [simp del] parse_members.simps [simp del] parse_elems.simps [simp del]

lemma reads_backI:
  assumes "\<And>f t. ok_tail t \<Longrightarrow> parse_value (Suc f) fc (write_value fmt v @ t) \<noteq> None \<Longrightarrow>
      parse_value (Suc f) fc (write_value fmt v @ t) = Some (Inr (v, t))"
  shows "reads_back fmt fc v"
  unfolding reads_back_def
proof (intro allI impI)
  fix f t assume "ok_tail t" "parse_value f fc (write_value fmt v @ t) \<noteq> None"
  then show "parse_value f fc (write_value fmt v @ t) = Some (Inr (v, t))"
    using assms by (cases f) (simp_all add: parse_value.simps(1))
qed

lemma reads_back_all:
  assumes num: "number_text_ok fin fmt fc"
  shows "json_ok fin v \<Longrightarrow> reads_back fmt fc v"
proof (induction v)
  case JNull
  show ?case by (rule reads_backI) (simp add: parse_value_at is_json_ws_def keyword_def)
next
  case (JBool b)
  show ?case by (rule reads_backI) (cases b; simp add: parse_value_at is_json_ws_def keyword_def)
next
  case (JNum d)
  then have t: "number_text (fmt d)" "fc (fmt d) = d" using num by (auto simp: number_text_ok_def)
  from t(1) obtain c u where c: "fmt d = c # u" "is_digit c \<or> c = CHR ''-''" by (rule number_first)
  note sp = digit_not_special [OF c(2)]
  show ?case
  proof (rule reads_backI)
    fix f t' assume ok: "ok_tail t'"
    have "parse_value (Suc f) fc (fmt d @ t') = Some (parse_number fc (fmt d @ t'))"
      using sp c(1) by (simp add: parse_value_at)
    also have "parse_number fc (fmt d @ t') = Inr (JNum d, t')"
      using scan_number_text [OF t(1) ok] t(2) by (simp add: parse_number_def)
    finally show "parse_value (Suc f) fc (write_value fmt (JNum d) @ t') = Some (Inr (JNum d, t'))" by simp
  qed
next
  case (JStr s)
  show ?case
  proof (rule reads_backI)
    fix f t
    have "parse_value (Suc f) fc (write_escaped s @ t) =
        (case parse_string (write_escaped s @ t) of Inl r \<Rightarrow> Some (Inl r)
         | Inr (str, owned, r) \<Rightarrow> Some (Inr (JStr (if owned \<noteq> [] then owned else str), r)))"
      by (simp add: write_escaped_def parse_value_at is_json_ws_def)
    then show "parse_value (Suc f) fc (write_value fmt (JStr s) @ t) = Some (Inr (JStr s, t))"
      by (simp add: parse_string_text)
  qed
next
  case (JArr vs)
  show ?case
  proof (rule reads_backI)
    fix f t
    assume nn: "parse_value (Suc f) fc (write_value fmt (JArr vs) @ t) \<noteq> None"
    let ?s = "commas (map (write_value fmt) vs) @ CHR '']'' # t"
    have readable: "\<forall>v \<in> set vs. reads_back fmt fc v" using JArr by (auto simp: list_all_iff)
    show "parse_value (Suc f) fc (write_value fmt (JArr vs) @ t) = Some (Inr (JArr vs, t))"
    proof (cases vs)
      case Nil
      then show ?thesis by (simp add: parse_value_at is_json_ws_def)
    next
      case (Cons v ws)
      have "json_ok fin v" using JArr.prems Cons by simp
      then obtain c u where c: "write_value fmt v = c # u" "\<not> is_json_ws c" "c \<noteq> CHR '']''"
        using write_value_first [OF num] by blast
      have s: "\<exists>w. ?s = c # w" using Cons c(1) by (cases ws) auto
      then have "skip_ws ?s = ?s" "eat (CHR '']'') ?s = None" using c by (auto simp: skip_ws_first)
      then have step: "parse_value (Suc f) fc (write_value fmt (JArr vs) @ t) = parse_elems f fc [] ?s"
        by (simp add: parse_value_at is_json_ws_def)
      then show ?thesis using parse_elems_text [OF _ readable, of f "[]" t] nn Cons by auto
    qed
  qed
next
  case (JObj kvs)
  show ?case
  proof (rule reads_backI)
    fix f t
    assume nn: "parse_value (Suc f) fc (write_value fmt (JObj kvs) @ t) \<noteq> None"
    let ?s = "commas (map (\<lambda>(k, v). write_escaped k @ CHR '':'' # write_value fmt v) kvs) @ CHR ''}'' # t"
    have readable: "\<forall>(k, v) \<in> set kvs. list_all plain_char k \<and> reads_back fmt fc v"
      using JObj by (fastforce simp: list_all_iff)
    show "parse_value (Suc f) fc (write_value fmt (JObj kvs) @ t) = Some (Inr (JObj kvs, t))"
    proof (cases kvs)
      case Nil
      then show ?thesis by (simp add: parse_value_at is_json_ws_def)
    next
      case (Cons kv ws)
      have "\<exists>w. ?s = dquote # w" using Cons by (cases kv; cases ws) (auto simp: write_escaped_def)
      then have "skip_ws ?s = ?s" "eat (CHR ''}'') ?s = None" by (auto simp: skip_ws_def is_json_ws_def)
      then have step: "parse_value (Suc f) fc (write_value fmt (JObj kvs) @ t) = parse_members f fc [] ?s"
        by (simp add: parse_value_at is_json_ws_def)
      then show ?thesis using parse_members_text [OF _ readable refl, of f "[]"] nn Cons by auto
    qed
  qed
qed

lemma reads_back_parse:
  assumes "number_text_ok fin fmt from_chars" "json_ok fin v"
  shows "parse_json from_chars (to_json fmt v) = Some (Inr v)"
proof -
  have "parse_value (Suc (2 * length (to_json fmt v))) from_chars (to_json fmt v) \<noteq> None" by (rule parse_total) simp
  then have "parse_value (Suc (2 * length (to_json fmt v))) from_chars (to_json fmt v) = Some (Inr (v, []))"
    using reads_back_all [OF assms] unfolding reads_back_def to_json_def by (metis append_Nil2 ok_tail_punct(4))
  then show ?thesis by (simp add: parse_json_def skip_ws_def)
qed

section \<open>Number conversions\<close>

text \<open>
  The conversions of a client read back what they print, for the numbers that come from unsigned integers. Natural
  numbers with their decimal notation are an instance.
\<close>

definition nums_ok :: "'d num_ops \<Rightarrow> bool" where
  "nums_ok N \<longleftrightarrow> number_text_ok (\<lambda>d. d \<in> range (n_of_u64 N)) (n_format N) (n_from_chars N)"

definition nat_nums :: "nat num_ops" where
  "nat_nums = \<lparr>n_from_chars = dec_value 0, n_format = show_nat, n_of_u64 = unat, n_to_u64 = of_nat\<rparr>"

lemma nat_text_ok: "number_text_ok fin show_nat (dec_value 0)"
proof -
  have "number_text (show_nat n)" for n
    unfolding number_text_def
    by (intro exI [of _ "[]"] exI [of _ "show_nat n"]) (simp add: digits_def show_nat_digits)
  then show ?thesis by (simp add: number_text_ok_def dec_value_show_nat)
qed

lemma nat_nums_ok: "nums_ok nat_nums"
  using nat_text_ok by (simp add: nums_ok_def nat_nums_def)

text \<open>
  C10: writing a value and reading it back gives the value, with nothing left over: strings of any bytes,
  nested arrays and objects, and finite numbers, as long as no object key needs an escape.
\<close>

theorem json_roundtrip:
  assumes "number_text_ok fin fmt from_chars" "json_ok fin v"
  shows "parse_json from_chars (to_json fmt v) = Some (Inr v)"
  using assms by (rule reads_back_parse)

theorem json_roundtrip_witness:
  "parse_json (dec_value 0) (to_json show_nat
     (JObj [(''path'', JStr ''a/b''), (''lines'', JArr [JNum 3, JNum 14, JNull]), (''ok'', JBool True)])) =
   Some (Inr (JObj [(''path'', JStr ''a/b''), (''lines'', JArr [JNum 3, JNum 14, JNull]), (''ok'', JBool True)]))"
  using json_roundtrip [OF nat_text_ok [of "\<lambda>_. True"]] by (simp add: plain_char_def byte_val_def)

section \<open>Deviations\<close>

text \<open>The writer escapes a key that needs it; the reader refuses every escaped key.\<close>

lemma escaped_key_refused:
  "to_json fmt (JObj [([dquote], JNull)]) = ''{'' @ [dquote, bslash, dquote, dquote] @ '':null}''"
  "\<exists>e. parse_json fc (''{'' @ [dquote, bslash, dquote, dquote] @ '':null}'') = Some (Inl e)"
  by (simp_all add: to_json_def write_escaped_def escape_char_def parse_json_def parse_value_at is_json_ws_def
      parse_members.simps parse_string_def plain_char_def simple_escape_def eval_nat_numeral)

text \<open>A high surrogate followed by an escape that is no low surrogate is combined all the same, with a
  subtraction that wraps: the two escapes D800 and 0041 become the code point 2441.\<close>

lemma surrogate_unchecked:
  "unicode_escape (''d800'' @ [bslash] @ ''u0041'') = Inr (utf8_encode 0x2441, [])"
proof -
  have four: "hexn 4 = hexn (Suc (Suc (Suc (Suc 0))))" by (simp add: eval_nat_numeral)
  have "hexn 4 0 (''d800'' @ [bslash] @ ''u0041'') = Inr (0xD800, bslash # ''u0041'')"
    and "hexn 4 0 ''0041'' = Inr (0x41, [])"
    unfolding four by (simp_all add: hex_digit_def byte_val_def)
  then show ?thesis by (simp add: unicode_escape_def)
qed

end
