(* ===== verification/Messages.thy ===== *)
theory Messages
  imports Json Base64
begin

text \<open>
  Messages and their parts (\<open>src/msg/message.h\<close>, \<open>part.h\<close>, \<open>role.h\<close>, \<open>finish.h\<close>), the accessors and the
  JSON form of \<open>src/msg/message.cpp\<close>. \<open>from_json\<close> updates the message it is given, also when it fails
  half-way. The casts between \<open>std::uint64_t\<close> and \<open>double\<close> are parameters, like the number type.
\<close>

section \<open>Data\<close>

datatype Role = role_user | role_assistant | role_system | role_tool

datatype FinishReason = end_turn | max_tokens | tool_use | canceled | finish_error | permission_denied | finish_unknown

datatype PartKind = kind_text | kind_reasoning | kind_image_url | kind_binary | kind_tool_call | kind_tool_result | kind_finish

datatype Part =
    Text string
  | Reasoning string
  | ImageUrl string
  | Binary string string
  | ToolCall string string string bool
  | ToolResult string string bool
  | Finish FinishReason

record Message =
  msg_id :: string
  session_id :: string
  msg_role :: Role
  msg_model :: string
  parts :: "Part list"
  created_at :: u64

definition empty_message :: Message where
  "empty_message = \<lparr>msg_id = [], session_id = [], msg_role = role_user, msg_model = [], parts = [], created_at = 0\<rparr>"

fun part_kind :: "Part \<Rightarrow> PartKind" where
  "part_kind (Text _) = kind_text"
| "part_kind (Reasoning _) = kind_reasoning"
| "part_kind (ImageUrl _) = kind_image_url"
| "part_kind (Binary _ _) = kind_binary"
| "part_kind (ToolCall _ _ _ _) = kind_tool_call"
| "part_kind (ToolResult _ _ _) = kind_tool_result"
| "part_kind (Finish _) = kind_finish"

fun kind_str :: "PartKind \<Rightarrow> string" where
  "kind_str kind_text = ''text''"
| "kind_str kind_reasoning = ''reasoning''"
| "kind_str kind_image_url = ''image_url''"
| "kind_str kind_binary = ''binary''"
| "kind_str kind_tool_call = ''tool_call''"
| "kind_str kind_tool_result = ''tool_result''"
| "kind_str kind_finish = ''finish''"

fun role_str :: "Role \<Rightarrow> string" where
  "role_str role_user = ''user''"
| "role_str role_assistant = ''assistant''"
| "role_str role_system = ''system''"
| "role_str role_tool = ''tool''"

definition role_from_string :: "string \<Rightarrow> Role option" where
  "role_from_string s =
     (if s = ''user'' then Some role_user
      else if s = ''assistant'' then Some role_assistant
      else if s = ''system'' then Some role_system
      else if s = ''tool'' then Some role_tool
      else None)"

fun finish_str :: "FinishReason \<Rightarrow> string" where
  "finish_str end_turn = ''end_turn''"
| "finish_str max_tokens = ''max_tokens''"
| "finish_str tool_use = ''tool_use''"
| "finish_str canceled = ''canceled''"
| "finish_str finish_error = ''error''"
| "finish_str permission_denied = ''permission_denied''"
| "finish_str finish_unknown = ''unknown''"

definition finish_from_string :: "string \<Rightarrow> FinishReason option" where
  "finish_from_string s =
     (if s = ''end_turn'' then Some end_turn
      else if s = ''max_tokens'' then Some max_tokens
      else if s = ''tool_use'' then Some tool_use
      else if s = ''canceled'' then Some canceled
      else if s = ''error'' then Some finish_error
      else if s = ''permission_denied'' then Some permission_denied
      else if s = ''unknown'' then Some finish_unknown
      else None)"

lemma role_from_str [simp]: "role_from_string (role_str r) = Some r"
  by (cases r) (simp_all add: role_from_string_def)

lemma finish_from_str [simp]: "finish_from_string (finish_str r) = Some r"
  by (cases r) (simp_all add: finish_from_string_def)

section \<open>Accessors\<close>

definition content_text :: "Message \<Rightarrow> string" where
  "content_text m = concat (map (\<lambda>p. case p of Text c \<Rightarrow> c | _ \<Rightarrow> []) (parts m))"

definition tool_calls :: "Message \<Rightarrow> Part list" where
  "tool_calls m = filter (\<lambda>p. part_kind p = kind_tool_call) (parts m)"

definition tool_results :: "Message \<Rightarrow> Part list" where
  "tool_results m = filter (\<lambda>p. part_kind p = kind_tool_result) (parts m)"

definition is_finished :: "Message \<Rightarrow> bool" where
  "is_finished m \<longleftrightarrow> list_ex (\<lambda>p. part_kind p = kind_finish) (parts m)"

fun first_finish :: "Part list \<Rightarrow> FinishReason" where
  "first_finish [] = finish_unknown"
| "first_finish (Finish r # ps) = r"
| "first_finish (p # ps) = first_finish ps"

definition finish_reason :: "Message \<Rightarrow> FinishReason" where
  "finish_reason m = first_finish (parts m)"

section \<open>JSON form\<close>

fun part_fields :: "Part \<Rightarrow> (string \<times> 'd jval) list" where
  "part_fields (Text c) = [(''content'', JStr c)]"
| "part_fields (Reasoning c) = [(''content'', JStr c)]"
| "part_fields (ImageUrl u) = [(''url'', JStr u)]"
| "part_fields (Binary mime d) =
     [(''mime'', JStr mime), (''data'', JStr (if d = [] then [] else b64_encode d))]"
| "part_fields (ToolCall i n inp fin) =
     [(''id'', JStr i), (''name'', JStr n), (''input_json'', JStr inp), (''finished'', JBool fin)]"
| "part_fields (ToolResult i c e) = [(''call_id'', JStr i), (''content'', JStr c), (''is_error'', JBool e)]"
| "part_fields (Finish r) = [(''reason'', JStr (finish_str r))]"

definition part_to_json :: "Part \<Rightarrow> 'd jval" where
  "part_to_json p = JObj ((''kind'', JStr (kind_str (part_kind p))) # part_fields p)"

definition message_to_json :: "(u64 \<Rightarrow> 'd) \<Rightarrow> Message \<Rightarrow> 'd jval" where
  "message_to_json to_double m =
     JObj [(''id'', JStr (msg_id m)), (''session_id'', JStr (session_id m)),
           (''role'', JStr (role_str (msg_role m))), (''model'', JStr (msg_model m)),
           (''created_at'', JNum (to_double (created_at m))),
           (''parts'', JArr (map part_to_json (parts m)))]"

definition js :: "'d jval \<Rightarrow> string \<Rightarrow> string" where
  "js v key = (case jfind key v of Some (JStr s) \<Rightarrow> s | _ \<Rightarrow> [])"

definition jbool :: "'d jval \<Rightarrow> string \<Rightarrow> bool" where
  "jbool v key = (case jfind key v of Some (JBool b) \<Rightarrow> b | _ \<Rightarrow> False)"

definition part_from_json :: "'d jval \<Rightarrow> error_code + Part" where
  "part_from_json pj =
     (case pj of JObj kvs \<Rightarrow>
       (let kind = js pj ''kind'' in
        if kind = ''text'' then Inr (Text (js pj ''content''))
        else if kind = ''reasoning'' then Inr (Reasoning (js pj ''content''))
        else if kind = ''image_url'' then Inr (ImageUrl (js pj ''url''))
        else if kind = ''tool_call'' then
          Inr (ToolCall (js pj ''id'') (js pj ''name'') (js pj ''input_json'') (jbool pj ''finished''))
        else if kind = ''tool_result'' then
          Inr (ToolResult (js pj ''call_id'') (js pj ''content'') (jbool pj ''is_error''))
        else if kind = ''finish'' then
          Inr (Finish (case finish_from_string (js pj ''reason'') of Some r \<Rightarrow> r | None \<Rightarrow> finish_unknown))
        else if kind = ''binary'' then
          (let data = js pj ''data'' in
           if data = [] then Inr (Binary (js pj ''mime'') [])
           else case b64_decode (b64_decoded_size (length data) + 1) data of
                  Inl e \<Rightarrow> Inl e | Inr d \<Rightarrow> Inr (Binary (js pj ''mime'') d))
        else Inl (make_error_code e_proto_parse 6))
      | _ \<Rightarrow> Inl (make_error_code e_proto_parse 5))"

fun parts_from_json :: "'d jval list \<Rightarrow> Part list \<Rightarrow> error_code \<times> Part list" where
  "parts_from_json [] ps = (ok, ps)"
| "parts_from_json (pj # pjs) ps =
     (case part_from_json pj of Inl e \<Rightarrow> (e, ps) | Inr p \<Rightarrow> parts_from_json pjs (ps @ [p]))"

definition message_from_json :: "('d \<Rightarrow> u64) \<Rightarrow> 'd jval \<Rightarrow> Message \<Rightarrow> error_code \<times> Message" where
  "message_from_json of_double v m =
     (case v of JObj kvs \<Rightarrow>
       (let role = (case jfind ''role'' v of None \<Rightarrow> Inr (msg_role m)
                    | Some (JStr s) \<Rightarrow> (case role_from_string s of None \<Rightarrow> Inl (make_error_code e_proto_parse 3) | Some r \<Rightarrow> Inr r)
                    | Some _ \<Rightarrow> Inl (make_error_code e_proto_parse 2)) in
        case role of Inl e \<Rightarrow> (e, m)
        | Inr r \<Rightarrow>
          let m1 = m\<lparr>msg_role := r, msg_id := js v ''id'', session_id := js v ''session_id'', msg_model := js v ''model''\<rparr>;
              m2 = (case jfind ''created_at'' v of Some (JNum d) \<Rightarrow> m1\<lparr>created_at := of_double d\<rparr> | _ \<Rightarrow> m1) in
          case jfind ''parts'' v of
            Some (JArr pjs) \<Rightarrow> (case parts_from_json pjs [] of (ec, ps) \<Rightarrow> (ec, m2\<lparr>parts := ps\<rparr>))
          | _ \<Rightarrow> (make_error_code e_proto_parse 4, m2))
      | _ \<Rightarrow> (make_error_code e_proto_parse 1, m))"

section \<open>Round trip of the JSON form\<close>

lemma b64_fits: "xs \<noteq> [] \<Longrightarrow> b64_decode (b64_decoded_size (length (b64_encode xs)) + 1) (b64_encode xs) = Inr xs"
proof -
  assume "xs \<noteq> []"
  have len: "length (b64_encode xs) = b64_encoded_size (length xs)" by (rule length_b64_encode)
  have "length xs \<le> b64_decoded_size (length (b64_encode xs)) + 1"
    unfolding len b64_decoded_size_def b64_encoded_size_def by simp
  then show ?thesis using decode_go_encode [of "[]" xs _ 0] \<open>xs \<noteq> []\<close>
    by (cases "b64_encode xs") (auto simp: b64_decode_def)
qed

lemma b64_encode_nonempty: "xs \<noteq> [] \<Longrightarrow> b64_encode xs \<noteq> []"
  by (cases xs rule: b64_encode.cases) (auto simp: Let_def)

lemma part_json_roundtrip: "part_from_json (part_to_json p) = Inr p"
  by (cases p) (simp_all add: part_from_json_def part_to_json_def js_def jbool_def jfind_def Let_def b64_fits [simplified] b64_encode_nonempty)

lemma parts_json_roundtrip: "parts_from_json (map part_to_json ps) qs = (ok, qs @ ps)"
  by (induction ps arbitrary: qs) (simp_all add: part_json_roundtrip)

text \<open>
  C11: a message survives its JSON form: every part kind, the binary payload through base64, the role and
  the metadata come back, whatever the receiving message held before. The time stamp has to survive the
  conversion to \<open>double\<close> and back, which 53 bits of whole seconds do.
\<close>

theorem message_json_roundtrip:
  assumes "of_double (to_double (created_at m)) = created_at m"
  shows "message_from_json of_double (message_to_json to_double m) m0 = (ok, m)"
  using assms
  by (simp add: message_from_json_def message_to_json_def jfind_def js_def parts_json_roundtrip)

theorem message_json_roundtrip_witness:
  "message_from_json (of_nat :: nat \<Rightarrow> u64) (message_to_json unat
      \<lparr>msg_id = ''m1'', session_id = ''s1'', msg_role = role_tool, msg_model = [], parts = [Binary ''image/png'' ''data'', Finish tool_use], created_at = 17\<rparr>)
      empty_message =
   (ok, \<lparr>msg_id = ''m1'', session_id = ''s1'', msg_role = role_tool, msg_model = [], parts = [Binary ''image/png'' ''data'', Finish tool_use], created_at = 17\<rparr>)"
  by (rule message_json_roundtrip) simp

end
