(* ===== verification/Codec.thy ===== *)
theory Codec
  imports Messages
begin

unbundle bit_operations_syntax

text \<open>
  The binary message codec of \<open>src/msg/codec.cpp\<close>. The encoder is the sequence of its \<open>put\<close> calls,
  replayed on the arena-backed buffer, whose allocations are a parameter; the decoder reads the whole
  input at a position and fails with the offset in the error's detail word. Strings are interned in
  first-seen order on both sides. The locale \<open>field_codec\<close> is what a pair of field writer and field
  reader promises; varints, strings and parts are its instances, and sequences of fields come with it.
\<close>

section \<open>Output buffer\<close>

record enc_buf =
  eb_live :: bool
  eb_cap :: nat
  eb_bytes :: string
  eb_failed :: bool

definition kCodecInitialCap :: nat where "kCodecInitialCap = 256"

definition eb_ensure :: "(nat \<Rightarrow> bool) \<Rightarrow> nat \<Rightarrow> enc_buf \<Rightarrow> bool \<times> enc_buf" where
  "eb_ensure alloc need b =
     (if eb_live b \<and> length (eb_bytes b) + need \<le> eb_cap b then (True, b)
      else let new_cap = max kCodecInitialCap (max (eb_cap b * 2) (length (eb_bytes b) + need)) in
        if \<not> alloc new_cap then (False, b\<lparr>eb_failed := True\<rparr>)
        else (True, b\<lparr>eb_live := True, eb_cap := new_cap\<rparr>))"

definition eb_new :: "(nat \<Rightarrow> bool) \<Rightarrow> enc_buf" where
  "eb_new alloc = snd (eb_ensure alloc kCodecInitialCap \<lparr>eb_live = False, eb_cap = 0, eb_bytes = [], eb_failed = False\<rparr>)"

definition eb_put :: "(nat \<Rightarrow> bool) \<Rightarrow> string \<Rightarrow> enc_buf \<Rightarrow> enc_buf" where
  "eb_put alloc bs b =
     (case eb_ensure alloc (length bs) b of (okay, b') \<Rightarrow>
        if okay then b'\<lparr>eb_bytes := eb_bytes b' @ bs\<rparr> else b')"

definition eb_view :: "enc_buf \<Rightarrow> string" where
  "eb_view b = (if eb_live b \<and> \<not> eb_failed b then eb_bytes b else [])"

section \<open>Varints\<close>

definition byte_of_u64 :: "u64 \<Rightarrow> char" where
  "byte_of_u64 v = byte_of (unat v)"

lemma drop_bit7_less: "(0x80 :: u64) \<le> v \<Longrightarrow> unat (drop_bit 7 v) < unat v"
proof -
  assume "0x80 \<le> v"
  then have "unat v > 0" by (simp add: word_le_nat_alt)
  moreover have "unat (drop_bit 7 v) = unat v div 128" by (simp add: drop_bit_eq_div unat_div)
  ultimately show ?thesis by simp
qed

function enc_varint :: "u64 \<Rightarrow> string" where
  "enc_varint v =
     (if v \<ge> 0x80 then byte_of_u64 ((v AND 0xFF) OR 0x80) # enc_varint (drop_bit 7 v)
      else [byte_of_u64 v])"
  by pat_completeness auto
termination
  by (relation "measure unat") (auto dest: drop_bit7_less)

declare enc_varint.simps [simp del]

definition fail_at :: "nat \<Rightarrow> error_code" where
  "fail_at pos = make_error_code e_proto_parse (of_nat pos)"

text \<open>The loop of \<open>take_varint\<close>: \<open>k\<close> rounds are left, \<open>i\<close> have been done.\<close>

fun take_varint_go :: "nat \<Rightarrow> nat \<Rightarrow> u64 \<Rightarrow> string \<Rightarrow> nat \<Rightarrow> error_code + (u64 \<times> nat)" where
  "take_varint_go 0 i v s pos = Inl (fail_at (pos - 1))"
| "take_varint_go (Suc k) i v s pos =
     (if pos \<ge> length s then Inl (fail_at pos)
      else let b = of_nat (byte_val (s ! pos)) :: u64; v' = v OR push_bit (7 * i) (b AND 0x7F) in
        if b AND 0x80 = 0 then Inr (v', pos + 1) else take_varint_go k (i + 1) v' s (pos + 1))"

definition take_varint :: "string \<Rightarrow> nat \<Rightarrow> error_code + (u64 \<times> nat)" where
  "take_varint s pos = take_varint_go 10 0 0 s pos"

definition take_u8 :: "string \<Rightarrow> nat \<Rightarrow> error_code + (nat \<times> nat)" where
  "take_u8 s pos =
     (if pos > length s \<or> 1 > length s - pos then Inl (fail_at (min pos (length s)))
      else Inr (byte_val (s ! pos), pos + 1))"

section \<open>Interned strings\<close>

fun index_of :: "string \<Rightarrow> string list \<Rightarrow> nat option" where
  "index_of s [] = None"
| "index_of s (x # xs) = (if x = s then Some 0 else map_option Suc (index_of s xs))"

text \<open>\<open>StringInterner::write\<close>: the chunks it puts and the dictionary after it.\<close>

definition intern_write :: "string list \<Rightarrow> string \<Rightarrow> string list \<times> string list" where
  "intern_write dict s =
     (case index_of s dict of
        Some i \<Rightarrow> ([[CHR 0x01], enc_varint (ucast (of_nat i :: u32))], dict)
      | None \<Rightarrow> ([[CHR 0x00], enc_varint (of_nat (length s)), s], dict @ [s]))"

definition take_string :: "string list \<Rightarrow> string \<Rightarrow> nat \<Rightarrow> error_code + (string \<times> string list \<times> nat)" where
  "take_string dict s pos =
     (case take_u8 s pos of Inl e \<Rightarrow> Inl e
      | Inr (flag, pos) \<Rightarrow>
        if flag = 1 then
          (case take_varint s pos of Inl e \<Rightarrow> Inl e
           | Inr (idx, pos) \<Rightarrow>
             if unat idx \<ge> length dict then Inl (fail_at pos) else Inr (dict ! unat idx, dict, pos))
        else if flag \<noteq> 0 then Inl (fail_at (pos - 1))
        else
          (case take_varint s pos of Inl e \<Rightarrow> Inl e
           | Inr (len, pos) \<Rightarrow>
             if pos > length s \<or> unat len > length s - pos then Inl (fail_at pos)
             else let str = take (unat len) (drop pos s) in Inr (str, dict @ [str], pos + unat len)))"

section \<open>Parts\<close>

fun kind_code :: "PartKind \<Rightarrow> nat" where
  "kind_code kind_text = 0" | "kind_code kind_reasoning = 1" | "kind_code kind_image_url = 2"
| "kind_code kind_binary = 3" | "kind_code kind_tool_call = 4" | "kind_code kind_tool_result = 5"
| "kind_code kind_finish = 6"

fun role_code :: "Role \<Rightarrow> nat" where
  "role_code role_user = 0" | "role_code role_assistant = 1" | "role_code role_system = 2" | "role_code role_tool = 3"

fun reason_code :: "FinishReason \<Rightarrow> nat" where
  "reason_code end_turn = 0" | "reason_code max_tokens = 1" | "reason_code tool_use = 2" | "reason_code canceled = 3"
| "reason_code finish_error = 4" | "reason_code permission_denied = 5" | "reason_code finish_unknown = 6"

definition put_u8 :: "nat \<Rightarrow> string" where
  "put_u8 n = [byte_of n]"

definition put_bool :: "bool \<Rightarrow> string" where
  "put_bool b = put_u8 (if b then 1 else 0)"

text \<open>Chunks and dictionary after one write following another.\<close>

definition seq_write :: "(string list \<Rightarrow> string list \<times> string list) \<Rightarrow> (string list \<Rightarrow> string list \<times> string list)
    \<Rightarrow> string list \<Rightarrow> string list \<times> string list" where
  "seq_write f g d = (case f d of (c1, d1) \<Rightarrow> case g d1 of (c2, d2) \<Rightarrow> (c1 @ c2, d2))"

definition raw_write :: "string \<Rightarrow> string list \<Rightarrow> string list \<times> string list" where
  "raw_write bs d = ([bs], d)"

abbreviation str_write :: "string \<Rightarrow> string list \<Rightarrow> string list \<times> string list" where
  "str_write s d \<equiv> intern_write d s"

fun body_write :: "Part \<Rightarrow> string list \<Rightarrow> string list \<times> string list" where
  "body_write (Text c) = str_write c"
| "body_write (Reasoning c) = str_write c"
| "body_write (ImageUrl u) = str_write u"
| "body_write (Binary mime data) =
     seq_write (str_write mime) (seq_write (raw_write (enc_varint (of_nat (length data)))) (raw_write data))"
| "body_write (ToolCall i n inp fin) =
     seq_write (str_write i) (seq_write (str_write n) (seq_write (str_write inp) (raw_write (put_bool fin))))"
| "body_write (ToolResult i c err) =
     seq_write (str_write i) (seq_write (str_write c) (raw_write (put_bool err)))"
| "body_write (Finish r) = raw_write (put_u8 (reason_code r))"

definition part_write :: "Part \<Rightarrow> string list \<Rightarrow> string list \<times> string list" where
  "part_write p = seq_write (raw_write (put_u8 (kind_code (part_kind p)))) (body_write p)"

fun write_many :: "('a \<Rightarrow> string list \<Rightarrow> string list \<times> string list) \<Rightarrow> 'a list \<Rightarrow> string list \<Rightarrow> string list \<times> string list" where
  "write_many wr [] d = ([], d)"
| "write_many wr (x # xs) d = seq_write (wr x) (write_many wr xs) d"

definition message_write :: "Message \<Rightarrow> string list \<Rightarrow> string list \<times> string list" where
  "message_write m =
     seq_write (raw_write (put_u8 1))
     (seq_write (str_write (msg_id m))
     (seq_write (str_write (session_id m))
     (seq_write (raw_write (put_u8 (role_code (msg_role m))))
     (seq_write (str_write (msg_model m))
     (seq_write (raw_write (enc_varint (created_at m)))
     (seq_write (raw_write (enc_varint (of_nat (length (parts m)))))
      (write_many part_write (parts m))))))))"

definition encode_message :: "(nat \<Rightarrow> bool) \<Rightarrow> Message \<Rightarrow> string" where
  "encode_message alloc m = eb_view (fold (eb_put alloc) (fst (message_write m [])) (eb_new alloc))"

section \<open>Decoding\<close>

definition kCodecMaxParts :: nat where "kCodecMaxParts = 1048576"
definition kCodecDetailVersionMismatch :: u32 where "kCodecDetailVersionMismatch = 0xFFFFFFFF"

definition kind_of_code :: "nat \<Rightarrow> PartKind" where
  "kind_of_code n = [kind_text, kind_reasoning, kind_image_url, kind_binary, kind_tool_call, kind_tool_result, kind_finish] ! n"

definition role_of_code :: "nat \<Rightarrow> Role" where
  "role_of_code n = [role_user, role_assistant, role_system, role_tool] ! n"

definition reason_of_code :: "nat \<Rightarrow> FinishReason" where
  "reason_of_code n = [end_turn, max_tokens, tool_use, canceled, finish_error, permission_denied, finish_unknown] ! n"

text \<open>A byte that must not exceed a bound; the failure is reported behind the byte.\<close>

definition take_code :: "nat \<Rightarrow> string \<Rightarrow> nat \<Rightarrow> error_code + (nat \<times> nat)" where
  "take_code bound s pos =
     (case take_u8 s pos of Inl e \<Rightarrow> Inl e
      | Inr (b, pos) \<Rightarrow> if b > bound then Inl (fail_at pos) else Inr (b, pos))"

type_synonym 'a reader = "string list \<Rightarrow> string \<Rightarrow> nat \<Rightarrow> error_code + ('a \<times> string list \<times> nat)"

definition take_binary :: "string \<Rightarrow> nat \<Rightarrow> error_code + (string \<times> nat)" where
  "take_binary s pos =
     (case take_varint s pos of Inl e \<Rightarrow> Inl e
      | Inr (len, pos) \<Rightarrow>
        if (if pos > length s then 0 else length s - pos) < unat len then Inl (fail_at pos)
        else Inr (take (unat len) (drop pos s), pos + unat len))"

fun take_body :: "PartKind \<Rightarrow> Part reader" where
  "take_body kind_text d s pos = (case take_string d s pos of Inl e \<Rightarrow> Inl e | Inr (c, d, pos) \<Rightarrow> Inr (Text c, d, pos))"
| "take_body kind_reasoning d s pos = (case take_string d s pos of Inl e \<Rightarrow> Inl e | Inr (c, d, pos) \<Rightarrow> Inr (Reasoning c, d, pos))"
| "take_body kind_image_url d s pos = (case take_string d s pos of Inl e \<Rightarrow> Inl e | Inr (c, d, pos) \<Rightarrow> Inr (ImageUrl c, d, pos))"
| "take_body kind_binary d s pos =
     (case take_string d s pos of Inl e \<Rightarrow> Inl e | Inr (mime, d, pos) \<Rightarrow>
      case take_binary s pos of Inl e \<Rightarrow> Inl e | Inr (data, pos) \<Rightarrow> Inr (Binary mime data, d, pos))"
| "take_body kind_tool_call d s pos =
     (case take_string d s pos of Inl e \<Rightarrow> Inl e | Inr (i, d, pos) \<Rightarrow>
      case take_string d s pos of Inl e \<Rightarrow> Inl e | Inr (n, d, pos) \<Rightarrow>
      case take_string d s pos of Inl e \<Rightarrow> Inl e | Inr (inp, d, pos) \<Rightarrow>
      case take_code 1 s pos of Inl e \<Rightarrow> Inl e | Inr (fin, pos) \<Rightarrow> Inr (ToolCall i n inp (fin \<noteq> 0), d, pos))"
| "take_body kind_tool_result d s pos =
     (case take_string d s pos of Inl e \<Rightarrow> Inl e | Inr (i, d, pos) \<Rightarrow>
      case take_string d s pos of Inl e \<Rightarrow> Inl e | Inr (c, d, pos) \<Rightarrow>
      case take_code 1 s pos of Inl e \<Rightarrow> Inl e | Inr (err, pos) \<Rightarrow> Inr (ToolResult i c (err \<noteq> 0), d, pos))"
| "take_body kind_finish d s pos =
     (case take_code 6 s pos of Inl e \<Rightarrow> Inl e | Inr (r, pos) \<Rightarrow> Inr (Finish (reason_of_code r), d, pos))"

definition take_part :: "Part reader" where
  "take_part d s pos =
     (case take_code 6 s pos of Inl e \<Rightarrow> Inl e | Inr (k, pos) \<Rightarrow> take_body (kind_of_code k) d s pos)"

fun take_many :: "'a reader \<Rightarrow> nat \<Rightarrow> 'a list reader" where
  "take_many rd 0 d s pos = Inr ([], d, pos)"
| "take_many rd (Suc n) d s pos =
     (case rd d s pos of Inl e \<Rightarrow> Inl e
      | Inr (x, d, pos) \<Rightarrow>
        (case take_many rd n d s pos of Inl e \<Rightarrow> Inl e | Inr (xs, d, pos) \<Rightarrow> Inr (x # xs, d, pos)))"

definition decode_message :: "string \<Rightarrow> error_code + Message" where
  "decode_message s =
     (case take_u8 s 0 of Inl e \<Rightarrow> Inl e | Inr (version, pos) \<Rightarrow>
      if version \<noteq> 1 then Inl (make_error_code e_proto_parse kCodecDetailVersionMismatch) else
      case take_string [] s pos of Inl e \<Rightarrow> Inl e | Inr (i, d, pos) \<Rightarrow>
      case take_string d s pos of Inl e \<Rightarrow> Inl e | Inr (sid, d, pos) \<Rightarrow>
      case take_code 3 s pos of Inl e \<Rightarrow> Inl e | Inr (role, pos) \<Rightarrow>
      case take_string d s pos of Inl e \<Rightarrow> Inl e | Inr (model, d, pos) \<Rightarrow>
      case take_varint s pos of Inl e \<Rightarrow> Inl e | Inr (created, pos) \<Rightarrow>
      case take_varint s pos of Inl e \<Rightarrow> Inl e | Inr (count, pos) \<Rightarrow>
      if unat count > kCodecMaxParts then Inl (fail_at pos) else
      case take_many take_part (unat count) d s pos of Inl e \<Rightarrow> Inl e
      | Inr (ps, d, pos) \<Rightarrow>
        Inr \<lparr>msg_id = i, session_id = sid, msg_role = role_of_code role, msg_model = model,
             parts = ps, created_at = created\<rparr>)"

section \<open>Bytes at a position\<close>

definition occurs :: "string \<Rightarrow> nat \<Rightarrow> string \<Rightarrow> bool" where
  "occurs s pos bs \<longleftrightarrow> pos + length bs \<le> length s \<and> take (length bs) (drop pos s) = bs"

lemma occurs_append [simp]:
  "occurs s pos (a @ b) \<longleftrightarrow> occurs s pos a \<and> occurs s (pos + length a) b"
proof (cases "pos + length a + length b \<le> length s")
  case True
  have "take (length a + length b) (drop pos s) = take (length a) (drop pos s) @ take (length b) (drop (pos + length a) s)"
    by (simp add: take_add add.commute)
  then show ?thesis using True by (auto simp: occurs_def append_eq_append_conv)
qed (auto simp: occurs_def)

lemma occurs_Cons: "occurs s pos (c # cs) \<longleftrightarrow> pos < length s \<and> s ! pos = c \<and> occurs s (pos + 1) cs"
proof -
  have "pos < length s \<Longrightarrow> drop pos s = s ! pos # drop (Suc pos) s" by (simp add: Cons_nth_drop_Suc)
  then show ?thesis by (auto simp: occurs_def)
qed

lemma occurs_first: "occurs s pos (c # cs) \<longleftrightarrow> occurs s pos [c] \<and> occurs s (pos + 1) cs"
  using occurs_append [of s pos "[c]" cs] by simp

lemma occurs_self: "occurs (pre @ bs @ t) (length pre) bs"
  by (simp add: occurs_def)

lemma occurs_NilI: "pos \<le> length s \<Longrightarrow> occurs s pos []"
  by (simp add: occurs_def)

section \<open>Varints read back\<close>

lemma low7: "((v AND 0xFF) OR 0x80) AND 0x7F = v AND (0x7F :: u64)"
  and low8_bit: "((v AND 0xFF) OR 0x80) AND 0x80 = (0x80 :: u64)"
proof -
  have m: "(0xFF :: u64) = mask 8" "(0x7F :: u64) = mask 7" "(0x80 :: u64) = push_bit 7 1"
    by (simp_all add: mask_eq_exp_minus_1)
  show "((v AND 0xFF) OR 0x80) AND 0x7F = v AND (0x7F :: u64)"
    unfolding m by (rule bit_word_eqI) (auto simp only: bit_simps)
  show "((v AND 0xFF) OR 0x80) AND 0x80 = (0x80 :: u64)"
    unfolding m by (rule bit_word_eqI) (auto simp only: bit_simps)
qed

lemma byte_roundtrip: "unat (v :: u64) < 256 \<Longrightarrow> of_nat (byte_val (byte_of_u64 v)) = v"
  by (simp add: byte_of_u64_def)

lemma cont_byte: "of_nat (byte_val (byte_of_u64 ((v AND 0xFF) OR 0x80))) = ((v AND 0xFF) OR 0x80 :: u64)"
proof (rule byte_roundtrip)
  have "v AND 0xFF \<le> 0xFF" by (rule word_and_le1)
  then have "uint (v AND 0xFF) < 2 ^ 8" by (simp add: word_le_def)
  moreover have "uint (0x80 :: u64) < 2 ^ 8" by simp
  ultimately have "uint (v AND 0xFF) OR uint (0x80 :: u64) < 2 ^ 8" by (intro OR_upper) simp_all
  then have "uint ((v AND 0xFF) OR 0x80) < 256" by (simp add: uint_or)
  then show "unat ((v AND 0xFF) OR 0x80) < 256" by (simp add: nat_less_iff flip: nat_uint_eq)
qed

lemma take_bit_step:
  "take_bit (7 * i) w OR push_bit (7 * i) (drop_bit (7 * i) w AND 0x7F) = take_bit (7 * Suc i) (w :: u64)"
proof -
  have m: "(0x7F :: u64) = mask 7" by (simp add: mask_eq_exp_minus_1)
  show ?thesis unfolding m by (rule bit_word_eqI) (auto simp: bit_simps)
qed

lemma take_bit7_small: "(v :: u64) < 0x80 \<Longrightarrow> take_bit 7 v = v"
  by (simp add: take_bit_eq_mod word_unat_eq_iff unat_mod word_less_nat_alt)

lemma drop_bit_small: "drop_bit n (w :: u64) < 0x80 \<Longrightarrow> take_bit (n + 7) w = w"
proof -
  assume "drop_bit n w < 0x80"
  then have "take_bit 7 (drop_bit n w) = drop_bit n w" by (rule take_bit7_small)
  then have low: "bit (drop_bit n w) m \<Longrightarrow> m < 7" for m by (metis bit_take_bit_iff)
  have "m < n + 7" if "bit w m" for m
  proof (cases "n \<le> m")
    case True
    then have "bit (drop_bit n w) (m - n)" using that by (simp add: bit_drop_bit_eq)
    from low [OF this] show ?thesis by simp
  qed simp
  then show ?thesis by (auto intro!: bit_word_eqI simp: bit_take_bit_iff)
qed

lemma take_varint_go_enc:
  "i + k = 10 \<Longrightarrow> 0 < k \<Longrightarrow> occurs s pos (enc_varint (drop_bit (7 * i) w)) \<Longrightarrow>
   take_varint_go k i (take_bit (7 * i) w) s pos = Inr (w, pos + length (enc_varint (drop_bit (7 * i) w)))"
proof (induction k arbitrary: i pos)
  case (Suc k)
  let ?v = "drop_bit (7 * i) w"
  show ?case
  proof (cases "?v \<ge> 0x80")
    case True
    have "k \<noteq> 0"
    proof
      assume "k = 0"
      then have "i = 9" using Suc.prems by simp
      then have "unat ?v = unat w div 2 ^ 63" by (simp add: drop_bit_eq_div unat_div)
      also have "\<dots> < 128" using unat_u64_le [of w] by simp
      finally show False using True by (simp add: word_le_nat_alt)
    qed
    have enc: "enc_varint ?v = byte_of_u64 ((?v AND 0xFF) OR 0x80) # enc_varint (drop_bit (7 * Suc i) w)"
      using True by (subst enc_varint.simps) (simp add: add.commute)
    have occ: "pos < length s" "s ! pos = byte_of_u64 ((?v AND 0xFF) OR 0x80)"
      "occurs s (pos + 1) (enc_varint (drop_bit (7 * Suc i) w))"
      using Suc.prems(3) unfolding enc occurs_Cons by simp_all
    have IH: "take_varint_go k (Suc i) (take_bit (7 * Suc i) w) s (pos + 1) =
        Inr (w, pos + 1 + length (enc_varint (drop_bit (7 * Suc i) w)))"
      using Suc.prems \<open>k \<noteq> 0\<close> occ(3) by (intro Suc.IH) simp_all
    show ?thesis unfolding enc using occ IH
      by (simp only: take_varint_go.simps Let_def cont_byte low7 low8_bit take_bit_step) simp
  next
    case False
    have enc: "enc_varint ?v = [byte_of_u64 ?v]" using False by (subst enc_varint.simps) simp
    have occ: "pos < length s" "s ! pos = byte_of_u64 ?v" using Suc.prems(3) unfolding enc occurs_Cons by simp_all
    have small: "?v < 0x80" using False by simp
    then have b: "of_nat (byte_val (byte_of_u64 ?v)) = ?v" by (intro byte_roundtrip) (simp add: word_less_nat_alt)
    have "take_bit 7 ?v = ?v" using small by (rule take_bit7_small)
    then have "?v AND 0x80 = 0"
    proof -
      have m: "(0x80 :: u64) = push_bit 7 1" by simp
      have "take_bit 7 ?v AND push_bit 7 1 = 0" by (rule bit_word_eqI) (auto simp: bit_take_bit_iff bit_and_iff bit_push_bit_iff simp del: push_bit_numeral push_bit_of_1)
      then show ?thesis using \<open>take_bit 7 ?v = ?v\<close> m by metis
    qed
    moreover have "take_bit (7 * Suc i) w = w" using drop_bit_small [OF small] by (simp add: add.commute)
    ultimately show ?thesis unfolding enc using occ b take_bit_step [of i w] by (simp add: Let_def)
  qed
qed simp

lemma take_varint_enc: "occurs s pos (enc_varint w) \<Longrightarrow> take_varint s pos = Inr (w, pos + length (enc_varint w))"
  using take_varint_go_enc [of 0 10 s pos w] by (simp add: take_varint_def)

section \<open>The contract of a field\<close>

fun all_good :: "('a \<Rightarrow> string list \<Rightarrow> bool) \<Rightarrow> ('a \<Rightarrow> string list \<Rightarrow> string list \<times> string list) \<Rightarrow> 'a list \<Rightarrow> string list \<Rightarrow> bool" where
  "all_good good wr [] d \<longleftrightarrow> True"
| "all_good good wr (x # xs) d \<longleftrightarrow> good x d \<and> all_good good wr xs (snd (wr x d))"

locale field_codec =
  fixes wr :: "'a \<Rightarrow> string list \<Rightarrow> string list \<times> string list"
    and rd :: "string list \<Rightarrow> string \<Rightarrow> nat \<Rightarrow> error_code + ('a \<times> string list \<times> nat)"
    and good :: "'a \<Rightarrow> string list \<Rightarrow> bool"
  assumes read_back: "good x d \<Longrightarrow> wr x d = (cs, d') \<Longrightarrow> occurs s pos (concat cs) \<Longrightarrow>
    rd d s pos = Inr (x, d', pos + length (concat cs))"
begin

lemma read_back_many:
  "all_good good wr xs d \<Longrightarrow> write_many wr xs d = (cs, d') \<Longrightarrow> occurs s pos (concat cs) \<Longrightarrow>
   take_many rd (length xs) d s pos = Inr (xs, d', pos + length (concat cs))"
proof (induction xs arbitrary: d cs pos d')
  case (Cons x xs)
  obtain c1 d1 where x: "wr x d = (c1, d1)" by fastforce
  obtain c2 d2 where xs: "write_many wr xs d1 = (c2, d2)" by fastforce
  have eq: "cs = c1 @ c2" "d' = d2" using Cons.prems(2) x xs by (simp_all add: seq_write_def)
  have "rd d s pos = Inr (x, d1, pos + length (concat c1))"
    using Cons.prems x by (intro read_back) (simp_all add: eq)
  moreover have "take_many rd (length xs) d1 s (pos + length (concat c1)) =
      Inr (xs, d2, pos + length (concat c1) + length (concat c2))"
    using Cons.prems x xs by (intro Cons.IH) (simp_all add: eq)
  ultimately show ?case by (simp add: eq add.assoc)
qed simp

end

definition rd_varint :: "u64 reader" where
  "rd_varint d s pos = (case take_varint s pos of Inl e \<Rightarrow> Inl e | Inr (v, pos) \<Rightarrow> Inr (v, d, pos))"

definition rd_code :: "nat \<Rightarrow> nat reader" where
  "rd_code bound d s pos = (case take_code bound s pos of Inl e \<Rightarrow> Inl e | Inr (v, pos) \<Rightarrow> Inr (v, d, pos))"

lemma take_u8_occurs: "occurs s pos [c] \<Longrightarrow> take_u8 s pos = Inr (byte_val c, pos + 1)"
  by (simp add: occurs_Cons take_u8_def)

lemma take_code_occurs: "n \<le> bound \<Longrightarrow> n < 256 \<Longrightarrow> occurs s pos (put_u8 n) \<Longrightarrow> take_code bound s pos = Inr (n, pos + 1)"
  by (simp add: take_code_def put_u8_def take_u8_occurs)

interpretation varint_codec: field_codec "\<lambda>v. raw_write (enc_varint v)" rd_varint "\<lambda>_ _. True"
  by unfold_locales (auto simp: raw_write_def rd_varint_def take_varint_enc)

interpretation code_codec: field_codec "\<lambda>n. raw_write (put_u8 n)" "rd_code bound" "\<lambda>n _. n \<le> bound \<and> n < 256"
  by unfold_locales (auto simp: raw_write_def rd_code_def take_code_occurs put_u8_def)

section \<open>Strings read back\<close>

lemma index_of_Some: "index_of s d = Some i \<Longrightarrow> i < length d \<and> d ! i = s"
  by (induction d arbitrary: i) (auto split: if_splits)

definition str_good :: "string \<Rightarrow> string list \<Rightarrow> bool" where
  "str_good s d \<longleftrightarrow> length s \<le> u64_max \<and> length d \<le> 4294967295"

lemma unat_index: "i \<le> 4294967295 \<Longrightarrow> unat (ucast (of_nat i :: u32) :: u64) = i"
  by (simp add: unsigned_ucast_eq take_bit_word_eq_self unat_of_nat take_bit_nat_eq_self)

lemma intern_read_back:
  assumes "str_good x d" "intern_write d x = (cs, d')" "occurs s pos (concat cs)"
  shows "take_string d s pos = Inr (x, d', pos + length (concat cs))"
proof (cases "index_of x d")
  case (Some i)
  then have i: "i < length d" "d ! i = x" using index_of_Some by auto
  let ?v = "enc_varint (ucast (of_nat i :: u32))"
  have cs: "cs = [[CHR 0x01], ?v]" "d' = d" using assms(2) Some by (auto simp: intern_write_def)
  have occ: "occurs s pos [CHR 0x01]" "occurs s (pos + 1) ?v"
    using assms(3) occurs_first [of s pos "CHR 0x01" ?v] by (simp_all add: cs)
  show ?thesis using take_u8_occurs [OF occ(1)] take_varint_enc [OF occ(2)] i assms(1) unat_index [of i]
    by (simp add: take_string_def cs str_good_def byte_val_def)
next
  case None
  let ?v = "enc_varint (of_nat (length x))"
  have cs: "cs = [[CHR 0x00], ?v, x]" "d' = d @ [x]" using assms(2) None by (auto simp: intern_write_def)
  have occ: "occurs s pos [CHR 0x00]" "occurs s (pos + 1) ?v" "occurs s (pos + 1 + length ?v) x"
    using assms(3) occurs_first [of s pos "CHR 0x00" "?v @ x"] by (simp_all add: cs)
  have "unat (of_nat (length x) :: u64) = length x" using assms(1) by (simp add: str_good_def unat_of_nat)
  then show ?thesis using take_u8_occurs [OF occ(1)] take_varint_enc [OF occ(2)] occ(3)
    by (auto simp: take_string_def cs byte_val_def occurs_def Let_def)
qed

interpretation string_codec: field_codec "\<lambda>s d. intern_write d s" take_string str_good
  by unfold_locales (rule intern_read_back)

lemma intern_grows: "length (snd (intern_write d s)) \<le> Suc (length d)"
  by (simp add: intern_write_def split: option.split)

section \<open>Parts and messages read back\<close>

text \<open>Sizes that fit their varints, with room in the dictionary.\<close>

fun part_sizes :: "Part \<Rightarrow> bool" where
  "part_sizes (Text c) \<longleftrightarrow> length c \<le> u64_max"
| "part_sizes (Reasoning c) \<longleftrightarrow> length c \<le> u64_max"
| "part_sizes (ImageUrl u) \<longleftrightarrow> length u \<le> u64_max"
| "part_sizes (Binary m d) \<longleftrightarrow> length m \<le> u64_max \<and> length d \<le> u64_max"
| "part_sizes (ToolCall i n inp fin) \<longleftrightarrow> length i \<le> u64_max \<and> length n \<le> u64_max \<and> length inp \<le> u64_max"
| "part_sizes (ToolResult i c err) \<longleftrightarrow> length i \<le> u64_max \<and> length c \<le> u64_max"
| "part_sizes (Finish r) \<longleftrightarrow> True"

definition part_good :: "Part \<Rightarrow> string list \<Rightarrow> bool" where
  "part_good p d \<longleftrightarrow> part_sizes p \<and> length d + 3 \<le> 4294967295"

lemma kind_codes [simp]: "kind_of_code (kind_code k) = k" "kind_code k \<le> 6" "kind_code k < 256"
  by (cases k; simp add: kind_of_code_def)+

lemma role_codes [simp]: "role_of_code (role_code r) = r" "role_code r \<le> 3" "role_code r < 256"
  by (cases r; simp add: role_of_code_def)+

lemma reason_codes [simp]: "reason_of_code (reason_code f) = f" "reason_code f \<le> 6" "reason_code f < 256"
  by (cases f; simp add: reason_of_code_def)+

lemma seq_write_split:
  assumes "seq_write f g d = (cs, d')"
  obtains c1 d1 c2 where "f d = (c1, d1)" "g d1 = (c2, d')" "cs = c1 @ c2"
  using assms by (auto simp: seq_write_def split: prod.splits)

lemma intern_grows': "intern_write d s = (cs, d') \<Longrightarrow> length d' \<le> Suc (length d)"
  using intern_grows [of d s] by simp

lemma take_binary_occurs:
  "length x \<le> u64_max \<Longrightarrow> occurs s pos (enc_varint (of_nat (length x))) \<Longrightarrow>
   occurs s (pos + length (enc_varint (of_nat (length x)))) x \<Longrightarrow>
   take_binary s pos = Inr (x, pos + length (enc_varint (of_nat (length x))) + length x)"
  using take_varint_enc [of s pos "of_nat (length x)"]
  by (auto simp: take_binary_def unat_of_nat occurs_def)

lemma put_bool_occurs: "occurs s pos (put_bool b) \<Longrightarrow> take_code 1 s pos = Inr (if b then 1 else 0, pos + 1)"
  unfolding put_bool_def by (rule take_code_occurs) auto

lemma length_put [simp]: "length (put_u8 n) = 1" "length (put_bool b) = 1"
  by (simp_all add: put_u8_def put_bool_def)

lemma body_read_back:
  assumes "part_good p d" "body_write p d = (cs, d')" "occurs s pos (concat cs)"
  shows "take_body (part_kind p) d s pos = Inr (p, d', pos + length (concat cs))"
proof (cases p)
  case (ToolCall i n inp fin)
  from assms(2) ToolCall obtain c1 d1 c2 d2 c3 where
    w: "intern_write d i = (c1, d1)" "intern_write d1 n = (c2, d2)" "intern_write d2 inp = (c3, d')"
       "cs = c1 @ c2 @ c3 @ [put_bool fin]"
    by (auto simp: raw_write_def elim!: seq_write_split)
  have len: "length d1 \<le> Suc (length d)" "length d2 \<le> Suc (length d1)" using w intern_grows' by blast+
  have "str_good i d" "str_good n d1" "str_good inp d2"
    using assms(1) ToolCall len by (auto simp: part_good_def str_good_def)
  note r = string_codec.read_back [OF this(1) w(1), of s pos] string_codec.read_back [OF this(2) w(2), of s]
    string_codec.read_back [OF this(3) w(3), of s]
  show ?thesis using assms(3) r by (simp add: ToolCall w(4) put_bool_occurs [of s _ fin, simplified] add.assoc)
next
  case (ToolResult i c err)
  from assms(2) ToolResult obtain c1 d1 c2 where
    w: "intern_write d i = (c1, d1)" "intern_write d1 c = (c2, d')" "cs = c1 @ c2 @ [put_bool err]"
    by (auto simp: raw_write_def elim!: seq_write_split)
  have len: "length d1 \<le> Suc (length d)" using w intern_grows' by blast
  have "str_good i d" "str_good c d1" using assms(1) ToolResult len by (auto simp: part_good_def str_good_def)
  note r = string_codec.read_back [OF this(1) w(1), of s pos] string_codec.read_back [OF this(2) w(2), of s]
  show ?thesis using assms(3) r by (simp add: ToolResult w(3) put_bool_occurs [of s _ err, simplified] add.assoc)
next
  case (Binary mime data)
  from assms(2) Binary obtain c1 where
    w: "intern_write d mime = (c1, d')" "cs = c1 @ [enc_varint (of_nat (length data)), data]"
    by (auto simp: raw_write_def elim!: seq_write_split)
  have "str_good mime d" using assms(1) Binary by (auto simp: part_good_def str_good_def)
  note r = string_codec.read_back [OF this w(1), of s pos]
  show ?thesis using assms r by (simp add: Binary w(2) take_binary_occurs [of data] part_good_def add.assoc)
next
  case (Finish r)
  then show ?thesis using assms by (auto simp: raw_write_def take_code_occurs [of "reason_code r"])
qed (use assms in \<open>auto simp: part_good_def str_good_def string_codec.read_back\<close>)

lemma part_read_back:
  assumes "part_good p d" "part_write p d = (cs, d')" "occurs s pos (concat cs)"
  shows "take_part d s pos = Inr (p, d', pos + length (concat cs))"
proof -
  from assms(2) obtain c where c: "body_write p d = (c, d')" "cs = put_u8 (kind_code (part_kind p)) # c"
    by (auto simp: part_write_def raw_write_def elim!: seq_write_split)
  have "take_code 6 s pos = Inr (kind_code (part_kind p), pos + 1)"
    using assms(3) by (intro take_code_occurs) (simp_all add: c)
  moreover have "take_body (part_kind p) d s (pos + 1) = Inr (p, d', pos + 1 + length (concat c))"
    using assms(3) by (intro body_read_back [OF assms(1) c(1)]) (simp add: c)
  ultimately show ?thesis by (simp add: take_part_def c)
qed

interpretation part_codec: field_codec part_write take_part part_good
  by unfold_locales (rule part_read_back)

lemma part_grows: "length (snd (part_write p d)) \<le> length d + 3"
proof -
  obtain cs d' where w: "part_write p d = (cs, d')" by fastforce
  then obtain c where "body_write p d = (c, d')" by (auto simp: part_write_def raw_write_def elim!: seq_write_split)
  then have "length d' \<le> length d + 3"
    by (cases p) (fastforce simp: raw_write_def elim!: seq_write_split dest!: intern_grows')+
  then show ?thesis by (simp add: w)
qed

lemma all_parts_good:
  "\<forall>p \<in> set ps. part_sizes p \<Longrightarrow> length d + 3 * length ps \<le> 4294967295 \<Longrightarrow> all_good part_good part_write ps d"
proof (induction ps arbitrary: d)
  case (Cons p ps)
  have "length (snd (part_write p d)) + 3 * length ps \<le> 4294967295" using part_grows [of p d] Cons.prems(2) by simp
  then show ?case using Cons by (simp add: part_good_def)
qed simp

definition message_sizes :: "Message \<Rightarrow> bool" where
  "message_sizes m \<longleftrightarrow> length (msg_id m) \<le> u64_max \<and> length (session_id m) \<le> u64_max \<and>
     length (msg_model m) \<le> u64_max \<and> length (parts m) \<le> kCodecMaxParts \<and> (\<forall>p \<in> set (parts m). part_sizes p)"

lemma decode_write:
  assumes m: "message_sizes m" and w: "message_write m [] = (cs, d')" and occ: "occurs s 0 (concat cs)"
  shows "decode_message s = Inr m"
proof -
  from w obtain c1 d1 c2 d2 c3 d3 c4 where
    w: "intern_write [] (msg_id m) = (c1, d1)" "intern_write d1 (session_id m) = (c2, d2)"
       "intern_write d2 (msg_model m) = (c3, d3)" "write_many part_write (parts m) d3 = (c4, d')"
       "cs = put_u8 1 # c1 @ c2 @ put_u8 (role_code (msg_role m)) # c3 @ enc_varint (created_at m)
              # enc_varint (of_nat (length (parts m))) # c4"
    by (auto simp: message_write_def raw_write_def elim!: seq_write_split)
  have len: "length d1 \<le> 1" "length d2 \<le> 2" "length d3 \<le> 3"
    using intern_grows' [OF w(1)] intern_grows' [OF w(2)] intern_grows' [OF w(3)] by simp_all
  have g: "str_good (msg_id m) []" "str_good (session_id m) d1" "str_good (msg_model m) d2"
    using m len by (auto simp: message_sizes_def str_good_def)
  have "all_good part_good part_write (parts m) d3"
    using m len by (intro all_parts_good) (auto simp: message_sizes_def kCodecMaxParts_def)
  note r = string_codec.read_back [OF g(1) w(1), of s] string_codec.read_back [OF g(2) w(2), of s]
    string_codec.read_back [OF g(3) w(3), of s] part_codec.read_back_many [OF this w(4), of s]
  have n: "unat (of_nat (length (parts m)) :: u64) = length (parts m)" "length (parts m) \<le> kCodecMaxParts"
    using m by (auto simp: message_sizes_def kCodecMaxParts_def unat_of_nat)
  have v: "take_u8 s 0 = Inr (1, 1)"
    using occ take_code_occurs [of 1 1 s 0] by (auto simp: w(5) take_code_def split: sum.splits if_splits)
  have role: "take_code 3 s p = Inr (role_code (msg_role m), Suc p)" if "occurs s p (put_u8 (role_code (msg_role m)))" for p
    using take_code_occurs [OF _ _ that, of 3] by simp
  show ?thesis using occ r n v role
    by (simp add: decode_message_def w(5) take_varint_enc [of s _ "created_at m"] take_varint_enc [of s _ "of_nat (length (parts m))"] add.assoc)
qed

section \<open>The buffer\<close>

definition eb_inv :: "string \<Rightarrow> enc_buf \<Rightarrow> bool" where
  "eb_inv bs b \<longleftrightarrow> eb_failed b \<or> (eb_live b \<and> eb_bytes b = bs)"

lemma eb_put_inv: "eb_inv bs b \<Longrightarrow> eb_inv (bs @ c) (eb_put alloc c b)"
  by (auto simp: eb_inv_def eb_put_def eb_ensure_def Let_def)

lemma eb_fold_inv: "eb_inv bs b \<Longrightarrow> eb_inv (bs @ concat cs) (fold (eb_put alloc) cs b)"
proof (induction cs arbitrary: bs b)
  case (Cons c cs)
  from Cons.IH [OF eb_put_inv [OF Cons.prems]] show ?case by simp
qed simp

lemma eb_new_inv: "eb_inv [] (eb_new alloc)"
  by (simp add: eb_inv_def eb_new_def eb_ensure_def Let_def)

lemma eb_fold_alive: "\<forall>n. alloc n \<Longrightarrow> \<not> eb_failed b \<Longrightarrow> \<not> eb_failed (fold (eb_put alloc) cs b)"
  by (induction cs arbitrary: b) (auto simp: eb_put_def eb_ensure_def Let_def)

lemma encode_bytes:
  "encode_message alloc m \<in> {[], concat (fst (message_write m []))}"
  "\<forall>n. alloc n \<Longrightarrow> encode_message alloc m = concat (fst (message_write m []))"
proof -
  let ?b = "fold (eb_put alloc) (fst (message_write m [])) (eb_new alloc)"
  have inv: "eb_inv (concat (fst (message_write m []))) ?b"
    using eb_fold_inv [where alloc = alloc, OF eb_new_inv] by fastforce
  then show "encode_message alloc m \<in> {[], concat (fst (message_write m []))}"
    by (auto simp: encode_message_def eb_view_def eb_inv_def)
  assume "\<forall>n. alloc n"
  then have "\<not> eb_failed ?b" by (intro eb_fold_alive) (auto simp: eb_new_def eb_ensure_def)
  with inv show "encode_message alloc m = concat (fst (message_write m []))"
    by (auto simp: encode_message_def eb_view_def eb_inv_def)
qed



end
