(* ===== verification/Tokens.thy ===== *)
theory Tokens
  imports Messages
begin

unbundle bit_operations_syntax

text \<open>
  Token estimation, \<open>src/msg/tokens.cpp\<close>: the one-pass classifier, the eight-line cache keyed by the
  64-bit FNV-1a hash, and the per-message sum that goes through the cache.
\<close>

section \<open>Text\<close>

definition is_code_symbol :: "char \<Rightarrow> bool" where
  "is_code_symbol c \<longleftrightarrow> c \<in> set (''{}<>[]()|&=!+*/%^~`;#@:'' @ [dquote])"

record tok_scan =
  words :: nat
  newlines :: nat
  symbols :: nat
  cjk :: nat
  in_word :: bool

definition enter_word :: "tok_scan \<Rightarrow> tok_scan" where
  "enter_word st = (if in_word st then st else st\<lparr>words := words st + 1, in_word := True\<rparr>)"

definition is_alnum :: "nat \<Rightarrow> bool" where
  "is_alnum u \<longleftrightarrow> (97 \<le> u \<and> u \<le> 122) \<or> (65 \<le> u \<and> u \<le> 90) \<or> (48 \<le> u \<and> u \<le> 57)"

definition tok_step :: "char \<Rightarrow> tok_scan \<Rightarrow> tok_scan" where
  "tok_step c st =
     (let u = byte_val c in
      if u \<ge> 0x80 then enter_word (if u AND 0xE0 = 0xE0 then st\<lparr>cjk := cjk st + 1\<rparr> else st)
      else if c = sp \<or> c = tab \<or> c = cr \<or> c = nl then
        (if c = nl then st\<lparr>newlines := newlines st + 1\<rparr> else st)\<lparr>in_word := False\<rparr>
      else enter_word (if \<not> is_alnum u \<and> is_code_symbol c then st\<lparr>symbols := symbols st + 1\<rparr> else st))"

definition tok_init :: tok_scan where
  "tok_init = \<lparr>words = 0, newlines = 0, symbols = 0, cjk = 0, in_word = False\<rparr>"

definition estimate_tokens :: "string \<Rightarrow> nat" where
  "estimate_tokens s =
     (let n = length s; st = fold tok_step s tok_init in
      if n = 0 then 0
      else if cjk st \<ge> 4 \<and> cjk st * 2 \<ge> words st then
        cjk st * 11 div 10 + (if n \<ge> cjk st * 3 then n - cjk st * 3 else 0) div 4
      else if (newlines st \<ge> 2 \<and> symbols st \<ge> 3) \<or> (newlines st \<ge> 1 \<and> symbols st > words st div 2) \<or> symbols st > n div 6
      then max 1 (n div 4)
      else if words st = 0 then 0
      else let t = words st * 13 div 10 in if t = 0 then 1 else t)"

section \<open>Cache\<close>

definition fnv1a64 :: "string \<Rightarrow> u64" where
  "fnv1a64 s = fold (\<lambda>c h. (h XOR of_nat (byte_val c)) * 1099511628211) s 1469598103934665603"

definition kLines :: nat where "kLines = 8"

record token_cache =
  tc_lines :: "(u64 \<times> nat) option list"
  tc_next :: nat

definition tc_init :: token_cache where
  "tc_init = \<lparr>tc_lines = replicate kLines None, tc_next = 0\<rparr>"

fun tc_lookup :: "u64 \<Rightarrow> (u64 \<times> nat) option list \<Rightarrow> nat option" where
  "tc_lookup key [] = None"
| "tc_lookup key (l # ls) =
     (case l of Some (k, v) \<Rightarrow> if k = key then Some v else tc_lookup key ls | None \<Rightarrow> tc_lookup key ls)"

definition tc_get :: "string \<Rightarrow> token_cache \<Rightarrow> nat \<times> token_cache" where
  "tc_get s tc =
     (if length s \<ge> 2048 then (estimate_tokens s, tc)
      else let key = fnv1a64 s in
        case tc_lookup key (tc_lines tc) of Some v \<Rightarrow> (v, tc)
        | None \<Rightarrow>
          let v = estimate_tokens s in
          (v, \<lparr>tc_lines = (tc_lines tc)[tc_next tc := Some (key, v)], tc_next = (tc_next tc + 1) mod kLines\<rparr>))"

section \<open>Messages\<close>

fun part_tokens :: "Part \<Rightarrow> token_cache \<Rightarrow> nat \<times> token_cache" where
  "part_tokens (Text c) tc = tc_get c tc"
| "part_tokens (Reasoning c) tc = tc_get c tc"
| "part_tokens (ImageUrl u) tc = (8 + length u div 4, tc)"
| "part_tokens (Binary mime d) tc = (4 + length mime div 4 + length d div 4, tc)"
| "part_tokens (ToolCall i n inp fin) tc = (8 + length i div 2 + length n div 4 + estimate_tokens inp, tc)"
| "part_tokens (ToolResult i c err) tc = (case tc_get c tc of (v, tc') \<Rightarrow> (2 + v, tc'))"
| "part_tokens (Finish r) tc = (1, tc)"

fun parts_tokens :: "Part list \<Rightarrow> nat \<Rightarrow> token_cache \<Rightarrow> nat" where
  "parts_tokens [] acc tc = acc"
| "parts_tokens (p # ps) acc tc = (case part_tokens p tc of (v, tc') \<Rightarrow> parts_tokens ps (acc + v) tc')"

definition estimate_message_tokens :: "Message \<Rightarrow> nat" where
  "estimate_message_tokens m = parts_tokens (parts m) 4 tc_init"

section \<open>The cache is transparent\<close>

text \<open>The sum without the cache.\<close>

fun plain_tokens :: "Part \<Rightarrow> nat" where
  "plain_tokens (Text c) = estimate_tokens c"
| "plain_tokens (Reasoning c) = estimate_tokens c"
| "plain_tokens (ImageUrl u) = 8 + length u div 4"
| "plain_tokens (Binary mime d) = 4 + length mime div 4 + length d div 4"
| "plain_tokens (ToolCall i n inp fin) = 8 + length i div 2 + length n div 4 + estimate_tokens inp"
| "plain_tokens (ToolResult i c err) = 2 + estimate_tokens c"
| "plain_tokens (Finish r) = 1"

fun cached_texts :: "Part \<Rightarrow> string list" where
  "cached_texts (Text c) = [c]"
| "cached_texts (Reasoning c) = [c]"
| "cached_texts (ToolResult i c err) = [c]"
| "cached_texts p = []"

definition tc_inv :: "string set \<Rightarrow> token_cache \<Rightarrow> bool" where
  "tc_inv S tc \<longleftrightarrow> (\<forall>k v. Some (k, v) \<in> set (tc_lines tc) \<longrightarrow> (\<exists>s \<in> S. fnv1a64 s = k \<and> estimate_tokens s = v))"

lemma tc_lookup_SomeD: "tc_lookup key ls = Some v \<Longrightarrow> Some (key, v) \<in> set ls"
  by (induction ls) (auto split: option.splits if_splits)

lemma tc_get_correct:
  assumes "tc_inv S tc" "inj_on fnv1a64 S" "s \<in> S"
  shows "fst (tc_get s tc) = estimate_tokens s \<and> tc_inv S (snd (tc_get s tc))"
proof (cases "tc_lookup (fnv1a64 s) (tc_lines tc)")
  case None
  have "tc_inv S \<lparr>tc_lines = (tc_lines tc)[i := Some (fnv1a64 s, estimate_tokens s)], tc_next = j\<rparr>" for i j
    using assms(1,3) set_update_subset_insert [of "tc_lines tc" i "Some (fnv1a64 s, estimate_tokens s)"]
    by (fastforce simp: tc_inv_def)
  then show ?thesis using None assms(1) by (simp add: tc_get_def Let_def)
next
  case (Some v)
  from tc_lookup_SomeD [OF this] assms(1) obtain s' where "s' \<in> S" "fnv1a64 s' = fnv1a64 s" "estimate_tokens s' = v"
    by (auto simp: tc_inv_def)
  moreover from this assms(2,3) have "s' = s" by (auto dest: inj_onD)
  ultimately show ?thesis using Some assms(1) by (simp add: tc_get_def Let_def)
qed

lemma parts_tokens_correct:
  "tc_inv S tc \<Longrightarrow> inj_on fnv1a64 S \<Longrightarrow> \<forall>p \<in> set ps. set (cached_texts p) \<subseteq> S \<Longrightarrow>
   parts_tokens ps acc tc = acc + sum_list (map plain_tokens ps)"
proof (induction ps arbitrary: acc tc)
  case (Cons p ps)
  have "fst (part_tokens p tc) = plain_tokens p \<and> tc_inv S (snd (part_tokens p tc))"
    using Cons.prems tc_get_correct [OF Cons.prems(1,2)]
    by (cases p) (auto simp: case_prod_unfold)
  then show ?case using Cons.IH [of "snd (part_tokens p tc)"] Cons.prems by (simp add: case_prod_unfold)
qed simp

text \<open>
  Memoising by hash does not change the estimate of a message, as long as no two of its cached texts
  collide under the 64-bit hash: the total is the frame overhead plus the sum over the parts.
\<close>

theorem message_tokens_uncached:
  assumes "inj_on fnv1a64 (set (concat (map cached_texts (parts m))))"
  shows "estimate_message_tokens m = 4 + sum_list (map plain_tokens (parts m))"
proof -
  have "tc_inv (set (concat (map cached_texts (parts m)))) tc_init"
    by (auto simp: tc_inv_def tc_init_def)
  from parts_tokens_correct [OF this assms] show ?thesis
    by (auto simp: estimate_message_tokens_def)
qed

theorem message_tokens_uncached_witness:
  "estimate_message_tokens (empty_message\<lparr>parts := [Text ''hello'', Text ''hello'', Finish end_turn]\<rparr>) =
     4 + sum_list (map plain_tokens [Text ''hello'', Text ''hello'', Finish end_turn])"
  using message_tokens_uncached [of "empty_message\<lparr>parts := [Text ''hello'', Text ''hello'', Finish end_turn]\<rparr>"] by simp

end
