(* ===== verification/Sse.thy ===== *)
theory Sse
  imports Errors
begin

text \<open>
  The incremental stream parser of \<open>src/net/sse.cpp\<close>, in its two modes. The sink is the list of events
  a call delivers. The main result is that the events do not depend on how the transport cuts the
  stream into chunks.
\<close>

section \<open>State\<close>

datatype StreamKind = sse | jsonl

record SseEvent =
  ev_id :: string
  ev_event :: string
  ev_data :: string

record SseParser =
  sp_kind :: StreamKind
  sp_frame :: string
  sp_data :: string
  sp_id :: string
  sp_event :: string
  emitted :: nat
  dropped :: u32
  max_frame :: u32
  max_events :: u32

definition sse_new :: "StreamKind \<Rightarrow> SseParser" where
  "sse_new k = \<lparr>sp_kind = k, sp_frame = [], sp_data = [], sp_id = [], sp_event = [],
     emitted = 0, dropped = 0, max_frame = 4194304, max_events = 0\<rparr>"

section \<open>Frames\<close>

definition count_event :: "SseParser \<Rightarrow> error_code \<times> SseParser" where
  "count_event p =
     (let p' = p\<lparr>emitted := emitted p + 1\<rparr> in
      (if max_events p' \<noteq> 0 \<and> emitted p' \<ge> unat (max_events p') then make_error e_net_overflow else ok, p'))"

definition sse_emit :: "SseParser \<Rightarrow> error_code \<times> SseParser \<times> SseEvent list" where
  "sse_emit p =
     (if sp_kind p = jsonl then
        (if sp_data p \<noteq> [] then
           (case count_event (p\<lparr>sp_data := []\<rparr>) of (ec, p') \<Rightarrow>
              (ec, p', [\<lparr>ev_id = [], ev_event = ''message'', ev_data = sp_data p\<rparr>]))
         else (ok, p, []))
      else if sp_data p = [] \<and> sp_id p = [] \<and> sp_event p = [] then (ok, p\<lparr>dropped := dropped p + 1\<rparr>, [])
      else
        (let d = (if sp_data p \<noteq> [] \<and> last (sp_data p) = nl then butlast (sp_data p) else sp_data p) in
         case count_event (p\<lparr>sp_data := [], sp_id := [], sp_event := []\<rparr>) of (ec, p') \<Rightarrow>
           (ec, p', [\<lparr>ev_id = sp_id p, ev_event = sp_event p, ev_data = d\<rparr>])))"

definition sse_field :: "string \<Rightarrow> string \<Rightarrow> SseParser \<Rightarrow> SseParser" where
  "sse_field field value p =
     (if field = ''data'' then p\<lparr>sp_data := sp_data p @ value @ [nl]\<rparr>
      else if field = ''id'' then p\<lparr>sp_id := value\<rparr>
      else if field = ''event'' then p\<lparr>sp_event := value\<rparr>
      else p)"

definition sse_line :: "string \<Rightarrow> SseParser \<Rightarrow> error_code \<times> SseParser \<times> SseEvent list" where
  "sse_line l p =
     (if sp_kind p = jsonl then sse_emit (p\<lparr>sp_data := l\<rparr>)
      else if l = [] then sse_emit p
      else if hd l = CHR '':'' \<or> hd l = sp then (ok, p, [])
      else case find_char (CHR '':'') l of None \<Rightarrow> (ok, p, [])
        | Some colon \<Rightarrow>
          let field = take colon l; value = drop (colon + 1) l;
              value' = (if value \<noteq> [] \<and> hd value = sp then tl value else value)
          in (ok, sse_field field value' p, []))"

section \<open>Feeding\<close>

text \<open>The loop of \<open>feed\<close> over the buffered bytes: the error code, the parser, the bytes left and the events.\<close>

function sse_loop :: "SseParser \<Rightarrow> string \<Rightarrow> error_code \<times> SseParser \<times> string \<times> SseEvent list" where
  "sse_loop p rest =
     (case dropWhile (\<lambda>c. c \<noteq> nl) rest of [] \<Rightarrow> (ok, p, rest, [])
      | _ # rest' \<Rightarrow>
        (case sse_line (chop_cr (takeWhile (\<lambda>c. c \<noteq> nl) rest)) p of (ec, p', evs) \<Rightarrow>
           if \<not> is_ok ec then (ec, p', rest', evs)
           else case sse_loop p' rest' of (ec', p'', r, evs') \<Rightarrow> (ec', p'', r, evs @ evs')))"
  by pat_completeness auto
termination
  by (relation "measure (\<lambda>(_, r). length r)") (auto simp: length_dropWhile_tl)

declare sse_loop.simps [simp del]

definition sse_feed :: "bool \<Rightarrow> string \<Rightarrow> SseParser \<Rightarrow> error_code \<times> SseParser \<times> SseEvent list" where
  "sse_feed abort input p =
     (if input = [] then (ok, p, [])
      else if abort then (make_error e_cancelled, p, [])
      else if length (sp_frame p) + length input > unat (max_frame p) then (make_error e_net_overflow, p, [])
      else case sse_loop p (sp_frame p @ input) of (ec, p', r, evs) \<Rightarrow> (ec, p'\<lparr>sp_frame := r\<rparr>, evs))"

text \<open>A stream fed chunk by chunk until a call fails.\<close>

fun sse_feed_all :: "string list \<Rightarrow> SseParser \<Rightarrow> error_code \<times> SseParser \<times> SseEvent list" where
  "sse_feed_all [] p = (ok, p, [])"
| "sse_feed_all (c # cs) p =
     (case sse_feed False c p of (ec, p', evs) \<Rightarrow>
        if \<not> is_ok ec then (ec, p', evs)
        else case sse_feed_all cs p' of (ec', p'', evs') \<Rightarrow> (ec', p'', evs @ evs'))"

section \<open>Chunk boundaries do not matter\<close>

lemma sse_loop_no_nl: "nl \<notin> set r \<Longrightarrow> sse_loop p r = (ok, p, r, [])"
proof -
  assume "nl \<notin> set r"
  then have "dropWhile (\<lambda>c. c \<noteq> nl) r = []" by (auto simp: dropWhile_eq_Nil_conv)
  then show ?thesis by (subst sse_loop.simps) (simp only: list.case)
qed

lemma sse_loop_line:
  assumes "nl \<notin> set l"
  shows "sse_loop p (l @ nl # r) =
    (case sse_line (chop_cr l) p of (ec, p', evs) \<Rightarrow>
       if \<not> is_ok ec then (ec, p', r, evs)
       else case sse_loop p' r of (ec', p'', r', evs') \<Rightarrow> (ec', p'', r', evs @ evs'))"
proof -
  have "takeWhile (\<lambda>c. c \<noteq> nl) (l @ nl # r) = l" "dropWhile (\<lambda>c. c \<noteq> nl) (l @ nl # r) = nl # r"
    using assms by (induction l) auto
  then show ?thesis by (subst sse_loop.simps) (simp only: list.case)
qed

lemma nl_split: "nl \<in> set s \<Longrightarrow> \<exists>l r. s = l @ nl # r \<and> nl \<notin> set l"
  by (metis split_list_first)

lemma sse_loop_append:
  assumes "sse_loop p s = (ok, p1, r1, evs1)"
  shows "nl \<notin> set r1 \<and> length r1 \<le> length s \<and>
    sse_loop p (s @ t) = (case sse_loop p1 (r1 @ t) of (ec, p2, r2, evs2) \<Rightarrow> (ec, p2, r2, evs1 @ evs2))"
  using assms
proof (induction "length s" arbitrary: s p p1 r1 evs1 rule: less_induct)
  case less
  show ?case
  proof (cases "nl \<in> set s")
    case False
    then show ?thesis using less.prems by (auto simp: sse_loop_no_nl split: prod.split)
  next
    case True
    then obtain l r where s: "s = l @ nl # r" "nl \<notin> set l" using nl_split by blast
    obtain ec p' evs where ln: "sse_line (chop_cr l) p = (ec, p', evs)" by (cases "sse_line (chop_cr l) p")
    have okc: "is_ok ec" using less.prems ln unfolding s(1) sse_loop_line [OF s(2)] by (auto split: if_splits)
    obtain ec' p'' r'' evs' where lp: "sse_loop p' r = (ec', p'', r'', evs')" by (cases "sse_loop p' r")
    have res: "ec' = ok" "p1 = p''" "r1 = r''" "evs1 = evs @ evs'"
      using less.prems ln lp okc unfolding s(1) sse_loop_line [OF s(2)] by auto
    have IH: "nl \<notin> set r1 \<and> length r1 \<le> length r \<and>
        sse_loop p' (r @ t) = (case sse_loop p1 (r1 @ t) of (ec, p2, r2, evs2) \<Rightarrow> (ec, p2, r2, evs' @ evs2))"
      using lp res by (intro less.hyps) (simp_all add: s(1))
    have "sse_loop p (s @ t) = (case sse_loop p' (r @ t) of (ec', p'', r', evs') \<Rightarrow> (ec', p'', r', evs @ evs'))"
      using sse_loop_line [OF s(2), of p "r @ t"] ln okc by (simp add: s(1))
    then show ?thesis using IH res s(1) by (auto split: prod.splits)
  qed
qed

text \<open>The loop touches neither the buffer nor the limits, which \<open>feed\<close> sets and reads around it.\<close>

lemma sse_line_keeps:
  "sse_line l p = (ec, p', evs) \<Longrightarrow> max_frame p' = max_frame p \<and> sp_frame p' = sp_frame p"
  by (auto simp: sse_line_def sse_emit_def sse_field_def count_event_def Let_def split: if_splits option.splits)

lemma sse_emit_frame:
  "sse_emit (p\<lparr>sp_frame := f\<rparr>) = (case sse_emit p of (ec, p', evs) \<Rightarrow> (ec, p'\<lparr>sp_frame := f\<rparr>, evs))"
  by (cases p) (simp add: sse_emit_def count_event_def Let_def)

lemma sse_line_frame:
  "sse_line l (p\<lparr>sp_frame := f\<rparr>) = (case sse_line l p of (ec, p', evs) \<Rightarrow> (ec, p'\<lparr>sp_frame := f\<rparr>, evs))"
proof -
  have "sse_emit (p\<lparr>sp_frame := f, sp_data := d\<rparr>) =
      (case sse_emit (p\<lparr>sp_data := d\<rparr>) of (ec, p', evs) \<Rightarrow> (ec, p'\<lparr>sp_frame := f\<rparr>, evs))" for d
    by (cases p) (simp add: sse_emit_def count_event_def Let_def)
  moreover have "sse_field a b (p\<lparr>sp_frame := f\<rparr>) = (sse_field a b p)\<lparr>sp_frame := f\<rparr>" for a b
    by (cases p) (simp add: sse_field_def)
  ultimately show ?thesis
    by (simp add: sse_line_def sse_emit_frame Let_def split: option.split del: find_char_None)
qed

lemma sse_line_code: "sse_line l p = (ec, p', evs) \<Longrightarrow> ec = ok \<or> ec = make_error e_net_overflow"
  by (auto simp: sse_line_def sse_emit_def count_event_def Let_def split: if_splits option.splits)

lemma sse_loop_fail:
  "sse_loop p s = (ec, p', r, evs) \<Longrightarrow> ec = ok \<or> \<not> is_ok ec \<and> sse_loop p (s @ t) = (ec, p', r @ t, evs)"
proof (induction "length s" arbitrary: s p ec p' r evs rule: less_induct)
  case less
  show ?case
  proof (cases "nl \<in> set s")
    case False
    then show ?thesis using less.prems by (simp add: sse_loop_no_nl)
  next
    case True
    then obtain l u where s: "s = l @ nl # u" "nl \<notin> set l" using nl_split by blast
    then have len: "length u < length s" by simp
    obtain ec1 p1 evs1 where ln: "sse_line (chop_cr l) p = (ec1, p1, evs1)" by (cases "sse_line (chop_cr l) p")
    obtain ec2 p2 r2 evs2 where lp: "sse_loop p1 u = (ec2, p2, r2, evs2)" by (cases "sse_loop p1 u")
    have st: "s @ t = l @ nl # (u @ t)" by (simp add: s(1))
    show ?thesis
      using less.prems sse_line_code [OF ln] less.hyps [OF len lp]
      unfolding st unfolding s(1) sse_loop_line [OF s(2)] ln by (auto simp: lp)
  qed
qed

lemma sse_loop_keeps: "sse_loop p s = (ec, p', r, evs) \<Longrightarrow> max_frame p' = max_frame p"
proof (induction "length s" arbitrary: s p ec p' r evs rule: less_induct)
  case less
  show ?case
  proof (cases "nl \<in> set s")
    case False
    then show ?thesis using less.prems by (simp add: sse_loop_no_nl)
  next
    case True
    then obtain l u where s: "s = l @ nl # u" "nl \<notin> set l" using nl_split by blast
    then have len: "length u < length s" by simp
    show ?thesis using less.prems less.hyps [OF len] unfolding s(1) sse_loop_line [OF s(2)]
      by (auto dest!: sse_line_keeps split: prod.splits if_splits)
  qed
qed

lemma sse_loop_frame:
  "sse_loop (p\<lparr>sp_frame := f\<rparr>) s = (case sse_loop p s of (ec, p', r, evs) \<Rightarrow> (ec, p'\<lparr>sp_frame := f\<rparr>, r, evs))"
proof (induction "length s" arbitrary: s p rule: less_induct)
  case less
  show ?case
  proof (cases "nl \<in> set s")
    case False
    then show ?thesis by (simp add: sse_loop_no_nl)
  next
    case True
    then obtain l u where s: "s = l @ nl # u" "nl \<notin> set l" using nl_split by blast
    then have len: "length u < length s" by simp
    show ?thesis unfolding s(1) sse_loop_line [OF s(2)] sse_line_frame
      using less.hyps [OF len] by (auto split: prod.splits if_splits)
  qed
qed

lemma sse_feed_append:
  assumes "sse_feed False (a @ b) p = (ok, p2, evs)"
  shows "\<exists>p1 evs1 evs2. sse_feed False a p = (ok, p1, evs1) \<and> sse_feed False b p1 = (ok, p2, evs2) \<and> evs = evs1 @ evs2"
proof (cases "a = [] \<or> b = []")
  case True
  have nil: "sse_feed False [] q = (ok, q, [])" for q by (simp add: sse_feed_def)
  show ?thesis using True
  proof
    assume "a = []"
    then show ?thesis using assms nil by (intro exI [of _ p] exI [of _ "[]"] exI [of _ evs]) simp
  next
    assume "b = []"
    then show ?thesis using assms nil by (intro exI [of _ p2] exI [of _ evs] exI [of _ "[]"]) simp
  qed
next
  case False
  let ?s = "sp_frame p @ a"
  have fits: "length (sp_frame p) + length (a @ b) \<le> unat (max_frame p)"
    using assms False by (auto simp: sse_feed_def ok_def make_error_code_def split: if_splits)
  obtain ec1 p1 r1 evs1 where l1: "sse_loop p ?s = (ec1, p1, r1, evs1)" by (cases "sse_loop p ?s")
  have whole: "(case sse_loop p (?s @ b) of (ec, p', r, evs) \<Rightarrow> (ec, p'\<lparr>sp_frame := r\<rparr>, evs)) = (ok, p2, evs)"
    using assms False fits by (simp add: sse_feed_def)
  have ok1: "ec1 = ok" using sse_loop_fail [OF l1, of b] whole by auto
  note app = sse_loop_append [OF l1 [unfolded ok1], of b]
  obtain ec2 q2 r2 evs2 where l2: "sse_loop p1 (r1 @ b) = (ec2, q2, r2, evs2)" by (cases "sse_loop p1 (r1 @ b)")
  have res: "ec2 = ok" "p2 = q2\<lparr>sp_frame := r2\<rparr>" "evs = evs1 @ evs2" using whole app l2 by auto
  have "sse_feed False a p = (ok, p1\<lparr>sp_frame := r1\<rparr>, evs1)"
    using False fits l1 ok1 by (simp add: sse_feed_def)
  moreover have "sse_feed False b (p1\<lparr>sp_frame := r1\<rparr>) = (ok, p2, evs2)"
    using False fits app sse_loop_keeps [OF l1] l2 res by (simp add: sse_feed_def sse_loop_frame)
  ultimately show ?thesis using res(3) by blast
qed

text \<open>
  C14: the events of a stream and the state after it do not depend on the chunks it arrives in. If the
  bytes fed at once are accepted, then any way of cutting them into chunks is accepted, delivers exactly
  the same events in the same order, and leaves the parser in the same state.
\<close>

theorem sse_chunk_invariant:
  "sse_feed False (concat cs) p = (ok, p', evs) \<Longrightarrow> sse_feed_all cs p = (ok, p', evs)"
proof (induction cs arbitrary: p evs)
  case Nil
  then show ?case by (simp add: sse_feed_def)
next
  case (Cons c cs)
  then obtain p1 evs1 evs2 where "sse_feed False c p = (ok, p1, evs1)"
    "sse_feed False (concat cs) p1 = (ok, p', evs2)" "evs = evs1 @ evs2"
    using sse_feed_append [of c "concat cs" p p' evs] by auto
  then show ?case using Cons.IH by simp
qed

theorem sse_chunk_invariant_witness:
  "sse_feed_all [''dat'', ''a: x'' @ [cr, nl] @ ''id: 7'' @ [nl], [nl] @ ''da''] (sse_new sse) =
     (ok, (sse_new sse)\<lparr>sp_frame := ''da'', emitted := 1\<rparr>, [\<lparr>ev_id = ''7'', ev_event = [], ev_data = ''x''\<rparr>])"
proof -
  have "sse_feed False (concat [''dat'', ''a: x'' @ [cr, nl] @ ''id: 7'' @ [nl], [nl] @ ''da'']) (sse_new sse) =
     (ok, (sse_new sse)\<lparr>sp_frame := ''da'', emitted := 1\<rparr>, [\<lparr>ev_id = ''7'', ev_event = [], ev_data = ''x''\<rparr>])"
    by (simp add: sse_feed_def sse_new_def sse_loop.simps sse_line_def chop_cr_def sse_emit_def sse_field_def
        count_event_def Let_def)
  then show ?thesis by (rule sse_chunk_invariant)
qed

end
