(* ===== verification/Retry_Policy.thy ===== *)
theory Retry_Policy
  imports Errors
begin

unbundle bit_operations_syntax

text \<open>
  Retry classification and backoff, \<open>src/net/policy.cpp\<close>. The jitter share \<open>base * budget.jitter\<close> is a
  product of doubles truncated to an integer; it is the parameter \<open>share\<close>, a function of the base delay.
  The jitter stream is the 32-bit xorshift of the source, its seed threaded through the calls.
\<close>

record RetryBudget =
  max_retries :: u32
  time_cap_ms :: u64
  base_delay_ms :: u32
  max_delay_ms :: u32

definition default_budget :: RetryBudget where
  "default_budget = \<lparr>max_retries = 8, time_cap_ms = 0, base_delay_ms = 300, max_delay_ms = 30000\<rparr>"

record RetryDecision =
  rd_retry :: bool
  rd_delay_ms :: u64
  rd_exhausted :: bool
  rd_reason :: string

definition no_decision :: RetryDecision where
  "no_decision = \<lparr>rd_retry = False, rd_delay_ms = 0, rd_exhausted = False, rd_reason = []\<rparr>"

section \<open>Jitter\<close>

definition set_seed :: "u32 \<Rightarrow> u32" where
  "set_seed seed = (if seed \<noteq> 0 then seed else 0x9e37)"

definition next_random :: "u32 \<Rightarrow> u32" where
  "next_random s =
     (let s1 = s XOR push_bit 13 s; s2 = s1 XOR drop_bit 17 s1 in s2 XOR push_bit 5 s2)"

definition jitter_ms :: "(u64 \<Rightarrow> u64) \<Rightarrow> u64 \<Rightarrow> u32 \<Rightarrow> u32 \<times> u32" where
  "jitter_ms share base seed =
     (if base = 0 then (0, seed)
      else let lo = base - share base; hi = base + share base in
        if lo \<ge> hi then (ucast base, seed)
        else let span = ucast (hi - lo + 1); seed' = next_random seed in (ucast lo + seed' mod span, seed'))"

section \<open>Backoff\<close>

definition retryable_code :: "error_code \<Rightarrow> bool" where
  "retryable_code ec \<longleftrightarrow> retry_class (ec_code ec) = retry_retryable"

text \<open>The doubling loop: \<open>n\<close> rounds are left.\<close>

fun backoff_go :: "nat \<Rightarrow> u64 \<Rightarrow> u64 \<Rightarrow> u64" where
  "backoff_go 0 cap d = d"
| "backoff_go (Suc n) cap d =
     (if d < cap then let d' = d * 2 in backoff_go n cap (if d' > cap then cap else d') else d)"

definition backoff :: "RetryBudget \<Rightarrow> u32 \<Rightarrow> u64" where
  "backoff b attempt =
     (let cap = ucast (max_delay_ms b); d = backoff_go (unat attempt - 1) cap (ucast (base_delay_ms b))
      in if d > cap then cap else d)"

definition next_delay_ms :: "(u64 \<Rightarrow> u64) \<Rightarrow> RetryBudget \<Rightarrow> u32 \<Rightarrow> u32 \<Rightarrow> u64 \<times> u32" where
  "next_delay_ms share b attempt seed =
     (case jitter_ms share (backoff b attempt) seed of (d, seed') \<Rightarrow> (ucast d, seed'))"

definition decide :: "(u64 \<Rightarrow> u64) \<Rightarrow> RetryBudget \<Rightarrow> error_code \<Rightarrow> u32 \<Rightarrow> u32 \<Rightarrow> RetryDecision \<times> u32" where
  "decide share b ec attempt seed =
     (if is_ok ec then (no_decision\<lparr>rd_retry := False, rd_reason := ''ok''\<rparr>, seed)
      else if \<not> retryable_code ec then (no_decision\<lparr>rd_exhausted := True, rd_reason := ''non-retryable''\<rparr>, seed)
      else if attempt \<ge> max_retries b then (no_decision\<lparr>rd_exhausted := True, rd_reason := ''exhausted''\<rparr>, seed)
      else case next_delay_ms share b attempt seed of (d, seed') \<Rightarrow>
        (no_decision\<lparr>rd_retry := True, rd_delay_ms := d, rd_reason := ''backoff''\<rparr>, seed'))"

definition decide_retry_after :: "(u64 \<Rightarrow> u64) \<Rightarrow> RetryBudget \<Rightarrow> u32 \<Rightarrow> u32 \<Rightarrow> u32 \<Rightarrow> RetryDecision \<times> u32" where
  "decide_retry_after share b retry_after_s attempt seed =
     (if attempt \<ge> max_retries b then (no_decision\<lparr>rd_exhausted := True, rd_reason := ''exhausted''\<rparr>, seed)
      else let after_ms = ucast retry_after_s * 1000 in
        case next_delay_ms share b attempt seed of (bo, seed') \<Rightarrow>
        (no_decision\<lparr>rd_retry := True, rd_delay_ms := (if after_ms > bo then after_ms else bo),
                     rd_reason := ''rate-limit''\<rparr>, seed'))"

section \<open>The backoff is a capped geometric sequence\<close>

lemma unat_ucast_u32 [simp]: "unat (ucast (w :: u32) :: u64) = unat w"
proof -
  have "take_bit 64 (unat w) = unat w" using unat_u32_le [of w] by (simp add: take_bit_nat_eq_self)
  then show ?thesis by (simp add: unsigned_ucast_eq take_bit_word_eq_self)
qed

lemma backoff_go_unat:
  "unat d \<le> 4294967295 \<Longrightarrow> unat cap \<le> 4294967295 \<Longrightarrow> 0 < unat d \<Longrightarrow>
   unat (backoff_go n cap d) = (if unat d < unat cap then min (unat d * 2 ^ n) (unat cap) else unat d)"
proof (induction n cap d rule: backoff_go.induct)
  case (1 cap d)
  then show ?case by simp
next
  case (2 n cap d)
  have dbl: "unat (d * 2) = unat d * 2" using 2(2) by (simp add: unat_word_ariths)
  show ?case
  proof (cases "d < cap")
    case True
    let ?d = "if d * 2 > cap then cap else d * 2"
    have ud: "unat ?d = min (unat d * 2) (unat cap)" using dbl by (simp add: word_less_nat_alt min_def)
    have "unat (backoff_go n cap ?d) = (if unat ?d < unat cap then min (unat ?d * 2 ^ n) (unat cap) else unat ?d)"
      using True 2(2-4) ud by (intro "2.IH" [OF True refl]) (auto simp: min_def word_less_nat_alt)
    also have "\<dots> = min (unat d * 2 ^ Suc n) (unat cap)"
    proof (cases "unat d * 2 < unat cap")
      case True
      then show ?thesis using ud by (simp add: min_def mult.assoc)
    next
      case False
      have "unat d * 2 \<le> unat d * 2 ^ Suc n" by (intro mult_le_mono2) simp
      then have "unat cap \<le> unat d * 2 ^ Suc n" using False by linarith
      moreover have "unat ?d = unat cap" using False ud by simp
      ultimately show ?thesis by (simp only: min_absorb2 if_cancel less_irrefl if_False)
    qed
    finally show ?thesis using True by (simp add: word_less_nat_alt Let_def)
  next
    case False
    then show ?thesis by (simp add: word_less_nat_alt)
  qed
qed

lemma backoff_unat:
  assumes "0 < base_delay_ms b"
  shows "unat (backoff b attempt) = min (unat (base_delay_ms b) * 2 ^ (unat attempt - 1)) (unat (max_delay_ms b))"
proof -
  let ?cap = "ucast (max_delay_ms b) :: u64" and ?d = "ucast (base_delay_ms b) :: u64"
  have pos: "0 < unat (base_delay_ms b)" using assms by (simp add: word_less_nat_alt)
  have go: "unat (backoff_go (unat attempt - 1) ?cap ?d) =
      (if unat (base_delay_ms b) < unat (max_delay_ms b)
       then min (unat (base_delay_ms b) * 2 ^ (unat attempt - 1)) (unat (max_delay_ms b)) else unat (base_delay_ms b))"
    using backoff_go_unat [of ?d ?cap "unat attempt - 1"] unat_u32_le pos by simp
  show ?thesis
  proof (cases "unat (base_delay_ms b) < unat (max_delay_ms b)")
    case True
    then show ?thesis using go by (auto simp: backoff_def Let_def word_less_nat_alt)
  next
    case False
    have "unat (base_delay_ms b) \<le> unat (base_delay_ms b) * 2 ^ (unat attempt - 1)" by simp
    then have "unat (max_delay_ms b) \<le> unat (base_delay_ms b) * 2 ^ (unat attempt - 1)" using False by linarith
    then have "min (unat (base_delay_ms b) * 2 ^ (unat attempt - 1)) (unat (max_delay_ms b)) = unat (max_delay_ms b)"
      by (rule min_absorb2)
    then show ?thesis using go False by (auto simp: backoff_def Let_def word_less_nat_alt)
  qed
qed

lemma backoff_le_cap: "unat (backoff b attempt) \<le> unat (max_delay_ms b)"
  by (auto simp: backoff_def Let_def word_less_nat_alt)

lemma jitter_bounds:
  assumes "unat (share d) \<le> unat d" "unat d + unat (share d) \<le> 4294967295"
  shows "unat d - unat (share d) \<le> unat (fst (jitter_ms share d seed))"
    and "unat (fst (jitter_ms share d seed)) \<le> unat d + unat (share d)"
proof -
  let ?s = "share d" and ?j = "fst (jitter_ms share d seed)"
  have lo: "unat (d - ?s) = unat d - unat ?s" using assms(1) by (simp add: unat_sub word_le_nat_alt)
  have hi: "unat (d + ?s) = unat d + unat ?s" using assms(2) by (simp add: unat_word_ariths)
  have down: "unat (ucast w :: u32) = unat w" if "unat w \<le> 4294967295" for w :: u64
    using that by (simp add: unsigned_ucast_eq unsigned_take_bit_eq take_bit_nat_eq_self)
  have "unat d - unat ?s \<le> unat ?j \<and> unat ?j \<le> unat d + unat ?s"
  proof (cases "d = 0 \<or> d - ?s \<ge> d + ?s")
    case True
    then show ?thesis using assms down [of d] lo hi
      by (auto simp: jitter_ms_def Let_def word_le_nat_alt)
  next
    case False
    then have less: "unat ?s > 0" using lo hi by (cases "unat ?s = 0") (simp_all add: word_le_nat_alt not_le)
    have "unat (2 * ?s) = 2 * unat ?s" using assms by (simp add: unat_word_ariths)
    then have "unat (d + ?s - (d - ?s)) = 2 * unat ?s" by simp
    then have sp1: "unat (d + ?s - (d - ?s) + 1) = 2 * unat ?s + 1" using assms by (simp add: unat_word_ariths)
    let ?span = "ucast (d + ?s - (d - ?s) + 1) :: u32" and ?r = "next_random seed"
    have "2 * unat ?s + 1 \<le> 4294967295" using assms less by arith
    then have span: "unat ?span = 2 * unat ?s + 1" using down [of "d + ?s - (d - ?s) + 1"] sp1 by simp
    then have r: "unat (?r mod ?span) \<le> 2 * unat ?s"
      using mod_less_divisor [of "2 * unat ?s + 1" "unat ?r"] by (simp add: unat_mod)
    have lo32: "unat (ucast (d - ?s) :: u32) = unat d - unat ?s" using down [of "d - ?s"] lo assms by simp
    have "unat (ucast (d - ?s) + ?r mod ?span :: u32) = unat d - unat ?s + unat (?r mod ?span)"
      using lo32 r assms by (simp add: unat_word_ariths)
    then show ?thesis using False r assms(1) by (simp add: jitter_ms_def Let_def) linarith
  qed
  then show "unat d - unat ?s \<le> unat ?j" "unat ?j \<le> unat d + unat ?s" by simp_all
qed

text \<open>
  C15: what a retry decision says. A request is retried exactly when its error is retryable and fewer than
  \<open>max_retries\<close> attempts were made; the delay is the doubled base, capped, give or take the jitter share;
  success and refusal carry no delay.
\<close>

theorem retry_decision:
  assumes "0 < base_delay_ms b"
    and "unat (share (backoff b attempt)) \<le> unat (backoff b attempt)"
    and "unat (backoff b attempt) + unat (share (backoff b attempt)) \<le> 4294967295"
  shows "let d = fst (decide share b ec attempt seed);
             bo = min (unat (base_delay_ms b) * 2 ^ (unat attempt - 1)) (unat (max_delay_ms b));
             sh = unat (share (backoff b attempt))
         in (rd_retry d \<longleftrightarrow> \<not> is_ok ec \<and> retryable_code ec \<and> attempt < max_retries b)
          \<and> (rd_retry d \<and> bo - sh \<le> unat (rd_delay_ms d) \<and> unat (rd_delay_ms d) \<le> bo + sh
             \<or> \<not> rd_retry d \<and> rd_delay_ms d = 0)"
proof -
  obtain j seed' where j: "jitter_ms share (backoff b attempt) seed = (j, seed')" by fastforce
  have "fst (jitter_ms share (backoff b attempt) seed) = j" using j by simp
  then show ?thesis
    using jitter_bounds [where share = share, OF assms(2,3), of seed] backoff_unat [OF assms(1), of attempt] j
    by (auto simp: decide_def no_decision_def next_delay_ms_def Let_def)
qed

theorem retry_decision_witness:
  "rd_retry (fst (decide (\<lambda>w. w * 3 div 10) default_budget (make_error e_net_timeout) 1 7)) \<and>
   unat (rd_delay_ms (fst (decide (\<lambda>w. w * 3 div 10) default_budget (make_error e_net_timeout) 1 7))) \<le> 390"
proof -
  have b: "backoff default_budget 1 = 300" by (simp add: backoff_def default_budget_def)
  show ?thesis
    using retry_decision [of default_budget "\<lambda>w. w * 3 div 10" 1 "make_error e_net_timeout" 7] b
    by (auto simp: Let_def default_budget_def is_ok_def make_error_code_def retryable_code_def retry_class_def)
qed

text \<open>The jitter comes after the cap: with the default budget a retry can wait longer than the cap of
  30 seconds.\<close>

lemma jitter_exceeds_cap:
  "fst (next_delay_ms (\<lambda>w. w * 3 div 10) default_budget 8 40503) > ucast (max_delay_ms default_budget)"
proof -
  have e: "unat (8 :: u32) - 1 = Suc (Suc (Suc (Suc (Suc (Suc (Suc 0))))))" by simp
  have "backoff default_budget 8 = 30000" unfolding backoff_def e by (simp add: default_budget_def)
  then show ?thesis by (simp add: next_delay_ms_def jitter_ms_def next_random_def default_budget_def)
qed

end
