(* ===== verification/Bounded_Fifo.thy ===== *)
theory Bounded_Fifo
  imports Prelude
begin

text \<open>
  The contract of a bounded first-in first-out queue, shared by the cross-thread channel and the offline
  request queue, and what every client gets from it: over any interleaving of pushes and pops nothing
  is lost, duplicated or reordered, and the bound holds.
\<close>

datatype 'a fifo_op = Push 'a | Pop

text \<open>A run: the accepted pushes, the popped elements and the final queue.\<close>

fun run_ops :: "('a \<Rightarrow> 'q \<Rightarrow> bool \<times> 'q) \<Rightarrow> ('q \<Rightarrow> 'a option \<times> 'q) \<Rightarrow> 'a fifo_op list \<Rightarrow> 'q \<Rightarrow> 'a list \<times> 'a list \<times> 'q" where
  "run_ops push pop [] q = ([], [], q)"
| "run_ops push pop (Push x # ops) q =
     (case push x q of (b, q1) \<Rightarrow> case run_ops push pop ops q1 of (acc, out, q2) \<Rightarrow> (if b then x # acc else acc, out, q2))"
| "run_ops push pop (Pop # ops) q =
     (case pop q of (r, q1) \<Rightarrow> case run_ops push pop ops q1 of (acc, out, q2) \<Rightarrow>
        (acc, (case r of Some x \<Rightarrow> x # out | None \<Rightarrow> out), q2))"

locale bounded_fifo =
  fixes inv :: "'q \<Rightarrow> bool"
    and contents :: "'q \<Rightarrow> 'a list"
    and bound :: "'q \<Rightarrow> nat"
    and push :: "'a \<Rightarrow> 'q \<Rightarrow> bool \<times> 'q"
    and pop :: "'q \<Rightarrow> 'a option \<times> 'q"
  assumes bounded: "inv q \<Longrightarrow> length (contents q) \<le> bound q"
    and push_True: "inv q \<Longrightarrow> push x q = (True, q') \<Longrightarrow> inv q' \<and> contents q' = contents q @ [x]"
    and push_False: "inv q \<Longrightarrow> push x q = (False, q') \<Longrightarrow> inv q' \<and> contents q' = contents q"
    and pop_Some: "inv q \<Longrightarrow> contents q = x # xs \<Longrightarrow> pop q = (r, q') \<Longrightarrow> r = Some x \<and> inv q' \<and> contents q' = xs"
    and pop_None: "inv q \<Longrightarrow> contents q = [] \<Longrightarrow> pop q = (r, q') \<Longrightarrow> r = None \<and> inv q' \<and> contents q' = []"
begin

lemma history:
  "inv q \<Longrightarrow> run_ops push pop ops q = (acc, out, q') \<Longrightarrow>
   inv q' \<and> contents q @ acc = out @ contents q' \<and> length (contents q') \<le> bound q'"
proof (induction ops arbitrary: q acc out)
  case Nil
  then show ?case by (auto dest: bounded)
next
  case (Cons op ops)
  show ?case
  proof (cases op)
    case (Push x)
    obtain b q1 where p: "push x q = (b, q1)" by fastforce
    obtain acc1 out1 q2 where r: "run_ops push pop ops q1 = (acc1, out1, q2)" by (cases "run_ops push pop ops q1")
    have eq: "acc = (if b then x # acc1 else acc1)" "out = out1" "q' = q2"
      using Cons.prems(2) p r by (auto simp: Push)
    have c: "inv q1" "contents q1 = (if b then contents q @ [x] else contents q)"
      using push_True [OF Cons.prems(1)] push_False [OF Cons.prems(1)] p by (cases b; simp)+
    show ?thesis using Cons.IH [OF c(1)] r eq c(2) by (cases b) simp_all
  next
    case Pop
    obtain res q1 where p: "pop q = (res, q1)" by fastforce
    obtain acc1 out1 q2 where r: "run_ops push pop ops q1 = (acc1, out1, q2)" by (cases "run_ops push pop ops q1")
    have eq: "acc = acc1" "out = (case res of Some x \<Rightarrow> x # out1 | None \<Rightarrow> out1)" "q' = q2"
      using Cons.prems(2) p r by (auto simp: Pop)
    show ?thesis
    proof (cases "contents q")
      case Nil
      have h: "res = None" "inv q1" "contents q1 = []" using pop_None [OF Cons.prems(1) Nil p] by auto
      show ?thesis using Cons.IH [OF h(2)] r eq h Nil by simp
    next
      case q: (Cons x xs)
      have h: "res = Some x" "inv q1" "contents q1 = xs" using pop_Some [OF Cons.prems(1) q p] by auto
      show ?thesis using Cons.IH [OF h(2)] r eq h q by simp
    qed
  qed
qed

end

end
