(* ===== verification/Channel.thy ===== *)
theory Channel
  imports Bounded_Fifo
begin

text \<open>
  The bounded multi-producer channel of \<open>src/core/channel.cpp\<close>: a ring buffer with head, tail and count.
  Each operation runs under the channel's mutex, so an execution is a sequence of operations. The ring
  refines a bounded queue with a closed flag.
\<close>

record chan_msg =
  cm_tag :: u32
  cm_len :: u32
  cm_data :: nat

datatype PopResult = kEmpty | kOk chan_msg | kClosed

record channel =
  ch_cap :: nat
  ring :: "chan_msg list"
  head :: nat
  tail :: nat
  ch_count :: nat
  closed :: bool

definition chan_new :: "nat \<Rightarrow> channel" where
  "chan_new capacity =
     (let cap = (if capacity = 0 then 1 else capacity) in
      \<lparr>ch_cap = cap, ring = replicate cap \<lparr>cm_tag = 0, cm_len = 0, cm_data = 0\<rparr>, head = 0, tail = 0,
       ch_count = 0, closed = False\<rparr>)"

definition try_push :: "chan_msg \<Rightarrow> channel \<Rightarrow> bool \<times> channel" where
  "try_push m c =
     (if closed c \<or> ch_count c = ch_cap c then (False, c)
      else (True, c\<lparr>ring := (ring c)[tail c := m], tail := (tail c + 1) mod ch_cap c, ch_count := ch_count c + 1\<rparr>))"

definition try_pop :: "channel \<Rightarrow> PopResult \<times> channel" where
  "try_pop c =
     (if ch_count c = 0 then (if closed c then kClosed else kEmpty, c)
      else (kOk (ring c ! head c), c\<lparr>head := (head c + 1) mod ch_cap c, ch_count := ch_count c - 1\<rparr>))"

definition chan_close :: "channel \<Rightarrow> channel" where
  "chan_close c =
     (let c' = c\<lparr>closed := True\<rparr> in if ch_count c' = 0 then c'\<lparr>head := 0, tail := 0\<rparr> else c')"

definition chan_drop :: "channel \<Rightarrow> channel" where
  "chan_drop c = c\<lparr>ch_count := 0, head := 0, tail := 0, closed := True\<rparr>"

section \<open>Refinement\<close>

definition chan_inv :: "channel \<Rightarrow> bool" where
  "chan_inv c \<longleftrightarrow> 0 < ch_cap c \<and> length (ring c) = ch_cap c \<and> head c < ch_cap c \<and> ch_count c \<le> ch_cap c \<and>
     tail c = (head c + ch_count c) mod ch_cap c"

definition chan_contents :: "channel \<Rightarrow> chan_msg list" where
  "chan_contents c = map (\<lambda>i. ring c ! ((head c + i) mod ch_cap c)) [0..<ch_count c]"

definition pop_msg :: "channel \<Rightarrow> chan_msg option \<times> channel" where
  "pop_msg c = (case try_pop c of (r, c') \<Rightarrow> (case r of kOk m \<Rightarrow> Some m | _ \<Rightarrow> None, c'))"

lemma chan_new_inv: "chan_inv (chan_new n) \<and> chan_contents (chan_new n) = []"
  by (simp add: chan_new_def chan_inv_def chan_contents_def Let_def)

lemma chan_close_inv: "chan_inv c \<Longrightarrow> chan_inv (chan_close c) \<and> chan_contents (chan_close c) = chan_contents c \<and> closed (chan_close c)"
  by (auto simp: chan_close_def chan_inv_def chan_contents_def Let_def)

lemma chan_drop_inv: "chan_inv c \<Longrightarrow> chan_inv (chan_drop c) \<and> chan_contents (chan_drop c) = [] \<and> closed (chan_drop c)"
  by (simp add: chan_drop_def chan_inv_def chan_contents_def)

lemma mod_distinct: "i < n \<Longrightarrow> j < n \<Longrightarrow> i \<noteq> j \<Longrightarrow> (h + i) mod n \<noteq> (h + j) mod (n :: nat)"
proof (induction i j rule: linorder_wlog)
  case (le i j)
  have "\<not> n dvd j - i" using le by (auto dest: dvd_imp_le)
  then show ?case using mod_eq_dvd_iff_nat [of "h + i" "h + j" n] le(1) by auto
qed metis

lemma chan_push_spec:
  assumes "chan_inv c" "try_push m c = (True, c')"
  shows "chan_inv c' \<and> chan_contents c' = chan_contents c @ [m]"
proof -
  let ?n = "ch_cap c"
  have g: "\<not> closed c" "ch_count c < ?n" and c': "c' = c\<lparr>ring := (ring c)[tail c := m], tail := (tail c + 1) mod ?n, ch_count := ch_count c + 1\<rparr>"
    using assms by (auto simp: try_push_def chan_inv_def split: if_splits)
  have t: "tail c = (head c + ch_count c) mod ?n" "tail c < ?n" "length (ring c) = ?n"
    using assms(1) by (auto simp: chan_inv_def)
  have "(ring c)[tail c := m] ! ((head c + i) mod ?n) = ring c ! ((head c + i) mod ?n)" if "i < ch_count c" for i
    using that mod_distinct [of i ?n "ch_count c" "head c"] g t by (subst nth_list_update_neq) auto
  then have "chan_contents c' = chan_contents c @ [m]"
    using t by (simp add: chan_contents_def c')
  moreover have "chan_inv c'" using assms(1) g by (simp add: chan_inv_def c' mod_Suc_eq)
  ultimately show ?thesis by blast
qed

lemma chan_pop_spec:
  assumes "chan_inv c" "chan_contents c = m # ms"
  shows "try_pop c = (kOk m, snd (try_pop c)) \<and> chan_inv (snd (try_pop c)) \<and> chan_contents (snd (try_pop c)) = ms"
proof -
  let ?n = "ch_cap c"
  obtain k where k: "ch_count c = Suc k" using assms(2) by (cases "ch_count c") (auto simp: chan_contents_def)
  have h: "head c < ?n" using assms(1) by (simp add: chan_inv_def)
  have m: "m = ring c ! head c" "ms = map (\<lambda>i. ring c ! ((head c + Suc i) mod ?n)) [0..<k]"
    using assms(2) h by (auto simp: chan_contents_def k upt_conv_Cons map_Suc_upt [symmetric] comp_def simp del: upt_Suc)
  have "chan_inv (snd (try_pop c))"
    using assms(1) h by (auto simp: chan_inv_def try_pop_def k mod_Suc_eq mod_add_left_eq)
  then show ?thesis using m by (simp add: try_pop_def k chan_contents_def mod_Suc_eq mod_add_left_eq)
qed

interpretation chan: bounded_fifo chan_inv chan_contents ch_cap try_push pop_msg
proof unfold_locales
  show "chan_inv c \<Longrightarrow> length (chan_contents c) \<le> ch_cap c" for c
    by (simp add: chan_inv_def chan_contents_def)
  show "chan_inv c \<Longrightarrow> try_push x c = (True, c') \<Longrightarrow> chan_inv c' \<and> chan_contents c' = chan_contents c @ [x]" for c x c'
    by (rule chan_push_spec)
  show "chan_inv c \<Longrightarrow> try_push x c = (False, c') \<Longrightarrow> chan_inv c' \<and> chan_contents c' = chan_contents c" for c x c'
    by (auto simp: try_push_def split: if_splits)
  show "chan_inv c \<Longrightarrow> chan_contents c = x # xs \<Longrightarrow> pop_msg c = (r, c') \<Longrightarrow>
      r = Some x \<and> chan_inv c' \<and> chan_contents c' = xs" for c x xs r c'
    using chan_pop_spec [of c x xs] by (cases "try_pop c") (auto simp: pop_msg_def)
  show "chan_inv c \<Longrightarrow> chan_contents c = [] \<Longrightarrow> pop_msg c = (r, c') \<Longrightarrow>
      r = None \<and> chan_inv c' \<and> chan_contents c' = []" for c r c'
    by (auto simp: pop_msg_def try_pop_def chan_contents_def)
qed

text \<open>
  C16: the ring buffer is a bounded FIFO. From a fresh channel of any capacity, after any interleaving of
  producer pushes and consumer pops, the accepted messages are the popped ones followed by those still in
  the ring, in order, and the ring never holds more than its capacity.
\<close>

theorem channel_fifo:
  assumes "run_ops try_push pop_msg ops (chan_new n) = (accepted, popped, c)"
  shows "accepted = popped @ chan_contents c \<and> length (chan_contents c) \<le> ch_cap c \<and> chan_inv c"
  using chan.history [OF _ assms] chan_new_inv [of n] by auto

theorem channel_fifo_witness:
  "run_ops try_push pop_msg [Push \<lparr>cm_tag = 1, cm_len = 0, cm_data = 0\<rparr>, Push \<lparr>cm_tag = 2, cm_len = 0, cm_data = 0\<rparr>, Pop] (chan_new 1) =
     ([\<lparr>cm_tag = 1, cm_len = 0, cm_data = 0\<rparr>], [\<lparr>cm_tag = 1, cm_len = 0, cm_data = 0\<rparr>], chan_new 1\<lparr>ring := [\<lparr>cm_tag = 1, cm_len = 0, cm_data = 0\<rparr>]\<rparr>)
   \<and> chan_contents (chan_new 1\<lparr>ring := [\<lparr>cm_tag = 1, cm_len = 0, cm_data = 0\<rparr>]\<rparr>) = []"
proof -
  have r: "run_ops try_push pop_msg [Push \<lparr>cm_tag = 1, cm_len = 0, cm_data = 0\<rparr>, Push \<lparr>cm_tag = 2, cm_len = 0, cm_data = 0\<rparr>, Pop] (chan_new 1) =
     ([\<lparr>cm_tag = 1, cm_len = 0, cm_data = 0\<rparr>], [\<lparr>cm_tag = 1, cm_len = 0, cm_data = 0\<rparr>], chan_new 1\<lparr>ring := [\<lparr>cm_tag = 1, cm_len = 0, cm_data = 0\<rparr>]\<rparr>)"
    by (simp add: chan_new_def try_push_def pop_msg_def try_pop_def)
  from channel_fifo [OF r] r show ?thesis by simp
qed

text \<open>A closed channel refuses pushes; the consumer drains what is left and then sees \<open>kClosed\<close>.\<close>

lemma closed_channel:
  "closed c \<Longrightarrow> try_push m c = (False, c)"
  "closed c \<Longrightarrow> chan_contents c = [] \<Longrightarrow> fst (try_pop c) = kClosed"
  by (simp_all add: try_push_def try_pop_def chan_contents_def)

end
