(* ===== verification/Offline_Queue.thy ===== *)
theory Offline_Queue
  imports Errors Bounded_Fifo
begin

text \<open>
  Connectivity states and the bounded request queue of \<open>src/net/offline.cpp\<close>. The TCP probe is an
  argument (its outcome); the drain callback is a function on the state of the outside world, so that
  each call may answer differently; the connectivity callback is the list of states it is told.
\<close>

datatype Connectivity = online | offline | recovering

record QueueEntry =
  request_id :: string
  qe_method :: string
  qe_path :: string
  qe_headers :: "(string \<times> string) list"
  qe_body :: string

record OfflineQueue =
  max_queue :: nat
  conn :: Connectivity
  queue :: "QueueEntry list"

type_synonym 'w drain_cb = "QueueEntry \<Rightarrow> 'w \<Rightarrow> error_code \<times> 'w"

section \<open>Operations\<close>

definition set_conn :: "Connectivity \<Rightarrow> OfflineQueue \<Rightarrow> OfflineQueue \<times> Connectivity list" where
  "set_conn s q = (if conn q \<noteq> s then (q\<lparr>conn := s\<rparr>, [s]) else (q, []))"

definition check :: "error_code \<Rightarrow> OfflineQueue \<Rightarrow> error_code \<times> OfflineQueue \<times> Connectivity list" where
  "check probe q =
     (if is_ok probe then
        (if conn q = offline then (ok, q\<lparr>conn := recovering\<rparr>, [recovering])
         else if conn q = recovering \<and> queue q = [] then (ok, q\<lparr>conn := online\<rparr>, [online])
         else (ok, q, []))
      else case set_conn offline q of (q', cb) \<Rightarrow> (probe, q', cb))"

definition enqueue :: "QueueEntry \<Rightarrow> OfflineQueue \<Rightarrow> error_code \<times> OfflineQueue" where
  "enqueue e q =
     (if length (queue q) \<ge> max_queue q then (make_error e_net_overflow, q)
      else (ok, q\<lparr>queue := queue q @ [e]\<rparr>))"

definition submit :: "'w drain_cb \<Rightarrow> QueueEntry \<Rightarrow> OfflineQueue \<Rightarrow> 'w \<Rightarrow> error_code \<times> OfflineQueue \<times> 'w" where
  "submit cb e q w =
     (if conn q = online then (case cb e w of (ec, w') \<Rightarrow> (ec, q, w'))
      else case enqueue e q of (ec, q') \<Rightarrow> (ec, q', w))"

text \<open>The loop of \<open>drain\<close>: the error code, the remaining queue and the world after it.\<close>

fun drain_loop :: "'w drain_cb \<Rightarrow> QueueEntry list \<Rightarrow> 'w \<Rightarrow> error_code \<times> QueueEntry list \<times> 'w" where
  "drain_loop cb [] w = (ok, [], w)"
| "drain_loop cb (e # es) w =
     (case cb e w of (ec, w') \<Rightarrow> if \<not> is_ok ec then (ec, e # es, w') else drain_loop cb es w')"

definition drain :: "'w drain_cb \<Rightarrow> OfflineQueue \<Rightarrow> 'w \<Rightarrow> error_code \<times> OfflineQueue \<times> Connectivity list \<times> 'w" where
  "drain cb q w =
     (case drain_loop cb (queue q) w of (ec, rest, w') \<Rightarrow>
        (case set_conn (if is_ok ec then online else offline) (q\<lparr>queue := rest\<rparr>) of (q', told) \<Rightarrow>
           (ec, q', told, w')))"

section \<open>The queue as a bounded FIFO\<close>

definition oq_push :: "QueueEntry \<Rightarrow> OfflineQueue \<Rightarrow> bool \<times> OfflineQueue" where
  "oq_push e q = (case enqueue e q of (ec, q') \<Rightarrow> (is_ok ec, q'))"

definition oq_pop :: "OfflineQueue \<Rightarrow> QueueEntry option \<times> OfflineQueue" where
  "oq_pop q = (case queue q of [] \<Rightarrow> (None, q) | e # es \<Rightarrow> (Some e, q\<lparr>queue := es\<rparr>))"

definition oq_inv :: "OfflineQueue \<Rightarrow> bool" where
  "oq_inv q \<longleftrightarrow> length (queue q) \<le> max_queue q"

interpretation oq: bounded_fifo oq_inv queue max_queue oq_push oq_pop
  by unfold_locales
     (auto simp: oq_inv_def oq_push_def oq_pop_def enqueue_def split: if_splits list.splits)

section \<open>Draining loses nothing\<close>

text \<open>Recording callback: the world is extended with the log of calls made.\<close>

definition logged :: "'w drain_cb \<Rightarrow> ('w \<times> QueueEntry list) drain_cb" where
  "logged cb e wl = (case wl of (w, l) \<Rightarrow> case cb e w of (ec, w') \<Rightarrow> (ec, (w', l @ [e])))"

lemma logged_pair [simp]: "logged cb e (w, l) = (case cb e w of (ec, w') \<Rightarrow> (ec, (w', l @ [e])))"
  by (simp add: logged_def)

lemma drain_loop_spec:
  "drain_loop (logged cb) es (w, l) = (ec, rest, (w', l')) \<Longrightarrow>
   (\<exists>sent. es = sent @ rest \<and>
      (is_ok ec \<and> rest = [] \<and> l' = l @ sent \<or> \<not> is_ok ec \<and> rest \<noteq> [] \<and> l' = l @ sent @ [hd rest]))"
proof (induction es arbitrary: w l)
  case (Cons e es)
  obtain ec1 w1 where c: "cb e w = (ec1, w1)" by fastforce
  show ?case
  proof (cases "is_ok ec1")
    case True
    then have "drain_loop (logged cb) es (w1, l @ [e]) = (ec, rest, (w', l'))"
      using Cons.prems c by simp
    from Cons.IH [OF this] obtain sent where "es = sent @ rest"
      "is_ok ec \<and> rest = [] \<and> l' = (l @ [e]) @ sent \<or> \<not> is_ok ec \<and> rest \<noteq> [] \<and> l' = (l @ [e]) @ sent @ [hd rest]" by blast
    then show ?thesis by (intro exI [of _ "e # sent"]) auto
  next
    case False
    then show ?thesis using Cons.prems c by auto
  qed
qed simp

text \<open>
  C17: draining is in order and loses nothing. The requests handed to the callback are a prefix of the
  queue, oldest first, each once; on success the whole queue was sent and the state is online; on a
  failure the failing request is still at the head, everything behind it follows, and the state is
  offline. The capacity is kept.
\<close>

theorem drain_in_order:
  assumes "drain (logged cb) q (w, []) = (ec, q', told, (w', calls))"
  shows "\<exists>sent. queue q = sent @ queue q' \<and> max_queue q' = max_queue q \<and>
     (is_ok ec \<and> queue q' = [] \<and> calls = sent \<and> conn q' = online
      \<or> \<not> is_ok ec \<and> queue q' \<noteq> [] \<and> calls = sent @ [hd (queue q')] \<and> conn q' = offline)"
proof -
  obtain ec1 rest w1 l1 where d: "drain_loop (logged cb) (queue q) (w, []) = (ec1, rest, (w1, l1))"
    by (metis surj_pair)
  have "ec = ec1" "queue q' = rest" "calls = l1" "max_queue q' = max_queue q"
    "conn q' = (if is_ok ec1 then online else offline)"
    using assms d by (auto simp: drain_def set_conn_def split: if_splits)
  then show ?thesis using drain_loop_spec [OF d] by auto
qed

theorem drain_in_order_witness:
  "let a = \<lparr>request_id = ''a'', qe_method = ''POST'', qe_path = [], qe_headers = [], qe_body = []\<rparr>;
       b = a\<lparr>request_id := ''b''\<rparr>;
       cb = (\<lambda>e (n :: nat). (if n = 0 then ok else make_error e_net_timeout, n + 1));
       q = \<lparr>max_queue = 2, conn = recovering, queue = [a, b]\<rparr>
   in \<exists>sent. [a, b] = sent @ [b] \<and> fst (drain (logged cb) q (0, [])) = make_error e_net_timeout"
proof -
  define a where "a = \<lparr>request_id = ''a'', qe_method = ''POST'', qe_path = [], qe_headers = [], qe_body = []\<rparr>"
  define b where "b = a\<lparr>request_id := ''b''\<rparr>"
  define cb where "cb = (\<lambda>(e :: QueueEntry) (n :: nat). (if n = 0 then ok else make_error e_net_timeout, n + 1))"
  have d: "drain (logged cb) \<lparr>max_queue = 2, conn = recovering, queue = [a, b]\<rparr> (0, []) =
      (make_error e_net_timeout, \<lparr>max_queue = 2, conn = offline, queue = [b]\<rparr>, [offline], (2, [a, b]))"
    by (simp add: drain_def cb_def set_conn_def)
  from drain_in_order [OF d] d show ?thesis by (simp add: Let_def a_def b_def cb_def)
qed

text \<open>Over any sequence of enqueues and removals nothing is reordered, dropped or duplicated, and the
  capacity holds.\<close>

lemma offline_fifo:
  assumes "run_ops oq_push oq_pop ops \<lparr>max_queue = n, conn = s, queue = []\<rparr> = (accepted, popped, q)"
  shows "accepted = popped @ queue q \<and> length (queue q) \<le> max_queue q"
  using oq.history [OF _ assms] by (auto simp: oq_inv_def)

text \<open>A request submitted while the state is online is sent directly; when that fails it is not queued.\<close>

lemma submit_online_lost:
  assumes "conn q = online" "cb e w = (ec, w')" "\<not> is_ok ec"
  shows "submit cb e q w = (ec, q, w')"
  using assms by (simp add: submit_def)

end
