(* ===== verification/Mem_Store.thy ===== *)
theory Mem_Store
  imports Messages
begin

text \<open>
  The default store (\<open>src/store/store.h\<close>, \<open>src/store/mem_store.cpp\<close>): sessions, messages and file
  versions in hash maps. Each operation runs under the store's mutex, so an execution is a sequence of
  operations. The listener's callbacks are the list \<open>notified\<close>; it stays empty when no listener is set.
\<close>

section \<open>State\<close>

record store_session =
  ss_id :: string
  ss_title :: string
  ss_created_at :: u64
  ss_updated_at :: u64

record File =
  file_id :: string
  file_session :: string
  file_path :: string
  file_content :: string
  file_version :: u32
  file_created_at :: u64

datatype store_event = session_saved store_session | message_saved Message
  | message_deleted string | file_saved File

record MemStore =
  sessions :: "string \<Rightarrow> store_session option"
  msgs :: "string \<Rightarrow> Message list option"
  msg_session :: "string \<Rightarrow> string option"
  files :: "string \<Rightarrow> File option"
  files_order :: "string \<Rightarrow> string list option"
  store_seq :: u64
  listener :: bool
  notified :: "store_event list"

definition create_mem_store :: MemStore where
  "create_mem_store = \<lparr>sessions = Map.empty, msgs = Map.empty, msg_session = Map.empty, files = Map.empty,
     files_order = Map.empty, store_seq = 0, listener = False, notified = []\<rparr>"

definition no_session :: store_session where
  "no_session = \<lparr>ss_id = [], ss_title = [], ss_created_at = 0, ss_updated_at = 0\<rparr>"

definition notify :: "store_event \<Rightarrow> MemStore \<Rightarrow> MemStore" where
  "notify ev st = (if listener st then st\<lparr>notified := notified st @ [ev]\<rparr> else st)"

definition next_id :: "MemStore \<Rightarrow> string \<times> MemStore" where
  "next_id st = (let n = store_seq st + 1 in (''id'' @ show_nat (unat n), st\<lparr>store_seq := n\<rparr>))"

section \<open>Operations\<close>

definition session_get :: "string \<Rightarrow> MemStore \<Rightarrow> store_session" where
  "session_get i st = (case sessions st i of None \<Rightarrow> no_session | Some s \<Rightarrow> s)"

definition session_save :: "store_session \<Rightarrow> MemStore \<Rightarrow> store_session \<times> MemStore" where
  "session_save s st =
     (let (i, st1) = (if ss_id s = [] then next_id st else (ss_id s, st));
          stored = s\<lparr>ss_id := i\<rparr>
      in (stored, notify (session_saved stored) (st1\<lparr>sessions := (sessions st1)(i \<mapsto> stored)\<rparr>)))"

definition messages_by_session :: "string \<Rightarrow> MemStore \<Rightarrow> Message list" where
  "messages_by_session s st = (case msgs st s of None \<Rightarrow> [] | Some v \<Rightarrow> v)"

definition message_save :: "Message \<Rightarrow> MemStore \<Rightarrow> Message \<times> MemStore" where
  "message_save m st =
     (let (i, st1) = (if msg_id m = [] then next_id st else (msg_id m, st));
          stored = m\<lparr>msg_id := i\<rparr>;
          s = session_id stored
      in (stored, notify (message_saved stored)
           (st1\<lparr>msgs := (msgs st1)(s \<mapsto> messages_by_session s st1 @ [stored]),
                 msg_session := (msg_session st1)(i \<mapsto> s)\<rparr>)))"

fun erase_first :: "string \<Rightarrow> Message list \<Rightarrow> Message list" where
  "erase_first i [] = []"
| "erase_first i (m # ms) = (if msg_id m = i then ms else m # erase_first i ms)"

definition message_delete :: "string \<Rightarrow> MemStore \<Rightarrow> MemStore" where
  "message_delete i st = (case msg_session st i of
     None \<Rightarrow> st
   | Some s \<Rightarrow> notify (message_deleted i)
       (st\<lparr>msgs := (msgs st)(s \<mapsto> erase_first i (messages_by_session s st)),
            msg_session := (msg_session st)(i := None)\<rparr>))"

definition save_new_file :: "File \<Rightarrow> MemStore \<Rightarrow> File \<times> MemStore" where
  "save_new_file f st =
     (let (i, st1) = (if file_id f = [] then next_id st else (file_id f, st));
          stored = f\<lparr>file_id := i, file_version := (if file_version f = 0 then 1 else file_version f)\<rparr>;
          s = file_session stored;
          order = (case files_order st1 s of None \<Rightarrow> [] | Some l \<Rightarrow> l)
      in (stored, notify (file_saved stored)
           (st1\<lparr>files := (files st1)(i \<mapsto> stored), files_order := (files_order st1)(s \<mapsto> order @ [i])\<rparr>)))"

definition file_save_version :: "File \<Rightarrow> MemStore \<Rightarrow> File \<times> MemStore" where
  "file_save_version f st = (case files st (file_id f) of
     Some old \<Rightarrow>
       (if file_id f \<noteq> [] then
          (let new = old\<lparr>file_content := file_content f, file_version := file_version old + 1\<rparr>
           in (new, notify (file_saved new) (st\<lparr>files := (files st)(file_id f \<mapsto> new)\<rparr>)))
        else save_new_file f st)
   | None \<Rightarrow> save_new_file f st)"

definition files_by_session :: "string \<Rightarrow> MemStore \<Rightarrow> File list" where
  "files_by_session s st = (case files_order st s of
     None \<Rightarrow> []
   | Some ids \<Rightarrow> List.map_filter (files st) ids)"

section \<open>The store as a log\<close>

text \<open>
  The abstract store is the list of the messages in it, oldest first. An operation of a client is one of
  the four mutations.
\<close>

datatype store_op = SaveSession store_session | SaveMsg Message | DelMsg string | SaveFile File

fun exec_op :: "store_op \<Rightarrow> MemStore \<Rightarrow> MemStore" where
  "exec_op (SaveSession s) st = snd (session_save s st)"
| "exec_op (SaveMsg m) st = snd (message_save m st)"
| "exec_op (DelMsg i) st = message_delete i st"
| "exec_op (SaveFile f) st = snd (file_save_version f st)"

fun log_op :: "store_op \<Rightarrow> Message list \<Rightarrow> Message list" where
  "log_op (SaveMsg m) l = l @ [m]"
| "log_op (DelMsg i) l = filter (\<lambda>m. msg_id m \<noteq> i) l"
| "log_op _ l = l"

text \<open>A client that names its messages, and never twice while the first is stored.\<close>

fun named_once :: "store_op list \<Rightarrow> Message list \<Rightarrow> bool" where
  "named_once [] l \<longleftrightarrow> True"
| "named_once (x # xs) l \<longleftrightarrow>
     (case x of SaveMsg m \<Rightarrow> msg_id m \<noteq> [] \<and> msg_id m \<notin> msg_id ` set l | _ \<Rightarrow> True) \<and>
     named_once xs (log_op x l)"

definition store_inv :: "Message list \<Rightarrow> MemStore \<Rightarrow> bool" where
  "store_inv l st \<longleftrightarrow> distinct (map msg_id l) \<and>
     (\<forall>s. messages_by_session s st = filter (\<lambda>m. session_id m = s) l) \<and>
     (\<forall>i s. msg_session st i = Some s \<longleftrightarrow> (\<exists>m\<in>set l. msg_id m = i \<and> session_id m = s))"

lemma notify_simps [simp]:
  "sessions (notify e st) = sessions st" "msgs (notify e st) = msgs st"
  "msg_session (notify e st) = msg_session st" "files (notify e st) = files st"
  "files_order (notify e st) = files_order st"
  by (simp_all add: notify_def)

lemma next_id_keeps:
  "next_id st = (i, st') \<Longrightarrow> sessions st' = sessions st \<and> msgs st' = msgs st \<and> msg_session st' = msg_session st \<and>
   files st' = files st \<and> files_order st' = files_order st"
  by (auto simp: next_id_def Let_def)

lemma session_save_keeps:
  "msgs (snd (session_save s st)) = msgs st" "msg_session (snd (session_save s st)) = msg_session st"
  by (auto simp: session_save_def Let_def next_id_def split: prod.splits if_splits)

lemma file_save_keeps:
  "msgs (snd (file_save_version f st)) = msgs st"
  "msg_session (snd (file_save_version f st)) = msg_session st"
  by (auto simp: file_save_version_def save_new_file_def Let_def next_id_def split: prod.splits if_splits option.splits)

lemma erase_first_filter:
  "distinct (map msg_id ms) \<Longrightarrow> erase_first i ms = filter (\<lambda>m. msg_id m \<noteq> i) ms"
  by (induction ms) (auto simp: filter_id_conv intro!: filter_True [symmetric], metis image_eqI)

lemma distinct_filter_ids: "distinct (map msg_id l) \<Longrightarrow> distinct (map msg_id (filter P l))"
  by (simp add: distinct_map_filter)

lemma same_id: "distinct (map msg_id l) \<Longrightarrow> m \<in> set l \<Longrightarrow> m' \<in> set l \<Longrightarrow> msg_id m = msg_id m' \<Longrightarrow> m = m'"
  by (auto simp: distinct_map inj_on_def)

lemma inv_save:
  assumes "store_inv l st" "msg_id m \<noteq> []" "msg_id m \<notin> msg_id ` set l"
  shows "store_inv (l @ [m]) (snd (message_save m st))"
proof -
  have id: "m\<lparr>msg_id := msg_id m\<rparr> = m" by (cases m) simp
  show ?thesis using assms id
    by (auto simp: store_inv_def message_save_def Let_def messages_by_session_def) (metis image_eqI)
qed

lemma inv_delete:
  assumes inv: "store_inv l st"
  shows "store_inv (filter (\<lambda>m. msg_id m \<noteq> i) l) (message_delete i st)"
proof (cases "msg_session st i")
  case None
  then have "\<forall>m\<in>set l. msg_id m \<noteq> i" using inv unfolding store_inv_def by (metis option.distinct(1))
  then have "filter (\<lambda>m. msg_id m \<noteq> i) l = l" by simp
  then show ?thesis using inv None by (simp add: message_delete_def)
next
  case (Some s)
  have d: "distinct (map msg_id l)" using inv by (simp add: store_inv_def)
  obtain m0 where m0: "m0 \<in> set l" "msg_id m0 = i" "session_id m0 = s" using inv Some by (auto simp: store_inv_def)
  have only: "session_id m = s" if "m \<in> set l" "msg_id m = i" for m
    using same_id [OF d that(1) m0(1)] that(2) m0 by simp
  have other: "filter (\<lambda>m. msg_id m \<noteq> i \<and> session_id m = s') l = filter (\<lambda>m. session_id m = s') l" if "s' \<noteq> s" for s'
    using only that by (intro filter_cong) auto
  have "messages_by_session s (message_delete i st) = erase_first i (messages_by_session s st)"
    using Some by (simp add: message_delete_def messages_by_session_def)
  also have "\<dots> = erase_first i (filter (\<lambda>m. session_id m = s) l)"
    using inv by (simp add: store_inv_def)
  finally have here: "messages_by_session s (message_delete i st) = filter (\<lambda>m. msg_id m \<noteq> i \<and> session_id m = s) l"
    using d by (simp add: erase_first_filter distinct_filter_ids conj_commute)
  have there: "messages_by_session s' (message_delete i st) = messages_by_session s' st" if "s' \<noteq> s" for s'
    using Some that by (simp add: message_delete_def messages_by_session_def)
  have lists: "messages_by_session s' (message_delete i st) = filter (\<lambda>m. session_id m = s') (filter (\<lambda>m. msg_id m \<noteq> i) l)" for s'
    using here there other inv by (cases "s' = s") (simp_all add: store_inv_def)
  have map: "msg_session (message_delete i st) = (msg_session st)(i := None)"
    using Some by (simp add: message_delete_def)
  show ?thesis using lists map d inv unfolding store_inv_def by (auto simp: distinct_filter_ids)
qed

lemma inv_cong: "store_inv l st \<Longrightarrow> msgs st' = msgs st \<Longrightarrow> msg_session st' = msg_session st \<Longrightarrow> store_inv l st'"
  by (simp add: store_inv_def messages_by_session_def)

lemma inv_exec:
  assumes "store_inv l st" "named_once (x # xs) l"
  shows "store_inv (log_op x l) (exec_op x st)"
proof (cases x)
  case (SaveSession s)
  then show ?thesis using assms(1) by (auto intro: inv_cong simp: session_save_keeps)
next
  case (SaveMsg m)
  then show ?thesis using assms by (auto intro: inv_save)
next
  case (DelMsg i)
  then show ?thesis using assms(1) by (auto intro: inv_delete)
next
  case (SaveFile f)
  then show ?thesis using assms(1) by (auto intro: inv_cong simp: file_save_keeps)
qed

lemma inv_run: "store_inv l st \<Longrightarrow> named_once xs l \<Longrightarrow> store_inv (fold log_op xs l) (fold exec_op xs st)"
proof (induction xs arbitrary: l st)
  case (Cons x xs)
  then show ?case using inv_exec [of l st x xs] by simp
qed simp

lemma inv_create: "store_inv [] create_mem_store"
  by (simp add: store_inv_def create_mem_store_def messages_by_session_def)

text \<open>
  C18: over any sequence of mutations in which the client names its messages and does not reuse the name
  of a stored one, the store refines the log: the messages of a session are exactly the saved and not
  deleted ones with that session id, oldest first, whatever sessions and files are saved in between.
\<close>

theorem store_refines_log:
  assumes "named_once ops []"
  shows "messages_by_session s (fold exec_op ops create_mem_store) = filter (\<lambda>m. session_id m = s) (fold log_op ops [])"
  using inv_run [OF inv_create assms] by (simp add: store_inv_def)

definition sample_msg :: "string \<Rightarrow> string \<Rightarrow> Message" where
  "sample_msg i s = empty_message\<lparr>msg_id := i, session_id := s\<rparr>"

theorem store_refines_log_witness:
  "messages_by_session ''s'' (fold exec_op [SaveMsg (sample_msg ''a'' ''s''), SaveMsg (sample_msg ''b'' ''t''),
      SaveMsg (sample_msg ''c'' ''s''), DelMsg ''a''] create_mem_store) = [sample_msg ''c'' ''s'']"
  by (subst store_refines_log) (simp_all add: sample_msg_def)

section \<open>Reused message ids\<close>

text \<open>
  Saving a message again appends a second copy, and deleting the id removes only the first: the second
  stays in the session and can no longer be deleted.
\<close>

lemma resave_duplicates:
  "msg_id m \<noteq> [] \<Longrightarrow> messages_by_session (session_id m) (snd (message_save m (snd (message_save m st)))) =
     messages_by_session (session_id m) st @ [m, m]"
  by (cases m) (simp add: message_save_def Let_def messages_by_session_def)

lemma resaved_undeletable:
  assumes "msg_id m \<noteq> []" "messages_by_session (session_id m) st = []"
  defines "st2 \<equiv> snd (message_save m (snd (message_save m st)))"
  shows "messages_by_session (session_id m) (message_delete (msg_id m) (message_delete (msg_id m) st2)) = [m]"
  using assms by (cases m) (simp add: message_save_def Let_def messages_by_session_def message_delete_def)

section \<open>File versions\<close>

text \<open>Saving a stored file id again keeps path, session, position and creation time and bumps the version.\<close>

lemma file_resave:
  assumes "files st (file_id f) = Some old" "file_id f \<noteq> []"
  shows "fst (file_save_version f st) = old\<lparr>file_content := file_content f, file_version := file_version old + 1\<rparr>"
    and "files (snd (file_save_version f st)) = (files st)(file_id f \<mapsto> fst (file_save_version f st))"
    and "files_order (snd (file_save_version f st)) = files_order st"
  using assms by (simp_all add: file_save_version_def Let_def)

lemma file_first_save:
  assumes "files st (file_id f) = None" "file_id f \<noteq> []"
  shows "files_by_session (file_session f) (snd (file_save_version f st)) =
     List.map_filter ((files st)(file_id f \<mapsto> fst (file_save_version f st)))
       (case files_order st (file_session f) of None \<Rightarrow> [] | Some l \<Rightarrow> l) @ [fst (file_save_version f st)]"
  using assms by (cases f) (auto simp: file_save_version_def save_new_file_def files_by_session_def Let_def map_filter_def split: option.splits)

end
