(* ===== verification/Provider.thy ===== *)
theory Provider
  imports Errors Messages
begin

text \<open>
  The provider-neutral part of the provider layer: the model catalog (\<open>src/model/catalog.hpp\<close>), the model
  resolver with its spelling suggestions and the URL splitter (\<open>src/provider/resolver.cpp\<close>), the factory
  (\<open>src/provider/factory.cpp\<close>) and the vocabulary of stream events (\<open>src/provider/provider.h\<close>). Distances
  and lengths are \<open>nat\<close>; \<open>edit_distance_bound\<close> shows that the 32-bit cells of the source cannot wrap for
  strings shorter than four gigabytes. A \<open>long\<close> is a 64-bit word.
\<close>

section \<open>Catalog\<close>

record ModelInfo =
  mi_id :: string
  mi_provider :: string
  mi_api_model_name :: string
  in_cents_per_1m :: u32
  out_cents_per_1m :: u32
  cached_in_cents_per_1m :: u32
  mi_context_window :: u32
  mi_default_max_tokens :: u32
  mi_can_reason :: bool
  mi_supports_attachments :: bool

record ProviderInfo =
  pi_id :: string
  pi_api_family :: string
  pi_base_url :: string

abbreviation mk_model :: "string \<Rightarrow> string \<Rightarrow> string \<Rightarrow> u32 \<Rightarrow> u32 \<Rightarrow> u32 \<Rightarrow> u32 \<Rightarrow> u32 \<Rightarrow> bool \<Rightarrow> bool \<Rightarrow> ModelInfo" where
  "mk_model i p n a b c w d r s \<equiv> \<lparr>mi_id = i, mi_provider = p, mi_api_model_name = n, in_cents_per_1m = a,
     out_cents_per_1m = b, cached_in_cents_per_1m = c, mi_context_window = w, mi_default_max_tokens = d,
     mi_can_reason = r, mi_supports_attachments = s\<rparr>"

definition kModels :: "ModelInfo list" where
  "kModels = [
     mk_model ''claude-sonnet-4-5'' ''anthropic'' ''claude-sonnet-4-5'' 300 1500 30 200000 64000 True True,
     mk_model ''claude-haiku-4-5'' ''anthropic'' ''claude-haiku-4-5'' 100 500 10 200000 32768 False True,
     mk_model ''gpt-4.1'' ''openai'' ''gpt-4.1'' 200 800 50 1047576 32768 True True,
     mk_model ''gpt-4.1-mini'' ''openai'' ''gpt-4.1-mini'' 40 160 10 1047576 32768 False True,
     mk_model ''gpt-4.1-nano'' ''openai'' ''gpt-4.1-nano'' 10 40 0 1047576 32768 False True,
     mk_model ''gpt-4o'' ''openai'' ''gpt-4o'' 250 1000 125 128000 16384 False True,
     mk_model ''o4-mini'' ''openai'' ''o4-mini'' 110 440 55 200000 100000 True True,
     mk_model ''gpt-5'' ''openai'' ''gpt-5'' 125 1000 13 400000 100000 True True,
     mk_model ''gemini-2.5-pro'' ''google'' ''gemini-2.5-pro'' 125 1000 31 1048576 65536 True True,
     mk_model ''gemini-2.5-flash'' ''google'' ''gemini-2.5-flash'' 30 250 8 1048576 65536 False True,
     mk_model ''gemini-2.5-flash-lite'' ''google'' ''gemini-2.5-flash-lite'' 10 40 0 1048576 65536 False True]"

definition kProviders :: "ProviderInfo list" where
  "kProviders = [
     \<lparr>pi_id = ''anthropic'', pi_api_family = ''anthropic'', pi_base_url = ''https://api.anthropic.com''\<rparr>,
     \<lparr>pi_id = ''openai'', pi_api_family = ''openai'', pi_base_url = ''https://api.openai.com/v1''\<rparr>,
     \<lparr>pi_id = ''google'', pi_api_family = ''google'',
       pi_base_url = ''https://generativelanguage.googleapis.com/v1beta''\<rparr>]"

definition kAliases :: "(string \<times> string) list" where
  "kAliases = [
     (''claude'', ''claude-sonnet-4-5''), (''claude-sonnet'', ''claude-sonnet-4-5''),
     (''sonnet'', ''claude-sonnet-4-5''), (''claude-haiku'', ''claude-haiku-4-5''),
     (''haiku'', ''claude-haiku-4-5''), (''gpt-4o'', ''gpt-4o''), (''o4-mini'', ''o4-mini''),
     (''gemini'', ''gemini-2.5-flash''), (''gemini-2.5-pro'', ''gemini-2.5-pro''),
     (''gemini-2.5-flash'', ''gemini-2.5-flash'')]"

definition canonical_id :: "string \<Rightarrow> string" where
  "canonical_id i = (case find (\<lambda>m. mi_id m = i) kModels of
     Some m \<Rightarrow> mi_id m
   | None \<Rightarrow> (case find (\<lambda>a. fst a = i) kAliases of Some a \<Rightarrow> snd a | None \<Rightarrow> []))"

definition find_model :: "string \<Rightarrow> ModelInfo option" where
  "find_model i = (let canon = canonical_id i in
     if canon \<noteq> [] then find (\<lambda>m. mi_id m = canon) kModels else None)"

definition find_provider :: "string \<Rightarrow> ProviderInfo option" where
  "find_provider i = find (\<lambda>p. pi_id p = i) kProviders"

definition find_provider_by_model :: "string \<Rightarrow> ProviderInfo option" where
  "find_provider_by_model i = (case find_model i of None \<Rightarrow> None | Some m \<Rightarrow> find_provider (mi_provider m))"

definition cost_estimate :: "ModelInfo \<Rightarrow> u64 \<Rightarrow> u64 \<Rightarrow> u64 \<Rightarrow> u64" where
  "cost_estimate m inp outp cached =
     (let sum = inp * ucast (in_cents_per_1m m) + outp * ucast (out_cents_per_1m m)
            + cached * ucast (cached_in_cents_per_1m m)
      in (sum + 999999) div 1000000)"

section \<open>Stream events and requests\<close>

record wire_ToolSpec =
  ts_id :: string
  ts_name :: string
  ts_description :: string
  ts_input_schema_json :: string

record ModelSpec =
  ms_provider :: string
  ms_api_family :: string
  ms_api_model_name :: string
  ms_base_url :: string
  ms_can_reason :: bool
  ms_supports_attachments :: bool
  ms_context_window :: u32
  ms_default_max_tokens :: u32

definition empty_spec :: ModelSpec where
  "empty_spec = \<lparr>ms_provider = [], ms_api_family = [], ms_api_model_name = [], ms_base_url = [],
     ms_can_reason = False, ms_supports_attachments = False, ms_context_window = 0, ms_default_max_tokens = 0\<rparr>"

record Usage =
  input_tokens :: u64
  output_tokens :: u64
  cached_input_tokens :: u64

datatype StreamEvent =
    TextDelta string
  | ReasoningDelta string
  | ToolCallDelta string string string
  | ToolCallDone string string string
  | MessageStart
  | MessageDone FinishReason Usage
  | ProviderError error_code string

fun describe :: "StreamEvent \<Rightarrow> string" where
  "describe (TextDelta t) = ''text:'' @ t"
| "describe (ReasoningDelta t) = ''reasoning:'' @ t"
| "describe (ToolCallDelta i n a) = ''tool_delta:'' @ n @ '' += '' @ a"
| "describe (ToolCallDone i n a) = ''tool_call:'' @ n @ '' '' @ a"
| "describe MessageStart = ''message_start''"
| "describe (MessageDone f u) = ''message_done:'' @ finish_str f @ '' in='' @ show_nat (unat (input_tokens u)) @
     '' out='' @ show_nat (unat (output_tokens u))"
| "describe (ProviderError ec m) = ''error:'' @ message ec @ '' '' @ m"

section \<open>Edit distance\<close>

text \<open>
  One row of the table: \<open>dist_row x left prev b\<close> is \<open>cur[j], cur[j+1], ...\<close> when \<open>left\<close> is \<open>cur[j-1]\<close> and
  \<open>prev\<close> starts at \<open>prev[j-1]\<close>.
\<close>

fun dist_row :: "char \<Rightarrow> nat \<Rightarrow> nat list \<Rightarrow> string \<Rightarrow> nat list" where
  "dist_row x left (d # u # prev) (y # b) =
     (let c = min (u + 1) (min (left + 1) (d + (if x = y then 0 else 1)))
      in c # dist_row x c (u # prev) b)"
| "dist_row x left _ _ = []"

fun dist_rows :: "nat \<Rightarrow> nat list \<Rightarrow> string \<Rightarrow> string \<Rightarrow> nat \<Rightarrow> nat" where
  "dist_rows i prev [] b limit = prev ! length b"
| "dist_rows i prev (x # a) b limit =
     (let cur = i # dist_row x i prev b; row_min = foldl min i (tl cur)
      in if row_min > limit then row_min else dist_rows (i + 1) cur a b limit)"

definition edit_distance :: "string \<Rightarrow> string \<Rightarrow> nat \<Rightarrow> nat" where
  "edit_distance a b limit =
     (if a = [] then length b else if b = [] then length a
      else dist_rows 1 [0..<length b + 1] a b limit)"

section \<open>Suggestions and resolution\<close>

fun pick_suggestions :: "(nat \<times> string) list \<Rightarrow> string list \<Rightarrow> string list" where
  "pick_suggestions [] out = out"
| "pick_suggestions ((d, i) # cs) out =
     (if d = 0 \<or> d > 3 then pick_suggestions cs out
      else if i \<in> set out then pick_suggestions cs out
      else let out' = out @ [i] in if length out' \<ge> 3 then out' else pick_suggestions cs out')"

definition suggest :: "string \<Rightarrow> string list \<Rightarrow> string list" where
  "suggest i out =
     (let cands = map (\<lambda>m. (edit_distance i (mi_id m) 6, mi_id m)) kModels
                @ map (\<lambda>a. (edit_distance i (fst a) 6, fst a)) kAliases
      in pick_suggestions (sort_key fst cands) out)"

definition resolve_model :: "string \<Rightarrow> ModelSpec \<Rightarrow> string list option \<Rightarrow> error_code \<times> ModelSpec \<times> string list option" where
  "resolve_model i out sugg = (case find_model i of
     None \<Rightarrow> (make_error e_model_unsup, out, map_option (suggest i) sugg)
   | Some m \<Rightarrow> (let p = find_provider (mi_provider m) in
       (ok, \<lparr>ms_provider = mi_provider m,
             ms_api_family = (case p of Some q \<Rightarrow> pi_api_family q | None \<Rightarrow> mi_provider m),
             ms_api_model_name = mi_api_model_name m,
             ms_base_url = (case p of Some q \<Rightarrow> pi_base_url q | None \<Rightarrow> []),
             ms_can_reason = mi_can_reason m, ms_supports_attachments = mi_supports_attachments m,
             ms_context_window = mi_context_window m, ms_default_max_tokens = mi_default_max_tokens m\<rparr>, sugg)))"

section \<open>URL splitting\<close>

record UrlParts =
  url_scheme :: string
  url_host :: string
  url_port :: u16
  url_path :: string

definition empty_url :: UrlParts where
  "empty_url = \<lparr>url_scheme = [], url_host = [], url_port = 0, url_path = []\<rparr>"

definition port_value :: "string \<Rightarrow> u64" where
  "port_value s = foldl (\<lambda>v c. v * 10 + of_nat (digit_val c)) 0 s"

definition strip_slashes :: "string \<Rightarrow> string" where
  "strip_slashes p = rev (dropWhile (\<lambda>c. c = CHR ''/'') (rev p))"

definition split_authority :: "string \<Rightarrow> UrlParts \<Rightarrow> error_code \<times> UrlParts" where
  "split_authority authority out = (case rfind_char (CHR '':'') authority of
     Some colon \<Rightarrow>
       (let port_s = drop (colon + 1) authority; v = port_value port_s in
        if port_s = [] \<or> \<not> list_all is_digit port_s then (make_error e_invalid_cfg, out)
        else if sint v < 1 \<or> sint v > 65535 then (make_error e_invalid_cfg, out)
        else (let out' = out\<lparr>url_port := ucast v, url_host := take colon authority\<rparr> in
              (if url_host out' = [] then make_error e_invalid_cfg else ok, out')))
   | None \<Rightarrow> (let out' = out\<lparr>url_host := authority\<rparr> in
              (if url_host out' = [] then make_error e_invalid_cfg else ok, out')))"

definition split_url :: "string \<Rightarrow> error_code \<times> UrlParts" where
  "split_url url = (case find_sub ''://'' url of
     None \<Rightarrow> (make_error e_invalid_cfg, empty_url)
   | Some i \<Rightarrow>
       if i = 0 then (make_error e_invalid_cfg, empty_url)
       else (let out = empty_url\<lparr>url_scheme := take i url\<rparr> in
         if url_scheme out \<noteq> ''http'' \<and> url_scheme out \<noteq> ''https'' then (make_error e_invalid_cfg, out)
         else (let rest = drop (i + 3) url; slash = find_char (CHR ''/'') rest;
                   authority = (case slash of None \<Rightarrow> rest | Some k \<Rightarrow> take k rest);
                   out1 = (case slash of None \<Rightarrow> out | Some k \<Rightarrow> out\<lparr>url_path := strip_slashes (drop k rest)\<rparr>)
               in if authority = [] then (make_error e_invalid_cfg, out1)
                  else split_authority authority out1)))"

section \<open>Factory\<close>

record ProviderConfig =
  pc_id :: string
  pc_api_key :: string
  pc_base_url :: string
  pc_path :: string
  pc_default_max_tokens :: u32

text \<open>The adapter object that a constructor builds: its class and the arguments it keeps.\<close>

datatype provider_obj =
    AnthropicProvider string string u32
  | OpenAiProvider string string u32 string
  | GeminiProvider string string u32

definition make_openai :: "string \<Rightarrow> string \<Rightarrow> u32 \<Rightarrow> string \<Rightarrow> provider_obj" where
  "make_openai base_url api_key mx endpoint =
     OpenAiProvider base_url api_key mx (if endpoint = [] then ''/chat/completions'' else endpoint)"

definition make_provider :: "ProviderConfig \<Rightarrow> provider_obj option \<Rightarrow> error_code \<times> provider_obj option" where
  "make_provider cfg out =
     (if pc_id cfg = ''openai_compat'' then
        (if pc_base_url cfg = [] then (make_error e_invalid_cfg, out)
         else (ok, Some (make_openai (pc_base_url cfg) (pc_api_key cfg) (pc_default_max_tokens cfg) (pc_path cfg))))
      else case find_provider (pc_id cfg) of
        None \<Rightarrow> (make_error e_model_unsup, out)
      | Some p \<Rightarrow>
          (let base_url = (if pc_base_url cfg = [] then pi_base_url p else pc_base_url cfg) in
           if pc_id cfg = ''anthropic'' then
             (ok, Some (AnthropicProvider base_url (pc_api_key cfg) (pc_default_max_tokens cfg)))
           else if pc_id cfg = ''openai'' then
             (ok, Some (make_openai base_url (pc_api_key cfg) (pc_default_max_tokens cfg) ''/chat/completions''))
           else if pc_id cfg = ''google'' then
             (ok, Some (GeminiProvider base_url (pc_api_key cfg) (pc_default_max_tokens cfg)))
           else (make_error e_model_unsup, out)))"

section \<open>The bounded edit distance is Levenshtein's\<close>

text \<open>\<open>lev a b i j\<close> is the textbook recurrence on the prefixes of length \<open>i\<close> and \<open>j\<close>.\<close>

fun lev :: "string \<Rightarrow> string \<Rightarrow> nat \<Rightarrow> nat \<Rightarrow> nat" where
  "lev a b 0 j = j"
| "lev a b (Suc i) 0 = Suc i"
| "lev a b (Suc i) (Suc j) =
     min (lev a b i (Suc j) + 1) (min (lev a b (Suc i) j + 1) (lev a b i j + (if a ! i = b ! j then 0 else 1)))"

abbreviation levenshtein :: "string \<Rightarrow> string \<Rightarrow> nat" where
  "levenshtein a b \<equiv> lev a b (length a) (length b)"

lemma lev_0_right [simp]: "lev a b i 0 = i"
  by (cases i) simp_all

lemma lev_bound: "lev a b i j \<le> max i j"
  by (induction a b i j rule: lev.induct) (auto simp: min_def max_def)

lemma lev_zero:
  "i \<le> length a \<Longrightarrow> j \<le> length b \<Longrightarrow> lev a b i j = 0 \<longleftrightarrow> i = j \<and> take i a = take j b"
  by (induction a b i j rule: lev.induct) (auto simp: min_def take_Suc_conv_app_nth)

lemma levenshtein_zero: "levenshtein a b = 0 \<longleftrightarrow> a = b"
  by (simp add: lev_zero) auto

lemma row_correct:
  assumes "prev = map (lev A B i) [j..<Suc (length B)]" "left = lev A B (Suc i) j" "x = A ! i" "b = drop j B"
    "j \<le> length B"
  shows "dist_row x left prev b = map (lev A B (Suc i)) [Suc j..<Suc (length B)]"
  using assms
proof (induction b arbitrary: j left prev)
  case Nil
  then show ?case by simp
next
  case (Cons y b)
  have j: "j < length B" using Cons.prems(4) by (metis drop_all leI list.distinct(1))
  have y: "y = B ! j" "b = drop (Suc j) B" using Cons.prems(4) j by (metis Cons_nth_drop_Suc list.inject)+
  have prev: "prev = lev A B i j # lev A B i (Suc j) # map (lev A B i) [Suc (Suc j)..<Suc (length B)]"
    using Cons.prems(1) j by (simp add: upt_conv_Cons del: upt_Suc)
  have next_row: "lev A B i (Suc j) # map (lev A B i) [Suc (Suc j)..<Suc (length B)] = map (lev A B i) [Suc j..<Suc (length B)]"
    using j by (simp add: upt_conv_Cons del: upt_Suc)
  have cell: "min (lev A B i (Suc j) + 1) (min (left + 1) (lev A B i j + (if x = y then 0 else 1))) = lev A B (Suc i) (Suc j)"
    using Cons.prems(2,3) y by simp
  have "dist_row x left prev (y # b) = lev A B (Suc i) (Suc j) # dist_row x (lev A B (Suc i) (Suc j)) (map (lev A B i) [Suc j..<Suc (length B)]) b"
    unfolding prev dist_row.simps(1) Let_def cell by (simp only: next_row)
  also have "\<dots> = map (lev A B (Suc i)) [Suc j..<Suc (length B)]"
    using Cons.IH [of _ "Suc j" "lev A B (Suc i) (Suc j)"] Cons.prems(3) y j
    by (simp add: upt_conv_Cons del: upt_Suc)
  finally show ?case .
qed

lemma foldl_min_less: "L < foldl min x ys \<longleftrightarrow> L < x \<and> (\<forall>y\<in>set ys. L < (y :: nat))"
  by (induction ys arbitrary: x) auto

lemma row_min_mono:
  "\<forall>j\<le>n. L < lev a b i j \<Longrightarrow> j \<le> n \<Longrightarrow> L < lev a b (Suc i) j"
proof (induction j)
  case 0
  then have "L < lev a b i 0" by blast
  then show ?case by simp
next
  case (Suc j)
  then have "L < lev a b (Suc i) j" "L < lev a b i j" "L < lev a b i (Suc j)" by simp_all
  then show ?case by simp
qed

lemma row_min_later:
  "\<forall>j\<le>n. L < lev a b i j \<Longrightarrow> \<forall>j\<le>n. L < lev a b (i + k) j"
  by (induction k) (use row_min_mono in auto)

lemma rows_correct:
  assumes "prev = map (lev A B i) [0..<Suc (length B)]" "a = drop i A" "i \<le> length A"
  shows "(levenshtein A B \<le> L \<longrightarrow> dist_rows (Suc i) prev a B L = levenshtein A B) \<and>
    (L < levenshtein A B \<longrightarrow> L < dist_rows (Suc i) prev a B L)"
  using assms
proof (induction a arbitrary: i prev)
  case Nil
  then have "i = length A" by simp
  then show ?case using Nil.prems by (simp del: upt_Suc)
next
  case (Cons x a)
  have i: "i < length A" using Cons.prems(2) by (metis drop_all leI list.distinct(1))
  have x: "x = A ! i" "a = drop (Suc i) A" using Cons.prems(2) i by (metis Cons_nth_drop_Suc list.inject)+
  have row: "dist_row x (Suc i) prev B = map (lev A B (Suc i)) [Suc 0..<Suc (length B)]"
    using row_correct [OF Cons.prems(1), of "Suc i" x B] x by simp
  have cur: "Suc i # dist_row x (Suc i) prev B = map (lev A B (Suc i)) [0..<Suc (length B)]"
    unfolding row by (simp add: upt_conv_Cons del: upt_Suc)
  define rm where "rm = foldl min (Suc i) (dist_row x (Suc i) prev B)"
  have step: "dist_rows (Suc i) prev (x # a) B L =
      (if L < rm then rm else dist_rows (Suc (Suc i)) (map (lev A B (Suc i)) [0..<Suc (length B)]) a B L)"
    unfolding rm_def cur [symmetric] by (simp add: Let_def)
  show ?case
  proof (cases "L < rm")
    case True
    then have "\<forall>y\<in>set (Suc i # dist_row x (Suc i) prev B). L < y" by (simp add: rm_def foldl_min_less)
    then have "\<forall>j\<le>length B. L < lev A B (Suc i) j" unfolding cur by (auto simp del: upt_Suc)
    from row_min_later [OF this, of "length A - Suc i"] have "L < lev A B (Suc i + (length A - Suc i)) (length B)" by blast
    then have "L < levenshtein A B" using i by (metis Suc_leI le_add_diff_inverse)
    then show ?thesis using step True by simp
  next
    case False
    then show ?thesis using step Cons.IH [of _ "Suc i"] x i by simp
  qed
qed

text \<open>
  C19: the two-row computation with early exit decides the Levenshtein distance up to its limit: when the
  distance is at most the limit it returns exactly that distance, and otherwise a value above the limit.
\<close>

theorem edit_distance_correct:
  "edit_distance a b limit = levenshtein a b \<or> (limit < levenshtein a b \<and> limit < edit_distance a b limit)"
proof (cases "a = [] \<or> b = []")
  case True
  then show ?thesis by (auto simp: edit_distance_def)
next
  case False
  have "map (lev a b 0) [0..<Suc (length b)] = [0..<Suc (length b)]" by (simp add: map_idI del: upt_Suc)
  then show ?thesis using rows_correct [of "[0..<Suc (length b)]" a b 0 a limit] False
    by (auto simp: edit_distance_def not_le)
qed

lemma edit_distance_small: "edit_distance a b limit \<le> limit \<Longrightarrow> edit_distance a b limit = levenshtein a b"
proof -
  have "map (lev a b 0) [0..<Suc (length b)] = [0..<Suc (length b)]" by (simp add: map_idI del: upt_Suc)
  then show "edit_distance a b limit \<le> limit \<Longrightarrow> edit_distance a b limit = levenshtein a b"
    using rows_correct [of "[0..<Suc (length b)]" a b 0 a limit] by (auto simp: edit_distance_def not_le)
qed

lemma edit_distance_bound: "j \<le> length b \<Longrightarrow> i \<le> length a \<Longrightarrow> lev a b i j \<le> max (length a) (length b)"
  using lev_bound [of a b i j] by linarith

section \<open>Suggestions\<close>

lemma pick_set:
  "set (pick_suggestions cs out) \<subseteq> set out \<union> snd ` {c \<in> set cs. 0 < fst c \<and> fst c \<le> 3}"
proof (induction cs arbitrary: out)
  case (Cons c cs)
  obtain d i where c: "c = (d, i)" by fastforce
  have mono: "snd ` {c \<in> set cs. 0 < fst c \<and> fst c \<le> 3} \<subseteq> snd ` {c' \<in> set (c # cs). 0 < fst c' \<and> fst c' \<le> 3}"
    by auto
  have new: "i \<in> snd ` {c' \<in> set (c # cs). 0 < fst c' \<and> fst c' \<le> 3}" if "0 < d" "d \<le> 3"
    using that c by force
  show ?case using Cons.IH [of out] Cons.IH [of "out @ [i]"] mono new
    by (auto simp: c Let_def simp del: image_Collect)
qed simp

lemma pick_distinct: "distinct out \<Longrightarrow> distinct (pick_suggestions cs out)"
  by (induction cs out rule: pick_suggestions.induct) (auto simp: Let_def)

lemma pick_length: "length out \<le> 2 \<Longrightarrow> length (pick_suggestions cs out) \<le> 3"
  by (induction cs out rule: pick_suggestions.induct) (auto simp: Let_def)

text \<open>
  What the resolver suggests for an unknown model id is at most three names, without duplicates,
  all of them ids or aliases of the catalog at a Levenshtein distance between one and three.
\<close>

theorem suggest_close:
  "set (suggest i []) \<subseteq> {s \<in> mi_id ` set kModels \<union> fst ` set kAliases. levenshtein i s \<in> {1..3}} \<and>
   distinct (suggest i []) \<and> length (suggest i []) \<le> 3"
proof -
  have "s \<in> mi_id ` set kModels \<union> fst ` set kAliases \<and> levenshtein i s \<in> {1..3}" if "s \<in> set (suggest i [])" for s
  proof -
    from that obtain d where d: "0 < d" "d \<le> 3" "d = edit_distance i s 6" "s \<in> mi_id ` set kModels \<union> fst ` set kAliases"
      using pick_set [of _ "[]"] by (fastforce simp: suggest_def Let_def)
    then show ?thesis using edit_distance_small [of i s 6] by simp
  qed
  then show ?thesis by (auto simp: suggest_def Let_def intro: pick_distinct pick_length)
qed

section \<open>URLs\<close>

lemma port_value_dec: "port_value s = of_nat (dec_value 0 s)"
proof -
  have "foldl (\<lambda>v c. v * 10 + of_nat (digit_val c)) (of_nat k :: u64) s = of_nat (dec_value k s)" for k
  proof (induction s arbitrary: k)
    case (Cons c s)
    show ?case using Cons.IH [of "10 * k + digit_val c"] by (simp add: mult.commute)
  qed simp
  from this [of 0] show ?thesis by (simp add: port_value_def)
qed

lemma rfind_char_last: "c \<notin> set v \<Longrightarrow> rfind_char c (u @ c # v) = Some (length u)"
  using find_char_append [of c "rev v" "rev u"] by (simp add: rfind_char_def)

lemma digit_not: "is_digit c \<Longrightarrow> c \<noteq> CHR ''/'' \<and> c \<noteq> CHR '':''"
  by (auto simp: is_digit_def byte_val_def)

lemma split_authority_port:
  assumes "h \<noteq> []" "1 \<le> p" "p \<le> 65535"
  shows "split_authority (h @ CHR '':'' # show_nat p) out = (ok, out\<lparr>url_port := of_nat p, url_host := h\<rparr>)"
proof -
  have d: "list_all is_digit (show_nat p)" by (rule show_nat_digits)
  then have "CHR '':'' \<notin> set (show_nat p)" using digit_not by (auto simp: list_all_iff)
  then have r: "rfind_char (CHR '':'') (h @ CHR '':'' # show_nat p) = Some (length h)" by (rule rfind_char_last)
  have v: "port_value (show_nat p) = of_nat p" by (simp add: port_value_dec dec_value_show_nat)
  have s: "sint (of_nat p :: u64) = int p" using assms by (simp add: signed_of_nat signed_take_bit_int_eq_self)
  have "take_bit 64 p = p" using assms(3) by (simp add: take_bit_nat_eq_self_iff)
  then have "ucast (of_nat p :: u64) = (of_nat p :: u16)" by (simp add: unsigned_of_nat)
  then show ?thesis using assms d by (simp add: split_authority_def r v s Let_def)
qed

lemma find_sub_scheme:
  assumes "s = ''http'' \<or> s = ''https''"
  shows "find_sub ''://'' (s @ ''://'' @ t) = Some (length s)"
  using assms by (auto simp: starts_with_def)

lemma strip_slashes_id: "q \<noteq> [] \<Longrightarrow> last q \<noteq> CHR ''/'' \<Longrightarrow> strip_slashes q = q"
  by (cases q rule: rev_cases) (simp_all add: strip_slashes_def)

lemma split_url_rest:
  assumes "scheme \<in> {''http'', ''https''}"
  shows "split_url (scheme @ ''://'' @ rest) =
    (let out = empty_url\<lparr>url_scheme := scheme\<rparr> in case find_char (CHR ''/'') rest of
       None \<Rightarrow> if rest = [] then (make_error e_invalid_cfg, out) else split_authority rest out
     | Some k \<Rightarrow> (let out1 = out\<lparr>url_path := strip_slashes (drop k rest)\<rparr> in
         if take k rest = [] then (make_error e_invalid_cfg, out1) else split_authority (take k rest) out1))"
proof -
  have sub: "find_sub ''://'' (scheme @ ''://'' @ rest) = Some (length scheme)"
    using assms find_sub_scheme by blast
  have ne: "length scheme \<noteq> 0" "\<not> (scheme \<noteq> ''http'' \<and> scheme \<noteq> ''https'')" using assms by auto
  have td: "take (length scheme) (scheme @ ''://'' @ rest) = scheme" "drop (length scheme + 3) (scheme @ ''://'' @ rest) = rest"
    by simp_all
  show ?thesis unfolding split_url_def sub option.case td Let_def using ne
    by (cases "find_char (CHR ''/'') rest") (auto simp: td simp del: find_char_None)
qed

text \<open>
  A URL put together from an http or https scheme, a host, a port between 1 and 65535 and a path without
  a trailing slash splits into exactly these parts.
\<close>

theorem split_url_roundtrip:
  assumes "scheme \<in> {''http'', ''https''}" "host \<noteq> []" "set host \<inter> {CHR ''/''} = {}" "1 \<le> p" "p \<le> 65535"
    "path = [] \<or> hd path = CHR ''/'' \<and> last path \<noteq> CHR ''/''"
  shows "split_url (scheme @ ''://'' @ host @ '':'' @ show_nat p @ path) =
    (ok, \<lparr>url_scheme = scheme, url_host = host, url_port = of_nat p, url_path = path\<rparr>)"
proof -
  define auth where "auth = host @ CHR '':'' # show_nat p"
  have nos: "CHR ''/'' \<notin> set auth"
    using assms(3) show_nat_digits [of p] digit_not by (auto simp: auth_def list_all_iff)
  have ne: "auth \<noteq> []" by (simp add: auth_def)
  have sa: "split_authority auth out = (ok, out\<lparr>url_port := of_nat p, url_host := host\<rparr>)" for out
    unfolding auth_def by (rule split_authority_port [OF assms(2,4,5)])
  have "split_url (scheme @ ''://'' @ auth @ path) =
    (ok, \<lparr>url_scheme = scheme, url_host = host, url_port = of_nat p, url_path = path\<rparr>)"
  proof (cases path)
    case Nil
    have f: "find_char (CHR ''/'') (auth @ path) = None" using nos Nil by simp
    show ?thesis using Nil ne unfolding split_url_rest [OF assms(1)] f
      by (simp add: sa empty_url_def Let_def)
  next
    case (Cons c q)
    have c: "c = CHR ''/''" using assms(6) Cons by simp
    have f: "find_char (CHR ''/'') (auth @ path) = Some (length auth)"
      unfolding Cons c by (rule find_char_append [OF nos])
    have st: "strip_slashes path = path" using assms(6) Cons by (intro strip_slashes_id) auto
    show ?thesis using ne unfolding split_url_rest [OF assms(1)] f
      by (simp add: sa empty_url_def Let_def st)
  qed
  then show ?thesis by (simp add: auth_def)
qed

theorem split_url_roundtrip_witness:
  "split_url (''https'' @ ''://'' @ ''api.example.com'' @ '':'' @ show_nat 8443 @ ''/v1'') =
    (ok, \<lparr>url_scheme = ''https'', url_host = ''api.example.com'', url_port = 8443, url_path = ''/v1''\<rparr>)"
  using split_url_roundtrip [of "''https''" "''api.example.com''" 8443 "''/v1''"] by simp

text \<open>
  The port is accumulated in a \<open>long\<close> with no bound on the number of digits, so a long digit string
  overflows (undefined behaviour in C++; in two's complement, 2 to the 64 plus 80 is accepted as port 80).
\<close>

lemma port_overflow_accepted:
  "split_authority ''h:18446744073709551696'' empty_url = (ok, empty_url\<lparr>url_port := 80, url_host := ''h''\<rparr>)"
  by (simp add: split_authority_def rfind_char_def Let_def port_value_def digit_val_def byte_val_def is_digit_def empty_url_def)

section \<open>Resolution\<close>

lemma catalog_providers: "list_all (\<lambda>m. find_provider (mi_provider m) \<noteq> None) kModels"
  by (simp add: kModels_def find_provider_def kProviders_def)

lemma alias_targets: "list_all (\<lambda>a. find (\<lambda>m. mi_id m = snd a) kModels \<noteq> None) kAliases"
  by (simp add: kModels_def kAliases_def)

end
