(* ===== verification/Config_Load.thy ===== *)
theory Config_Load
  imports Json
begin

text \<open>
  The configuration (\<open>src/config/config.hpp\<close>) and its loader (\<open>src/config/config.cpp\<close>). The loader updates
  the configuration it is given section by section and latches the first error; log lines are not modelled.
  A \<open>double\<close> is a type parameter, as in the JSON reader; the operations on it that the loader uses are the
  record \<open>dbl_ops\<close>.
\<close>

section \<open>Configuration data\<close>

record ProviderCfg =
  prov_id :: string
  prov_api_key :: string
  prov_base_url :: string
  prov_default_model :: string

record AgentCfg =
  ag_id :: string
  ag_model :: string
  ag_max_tokens :: u32

record 'd NetworkCfg =
  timeout_ms :: u32
  max_retries :: u32
  backoff_base_ms :: u32
  backoff_max_ms :: u32
  jitter :: 'd

record MemoryCfg =
  max_value_chars :: u32
  max_key_chars :: u32
  max_entries :: u32
  max_entries_per_task :: u32
  max_entry_tokens :: u32

record 'd Config =
  providers :: "ProviderCfg list"
  agents :: "AgentCfg list"
  network :: "'d NetworkCfg"
  max_tokens_per_task :: u32
  memory_cfg :: MemoryCfg
  data_dir :: string
  context_paths :: "string list"
  edge_mode :: bool

record 'd dbl_ops =
  d_trunc :: "'d \<Rightarrow> 'd"
  d_eq :: "'d \<Rightarrow> 'd \<Rightarrow> bool"
  d_less :: "'d \<Rightarrow> 'd \<Rightarrow> bool"
  d_le :: "'d \<Rightarrow> 'd \<Rightarrow> bool"
  d_of_int :: "int \<Rightarrow> 'd"
  d_to_int :: "'d \<Rightarrow> int"
  d_02 :: 'd
  d_099 :: 'd

definition default_config :: "'d dbl_ops \<Rightarrow> 'd Config" where
  "default_config D = \<lparr>providers = [], agents = [],
     network = \<lparr>timeout_ms = 30000, max_retries = 3, backoff_base_ms = 250, backoff_max_ms = 8000, jitter = d_02 D\<rparr>,
     max_tokens_per_task = 12000,
     memory_cfg = \<lparr>max_value_chars = 512, max_key_chars = 64, max_entries = 64, max_entries_per_task = 6,
       max_entry_tokens = 400\<rparr>,
     data_dir = [], context_paths = [], edge_mode = False\<rparr>"

section \<open>Field readers\<close>

definition invalid :: "error_code \<Rightarrow> error_code" where
  "invalid c = (if is_ok c then make_error e_invalid_cfg else c)"

definition get_str :: "'d jval \<Rightarrow> string \<Rightarrow> bool \<Rightarrow> error_code \<Rightarrow> string option \<times> error_code" where
  "get_str obj key require_nonempty c = (case jfind key obj of
     None \<Rightarrow> (None, if require_nonempty then invalid c else c)
   | Some (JStr s) \<Rightarrow> if require_nonempty \<and> s = [] then (None, invalid c) else (Some s, c)
   | Some _ \<Rightarrow> (None, invalid c))"

definition get_int :: "'d dbl_ops \<Rightarrow> 'd jval \<Rightarrow> string \<Rightarrow> int \<Rightarrow> int \<Rightarrow> error_code \<Rightarrow> int option \<times> error_code" where
  "get_int D obj key lo hi c = (case jfind key obj of
     None \<Rightarrow> (None, c)
   | Some (JNum d) \<Rightarrow>
       if \<not> d_eq D d (d_trunc D d) \<or> d_less D d (d_of_int D lo) \<or> d_less D (d_of_int D hi) d
       then (None, invalid c) else (Some (d_to_int D d), c)
   | Some _ \<Rightarrow> (None, invalid c))"

definition get_double :: "'d dbl_ops \<Rightarrow> 'd jval \<Rightarrow> string \<Rightarrow> 'd \<Rightarrow> 'd \<Rightarrow> error_code \<Rightarrow> 'd option \<times> error_code" where
  "get_double D obj key lo hi c = (case jfind key obj of
     None \<Rightarrow> (None, c)
   | Some (JNum d) \<Rightarrow> if \<not> (d_le D lo d \<and> d_le D d hi) then (None, invalid c) else (Some d, c)
   | Some _ \<Rightarrow> (None, invalid c))"

definition get_bool :: "'d jval \<Rightarrow> string \<Rightarrow> error_code \<Rightarrow> bool option \<times> error_code" where
  "get_bool obj key c = (case jfind key obj of
     None \<Rightarrow> (None, c)
   | Some (JBool b) \<Rightarrow> (Some b, c)
   | Some _ \<Rightarrow> (None, invalid c))"

definition has_provider_id :: "ProviderCfg list \<Rightarrow> string \<Rightarrow> bool" where
  "has_provider_id ps i = list_ex (\<lambda>p. prov_id p = i) ps"

definition has_agent_id :: "AgentCfg list \<Rightarrow> string \<Rightarrow> bool" where
  "has_agent_id as i = list_ex (\<lambda>a. ag_id a = i) as"

section \<open>Sections of the file\<close>

definition or_empty :: "string option \<Rightarrow> string" where
  "or_empty x = (case x of Some s \<Rightarrow> s | None \<Rightarrow> [])"

definition load_schema :: "'d dbl_ops \<Rightarrow> 'd jval \<Rightarrow> error_code \<Rightarrow> error_code" where
  "load_schema D root c = (case jfind ''schema'' root of
     None \<Rightarrow> c
   | Some (JNum n) \<Rightarrow> if d_less D (d_of_int D 1) n then invalid c else c
   | Some _ \<Rightarrow> invalid c)"

fun load_providers :: "'d jval list \<Rightarrow> error_code \<Rightarrow> ProviderCfg list \<Rightarrow> error_code \<times> ProviderCfg list" where
  "load_providers [] c ps = (c, ps)"
| "load_providers (e # es) c ps =
     (if \<not> is_ok c then (c, ps) else case e of
        JObj _ \<Rightarrow>
          (case get_str e ''id'' True c of
             (None, c1) \<Rightarrow> load_providers es c1 ps
           | (Some i, c1) \<Rightarrow>
               if has_provider_id ps i then load_providers es (invalid c1) ps
               else (let (key, c2) = get_str e ''api_key'' False c1;
                         (url, c3) = get_str e ''base_url'' False c2;
                         (model, c4) = get_str e ''default_model'' False c3;
                         pc = \<lparr>prov_id = i, prov_api_key = or_empty key, prov_base_url = or_empty url,
                               prov_default_model = or_empty model\<rparr>
                     in load_providers es c4 (if is_ok c4 then ps @ [pc] else ps)))
      | _ \<Rightarrow> load_providers es (invalid c) ps)"

fun load_agents :: "'d dbl_ops \<Rightarrow> 'd jval list \<Rightarrow> error_code \<Rightarrow> AgentCfg list \<Rightarrow> error_code \<times> AgentCfg list" where
  "load_agents D [] c as = (c, as)"
| "load_agents D (e # es) c as =
     (if \<not> is_ok c then (c, as) else case e of
        JObj _ \<Rightarrow>
          (case get_str e ''id'' True c of
             (None, c1) \<Rightarrow> load_agents D es c1 as
           | (Some i, c1) \<Rightarrow>
               if has_agent_id as i then load_agents D es (invalid c1) as
               else (case get_str e ''model'' True c1 of
                   (None, c2) \<Rightarrow> load_agents D es c2 as
                 | (Some m, c2) \<Rightarrow>
                     (let (mt, c3) = get_int D e ''max_tokens'' 0 100000000 c2;
                          ac = \<lparr>ag_id = i, ag_model = m,
                                ag_max_tokens = (case mt of Some v \<Rightarrow> of_int v | None \<Rightarrow> 0)\<rparr>
                      in load_agents D es c3 (if is_ok c3 then as @ [ac] else as))))
      | _ \<Rightarrow> load_agents D es (invalid c) as)"

text \<open>The statement pattern \<open>if (get_int(obj, key, path, lo, hi, v, c)) out.field = v\<close>.\<close>

definition set_int :: "'d dbl_ops \<Rightarrow> 'd jval \<Rightarrow> string \<Rightarrow> int \<Rightarrow> int \<Rightarrow> (u32 \<Rightarrow> 'a \<Rightarrow> 'a) \<Rightarrow>
    error_code \<times> 'a \<Rightarrow> error_code \<times> 'a" where
  "set_int D obj key lo hi upd = (\<lambda>(c, a). case get_int D obj key lo hi c of
     (Some v, c') \<Rightarrow> (c', upd (of_int v) a)
   | (None, c') \<Rightarrow> (c', a))"

definition load_network :: "'d dbl_ops \<Rightarrow> 'd jval \<Rightarrow> error_code \<times> 'd NetworkCfg \<Rightarrow> error_code \<times> 'd NetworkCfg" where
  "load_network D n s0 =
     (let s1 = set_int D n ''timeout_ms'' 1 3600000 (\<lambda>v. timeout_ms_update (\<lambda>_. v)) s0;
          s2 = set_int D n ''max_retries'' 0 20 (\<lambda>v. max_retries_update (\<lambda>_. v)) s1;
          s3 = set_int D n ''backoff_base_ms'' 0 60000 (\<lambda>v. backoff_base_ms_update (\<lambda>_. v)) s2;
          (c4, n4) = set_int D n ''backoff_max_ms'' 0 600000 (\<lambda>v. backoff_max_ms_update (\<lambda>_. v)) s3;
          (c5, n5) = (case get_double D n ''jitter'' (d_of_int D 0) (d_099 D) c4 of
             (Some j, c) \<Rightarrow> (c, n4\<lparr>jitter := j\<rparr>) | (None, c) \<Rightarrow> (c, n4))
      in (if backoff_max_ms n5 < backoff_base_ms n5 then invalid c5 else c5, n5))"

definition load_memory :: "'d dbl_ops \<Rightarrow> 'd jval \<Rightarrow> error_code \<times> MemoryCfg \<Rightarrow> error_code \<times> MemoryCfg" where
  "load_memory D m s0 =
     (let s1 = set_int D m ''max_value_chars'' 1 100000 (\<lambda>v. max_value_chars_update (\<lambda>_. v)) s0;
          s2 = set_int D m ''max_key_chars'' 1 1000 (\<lambda>v. max_key_chars_update (\<lambda>_. v)) s1;
          s3 = set_int D m ''max_entries'' 1 1000000 (\<lambda>v. max_entries_update (\<lambda>_. v)) s2;
          s4 = set_int D m ''max_entries_per_task'' 1 1000 (\<lambda>v. max_entries_per_task_update (\<lambda>_. v)) s3
      in set_int D m ''max_entry_tokens'' 1 100000 (\<lambda>v. max_entry_tokens_update (\<lambda>_. v)) s4)"

fun load_paths :: "'d jval list \<Rightarrow> error_code \<Rightarrow> string list \<Rightarrow> error_code \<times> string list" where
  "load_paths [] c ps = (c, ps)"
| "load_paths (e # es) c ps =
     (if \<not> is_ok c then (c, ps) else case e of
        JStr s \<Rightarrow> load_paths es c (ps @ [s])
      | _ \<Rightarrow> load_paths es (invalid c) ps)"

section \<open>The loader\<close>

text \<open>
  A section of the source reads one key of the root object, demands its kind and updates the
  configuration; \<open>if (c.failed()) return c.err\<close> stands between the sections.
\<close>

definition providers_section :: "'d jval \<Rightarrow> error_code \<times> 'd Config \<Rightarrow> error_code \<times> 'd Config" where
  "providers_section root = (\<lambda>(c, cfg). case jfind ''providers'' root of
     None \<Rightarrow> (c, cfg)
   | Some (JArr es) \<Rightarrow> (case load_providers es c [] of (c', ps) \<Rightarrow> (c', cfg\<lparr>providers := ps\<rparr>))
   | Some _ \<Rightarrow> (invalid c, cfg))"

definition agents_section :: "'d dbl_ops \<Rightarrow> 'd jval \<Rightarrow> error_code \<times> 'd Config \<Rightarrow> error_code \<times> 'd Config" where
  "agents_section D root = (\<lambda>(c, cfg). case jfind ''agents'' root of
     None \<Rightarrow> (c, cfg)
   | Some (JArr es) \<Rightarrow> (case load_agents D es c [] of (c', as) \<Rightarrow> (c', cfg\<lparr>agents := as\<rparr>))
   | Some _ \<Rightarrow> (invalid c, cfg))"

definition network_section :: "'d dbl_ops \<Rightarrow> 'd jval \<Rightarrow> error_code \<times> 'd Config \<Rightarrow> error_code \<times> 'd Config" where
  "network_section D root = (\<lambda>(c, cfg). case jfind ''network'' root of
     None \<Rightarrow> (c, cfg)
   | Some (JObj kvs) \<Rightarrow> (case load_network D (JObj kvs) (c, network cfg) of (c', n) \<Rightarrow> (c', cfg\<lparr>network := n\<rparr>))
   | Some _ \<Rightarrow> (invalid c, cfg))"

definition budget_section :: "'d dbl_ops \<Rightarrow> 'd jval \<Rightarrow> error_code \<times> 'd Config \<Rightarrow> error_code \<times> 'd Config" where
  "budget_section D root = (\<lambda>(c, cfg). case jfind ''budget'' root of
     None \<Rightarrow> (c, cfg)
   | Some (JObj kvs) \<Rightarrow>
       set_int D (JObj kvs) ''max_tokens_per_task'' 1000 10000000 (\<lambda>v. max_tokens_per_task_update (\<lambda>_. v)) (c, cfg)
   | Some _ \<Rightarrow> (invalid c, cfg))"

definition memory_section :: "'d dbl_ops \<Rightarrow> 'd jval \<Rightarrow> error_code \<times> 'd Config \<Rightarrow> error_code \<times> 'd Config" where
  "memory_section D root = (\<lambda>(c, cfg). case jfind ''memory'' root of
     None \<Rightarrow> (c, cfg)
   | Some (JObj kvs) \<Rightarrow> (case load_memory D (JObj kvs) (c, memory_cfg cfg) of (c', m) \<Rightarrow> (c', cfg\<lparr>memory_cfg := m\<rparr>))
   | Some _ \<Rightarrow> (invalid c, cfg))"

definition data_dir_section :: "'d jval \<Rightarrow> error_code \<times> 'd Config \<Rightarrow> error_code \<times> 'd Config" where
  "data_dir_section root = (\<lambda>(c, cfg). case get_str root ''data_dir'' False c of
     (Some s, c') \<Rightarrow> (c', cfg\<lparr>data_dir := s\<rparr>) | (None, c') \<Rightarrow> (c', cfg))"

definition paths_section :: "'d jval \<Rightarrow> error_code \<times> 'd Config \<Rightarrow> error_code \<times> 'd Config" where
  "paths_section root = (\<lambda>(c, cfg). case jfind ''context_paths'' root of
     None \<Rightarrow> (c, cfg)
   | Some (JArr es) \<Rightarrow> (case load_paths es c [] of (c', ps) \<Rightarrow> (c', cfg\<lparr>context_paths := ps\<rparr>))
   | Some _ \<Rightarrow> (invalid c, cfg))"

definition edge_section :: "'d jval \<Rightarrow> error_code \<times> 'd Config \<Rightarrow> error_code \<times> 'd Config" where
  "edge_section root = (\<lambda>(c, cfg). case get_bool root ''edge_mode'' c of
     (Some b, c') \<Rightarrow> (c', cfg\<lparr>edge_mode := b\<rparr>) | (None, c') \<Rightarrow> (c', cfg))"

definition unless_failed :: "(error_code \<times> 'a \<Rightarrow> error_code \<times> 'a) \<Rightarrow> error_code \<times> 'a \<Rightarrow> error_code \<times> 'a" where
  "unless_failed f s = (if is_ok (fst s) then f s else s)"

definition load_root :: "'d dbl_ops \<Rightarrow> 'd jval \<Rightarrow> 'd Config \<Rightarrow> error_code \<times> 'd Config" where
  "load_root D root cfg = fold unless_failed
     [providers_section root, agents_section D root, network_section D root, budget_section D root,
      memory_section D root, data_dir_section root, paths_section root, edge_section root]
     (load_schema D root ok, cfg)"

definition load_config_json :: "'d dbl_ops \<Rightarrow> (string \<Rightarrow> 'd) \<Rightarrow> string \<Rightarrow> 'd Config \<Rightarrow> error_code \<times> 'd Config" where
  "load_config_json D from_chars text cfg = (case parse_json from_chars text of
     Some (Inr (JObj kvs)) \<Rightarrow> load_root D (JObj kvs) cfg
   | _ \<Rightarrow> (make_error e_invalid_cfg, cfg))"

text \<open>\<open>contents\<close> is what reading the file gives; \<open>None\<close> when it cannot be opened or read.\<close>

definition load_config_file :: "'d dbl_ops \<Rightarrow> (string \<Rightarrow> 'd) \<Rightarrow> string option \<Rightarrow> 'd Config \<Rightarrow> error_code \<times> 'd Config" where
  "load_config_file D from_chars contents cfg = (case contents of
     None \<Rightarrow> (make_error e_invalid_cfg, cfg)
   | Some text \<Rightarrow> load_config_json D from_chars text cfg)"

section \<open>What a loaded configuration satisfies\<close>

text \<open>
  The law of \<open>double\<close> that the range checks rely on: an integral value between two integers that a
  double represents exactly converts to an integer between them.
\<close>

definition dbl_lawful :: "'d dbl_ops \<Rightarrow> bool" where
  "dbl_lawful D \<longleftrightarrow> (\<forall>d lo hi. \<bar>lo\<bar> \<le> 2 ^ 53 \<and> \<bar>hi\<bar> \<le> 2 ^ 53 \<and> d_eq D d (d_trunc D d) \<and>
     \<not> d_less D d (d_of_int D lo) \<and> \<not> d_less D (d_of_int D hi) d \<longrightarrow> lo \<le> d_to_int D d \<and> d_to_int D d \<le> hi)"

abbreviation in_range :: "int \<Rightarrow> int \<Rightarrow> u32 \<Rightarrow> bool" where
  "in_range lo hi w \<equiv> lo \<le> uint w \<and> uint w \<le> hi"

definition valid_providers :: "ProviderCfg list \<Rightarrow> bool" where
  "valid_providers ps \<longleftrightarrow> distinct (map prov_id ps) \<and> [] \<notin> prov_id ` set ps"

definition valid_agents :: "AgentCfg list \<Rightarrow> bool" where
  "valid_agents as \<longleftrightarrow> distinct (map ag_id as) \<and> [] \<notin> ag_id ` set as \<and> [] \<notin> ag_model ` set as \<and>
     list_all (\<lambda>a. in_range 0 100000000 (ag_max_tokens a)) as"

definition network_ranges :: "'d dbl_ops \<Rightarrow> 'd NetworkCfg \<Rightarrow> bool" where
  "network_ranges D n \<longleftrightarrow> in_range 1 3600000 (timeout_ms n) \<and> in_range 0 20 (max_retries n) \<and>
     in_range 0 60000 (backoff_base_ms n) \<and> in_range 0 600000 (backoff_max_ms n) \<and>
     d_le D (d_of_int D 0) (jitter n) \<and> d_le D (jitter n) (d_099 D)"

definition memory_ranges :: "MemoryCfg \<Rightarrow> bool" where
  "memory_ranges m \<longleftrightarrow> in_range 1 100000 (max_value_chars m) \<and> in_range 1 1000 (max_key_chars m) \<and>
     in_range 1 1000000 (max_entries m) \<and> in_range 1 1000 (max_entries_per_task m) \<and>
     in_range 1 100000 (max_entry_tokens m)"

definition valid_config :: "'d dbl_ops \<Rightarrow> 'd Config \<Rightarrow> bool" where
  "valid_config D cfg \<longleftrightarrow> valid_providers (providers cfg) \<and> valid_agents (agents cfg) \<and>
     network_ranges D (network cfg) \<and> backoff_base_ms (network cfg) \<le> backoff_max_ms (network cfg) \<and>
     in_range 1000 10000000 (max_tokens_per_task cfg) \<and> memory_ranges (memory_cfg cfg)"

lemma invalid_not_ok [simp]: "\<not> is_ok (invalid c)"
  by (simp add: invalid_def)

lemma get_str_nonempty: "get_str obj key True c = (Some s, c') \<Longrightarrow> s \<noteq> []"
  by (auto simp: get_str_def split: option.splits jval.splits if_splits)

lemma get_int_range:
  assumes "dbl_lawful D" "\<bar>lo\<bar> \<le> 2 ^ 53" "\<bar>hi\<bar> \<le> 2 ^ 53" "get_int D obj key lo hi c = (Some v, c')"
  shows "lo \<le> v \<and> v \<le> hi"
  using assms by (auto simp: get_int_def dbl_lawful_def split: option.splits jval.splits if_splits)

lemma uint_of_int_u32: "0 \<le> v \<Longrightarrow> v < 2 ^ 32 \<Longrightarrow> uint (of_int v :: u32) = v"
  by (simp add: unsigned_of_int take_bit_int_eq_self)

lemma get_int_word:
  assumes "dbl_lawful D" "0 \<le> lo" "lo < 2 ^ 32" "0 \<le> hi" "hi < 2 ^ 32" "get_int D obj key lo hi c = (Some v, c')"
  shows "in_range lo hi (of_int v)"
proof -
  have "lo \<le> v \<and> v \<le> hi" by (rule get_int_range [OF assms(1) _ _ assms(6)]) (use assms in simp_all)
  then show ?thesis using assms uint_of_int_u32 [of v] by simp
qed

lemma set_int_inv:
  assumes "dbl_lawful D" "0 \<le> lo" "lo < 2 ^ 32" "0 \<le> hi" "hi < 2 ^ 32" "P (snd s)"
    "\<And>v a. in_range lo hi v \<Longrightarrow> P a \<Longrightarrow> P (upd v a)"
  shows "P (snd (set_int D obj key lo hi upd s))"
  using assms(6,7) get_int_word [OF assms(1-5)]
  by (auto simp: set_int_def split: prod.split option.split)

lemma valid_providers_snoc:
  "valid_providers ps \<Longrightarrow> \<not> has_provider_id ps (prov_id p) \<Longrightarrow> prov_id p \<noteq> [] \<Longrightarrow> valid_providers (ps @ [p])"
  by (auto simp: valid_providers_def has_provider_id_def list_ex_iff)

lemma load_providers_valid: "valid_providers ps \<Longrightarrow> valid_providers (snd (load_providers es c ps))"
proof (induction es arbitrary: c ps)
  case (Cons e es)
  show ?case
  proof (cases "\<exists>kvs. e = JObj kvs")
    case False
    then show ?thesis using Cons by (cases e) simp_all
  next
    case True
    obtain r c1 where r: "get_str e ''id'' True c = (r, c1)" by fastforce
    show ?thesis
    proof (cases r)
      case None
      then show ?thesis using Cons True r by auto
    next
      case (Some i)
      then have ne: "i \<noteq> []" using r get_str_nonempty by blast
      show ?thesis using Cons True r Some ne
        by (auto simp: Let_def intro!: Cons.IH valid_providers_snoc split: prod.split)
    qed
  qed
qed simp

lemma valid_agents_snoc:
  "valid_agents as \<Longrightarrow> \<not> has_agent_id as (ag_id a) \<Longrightarrow> ag_id a \<noteq> [] \<Longrightarrow> ag_model a \<noteq> [] \<Longrightarrow>
   in_range 0 100000000 (ag_max_tokens a) \<Longrightarrow> valid_agents (as @ [a])"
  by (auto simp: valid_agents_def has_agent_id_def list_ex_iff)

lemma load_agents_valid: "dbl_lawful D \<Longrightarrow> valid_agents as \<Longrightarrow> valid_agents (snd (load_agents D es c as))"
proof (induction es arbitrary: c as)
  case (Cons e es)
  show ?case
  proof (cases "\<exists>kvs. e = JObj kvs")
    case False
    then show ?thesis using Cons by (cases e) simp_all
  next
    case True
    obtain r c1 where r: "get_str e ''id'' True c = (r, c1)" by fastforce
    obtain r2 c2 where r2: "get_str e ''model'' True c1 = (r2, c2)" by fastforce
    obtain mt c3 where mt: "get_int D e ''max_tokens'' 0 100000000 c2 = (mt, c3)" by fastforce
    show ?thesis
    proof (cases "r = None \<or> r2 = None")
      case nothing: True
      then show ?thesis using Cons True r r2 by (auto split: option.split)
    next
      case False
      then obtain i m where im: "r = Some i" "r2 = Some m" by auto
      then have ne: "i \<noteq> []" "m \<noteq> []" using r r2 get_str_nonempty by blast+
      have rng: "in_range 0 100000000 (case mt of Some v \<Rightarrow> of_int v | None \<Rightarrow> 0)"
        using mt get_int_word [OF Cons.prems(1), of 0 100000000 e "''max_tokens''" c2]
        by (cases mt) auto
      show ?thesis using Cons True r r2 mt im ne rng
        by (auto simp: Let_def intro!: Cons.IH valid_agents_snoc)
    qed
  qed
qed simp

lemma load_network_ranges:
  assumes "dbl_lawful D" "network_ranges D n" "load_network D v (c, n) = (c', n')"
  shows "network_ranges D n' \<and> (is_ok c' \<longrightarrow> backoff_base_ms n' \<le> backoff_max_ms n')"
proof -
  define s1 where "s1 = set_int D v ''timeout_ms'' 1 3600000 (\<lambda>v. timeout_ms_update (\<lambda>_. v)) (c, n)"
  define s2 where "s2 = set_int D v ''max_retries'' 0 20 (\<lambda>v. max_retries_update (\<lambda>_. v)) s1"
  define s3 where "s3 = set_int D v ''backoff_base_ms'' 0 60000 (\<lambda>v. backoff_base_ms_update (\<lambda>_. v)) s2"
  define s4 where "s4 = set_int D v ''backoff_max_ms'' 0 600000 (\<lambda>v. backoff_max_ms_update (\<lambda>_. v)) s3"
  have "network_ranges D (snd s1)" unfolding s1_def
    by (rule set_int_inv [where P = "network_ranges D"]) (use assms in \<open>auto simp: network_ranges_def\<close>)
  then have "network_ranges D (snd s2)" unfolding s2_def
    by (rule set_int_inv [where P = "network_ranges D", rotated 5]) (use assms in \<open>auto simp: network_ranges_def\<close>)
  then have "network_ranges D (snd s3)" unfolding s3_def
    by (rule set_int_inv [where P = "network_ranges D", rotated 5]) (use assms in \<open>auto simp: network_ranges_def\<close>)
  then have s4: "network_ranges D (snd s4)" unfolding s4_def
    by (rule set_int_inv [where P = "network_ranges D", rotated 5]) (use assms in \<open>auto simp: network_ranges_def\<close>)
  obtain c4 n4 where cn: "s4 = (c4, n4)" by fastforce
  obtain j c5 where j: "get_double D v ''jitter'' (d_of_int D 0) (d_099 D) c4 = (j, c5)" by fastforce
  have n': "n' = (case j of Some x \<Rightarrow> n4\<lparr>jitter := x\<rparr> | None \<Rightarrow> n4)"
    and c': "c' = (if backoff_max_ms n' < backoff_base_ms n' then invalid c5 else c5)"
    using assms(3) cn j unfolding load_network_def Let_def s1_def [symmetric] s2_def [symmetric] s3_def [symmetric] s4_def [symmetric]
    by (auto split: option.splits)
  have "network_ranges D n'" using s4 cn j n'
    by (auto simp: network_ranges_def get_double_def split: option.splits jval.splits if_splits)
  then show ?thesis using c' by auto
qed

lemma load_memory_ranges:
  assumes "dbl_lawful D" "memory_ranges m"
  shows "memory_ranges (snd (load_memory D v (c, m)))"
  unfolding load_memory_def Let_def
  by (intro set_int_inv [where P = memory_ranges]) (use assms in \<open>auto simp: memory_ranges_def\<close>)

text \<open>One section keeps the validity of a configuration as long as no error is latched.\<close>

definition keeps_valid :: "'d dbl_ops \<Rightarrow> (error_code \<times> 'd Config \<Rightarrow> error_code \<times> 'd Config) \<Rightarrow> bool" where
  "keeps_valid D f \<longleftrightarrow> (\<forall>c cfg c' cfg'. valid_config D cfg \<and> f (c, cfg) = (c', cfg') \<and> is_ok c' \<longrightarrow> valid_config D cfg')"

named_theorems sections

lemma providers_keep [sections]: "keeps_valid D (providers_section (root :: 'd jval))"
proof -
  have "valid_providers (snd (load_providers es c []))" for es :: "'d jval list" and c
    by (rule load_providers_valid) (simp add: valid_providers_def)
  then show ?thesis
    by (auto simp: keeps_valid_def providers_section_def valid_config_def split: option.splits jval.splits prod.splits) (metis snd_conv)
qed

lemma agents_keep [sections]:
  assumes "dbl_lawful D"
  shows "keeps_valid D (agents_section D root)"
proof -
  have "valid_agents (snd (load_agents D es c []))" for es c
    by (rule load_agents_valid [OF assms]) (simp add: valid_agents_def)
  then show ?thesis
    by (auto simp: keeps_valid_def agents_section_def valid_config_def split: option.splits jval.splits prod.splits) (metis snd_conv)
qed

lemma network_keep [sections]: "dbl_lawful D \<Longrightarrow> keeps_valid D (network_section D root)"
  using load_network_ranges [of D]
  by (fastforce simp: keeps_valid_def network_section_def valid_config_def split: option.splits jval.splits prod.splits)

lemma budget_keep [sections]:
  assumes "dbl_lawful D"
  shows "keeps_valid D (budget_section D root)"
proof -
  have "valid_config D (snd (set_int D v ''max_tokens_per_task'' 1000 10000000 (\<lambda>v. max_tokens_per_task_update (\<lambda>_. v)) (c, cfg)))"
    if "valid_config D cfg" for v c cfg
    by (rule set_int_inv [where P = "valid_config D"]) (use assms that in \<open>auto simp: valid_config_def\<close>)
  then show ?thesis
    by (auto simp: keeps_valid_def budget_section_def split: option.splits jval.splits) (metis snd_conv)
qed

lemma memory_keep [sections]:
  assumes "dbl_lawful D"
  shows "keeps_valid D (memory_section D root)"
  using load_memory_ranges [OF assms]
  by (auto simp: keeps_valid_def memory_section_def valid_config_def split: option.splits jval.splits prod.splits) (metis snd_conv)

lemma rest_keep [sections]:
  "keeps_valid D (data_dir_section root)" "keeps_valid D (paths_section root)" "keeps_valid D (edge_section root)"
  by (auto simp: keeps_valid_def data_dir_section_def paths_section_def edge_section_def valid_config_def
      split: option.splits jval.splits prod.splits)

lemma fold_sections:
  "list_all (keeps_valid D) fs \<Longrightarrow> (is_ok (fst s) \<longrightarrow> valid_config D (snd s)) \<Longrightarrow>
   is_ok (fst (fold unless_failed fs s)) \<Longrightarrow> valid_config D (snd (fold unless_failed fs s))"
proof (induction fs arbitrary: s)
  case (Cons f fs)
  obtain c cfg c' cfg' where s: "s = (c, cfg)" "f (c, cfg) = (c', cfg')" by (cases s; cases "f s") auto
  have "is_ok (fst (unless_failed f s)) \<longrightarrow> valid_config D (snd (unless_failed f s))"
    using Cons.prems(1,2) s by (auto simp: unless_failed_def keeps_valid_def)
  then show ?case using Cons by simp
qed simp

lemma load_root_valid:
  "dbl_lawful D \<Longrightarrow> valid_config D cfg \<Longrightarrow> is_ok (fst (load_root D root cfg)) \<Longrightarrow> valid_config D (snd (load_root D root cfg))"
  unfolding load_root_def by (rule fold_sections) (auto simp: sections)

text \<open>
  C22: whatever JSON text is loaded over a valid configuration (the built-in defaults are one), when the loader
  reports success the result is valid again: provider and agent ids are non-empty and unique, every agent
  names a model, every number lies in its documented range and the maximal backoff is not below the base.
\<close>

theorem load_config_valid:
  assumes "dbl_lawful D" "valid_config D cfg" "load_config_json D from_chars text cfg = (ec, cfg')" "is_ok ec"
  shows "valid_config D cfg'"
  using assms load_root_valid [of D cfg]
  by (auto simp: load_config_json_def split: option.splits sum.splits jval.splits) (metis fst_conv snd_conv)

text \<open>Integers as doubles, a lawful instance; the fraction 0.99 becomes 0.\<close>

definition int_dbl :: "int dbl_ops" where
  "int_dbl = \<lparr>d_trunc = (\<lambda>d. d), d_eq = (=), d_less = (<), d_le = (\<le>), d_of_int = (\<lambda>i. i), d_to_int = (\<lambda>d. d),
     d_02 = 0, d_099 = 0\<rparr>"

lemma default_valid: "d_le D (d_of_int D 0) (d_02 D) \<Longrightarrow> d_le D (d_02 D) (d_099 D) \<Longrightarrow> valid_config D (default_config D)"
  by (simp add: valid_config_def default_config_def valid_providers_def valid_agents_def network_ranges_def memory_ranges_def)

theorem load_config_valid_witness:
  "valid_config int_dbl (snd (load_config_json int_dbl (\<lambda>s. int (dec_value 0 s))
     (''{'' @ [dquote] @ ''providers'' @ [dquote] @ '':[]}'') (default_config int_dbl)))"
proof -
  let ?r = "load_config_json int_dbl (\<lambda>s. int (dec_value 0 s))
     (''{'' @ [dquote] @ ''providers'' @ [dquote] @ '':[]}'') (default_config int_dbl)"
  have "dbl_lawful int_dbl" by (simp add: dbl_lawful_def int_dbl_def)
  moreover have "valid_config int_dbl (default_config int_dbl)" by (rule default_valid) (simp_all add: int_dbl_def)
  moreover have "is_ok (fst ?r)" by code_simp
  ultimately show ?thesis by (rule load_config_valid [OF _ _ surjective_pairing])
qed

end
