(* ===== verification/Agent_States.thy ===== *)
theory Agent_States
  imports Prelude
begin

text \<open>
  The state machine of a task (\<open>src/agent/states.h\<close>): states, lanes, the table of legal transitions and the
  events the host receives. The paths the table allows are an inductive predicate, so that facts about the
  order of the phases are proved by rule induction.
\<close>

section \<open>Data\<close>

datatype AgentState = idle | preparing | connecting | streaming | tool_phase | verifying | applying
  | done_state | error_state | cancelled_state

datatype AgentLane = lane_none | lane_backoff | lane_offline | lane_paused

fun state_str :: "AgentState \<Rightarrow> string" where
  "state_str idle = ''idle''"
| "state_str preparing = ''preparing''"
| "state_str connecting = ''connecting''"
| "state_str streaming = ''streaming''"
| "state_str tool_phase = ''tool_phase''"
| "state_str verifying = ''verifying''"
| "state_str applying = ''applying''"
| "state_str done_state = ''done''"
| "state_str error_state = ''error''"
| "state_str cancelled_state = ''cancelled''"

fun lane_str :: "AgentLane \<Rightarrow> string" where
  "lane_str lane_none = ''none''"
| "lane_str lane_backoff = ''backoff''"
| "lane_str lane_offline = ''offline''"
| "lane_str lane_paused = ''paused''"

definition is_terminal :: "AgentState \<Rightarrow> bool" where
  "is_terminal s \<longleftrightarrow> s = done_state \<or> s = error_state \<or> s = cancelled_state"

record AgentEvent =
  ev_state :: AgentState
  ev_lane :: AgentLane
  ev_phase :: string
  ev_detail :: string
  ev_tokens_used :: u64
  ev_status :: int

definition valid_transition :: "AgentState \<Rightarrow> AgentState \<Rightarrow> bool" where
  "valid_transition from to \<longleftrightarrow>
     (if from = to then \<not> is_terminal from
      else if to = idle then from = applying \<or> from = error_state \<or> from = cancelled_state
      else if is_terminal to then \<not> is_terminal from \<and> from \<noteq> idle
      else case from of
        idle \<Rightarrow> to = preparing
      | preparing \<Rightarrow> to = connecting \<or> to = done_state
      | connecting \<Rightarrow> to = streaming \<or> to = tool_phase
      | streaming \<Rightarrow> to = tool_phase \<or> to = verifying \<or> to = done_state
      | tool_phase \<Rightarrow> to = verifying \<or> to = done_state
      | verifying \<Rightarrow> to = applying \<or> to = done_state \<or> to = tool_phase
      | applying \<Rightarrow> to = done_state \<or> to = verifying \<or> to = idle
      | _ \<Rightarrow> False)"

definition lane_allowed :: "AgentState \<Rightarrow> AgentLane \<Rightarrow> bool" where
  "lane_allowed s l \<longleftrightarrow>
     (if l = lane_none then True
      else if l = lane_paused then s = connecting \<or> s = streaming \<or> s = tool_phase \<or> s = verifying
      else s = connecting \<or> s = streaming \<or> s = tool_phase)"

text \<open>\<open>std::to_string\<close> on a signed value.\<close>

definition show_int :: "int \<Rightarrow> string" where
  "show_int i = (if i < 0 then ''-'' @ show_nat (nat (- i)) else show_nat (nat i))"

definition format_event :: "AgentEvent \<Rightarrow> string" where
  "format_event ev = state_str (ev_state ev)
     @ (if ev_lane ev \<noteq> lane_none then '':'' @ lane_str (ev_lane ev) else [])
     @ (if ev_phase ev \<noteq> [] then '' phase='' @ ev_phase ev else [])
     @ (if ev_detail ev \<noteq> [] then '' detail='' @ ev_detail ev else [])
     @ (if ev_tokens_used ev \<noteq> 0 then '' tokens='' @ show_nat (unat (ev_tokens_used ev)) else [])
     @ (if ev_status ev \<noteq> 0 then '' status='' @ show_int (ev_status ev) else [])"

section \<open>Paths of the machine\<close>

text \<open>A path lists the states a session went through, latest first.\<close>

inductive task_path :: "AgentState list \<Rightarrow> bool" where
  start: "task_path [idle]"
| move: "task_path (s # p) \<Longrightarrow> valid_transition s t \<Longrightarrow> task_path (t # s # p)"

inductive_cases task_path_NilE: "task_path []"
inductive_cases task_path_ConsE: "task_path (t # p)"

lemma task_path_nonempty: "task_path p \<Longrightarrow> p \<noteq> []"
  by (auto elim: task_path_NilE)

text \<open>What must have happened since the machine was last idle for it to be in a given state.\<close>

fun required :: "AgentState \<Rightarrow> AgentState set" where
  "required idle = {}"
| "required preparing = {preparing}"
| "required connecting = {preparing, connecting}"
| "required streaming = {preparing, connecting, streaming}"
| "required tool_phase = {preparing, connecting, tool_phase}"
| "required verifying = {preparing, connecting, verifying}"
| "required applying = {preparing, connecting, verifying, applying}"
| "required done_state = {preparing, done_state}"
| "required error_state = {preparing, error_state}"
| "required cancelled_state = {preparing, cancelled_state}"

lemma required_step: "valid_transition s t \<Longrightarrow> t \<noteq> idle \<Longrightarrow> required t \<subseteq> insert t (required s)"
  by (cases s; cases t) (simp_all add: valid_transition_def is_terminal_def)

lemma required_idle: "valid_transition idle t \<Longrightarrow> t = idle \<or> t = preparing"
  by (cases t) (simp_all add: valid_transition_def is_terminal_def)

abbreviation since_idle :: "AgentState list \<Rightarrow> AgentState list" where
  "since_idle p \<equiv> takeWhile (\<lambda>s. s \<noteq> idle) p"

lemma path_required: "task_path p \<Longrightarrow> required (hd p) \<subseteq> set (since_idle p)"
proof (induction rule: task_path.induct)
  case (move s p t)
  show ?case
  proof (cases "t = idle")
    case False
    have "required s \<subseteq> set (since_idle (s # p))" using move.IH by simp
    then show ?thesis using required_step [OF move.hyps(2) False] False by auto
  qed simp
qed simp

lemma done_is_final: "\<not> valid_transition done_state t"
  by (cases t) (simp_all add: valid_transition_def is_terminal_def)

lemma lane_allowed_active: "lane_allowed s l \<Longrightarrow> l \<noteq> lane_none \<Longrightarrow> \<not> is_terminal s \<and> s \<noteq> idle"
  by (auto simp: lane_allowed_def is_terminal_def split: if_splits)

end
