(* ===== verification/Session.thy ===== *)
theory Session
  imports Agent_States Mem_Store Provider Config_Load
begin

text \<open>
  The per-task state of the agent (\<open>src/agent/session.h\<close>, \<open>src/agent/session.cpp\<close>): message history, token
  budget, provider binding, request ids, the guarded state machine with its events, and persistence. The
  host's event callback is the list \<open>sn_events\<close>; the wall clock is an argument; the logger is left out. The
  optional store is the in-memory store.
\<close>

section \<open>State\<close>

record 'd SessionOptions =
  so_workspace :: string
  so_session_id :: string
  so_config :: "'d Config"
  so_model :: ModelSpec
  so_provider_id :: string
  so_api_key :: string
  so_store :: "MemStore option"

record 'd Session =
  sn_id :: string
  sn_workspace :: string
  sn_cfg :: "'d Config"
  sn_model :: ModelSpec
  sn_provider_id :: string
  sn_api_key :: string
  sn_store :: "MemStore option"
  sn_messages :: "Message list"
  sn_tokens_used :: u64
  sn_msg_seq :: u64
  sn_provider :: "provider_obj option"
  sn_request_id :: string
  sn_req_seq :: u64
  sn_state :: AgentState
  sn_lane :: AgentLane
  sn_event_fn :: bool
  sn_events :: "AgentEvent list"

definition new_session :: "u64 \<Rightarrow> 'd SessionOptions \<Rightarrow> 'd Session" where
  "new_session now opts =
     \<lparr>sn_id = (if so_session_id opts = [] then ''sess-'' @ show_nat (unat now) else so_session_id opts),
      sn_workspace = so_workspace opts, sn_cfg = so_config opts, sn_model = so_model opts,
      sn_provider_id = so_provider_id opts, sn_api_key = so_api_key opts, sn_store = so_store opts,
      sn_messages = [], sn_tokens_used = 0, sn_msg_seq = 0, sn_provider = None, sn_request_id = [],
      sn_req_seq = 0, sn_state = idle, sn_lane = lane_none, sn_event_fn = False, sn_events = []\<rparr>"

section \<open>Budget\<close>

definition budget_cap :: "'d Session \<Rightarrow> u64" where
  "budget_cap s = (case find (\<lambda>a. ag_max_tokens a \<noteq> 0) (agents (sn_cfg s)) of
     Some a \<Rightarrow> ucast (ag_max_tokens a) | None \<Rightarrow> ucast (max_tokens_per_task (sn_cfg s)))"

definition budget_remaining :: "'d Session \<Rightarrow> u64" where
  "budget_remaining s = (let cap = budget_cap s in if cap \<le> sn_tokens_used s then 0 else cap - sn_tokens_used s)"

definition budget_exhausted :: "'d Session \<Rightarrow> bool" where
  "budget_exhausted s \<longleftrightarrow> budget_remaining s = 0"

definition account_tokens :: "u64 \<Rightarrow> 'd Session \<Rightarrow> 'd Session" where
  "account_tokens n s = s\<lparr>sn_tokens_used := sn_tokens_used s + n\<rparr>"

section \<open>History\<close>

definition next_msg_id :: "'d Session \<Rightarrow> string \<times> 'd Session" where
  "next_msg_id s = (let n = sn_msg_seq s + 1 in (''m'' @ show_nat (unat n), s\<lparr>sn_msg_seq := n\<rparr>))"

text \<open>\<open>messages_.push_back(m); if (store_ != nullptr) store_->message_save(m);\<close>\<close>

definition push_message :: "Message \<Rightarrow> 'd Session \<Rightarrow> 'd Session" where
  "push_message m s = s\<lparr>sn_messages := sn_messages s @ [m],
     sn_store := map_option (\<lambda>st. snd (message_save m st)) (sn_store s)\<rparr>"

definition append_user :: "u64 \<Rightarrow> string \<Rightarrow> 'd Session \<Rightarrow> string \<times> 'd Session" where
  "append_user now content s =
     (let (i, s1) = next_msg_id s;
          m = \<lparr>msg_id = i, session_id = sn_id s, msg_role = role_user, msg_model = [], parts = [Text content], created_at = now\<rparr>
      in (i, push_message m s1))"

definition append_assistant :: "u64 \<Rightarrow> string \<Rightarrow> Part list \<Rightarrow> FinishReason \<Rightarrow> Usage \<Rightarrow> 'd Session \<Rightarrow> string \<times> 'd Session" where
  "append_assistant now content calls finish usage s =
     (let (i, s1) = next_msg_id s;
          ps = (if content \<noteq> [] then [Text content] else []) @ calls
             @ (if finish \<noteq> finish_unknown then [Finish finish] else []);
          m = \<lparr>msg_id = i, session_id = sn_id s, msg_role = role_assistant,
                msg_model = ms_api_model_name (sn_model s), parts = ps, created_at = now\<rparr>;
          s2 = push_message m s1
      in (i, if input_tokens usage \<noteq> 0 \<or> output_tokens usage \<noteq> 0
             then account_tokens (input_tokens usage + output_tokens usage) s2 else s2))"

definition append_tool_result :: "u64 \<Rightarrow> string \<Rightarrow> string \<Rightarrow> bool \<Rightarrow> 'd Session \<Rightarrow> 'd Session" where
  "append_tool_result now call_id content is_error s =
     (let (i, s1) = next_msg_id s;
          m = \<lparr>msg_id = i, session_id = sn_id s, msg_role = role_user, msg_model = [],
                parts = [ToolResult call_id content is_error], created_at = now\<rparr>
      in push_message m s1)"

section \<open>Requests and provider\<close>

definition begin_request :: "'d Session \<Rightarrow> string \<times> 'd Session" where
  "begin_request s =
     (let n = sn_req_seq s + 1; r = sn_id s @ ''-req'' @ show_nat (unat n)
      in (r, s\<lparr>sn_req_seq := n, sn_request_id := r\<rparr>))"

definition ensure_provider :: "'d Session \<Rightarrow> error_code \<times> 'd Session" where
  "ensure_provider s =
     (if sn_provider s \<noteq> None then (ok, s)
      else let pc = \<lparr>pc_id = sn_provider_id s, pc_api_key = sn_api_key s, pc_base_url = ms_base_url (sn_model s),
                      pc_path = [], pc_default_max_tokens = ms_default_max_tokens (sn_model s)\<rparr>
           in if pc_id pc = [] then (make_error e_invalid_cfg, s)
              else case make_provider pc (sn_provider s) of (ec, p) \<Rightarrow> (ec, s\<lparr>sn_provider := p\<rparr>))"

section \<open>State machine and events\<close>

definition set_state :: "AgentState \<Rightarrow> 'd Session \<Rightarrow> 'd Session" where
  "set_state to s = (if \<not> valid_transition (sn_state s) to then s else s\<lparr>sn_state := to\<rparr>)"

definition transition :: "AgentState \<Rightarrow> AgentState \<Rightarrow> 'd Session \<Rightarrow> bool \<times> 'd Session" where
  "transition from to s =
     (if sn_state s \<noteq> from then (False, s) else let s' = set_state to s in (sn_state s' = to, s'))"

definition set_lane :: "AgentLane \<Rightarrow> 'd Session \<Rightarrow> 'd Session" where
  "set_lane l s = (if \<not> lane_allowed (sn_state s) l then s else s\<lparr>sn_lane := l\<rparr>)"

definition emit :: "string \<Rightarrow> string \<Rightarrow> int \<Rightarrow> 'd Session \<Rightarrow> 'd Session" where
  "emit phase detail status s =
     (if \<not> sn_event_fn s then s
      else s\<lparr>sn_events := sn_events s @ [\<lparr>ev_state = sn_state s, ev_lane = sn_lane s, ev_phase = phase,
               ev_detail = detail, ev_tokens_used = sn_tokens_used s, ev_status = status\<rparr>]\<rparr>)"

definition emit_in :: "AgentState \<Rightarrow> string \<Rightarrow> string \<Rightarrow> int \<Rightarrow> 'd Session \<Rightarrow> 'd Session" where
  "emit_in st phase detail status s =
     emit phase detail status (if valid_transition (sn_state s) st then s\<lparr>sn_state := st\<rparr> else s)"

definition set_event_fn :: "bool \<Rightarrow> 'd Session \<Rightarrow> 'd Session" where
  "set_event_fn b s = s\<lparr>sn_event_fn := b\<rparr>"

section \<open>Persistence\<close>

definition persist :: "'d Session \<Rightarrow> string \<times> 'd Session" where
  "persist s = (case sn_store s of
     None \<Rightarrow> ([], s)
   | Some st \<Rightarrow>
       (let entry = \<lparr>ss_id = sn_id s, ss_title = (case sn_messages s of [] \<Rightarrow> [] | m # _ \<Rightarrow> content_text m),
                    ss_created_at = 0, ss_updated_at = 0\<rparr>;
            (saved, st1) = session_save entry st
        in if ss_id saved = [] then ([], s\<lparr>sn_store := Some st1\<rparr>)
           else (ss_id saved, s\<lparr>sn_store := Some (fold (\<lambda>m st'. snd (message_save m st')) (sn_messages s) st1)\<rparr>)))"

section \<open>Options from a configuration\<close>

definition pick_agent :: "'d Config \<Rightarrow> string \<Rightarrow> AgentCfg option" where
  "pick_agent cfg agent_id = (case find (\<lambda>a. ag_id a = agent_id) (agents cfg) of
     Some a \<Rightarrow> Some a
   | None \<Rightarrow> (case agents cfg of [] \<Rightarrow> None | a # _ \<Rightarrow> Some a))"

text \<open>The model of the agent: from the catalog, else through the first \<open>openai_compat\<close> provider.\<close>

definition session_model :: "'d Config \<Rightarrow> string \<Rightarrow> error_code + ModelSpec" where
  "session_model cfg model_id = (case resolve_model model_id empty_spec None of (ec, model, _) \<Rightarrow>
     if is_ok ec then Inr model
     else (case find (\<lambda>p. prov_id p = ''openai_compat'') (providers cfg) of
       None \<Rightarrow> Inl ec
     | Some pcompat \<Rightarrow>
         if prov_base_url pcompat = [] then Inl ec
         else Inr (model\<lparr>ms_api_family := ''openai'', ms_provider := ''openai_compat'',
                ms_api_model_name := model_id, ms_base_url := prov_base_url pcompat\<rparr>)))"

definition session_options_from_config :: "'d Config \<Rightarrow> string \<Rightarrow> string \<Rightarrow> 'd SessionOptions \<Rightarrow> error_code \<times> 'd SessionOptions" where
  "session_options_from_config cfg agent_id workspace out = (case providers cfg of
     [] \<Rightarrow> (make_error e_invalid_cfg, out)
   | first # _ \<Rightarrow>
       (let model_id = (case pick_agent cfg agent_id of Some a \<Rightarrow> ag_model a | None \<Rightarrow> []) in
        if model_id = [] then (make_error e_invalid_cfg, out)
        else case session_model cfg model_id of
          Inl ec \<Rightarrow> (ec, out)
        | Inr model \<Rightarrow>
            (let (pc, model') = (case find (\<lambda>p. prov_id p = ms_provider model) (providers cfg) of
                    None \<Rightarrow> (first, if ms_base_url model \<noteq> [] \<and> prov_base_url first \<noteq> []
                                     then model\<lparr>ms_base_url := prov_base_url first\<rparr> else model)
                  | Some p \<Rightarrow> (p, if prov_base_url p \<noteq> [] then model\<lparr>ms_base_url := prov_base_url p\<rparr> else model))
             in (ok, \<lparr>so_workspace = workspace, so_session_id = [], so_config = cfg, so_model = model',
                      so_provider_id = prov_id pc, so_api_key = prov_api_key pc, so_store = None\<rparr>))))"

section \<open>Runs of a session\<close>

datatype session_op =
    AppendUser u64 string
  | AppendAssistant u64 string "Part list" FinishReason Usage
  | AppendToolResult u64 string string bool
  | AccountTokens u64
  | BeginRequest
  | EnsureProvider
  | SetState AgentState
  | Transition AgentState AgentState
  | SetLane AgentLane
  | Emit string string int
  | EmitIn AgentState string string int
  | SetEventFn bool
  | Persist

fun exec_sop :: "session_op \<Rightarrow> 'd Session \<Rightarrow> 'd Session" where
  "exec_sop (AppendUser now t) s = snd (append_user now t s)"
| "exec_sop (AppendAssistant now t cs f u) s = snd (append_assistant now t cs f u s)"
| "exec_sop (AppendToolResult now i c e) s = append_tool_result now i c e s"
| "exec_sop (AccountTokens n) s = account_tokens n s"
| "exec_sop BeginRequest s = snd (begin_request s)"
| "exec_sop EnsureProvider s = snd (ensure_provider s)"
| "exec_sop (SetState t) s = set_state t s"
| "exec_sop (Transition a b) s = snd (transition a b s)"
| "exec_sop (SetLane l) s = set_lane l s"
| "exec_sop (Emit p d st) s = emit p d st s"
| "exec_sop (EmitIn a p d st) s = emit_in a p d st s"
| "exec_sop (SetEventFn b) s = set_event_fn b s"
| "exec_sop Persist s = snd (persist s)"

text \<open>The distinct states a run passes through, latest first.\<close>

fun state_trace :: "session_op list \<Rightarrow> 'd Session \<Rightarrow> AgentState list \<Rightarrow> AgentState list" where
  "state_trace [] s tr = tr"
| "state_trace (x # xs) s tr =
     (let s' = exec_sop x s in state_trace xs s' (if sn_state s' = sn_state s then tr else sn_state s' # tr))"

section \<open>Phases of a task\<close>

lemma push_message_simps [simp]:
  "sn_state (push_message m s) = sn_state s" "sn_events (push_message m s) = sn_events s"
  "sn_cfg (push_message m s) = sn_cfg s" "sn_tokens_used (push_message m s) = sn_tokens_used s"
  "sn_id (push_message m s) = sn_id s" "sn_msg_seq (push_message m s) = sn_msg_seq s"
  "sn_messages (push_message m s) = sn_messages s @ [m]"
  "sn_store (push_message m s) = map_option (\<lambda>st. snd (message_save m st)) (sn_store s)"
  by (simp_all add: push_message_def)

lemmas session_ops = append_user_def append_assistant_def append_tool_result_def account_tokens_def begin_request_def
  ensure_provider_def set_state_def transition_def set_lane_def emit_def emit_in_def set_event_fn_def persist_def
  next_msg_id_def

text \<open>Fields that only some operations write.\<close>

lemma exec_cfg [simp]: "sn_cfg (exec_sop x s) = sn_cfg s"
  by (cases x) (auto simp: session_ops Let_def split: prod.splits option.splits)

lemma exec_id [simp]: "sn_id (exec_sop x s) = sn_id s"
  by (cases x) (auto simp: session_ops Let_def split: prod.splits option.splits)

lemma exec_state:
  "sn_state (exec_sop x s) = sn_state s \<or> valid_transition (sn_state s) (sn_state (exec_sop x s))"
  by (cases x) (auto simp: session_ops Let_def split: prod.splits option.splits)

lemma exec_events:
  "set (map ev_state (sn_events (exec_sop x s))) \<subseteq> insert (sn_state (exec_sop x s)) (set (map ev_state (sn_events s)))"
  by (cases x) (auto simp: session_ops Let_def split: prod.splits option.splits)

lemma trace_path:
  assumes "task_path tr" "hd tr = sn_state s" "set (map ev_state (sn_events s)) \<subseteq> set tr"
  shows "task_path (state_trace ops s tr) \<and> hd (state_trace ops s tr) = sn_state (fold exec_sop ops s) \<and>
    set (map ev_state (sn_events (fold exec_sop ops s))) \<subseteq> set (state_trace ops s tr)"
  using assms
proof (induction ops arbitrary: s tr)
  case (Cons x xs)
  define s' where "s' = exec_sop x s"
  define tr' where "tr' = (if sn_state s' = sn_state s then tr else sn_state s' # tr)"
  obtain p where p: "tr = sn_state s # p"
    using Cons.prems(1,2) task_path_nonempty by (metis list.collapse)
  have "task_path tr'" using Cons.prems(1) exec_state [of x s] p by (auto simp: tr'_def s'_def intro: task_path.move)
  moreover have hd': "hd tr' = sn_state s'" using Cons.prems(2) by (simp add: tr'_def)
  moreover have "set (map ev_state (sn_events s')) \<subseteq> set tr'"
  proof -
    have "set tr \<subseteq> set tr'" "sn_state s' \<in> set tr'" using p by (auto simp: tr'_def)
    then show ?thesis using exec_events [of x s] Cons.prems(3) unfolding s'_def by blast
  qed
  ultimately have "task_path (state_trace xs s' tr') \<and> hd (state_trace xs s' tr') = sn_state (fold exec_sop xs s') \<and>
      set (map ev_state (sn_events (fold exec_sop xs s'))) \<subseteq> set (state_trace xs s' tr')" by (rule Cons.IH)
  then show ?case unfolding state_trace.simps Let_def s'_def [symmetric] tr'_def [symmetric] by (simp add: s'_def)
qed simp

text \<open>
  C23: over any sequence of session operations, the states a session passes through obey the machine: whatever
  state it is in, the phases that state presupposes were passed since the session was last idle. So a
  session is applying edits only after it prepared, connected and verified them in the same task, and every
  event the host receives names a state the session really was in.
\<close>

theorem session_phases:
  "let s0 = set_event_fn b (new_session now opts); s = fold exec_sop ops s0; tr = state_trace ops s0 [idle] in
   hd tr = sn_state s \<and> required (sn_state s) \<subseteq> set (since_idle tr) \<and> set (map ev_state (sn_events s)) \<subseteq> set tr"
proof -
  let ?s0 = "set_event_fn b (new_session now opts)"
  have "task_path [idle]" "hd [idle] = sn_state ?s0" "set (map ev_state (sn_events ?s0)) \<subseteq> set [idle]"
    by (auto simp: set_event_fn_def new_session_def intro: task_path.start)
  from trace_path [OF this, of ops] path_required show ?thesis by (metis (no_types, lifting))
qed

text \<open>
  A finished task cannot be followed by another: \<open>done\<close> has no successor, although the header of the
  state machine says that a terminal task returns to idle. A lane survives the end of its task as well.
\<close>

lemma done_stuck: "sn_state s = done_state \<Longrightarrow> sn_state (fold exec_sop ops s) = done_state"
proof (induction ops arbitrary: s)
  case (Cons x xs)
  then show ?case using exec_state [of x s] done_is_final by (metis fold_simps(2))
qed simp

lemma stale_lane: "sn_state s = streaming \<Longrightarrow> sn_lane (set_state done_state (set_lane lane_backoff s)) = lane_backoff"
  by (simp add: set_state_def set_lane_def lane_allowed_def)

section \<open>History and store agree\<close>

definition mid :: "nat \<Rightarrow> string" where
  "mid i = ''m'' @ show_nat i"

definition history_inv :: "'d Session \<Rightarrow> bool" where
  "history_inv s \<longleftrightarrow> sn_id s \<noteq> [] \<and> length (sn_messages s) = unat (sn_msg_seq s) \<and>
     map msg_id (sn_messages s) = map mid [1..<Suc (unat (sn_msg_seq s))] \<and>
     session_id ` set (sn_messages s) \<subseteq> {sn_id s} \<and>
     (case sn_store s of None \<Rightarrow> True | Some st \<Rightarrow> messages_by_session (sn_id s) st = sn_messages s)"

lemma mid_neq_Nil [simp]: "mid i \<noteq> []"
  by (simp add: mid_def)

lemma mid_inj [simp]: "mid i = mid j \<longleftrightarrow> i = j"
  by (simp add: mid_def)

lemma message_save_named:
  "msg_id m \<noteq> [] \<Longrightarrow> messages_by_session (session_id m) (snd (message_save m st)) = messages_by_session (session_id m) st @ [m]"
  by (cases m) (simp add: message_save_def Let_def messages_by_session_def)

lemma history_push:
  assumes "history_inv s" "unat (sn_msg_seq s) < u64_max" "msg_id m = mid (unat (sn_msg_seq s + 1))" "session_id m = sn_id s"
  shows "history_inv (push_message m (s\<lparr>sn_msg_seq := sn_msg_seq s + 1\<rparr>))"
proof -
  have n: "unat (sn_msg_seq s + 1) = Suc (unat (sn_msg_seq s))"
    using assms(2) by (simp add: unat_word_ariths)
  have "messages_by_session (sn_id s) (snd (message_save m st)) = messages_by_session (sn_id s) st @ [m]" for st
    using message_save_named [of m st] assms(3,4) by simp
  then show ?thesis using assms n
    by (auto simp: history_inv_def split: option.splits)
qed

text \<open>The operations that append a message, and those that touch neither history nor store.\<close>

fun appends :: "session_op \<Rightarrow> bool" where
  "appends (AppendUser _ _) = True"
| "appends (AppendAssistant _ _ _ _ _) = True"
| "appends (AppendToolResult _ _ _ _) = True"
| "appends _ = False"

lemma exec_quiet:
  "\<not> appends x \<Longrightarrow> x \<noteq> Persist \<Longrightarrow> sn_messages (exec_sop x s) = sn_messages s \<and> sn_msg_seq (exec_sop x s) = sn_msg_seq s \<and>
   sn_store (exec_sop x s) = sn_store s"
  by (cases x) (auto simp: session_ops Let_def split: prod.splits)

lemma exec_append:
  fixes s :: "'d Session"
  assumes "appends x"
  defines "m \<equiv> last (sn_messages (exec_sop x s))"
  shows "msg_id m = mid (unat (sn_msg_seq s + 1))" "session_id m = sn_id s"
    "sn_messages (exec_sop x s) = sn_messages s @ [m]" "sn_msg_seq (exec_sop x s) = sn_msg_seq s + 1"
    "sn_store (exec_sop x s) = map_option (\<lambda>st. snd (message_save m st)) (sn_store s)"
  using assms by (cases x; auto simp: session_ops Let_def mid_def)+

lemma history_exec:
  assumes "history_inv s" "unat (sn_msg_seq s) < u64_max" "x \<noteq> Persist"
  shows "history_inv (exec_sop x s) \<and> unat (sn_msg_seq (exec_sop x s)) \<le> Suc (unat (sn_msg_seq s))"
proof (cases "appends x")
  case True
  have n: "unat (sn_msg_seq s + 1) = Suc (unat (sn_msg_seq s))" using assms(2) by (simp add: unat_word_ariths)
  define m where "m = last (sn_messages (exec_sop x s))"
  note m = exec_append [OF True, of s, folded m_def]
  have "history_inv (push_message m (s\<lparr>sn_msg_seq := sn_msg_seq s + 1\<rparr>))"
    by (rule history_push [OF assms(1,2) m(1,2)])
  then show ?thesis using m n by (auto simp: history_inv_def split: option.splits)
next
  case False
  then show ?thesis using assms exec_quiet [OF False, of s] by (auto simp: history_inv_def split: option.splits)
qed

lemma history_run:
  "history_inv s \<Longrightarrow> unat (sn_msg_seq s) + length ops \<le> u64_max \<Longrightarrow> Persist \<notin> set ops \<Longrightarrow> history_inv (fold exec_sop ops s)"
proof (induction ops arbitrary: s)
  case (Cons x xs)
  then have "history_inv (exec_sop x s) \<and> unat (sn_msg_seq (exec_sop x s)) \<le> Suc (unat (sn_msg_seq s))"
    by (intro history_exec) auto
  then show ?case using Cons.IH [of "exec_sop x s"] Cons.prems by simp
qed simp


definition sample_options :: "int SessionOptions" where
  "sample_options = \<lparr>so_workspace = ''/w'', so_session_id = ''s1'', so_config = default_config int_dbl, so_model = empty_spec,
     so_provider_id = ''openai'', so_api_key = ''k'', so_store = Some create_mem_store\<rparr>"


text \<open>
  \<open>persist\<close> saves every message once more although each was saved when it was appended, so with the in-memory
  store the history of the session doubles.
\<close>

lemma persist_doubles:
  assumes "history_inv s" "sn_store s = Some st" "persist s = (r, s')" "sn_store s' = Some st'"
  shows "messages_by_session (sn_id s) st' = sn_messages s @ sn_messages s"
proof -
  have saves: "messages_by_session i (fold (\<lambda>m st'. snd (message_save m st')) ms st0) = messages_by_session i st0 @ ms"
    if "session_id ` set ms \<subseteq> {i}" "[] \<notin> msg_id ` set ms" for ms st0 i
    using that
  proof (induction ms arbitrary: st0)
    case (Cons m ms)
    have "messages_by_session i (snd (message_save m st0)) = messages_by_session i st0 @ [m]"
      using message_save_named [of m st0] Cons.prems by auto
    then show ?case using Cons by auto
  qed simp
  have ids: "[] \<notin> msg_id ` set (sn_messages s)"
  proof
    assume "[] \<in> msg_id ` set (sn_messages s)"
    then have "[] \<in> set (map mid [1..<Suc (unat (sn_msg_seq s))])"
      using assms(1) unfolding history_inv_def by (metis image_set)
    then show False by (auto simp: mid_def)
  qed
  have ss: "messages_by_session i (notify e (st\<lparr>sessions := x\<rparr>)) = messages_by_session i st" for i e x
    by (simp add: messages_by_session_def)
  show ?thesis using assms ids saves [of "sn_messages s" "sn_id s"] ss
    by (auto simp: persist_def Let_def history_inv_def session_save_def split: prod.splits if_splits)
qed

section \<open>Budget\<close>

fun op_tokens :: "session_op \<Rightarrow> u64" where
  "op_tokens (AccountTokens n) = n"
| "op_tokens (AppendAssistant _ _ _ _ u) = input_tokens u + output_tokens u"
| "op_tokens _ = 0"

lemma exec_tokens: "sn_tokens_used (exec_sop x s) = sn_tokens_used s + op_tokens x"
  by (cases x) (auto simp: session_ops Let_def split: prod.splits option.splits)

lemma run_tokens: "sn_tokens_used (fold exec_sop ops s) = sn_tokens_used s + sum_list (map op_tokens ops)"
  by (induction ops arbitrary: s) (simp_all add: exec_tokens add.assoc)

lemma run_cfg: "sn_cfg (fold exec_sop ops s) = sn_cfg s"
  by (induction ops arbitrary: s) simp_all

lemma sum_list_unat:
  "sum_list (map unat ws) \<le> u64_max \<Longrightarrow> unat (sum_list ws :: u64) = sum_list (map unat ws)"
proof (induction ws)
  case (Cons w ws)
  then show ?case by (simp add: unat_word_ariths)
qed simp

text \<open>
  As long as the tokens a run accounts sum to less than two to the 64, the remaining budget is the cap
  minus that sum, cut off at zero, and the session reports exhaustion exactly when the sum has reached
  the cap; so an exhausted budget stays exhausted.
\<close>

theorem session_budget:
  assumes "sum_list (map (unat \<circ> op_tokens) ops) \<le> u64_max"
  shows "let s = fold exec_sop ops (new_session now opts); spent = sum_list (map (unat \<circ> op_tokens) ops) in
    unat (budget_remaining s) = unat (budget_cap s) - spent \<and> (budget_exhausted s \<longleftrightarrow> unat (budget_cap s) \<le> spent)"
proof -
  let ?s = "fold exec_sop ops (new_session now opts)"
  have "sn_tokens_used ?s = sum_list (map op_tokens ops)"
    using run_tokens [of ops "new_session now opts"] by (simp add: new_session_def)
  then have u: "unat (sn_tokens_used ?s) = sum_list (map (unat \<circ> op_tokens) ops)"
    using sum_list_unat [of "map op_tokens ops"] assms by simp
  have r: "unat (budget_remaining ?s) = unat (budget_cap ?s) - unat (sn_tokens_used ?s)"
    by (auto simp: budget_remaining_def Let_def word_le_nat_alt unat_sub)
  have "budget_exhausted ?s \<longleftrightarrow> unat (budget_remaining ?s) = 0"
    by (simp add: budget_exhausted_def unat_eq_zero)
  then show ?thesis using r u by (simp add: Let_def)
qed

theorem session_budget_witness:
  "let s = fold exec_sop [AccountTokens 11999, AccountTokens 2] (new_session 5 sample_options);
       spent = sum_list (map (unat \<circ> op_tokens) [AccountTokens 11999, AccountTokens 2]) in
    unat (budget_remaining s) = unat (budget_cap s) - spent \<and> (budget_exhausted s \<longleftrightarrow> unat (budget_cap s) \<le> spent)"
  by (rule session_budget) simp

text \<open>
  The cap is that of the first agent of the configuration that sets one, whichever agent the session runs.
\<close>

lemma cap_of_other_agent:
  assumes "agents cfg = [\<lparr>ag_id = ''a'', ag_model = ''gpt-5'', ag_max_tokens = 100\<rparr>,
      \<lparr>ag_id = ''b'', ag_model = ''gpt-5'', ag_max_tokens = 9000\<rparr>]"
    "providers cfg = [\<lparr>prov_id = ''openai'', prov_api_key = key, prov_base_url = [], prov_default_model = []\<rparr>]"
  shows "budget_cap (new_session now (snd (session_options_from_config cfg ''b'' ws out))) = 100"
  using assms
  by (simp add: session_options_from_config_def pick_agent_def session_model_def resolve_model_def find_model_def
      canonical_id_def kModels_def find_provider_def kProviders_def Let_def new_session_def budget_cap_def)

section \<open>Options\<close>

lemma session_model_error: "session_model cfg m = Inl ec \<Longrightarrow> ec = make_error e_model_unsup"
  by (auto simp: session_model_def resolve_model_def Let_def split: option.splits if_splits)

text \<open>
  Building session options either fails with \<open>invalid_config\<close> or \<open>model_unsupported\<close> and leaves the options
  alone, or binds provider id and API key from one and the same entry of the configuration: an entry of the
  model's own provider whenever there is one, the first entry otherwise.
\<close>

theorem options_from_config:
  "case session_options_from_config cfg agent_id ws out of (ec, opts) \<Rightarrow>
     (ec \<in> {make_error e_invalid_cfg, make_error e_model_unsup} \<and> opts = out) \<or>
     (ec = ok \<and> so_config opts = cfg \<and> so_workspace opts = ws \<and>
      (\<exists>p \<in> set (providers cfg). so_provider_id opts = prov_id p \<and> so_api_key opts = prov_api_key p \<and>
         (if ms_provider (so_model opts) \<in> prov_id ` set (providers cfg) then prov_id p = ms_provider (so_model opts)
          else p = hd (providers cfg))))"
proof (cases "providers cfg")
  case Nil
  then show ?thesis by (simp add: session_options_from_config_def)
next
  case (Cons first rest)
  define model_id where "model_id = (case pick_agent cfg agent_id of Some a \<Rightarrow> ag_model a | None \<Rightarrow> [])"
  note unfolds = session_options_from_config_def model_id_def [symmetric] Let_def
  show ?thesis
  proof (cases "model_id = []")
    case True
    then show ?thesis using Cons by (simp add: unfolds)
  next
    case named: False
    show ?thesis
    proof (cases "session_model cfg model_id")
      case (Inl ec)
      then show ?thesis using Cons named session_model_error [OF Inl] by (simp add: unfolds)
    next
      case (Inr model)
      show ?thesis
      proof (cases "find (\<lambda>p. prov_id p = ms_provider model) (providers cfg)")
        case None
        then have p: "ms_provider model \<notin> prov_id ` set (providers cfg)" by (auto simp: find_None_iff)
        obtain opts where r: "session_options_from_config cfg agent_id ws out = (ok, opts)"
          "so_provider_id opts = prov_id first" "so_api_key opts = prov_api_key first" "so_config opts = cfg"
          "so_workspace opts = ws" "ms_provider (so_model opts) = ms_provider model"
          using None Inr Cons named by (simp add: unfolds del: find.simps)
        have "first \<in> set (providers cfg)" "hd (providers cfg) = first" using Cons by simp_all
        then show ?thesis using r p by auto
      next
        case (Some p)
        then have p: "p \<in> set (providers cfg)" "prov_id p = ms_provider model" by (auto simp: find_Some_iff)
        obtain opts where r: "session_options_from_config cfg agent_id ws out = (ok, opts)"
          "so_provider_id opts = prov_id p" "so_api_key opts = prov_api_key p" "so_config opts = cfg" "so_workspace opts = ws"
          "ms_provider (so_model opts) = ms_provider model"
          using Some Inr Cons named by (simp add: unfolds del: find.simps)
        have "ms_provider (so_model opts) \<in> prov_id ` set (providers cfg)" using p r(6) by (metis image_eqI)
        then show ?thesis using r p unfolding r(1) prod.case by (intro disjI2 conjI bexI [of _ p]) simp_all
      qed
    qed
  qed
qed

text \<open>
  When the model's provider has no entry, the key of the first entry is bound together with the base URL of
  the catalog: a configuration with only an Anthropic key and the model gpt-4o sends that key to OpenAI.
\<close>

lemma key_for_other_host:
  assumes "providers cfg = [\<lparr>prov_id = ''anthropic'', prov_api_key = key, prov_base_url = [], prov_default_model = []\<rparr>]"
    "agents cfg = [\<lparr>ag_id = ''a'', ag_model = ''gpt-4o'', ag_max_tokens = 0\<rparr>]"
  shows "let opts = snd (session_options_from_config cfg ''a'' ws out) in
    snd (ensure_provider (new_session now opts)) =
      (new_session now opts)\<lparr>sn_provider := Some (AnthropicProvider ''https://api.openai.com/v1'' key 16384)\<rparr>"
  using assms
  by (simp add: session_options_from_config_def pick_agent_def session_model_def resolve_model_def find_model_def
      canonical_id_def kModels_def find_provider_def kProviders_def Let_def ensure_provider_def new_session_def make_provider_def)

end
