(* ===== verification/Tools.thy ===== *)
theory Tools
  imports Json Tokens
begin

text \<open>
  The tool layer without the tools: descriptions and results (\<open>src/tools/tool.h\<close>), the JSON schemas shown to
  the model (\<open>src/tools/schema.cpp\<close>), the argument reader (\<open>src/tools/exec/util.cpp\<close>), the registry
  (\<open>src/tools/registry.cpp\<close>) and the permission gate (\<open>src/tools/permission.cpp\<close>). A tool is its description
  and its effect on the world, which is a type parameter. The number type and its conversions are parameters,
  as in the JSON theory; the host's permission callback is a function.
\<close>

section \<open>Data\<close>

datatype ToolCategory = cat_read | cat_write | cat_workspace | cat_graph | cat_shell

datatype ParamType = pt_string | pt_integer | pt_number | pt_boolean | pt_string_array | pt_object

record ParamSpec =
  ps_name :: string
  ps_type :: ParamType
  ps_description :: string
  ps_required :: bool
  ps_default_json :: string
  ps_enum_values :: "string list"

record ToolSpec =
  spec_id :: string
  spec_name :: string
  spec_description :: string
  spec_params_schema :: string
  spec_is_read_only :: bool
  spec_category :: ToolCategory
  spec_params :: "ParamSpec list"

datatype ToolStatus = ts_ok | ts_error | ts_canceled

record tool_result =
  tr_tool_id :: string
  tr_status :: ToolStatus
  tr_content :: string
  tr_content_is_error :: bool
  tr_usage_estimate :: u32

definition empty_result :: tool_result where
  "empty_result = \<lparr>tr_tool_id = [], tr_status = ts_ok, tr_content = [], tr_content_is_error = False, tr_usage_estimate = 0\<rparr>"

record Invocation =
  inv_tool_name :: string
  inv_args_json :: string
  inv_span_id :: u64

record 'w Tool =
  tool_spec :: ToolSpec
  tool_run :: "Invocation \<Rightarrow> 'w \<Rightarrow> tool_result \<times> 'w"

text \<open>The two result constructors that every tool file repeats.\<close>

definition tool_err :: "string \<Rightarrow> string \<Rightarrow> tool_result" where
  "tool_err i m = \<lparr>tr_tool_id = i, tr_status = ts_error, tr_content = m, tr_content_is_error = True,
     tr_usage_estimate = of_nat (estimate_tokens m)\<rparr>"

definition tool_ok :: "string \<Rightarrow> string \<Rightarrow> tool_result" where
  "tool_ok i c = empty_result\<lparr>tr_tool_id := i, tr_content := c, tr_usage_estimate := of_nat (estimate_tokens c)\<rparr>"

lemma tool_result_status [simp]:
  "tr_status (tool_err i m) = ts_error" "tr_status (tool_ok i c) = ts_ok" "tr_status empty_result = ts_ok"
  "tr_content (tool_err i m) = m" "tr_content (tool_ok i c) = c"
  by (simp_all add: tool_err_def tool_ok_def empty_result_def)

section \<open>Schemas\<close>

fun type_name :: "ParamType \<Rightarrow> string" where
  "type_name pt_string = ''string''"
| "type_name pt_integer = ''integer''"
| "type_name pt_number = ''number''"
| "type_name pt_boolean = ''boolean''"
| "type_name pt_string_array = ''array''"
| "type_name pt_object = ''object''"

definition type_schema :: "ParamType \<Rightarrow> (string \<times> 'd jval) list" where
  "type_schema t =
     (if t = pt_string_array then
        [(''type'', JStr ''array''), (''items'', JObj [(''type'', JStr ''string'')])]
      else [(''type'', JStr (type_name t))])"

definition parse_optional :: "(string \<Rightarrow> 'd) \<Rightarrow> string \<Rightarrow> 'd jval option" where
  "parse_optional fc json =
     (if json = [] then None else case parse_json fc json of Some (Inr v) \<Rightarrow> Some v | _ \<Rightarrow> None)"

definition param_schema :: "(string \<Rightarrow> 'd) \<Rightarrow> ParamSpec \<Rightarrow> string \<times> 'd jval" where
  "param_schema fc p =
     (ps_name p, JObj (type_schema (ps_type p)
        @ (if ps_description p \<noteq> [] then [(''description'', JStr (ps_description p))] else [])
        @ (case parse_optional fc (ps_default_json p) of Some dv \<Rightarrow> [(''default'', dv)] | None \<Rightarrow> [])
        @ (if ps_enum_values p \<noteq> [] then [(''enum'', JArr (map JStr (ps_enum_values p)))] else [])))"

definition params_root :: "(string \<Rightarrow> 'd) \<Rightarrow> ParamSpec list \<Rightarrow> 'd jval" where
  "params_root fc params =
     (let props = map (param_schema fc) params;
          any_optional = list_ex (\<lambda>p. \<not> ps_required p) params;
          req = map (\<lambda>p. JStr (ps_name p)) (filter ps_required params)
      in JObj ([(''type'', JStr ''object'')]
           @ (if props \<noteq> [] then [(''properties'', JObj props)] else [])
           @ (if any_optional \<and> req \<noteq> [] then [(''required'', JArr req)] else [])))"

definition params_schema :: "(string \<Rightarrow> 'd) \<Rightarrow> ('d \<Rightarrow> string) \<Rightarrow> ParamSpec list \<Rightarrow> string" where
  "params_schema fc pr params = to_json pr (params_root fc params)"

definition make_spec :: "(string \<Rightarrow> 'd) \<Rightarrow> ('d \<Rightarrow> string) \<Rightarrow> string \<Rightarrow> string \<Rightarrow> ParamSpec list \<Rightarrow> bool \<Rightarrow> ToolCategory \<Rightarrow> ToolSpec" where
  "make_spec fc pr i description params is_read_only cat =
     \<lparr>spec_id = i, spec_name = i, spec_description = description, spec_params_schema = params_schema fc pr params,
      spec_is_read_only = is_read_only, spec_category = cat, spec_params = params\<rparr>"

definition schema_object :: "(string \<Rightarrow> 'd) \<Rightarrow> string \<Rightarrow> 'd jval" where
  "schema_object fc s = (case parse_optional fc s of Some (JObj kvs) \<Rightarrow> JObj kvs | _ \<Rightarrow> JObj [])"

definition tools_json :: "(string \<Rightarrow> 'd) \<Rightarrow> ('d \<Rightarrow> string) \<Rightarrow> ToolSpec list \<Rightarrow> string \<Rightarrow> string" where
  "tools_json fc pr tools wire_family = to_json pr
     (if wire_family = ''anthropic'' then
        JArr (map (\<lambda>t. JObj [(''name'', JStr (spec_name t)), (''description'', JStr (spec_description t)),
                              (''input_schema'', schema_object fc (spec_params_schema t))]) tools)
      else if wire_family = ''google'' then
        JArr [JObj [(''functionDeclarations'',
          JArr (map (\<lambda>t. JObj [(''name'', JStr (spec_name t)), (''description'', JStr (spec_description t)),
                                (''parameters'', schema_object fc (spec_params_schema t))]) tools))]]
      else
        JArr (map (\<lambda>t. JObj [(''type'', JStr ''function''), (''function'',
          JObj [(''name'', JStr (spec_name t)), (''description'', JStr (spec_description t)),
                (''parameters'', schema_object fc (spec_params_schema t))])]) tools))"

text \<open>
  The list of required parameters is left out when every parameter is required, so a schema of required
  parameters only reads as one of optional parameters.
\<close>

lemma required_omitted:
  "list_all ps_required params \<Longrightarrow> jfind ''required'' (params_root fc params) = None"
  by (auto simp: params_root_def jfind_def Let_def list_all_iff list_ex_iff)

section \<open>Arguments\<close>

definition arg_root :: "(string \<Rightarrow> 'd) \<Rightarrow> string \<Rightarrow> 'd jval option" where
  "arg_root fc args_json =
     (if args_json = [] then Some (JObj [])
      else case parse_json fc args_json of Some (Inr v) \<Rightarrow> Some v | _ \<Rightarrow> None)"

definition arg_string :: "'d jval \<Rightarrow> string \<Rightarrow> string option" where
  "arg_string root key = (case jfind key root of Some (JStr s) \<Rightarrow> Some s | _ \<Rightarrow> None)"

definition arg_int :: "('d \<Rightarrow> int) \<Rightarrow> 'd jval \<Rightarrow> string \<Rightarrow> int option" where
  "arg_int to_int root key = (case jfind key root of Some (JNum d) \<Rightarrow> Some (to_int d) | _ \<Rightarrow> None)"

definition arg_bool :: "'d jval \<Rightarrow> string \<Rightarrow> bool \<Rightarrow> bool" where
  "arg_bool root key dflt = (case jfind key root of Some (JBool b) \<Rightarrow> b | _ \<Rightarrow> dflt)"

definition arg_strings :: "'d jval \<Rightarrow> string \<Rightarrow> string list option" where
  "arg_strings root key = (case jfind key root of
     Some (JArr items) \<Rightarrow>
       (if list_all (\<lambda>v. case v of JStr _ \<Rightarrow> True | _ \<Rightarrow> False) items
        then Some (map (\<lambda>v. case v of JStr s \<Rightarrow> s | _ \<Rightarrow> []) items) else None)
   | _ \<Rightarrow> None)"

section \<open>Registry\<close>

definition reg_add :: "'w Tool \<Rightarrow> 'w Tool list \<Rightarrow> error_code \<times> 'w Tool list" where
  "reg_add tool reg = (case find (\<lambda>t. spec_name (tool_spec t) = spec_name (tool_spec tool)) reg of
     Some t \<Rightarrow> (make_error_code e_invalid_cfg (of_nat (length (spec_name (tool_spec t)))), reg)
   | None \<Rightarrow> (ok, reg @ [tool]))"

definition reg_find :: "'w Tool list \<Rightarrow> string \<Rightarrow> 'w Tool option" where
  "reg_find reg name = find (\<lambda>t. spec_name (tool_spec t) = name) reg"

definition reg_specs :: "'w Tool list \<Rightarrow> ToolSpec list" where
  "reg_specs reg = map tool_spec reg"

definition unknown_tool :: "string \<Rightarrow> tool_result" where
  "unknown_tool name = empty_result\<lparr>tr_tool_id := name, tr_status := ts_error,
     tr_content := ''unknown tool: '' @ name, tr_content_is_error := True\<rparr>"

definition reg_run :: "'w Tool list \<Rightarrow> string \<Rightarrow> Invocation \<Rightarrow> 'w \<Rightarrow> tool_result \<times> 'w" where
  "reg_run reg name call w = (case find (\<lambda>t. spec_name (tool_spec t) = name) reg of
     None \<Rightarrow> (unknown_tool name, w)
   | Some tool \<Rightarrow> tool_run tool call w)"

fun reg_add_all :: "'w Tool list \<Rightarrow> 'w Tool list \<Rightarrow> error_code \<times> 'w Tool list" where
  "reg_add_all [] reg = (ok, reg)"
| "reg_add_all (t # ts) reg = (case reg_add t reg of (c, reg') \<Rightarrow> if \<not> is_ok c then (c, reg') else reg_add_all ts reg')"

section \<open>Permission gate\<close>

datatype Policy = policy_deny | policy_ask | policy_allow | policy_allow_readonly

record Gate =
  default_policy :: Policy
  policies :: "ToolCategory \<Rightarrow> Policy option"
  callback :: "(string \<Rightarrow> string \<Rightarrow> bool) option"

definition new_gate :: "Policy \<Rightarrow> Gate" where
  "new_gate p = \<lparr>default_policy = p, policies = Map.empty, callback = None\<rparr>"

definition set_policy :: "ToolCategory \<Rightarrow> Policy \<Rightarrow> Gate \<Rightarrow> Gate" where
  "set_policy cat p g = g\<lparr>policies := (policies g)(cat \<mapsto> p)\<rparr>"

definition set_callback :: "(string \<Rightarrow> string \<Rightarrow> bool) \<Rightarrow> Gate \<Rightarrow> Gate" where
  "set_callback cb g = g\<lparr>callback := Some cb\<rparr>"

definition policy_for :: "Gate \<Rightarrow> ToolCategory \<Rightarrow> Policy" where
  "policy_for g cat = (case policies g cat of Some p \<Rightarrow> p | None \<Rightarrow> default_policy g)"

definition denied :: "string \<Rightarrow> tool_result" where
  "denied tool_name = empty_result\<lparr>tr_tool_id := tool_name, tr_status := ts_error,
     tr_content := ''permission_denied'', tr_content_is_error := True\<rparr>"

definition gate_check :: "Gate \<Rightarrow> Invocation \<Rightarrow> ToolSpec \<Rightarrow> tool_result" where
  "gate_check g call spec = (case policy_for g (spec_category spec) of
     policy_allow \<Rightarrow> empty_result
   | policy_deny \<Rightarrow> denied (spec_name spec)
   | policy_allow_readonly \<Rightarrow> (if spec_is_read_only spec then empty_result else denied (spec_name spec))
   | policy_ask \<Rightarrow>
       (case callback g of
          Some cb \<Rightarrow> if cb (inv_tool_name call) (inv_args_json call) then empty_result else denied (spec_name spec)
        | None \<Rightarrow> denied (spec_name spec)))"

definition gate_run :: "Gate \<Rightarrow> 'w Tool list \<Rightarrow> string \<Rightarrow> Invocation \<Rightarrow> 'w \<Rightarrow> tool_result \<times> 'w" where
  "gate_run g reg name call w = (case reg_find reg name of
     None \<Rightarrow> (unknown_tool name, w)
   | Some tool \<Rightarrow>
       (let gate_result = gate_check g call (tool_spec tool)
        in if tr_status gate_result \<noteq> ts_ok then (gate_result, w) else reg_run reg name call w))"

section \<open>Guarded dispatch\<close>

text \<open>
  What the clients of the gate rely on: an invocation that is not permitted has no effect, and a permitted one is
  the tool itself. Inside the locale follows that a whole sequence of invocations acts on the world as its
  permitted subsequence.
\<close>

locale guarded_dispatch =
  fixes run :: "'i \<Rightarrow> 'w \<Rightarrow> 'r \<times> 'w"
    and permitted :: "'i \<Rightarrow> bool"
    and direct :: "'i \<Rightarrow> 'w \<Rightarrow> 'r \<times> 'w"
  assumes refused: "\<not> permitted i \<Longrightarrow> snd (run i w) = w"
    and granted: "permitted i \<Longrightarrow> run i w = direct i w"
begin

lemma run_all: "fold (\<lambda>i w. snd (run i w)) is w = fold (\<lambda>i w. snd (direct i w)) (filter permitted is) w"
  by (induction "is" arbitrary: w) (auto simp: refused granted)

lemma all_refused: "(\<And>i. i \<in> set is \<Longrightarrow> \<not> permitted i) \<Longrightarrow> fold (\<lambda>i w. snd (run i w)) is w = w"
  by (simp add: run_all)

lemma run_harmless:
  assumes "\<And>i w. permitted i \<Longrightarrow> snd (direct i w) = w"
  shows "fold (\<lambda>i w. snd (run i w)) is w = w"
  using assms by (induction "is" arbitrary: w) (metis fold_simps refused granted)+

end

definition permits :: "Gate \<Rightarrow> 'w Tool list \<Rightarrow> string \<times> Invocation \<Rightarrow> bool" where
  "permits g reg = (\<lambda>(name, call). case reg_find reg name of
     None \<Rightarrow> False
   | Some t \<Rightarrow> (case policy_for g (spec_category (tool_spec t)) of
        policy_allow \<Rightarrow> True
      | policy_deny \<Rightarrow> False
      | policy_allow_readonly \<Rightarrow> spec_is_read_only (tool_spec t)
      | policy_ask \<Rightarrow> (case callback g of Some cb \<Rightarrow> cb (inv_tool_name call) (inv_args_json call) | None \<Rightarrow> False)))"

lemma denied_status [simp]: "tr_status (denied n) = ts_error"
  by (simp add: denied_def)

lemma gate_check_ok: "tr_status (gate_check g call (tool_spec t)) = ts_ok \<longleftrightarrow>
   (case policy_for g (spec_category (tool_spec t)) of
        policy_allow \<Rightarrow> True
      | policy_deny \<Rightarrow> False
      | policy_allow_readonly \<Rightarrow> spec_is_read_only (tool_spec t)
      | policy_ask \<Rightarrow> (case callback g of Some cb \<Rightarrow> cb (inv_tool_name call) (inv_args_json call) | None \<Rightarrow> False))"
  by (auto simp: gate_check_def split: Policy.splits option.splits)

interpretation gate: guarded_dispatch
  "\<lambda>(name, call). gate_run g reg name call" "permits g reg" "\<lambda>(name, call). reg_run reg name call"
  by unfold_locales
    (auto simp: gate_run_def permits_def gate_check_ok Let_def split: option.splits prod.splits)

text \<open>
  C27: the gate is a filter. Whatever sequence of invocations the model asks for, the world ends up as if only the
  permitted ones had been dispatched, in the same order: an unknown tool, a denied category, a writing tool
  under the read-only policy and a call the host's callback refuses (or that nobody can be asked about) leave no
  trace.
\<close>

theorem gate_filters:
  "fold (\<lambda>(name, call) w. snd (gate_run g reg name call w)) calls w =
   fold (\<lambda>(name, call) w. snd (reg_run reg name call w)) (filter (permits g reg) calls) w"
  using gate.run_all [of g reg calls w] by (simp add: case_prod_unfold)

text \<open>A gate as constructed by default refuses everything.\<close>

lemma deny_gate_inert: "fold (\<lambda>(name, call) w. snd (gate_run (new_gate policy_deny) reg name call w)) calls w = w"
  using gate.all_refused [of calls "new_gate policy_deny" reg w]
  by (auto simp: permits_def policy_for_def new_gate_def case_prod_unfold split: option.splits)

section \<open>Names are unique\<close>

definition distinct_names :: "'w Tool list \<Rightarrow> bool" where
  "distinct_names reg \<longleftrightarrow> distinct (map (spec_name \<circ> tool_spec) reg)"

lemma reg_add_distinct: "distinct_names reg \<Longrightarrow> distinct_names (snd (reg_add t reg))"
  by (auto simp: distinct_names_def reg_add_def find_None_iff split: option.splits)

lemma reg_add_all_distinct: "distinct_names reg \<Longrightarrow> distinct_names (snd (reg_add_all ts reg))"
proof (induction ts arbitrary: reg)
  case (Cons t ts)
  obtain c reg' where a: "reg_add t reg = (c, reg')" by fastforce
  then have "distinct_names reg'" using reg_add_distinct [OF Cons.prems, of t] by simp
  then show ?case using Cons.IH a by simp
qed simp

lemma reg_find_distinct:
  assumes "distinct_names reg" "t \<in> set reg"
  shows "reg_find reg (spec_name (tool_spec t)) = Some t"
  using assms by (induction reg) (auto simp: reg_find_def distinct_names_def)

text \<open>
  However tools are added, every registered tool is the one its name finds: the registry never holds two
  tools of the same name, and an attempt to add one is an error that changes nothing.
\<close>

theorem registry_names:
  "let reg = snd (reg_add_all ts []) in
   (\<forall>t. t \<in> set reg \<longleftrightarrow> reg_find reg (spec_name (tool_spec t)) = Some t) \<and>
   (case reg_add t reg of (c, reg') \<Rightarrow>
      if reg_find reg (spec_name (tool_spec t)) = None then is_ok c \<and> reg_find reg' (spec_name (tool_spec t)) = Some t
      else \<not> is_ok c \<and> reg' = reg)"
proof -
  define reg where "reg = snd (reg_add_all ts [])"
  have d: "distinct_names reg" unfolding reg_def by (rule reg_add_all_distinct) (simp add: distinct_names_def)
  have "u \<in> set reg" if "reg_find reg n = Some u" for u n
    using that by (auto simp: reg_find_def find_Some_iff)
  then have "t \<in> set reg \<longleftrightarrow> reg_find reg (spec_name (tool_spec t)) = Some t" for t
    using reg_find_distinct [OF d] by blast
  moreover have "case reg_add t reg of (c, reg') \<Rightarrow>
      if reg_find reg (spec_name (tool_spec t)) = None then is_ok c \<and> reg_find reg' (spec_name (tool_spec t)) = Some t
      else \<not> is_ok c \<and> reg' = reg"
  proof (cases "reg_find reg (spec_name (tool_spec t))")
    case None
    then have "t \<in> set (reg @ [t])" "distinct_names (reg @ [t])"
      using d by (auto simp: reg_find_def find_None_iff distinct_names_def)
    then show ?thesis using None reg_find_distinct by (fastforce simp: reg_add_def reg_find_def)
  next
    case (Some u)
    then show ?thesis by (simp add: reg_add_def reg_find_def)
  qed
  ultimately show ?thesis by (simp add: reg_def [symmetric] Let_def)
qed

end
