(* ===== verification/File_Tools.thy ===== *)
theory File_Tools
  imports Tools Patch Mem_Store
begin

text \<open>
  The tools that touch files (\<open>src/tools/exec/read_only.cpp\<close>, \<open>write.cpp\<close>, \<open>shell.cpp\<close>): \<open>file.read\<close>, \<open>dir.list\<close>,
  \<open>file.search\<close>, \<open>file.write\<close>, \<open>file.patch\<close> and \<open>shell.run\<close>, each as its description and its effect on the
  workspace. What the operating system decides is the record \<open>tool_env\<close>: which calls fail, how a directory is
  listed, how a regular expression matches, what a child process does, and whether the host cancelled;
  \<open>te_partial\<close> is what a failed parse leaves in the argument object, which the git tools read without a check.
\<close>

section \<open>World and environment\<close>

record ToolProgress =
  tp_phase :: string
  tp_percent :: int

record tool_world =
  tw_files :: files
  tw_store :: "MemStore option"
  tw_progress :: "ToolProgress list"

record ProcOpts =
  po_cmd :: string
  po_working_dir :: string
  po_timeout_ms :: u32

record ProcResult =
  pr_exit_code :: int
  pr_stdout :: string
  pr_stderr :: string
  pr_timed_out :: bool

record file_stat =
  st_size :: int
  st_mtime :: int
  st_is_dir :: bool
  st_is_file :: bool
  st_mode :: int

record 'd tool_env =
  te_from_chars :: "string \<Rightarrow> 'd"
  te_print :: "'d \<Rightarrow> string"
  te_to_int :: "'d \<Rightarrow> int"
  te_of_int :: "int \<Rightarrow> 'd"
  te_partial :: "string \<Rightarrow> 'd jval"
  te_stat :: "files \<Rightarrow> string \<Rightarrow> file_stat option"
  te_os :: os_env
  te_walk :: "files \<Rightarrow> string \<Rightarrow> bool \<Rightarrow> (string \<times> bool) list option"
  te_regex :: "string \<Rightarrow> (string \<Rightarrow> bool) option"
  te_process :: "ProcOpts \<Rightarrow> files \<Rightarrow> (error_code + ProcResult) \<times> files"
  te_cancelled :: bool

definition param :: "string \<Rightarrow> ParamType \<Rightarrow> string \<Rightarrow> bool \<Rightarrow> ParamSpec" where
  "param n t d req = \<lparr>ps_name = n, ps_type = t, ps_description = d, ps_required = req, ps_default_json = [], ps_enum_values = []\<rparr>"

definition or_default :: "'a \<Rightarrow> 'a option \<Rightarrow> 'a" where
  "or_default d x = (case x of Some y \<Rightarrow> y | None \<Rightarrow> d)"

section \<open>file.read\<close>

definition file_read_spec :: "'d tool_env \<Rightarrow> ToolSpec" where
  "file_read_spec E = make_spec (te_from_chars E) (te_print E) ''file.read'' ''Read a text file (optionally a byte range)''
     [param ''path'' pt_string ''path relative to the workspace'' True,
      param ''start'' pt_integer ''start byte offset (0-based)'' False,
      param ''end'' pt_integer ''exclusive end byte offset'' False,
      param ''max_bytes'' pt_integer ''cap the returned bytes'' False] True cat_read"

text \<open>The offsets are \<open>size_t\<close>: a difference that would be negative wraps.\<close>

definition read_range :: "string \<Rightarrow> int \<Rightarrow> int \<Rightarrow> int \<Rightarrow> string" where
  "read_range content start0 end0 max_bytes =
     (let start = (if start0 < 0 then 0 else start0);
          start = (if start > int (length content) then int (length content) else start);
          lo = (of_int start :: u64);
          hi = (of_nat (length content) :: u64);
          hi = (if end0 \<ge> 0 \<and> of_int end0 < hi then of_int end0 else hi);
          hi = (if max_bytes \<ge> 0 \<and> hi - lo > of_int max_bytes then lo + of_int max_bytes else hi)
      in take (unat (hi - lo)) (drop (unat lo) content))"

definition file_read :: "'d tool_env \<Rightarrow> string \<Rightarrow> Invocation \<Rightarrow> tool_world \<Rightarrow> tool_result \<times> tool_world" where
  "file_read E base call w = (case arg_root (te_from_chars E) (inv_args_json call) of
     None \<Rightarrow> (tool_err ''file.read'' ''bad args: proto_parse'', w)
   | Some a \<Rightarrow> (case arg_string a ''path'' of
       None \<Rightarrow> (tool_err ''file.read'' ''missing required arg: path'', w)
     | Some path \<Rightarrow> (case resolve_in_sandbox base path of
         None \<Rightarrow> (tool_err ''file.read'' (''path escapes the workspace: '' @ path), w)
       | Some apath \<Rightarrow> (case read_whole_file (te_os E) (tw_files w) apath of
           Inl c \<Rightarrow> (tool_err ''file.read'' (''cannot read '' @ path), w)
         | Inr content \<Rightarrow>
             (tool_ok ''file.read'' (read_range content
                (or_default 0 (arg_int (te_to_int E) a ''start'')) (or_default (-1) (arg_int (te_to_int E) a ''end''))
                (or_default (-1) (arg_int (te_to_int E) a ''max_bytes''))), w)))))"

section \<open>dir.list and file.search\<close>

definition dir_list_spec :: "'d tool_env \<Rightarrow> ToolSpec" where
  "dir_list_spec E = make_spec (te_from_chars E) (te_print E) ''dir.list'' ''List a directory (optionally recursive, glob-filtered)''
     [param ''path'' pt_string ''directory relative to the workspace'' True,
      param ''recurse'' pt_boolean ''descend into subdirectories'' False,
      param ''pattern'' pt_string ''glob filter on entry name'' True] True cat_read"

definition list_entry :: "string \<Rightarrow> string \<Rightarrow> string \<times> bool \<Rightarrow> string" where
  "list_entry base pattern = (\<lambda>(p, is_dir).
     if pattern \<noteq> [] \<and> glob_match pattern (basename p) \<noteq> Some True then []
     else (if is_dir then ''dir'' else ''file'') @ [tab] @ drop (length base + 1) p @ [nl])"

definition dir_list :: "'d tool_env \<Rightarrow> string \<Rightarrow> Invocation \<Rightarrow> tool_world \<Rightarrow> tool_result \<times> tool_world" where
  "dir_list E base call w = (case arg_root (te_from_chars E) (inv_args_json call) of
     None \<Rightarrow> (tool_err ''dir.list'' ''bad args'', w)
   | Some a \<Rightarrow> (case arg_string a ''path'' of
       None \<Rightarrow> (tool_err ''dir.list'' ''missing required arg: path'', w)
     | Some path \<Rightarrow> (case resolve_in_sandbox base path of
         None \<Rightarrow> (tool_err ''dir.list'' (''path escapes the workspace: '' @ path), w)
       | Some apath \<Rightarrow> (case te_walk E (tw_files w) apath (arg_bool a ''recurse'' False) of
           None \<Rightarrow> (tool_err ''dir.list'' (''not a directory: '' @ path), w)
         | Some es \<Rightarrow> (tool_ok ''dir.list''
             (concat (map (list_entry base (or_default [] (arg_string a ''pattern''))) es)), w)))))"

definition file_search_spec :: "'d tool_env \<Rightarrow> ToolSpec" where
  "file_search_spec E = make_spec (te_from_chars E) (te_print E) ''file.search''
     ''Find files under a path by glob or regex; optional gitignore''
     [param ''pattern'' pt_string ''glob or regex to match against relative paths'' True,
      param ''path'' pt_string ''search root relative to the workspace'' True,
      param ''regex'' pt_boolean ''treat pattern as a regex'' False,
      param ''gitignore'' pt_boolean ''honor .gitignore and skip .git'' False] True cat_read"

definition ignore_line :: "string \<Rightarrow> string list" where
  "ignore_line line =
     (let l = trim line in
      if l = [] \<or> hd l = CHR ''#'' then []
      else [if last l = CHR ''/'' then butlast l else l])"

definition ignore_list :: "'d tool_env \<Rightarrow> files \<Rightarrow> string \<Rightarrow> bool \<Rightarrow> string list" where
  "ignore_list E fs apath gitignore =
     (if gitignore then
        (case read_whole_file (te_os E) fs (apath @ ''/.gitignore'') of
           Inr content \<Rightarrow> concat (map ignore_line (split_lines content))
         | Inl _ \<Rightarrow> [])
      else [])"

definition glob_hits :: "string \<Rightarrow> string \<Rightarrow> bool" where
  "glob_hits pattern rel \<longleftrightarrow> glob_match pattern rel = Some True \<or> glob_match pattern (basename rel) = Some True"

definition search_hit :: "string list \<Rightarrow> (string \<Rightarrow> bool) \<Rightarrow> string \<Rightarrow> string \<times> bool \<Rightarrow> string" where
  "search_hit ignores matches apath = (\<lambda>(p, is_dir).
     (let rel = drop (length apath + 1) p in
      if is_dir then []
      else if find_sub ''.git'' rel \<noteq> None then []
      else if list_ex (\<lambda>ig. glob_hits ig rel) ignores then []
      else if matches rel then rel @ [nl] else []))"

definition file_search :: "'d tool_env \<Rightarrow> string \<Rightarrow> Invocation \<Rightarrow> tool_world \<Rightarrow> tool_result \<times> tool_world" where
  "file_search E base call w = (case arg_root (te_from_chars E) (inv_args_json call) of
     None \<Rightarrow> (tool_err ''file.search'' ''bad args'', w)
   | Some a \<Rightarrow> (case arg_string a ''pattern'' of
       None \<Rightarrow> (tool_err ''file.search'' ''missing required arg: pattern'', w)
     | Some pattern \<Rightarrow>
        (let path = or_default ''.'' (arg_string a ''path''); use_regex = arg_bool a ''regex'' False in
         case resolve_in_sandbox base path of
           None \<Rightarrow> (tool_err ''file.search'' (''path escapes the workspace: '' @ path), w)
         | Some apath \<Rightarrow> (case te_walk E (tw_files w) apath True of
             None \<Rightarrow> (tool_err ''file.search'' (''not a directory: '' @ path), w)
           | Some es \<Rightarrow>
               (case (if use_regex then te_regex E pattern else Some (glob_hits pattern)) of
                  None \<Rightarrow> (tool_err ''file.search'' (''invalid regex: '' @ pattern), w)
                | Some matches \<Rightarrow>
                    if es \<noteq> [] \<and> te_cancelled E then (tool_err ''file.search'' ''canceled'', w)
                    else (tool_ok ''file.search'' (concat (map
                       (search_hit (ignore_list E (tw_files w) apath (arg_bool a ''gitignore'' True)) matches apath) es)), w))))))"

section \<open>file.stat\<close>

definition file_stat_spec :: "'d tool_env \<Rightarrow> ToolSpec" where
  "file_stat_spec E = make_spec (te_from_chars E) (te_print E) ''file.stat'' ''Stat a path: size, mtime, type, permissions''
     [param ''path'' pt_string ''path relative to the workspace'' True] True cat_read"

definition file_stat_run :: "'d tool_env \<Rightarrow> string \<Rightarrow> Invocation \<Rightarrow> tool_world \<Rightarrow> tool_result \<times> tool_world" where
  "file_stat_run E base call w =
     (case Option.bind (arg_root (te_from_chars E) (inv_args_json call)) (\<lambda>a. arg_string a ''path'') of
       None \<Rightarrow> (tool_err ''file.stat'' ''missing required arg: path'', w)
     | Some path \<Rightarrow> (case resolve_in_sandbox base path of
         None \<Rightarrow> (tool_err ''file.stat'' (''path escapes the workspace: '' @ path), w)
       | Some apath \<Rightarrow> (case te_stat E (tw_files w) apath of
           None \<Rightarrow> (tool_err ''file.stat'' (''cannot stat: '' @ path), w)
         | Some st \<Rightarrow> (tool_ok ''file.stat'' (to_json (te_print E)
             (JObj [(''path'', JStr path), (''size'', JNum (te_of_int E (st_size st))),
                    (''mtime_sec'', JNum (te_of_int E (st_mtime st))), (''is_dir'', JBool (st_is_dir st)),
                    (''is_file'', JBool (st_is_file st)),
                    (''mode'', JNum (te_of_int E (st_mode st mod 512)))])), w))))"

section \<open>Git probes\<close>

text \<open>The command line is put together from the arguments as they are and handed to the shell.\<close>

definition git_attempt :: "'d tool_env \<Rightarrow> string \<Rightarrow> string \<Rightarrow> files \<Rightarrow> string option \<times> files" where
  "git_attempt E base args fs =
     (case te_process E \<lparr>po_cmd = ''git '' @ args, po_working_dir = base, po_timeout_ms = 10000\<rparr> fs of
        (Inr r, fs') \<Rightarrow> (if pr_exit_code r = 0 then Some (pr_stdout r) else None, fs')
      | (Inl _, fs') \<Rightarrow> (None, fs'))"

definition git_run :: "'d tool_env \<Rightarrow> string \<Rightarrow> string \<Rightarrow> tool_world \<Rightarrow> string option \<times> tool_world" where
  "git_run E base args w = (case git_attempt E base args (tw_files w) of
     (Some out, fs1) \<Rightarrow> (Some out, w\<lparr>tw_files := fs1\<rparr>)
   | (None, fs1) \<Rightarrow> (case git_attempt E base args fs1 of (r, fs2) \<Rightarrow> (r, w\<lparr>tw_files := fs2\<rparr>)))"

definition git_result :: "string \<Rightarrow> string \<Rightarrow> string option \<times> tool_world \<Rightarrow> tool_result \<times> tool_world" where
  "git_result i failure = (\<lambda>(r, w). (case r of Some out \<Rightarrow> tool_ok i out | None \<Rightarrow> tool_err i failure, w))"

definition loose_root :: "'d tool_env \<Rightarrow> Invocation \<Rightarrow> 'd jval" where
  "loose_root E call = (case arg_root (te_from_chars E) (inv_args_json call) of Some a \<Rightarrow> a | None \<Rightarrow> te_partial E (inv_args_json call))"

definition git_diff :: "'d tool_env \<Rightarrow> string \<Rightarrow> Invocation \<Rightarrow> tool_world \<Rightarrow> tool_result \<times> tool_world" where
  "git_diff E base call w =
     (let a = loose_root E call; file = or_default [] (arg_string a ''file'');
          cmd = (if arg_bool a ''staged'' False then ''diff --cached'' else ''diff'')
              @ (if file \<noteq> [] then '' -- '' @ file else [])
      in git_result ''git.diff'' ''git failed'' (git_run E base cmd w))"

definition git_status :: "'d tool_env \<Rightarrow> string \<Rightarrow> Invocation \<Rightarrow> tool_world \<Rightarrow> tool_result \<times> tool_world" where
  "git_status E base call w = git_result ''git.status'' ''not a git repository'' (git_run E base ''status --short'' w)"

definition git_branch :: "'d tool_env \<Rightarrow> string \<Rightarrow> Invocation \<Rightarrow> tool_world \<Rightarrow> tool_result \<times> tool_world" where
  "git_branch E base call w = git_result ''git.branch'' ''not a git repository'' (git_run E base ''branch --show-current'' w)"

definition git_show :: "'d tool_env \<Rightarrow> string \<Rightarrow> Invocation \<Rightarrow> tool_world \<Rightarrow> tool_result \<times> tool_world" where
  "git_show E base call w =
     (let a = loose_root E call; commit = or_default ''HEAD'' (arg_string a ''commit'');
          file = or_default [] (arg_string a ''file'')
      in git_result ''git.show'' ''git failed'' (git_run E base
           (if file = [] then ''show --no-color --stat '' @ commit else ''show '' @ commit @ '':'' @ file) w))"

definition git_specs :: "'d tool_env \<Rightarrow> ToolSpec list" where
  "git_specs E = (let mk = make_spec (te_from_chars E) (te_print E) in
     [mk ''git.diff'' ''git diff for a file (or the whole tree)''
        [param ''file'' pt_string ''path to diff'' False, param ''staged'' pt_boolean ''diff the staged changes'' False] True cat_workspace,
      mk ''git.status'' ''git status --short'' [] True cat_workspace,
      mk ''git.branch'' ''current branch name'' [] True cat_workspace,
      mk ''git.show'' ''Show a commit, or a file at a commit''
        [param ''commit'' pt_string ''commit or ref (default HEAD)'' False,
         param ''file'' pt_string ''file path at that commit'' False] True cat_workspace])"

section \<open>file.write\<close>

definition file_write_spec :: "'d tool_env \<Rightarrow> ToolSpec" where
  "file_write_spec E = make_spec (te_from_chars E) (te_print E) ''file.write''
     (''Write a file. By default only creates NEW files (no silent '' @
      ''overwrite); pass overwrite_guard=false to replace existing '' @
      ''content. A shadow copy is kept so a failed write rolls back.'')
     [param ''path'' pt_string ''path relative to the workspace'' True,
      param ''content'' pt_string ''full new content'' True,
      param ''create'' pt_boolean ''false = require the file to exist already'' False,
      param ''overwrite_guard'' pt_boolean ''true = refuse to overwrite'' False] False cat_write"

definition shadow_name :: "string \<Rightarrow> string" where
  "shadow_name apath = apath @ ''.opencode_shadow''"

text \<open>The part of \<open>run\<close> behind the guards: shadow copy, write, rollback.\<close>

definition write_shadowed :: "os_env \<Rightarrow> string \<Rightarrow> string \<Rightarrow> files \<Rightarrow> error_code \<times> files" where
  "write_shadowed env apath content fs =
     (let (previous, had_shadow, fs1) =
            (if file_exists fs apath then
               (let r = read_whole_file env fs apath; previous = (case r of Inr p \<Rightarrow> p | Inl _ \<Rightarrow> []) in
                (previous, (case r of Inr _ \<Rightarrow> True | Inl _ \<Rightarrow> False), snd (write_file_atomic env (shadow_name apath) previous fs)))
             else ([], False, fs));
          (c, fs2) = write_file_atomic env apath content fs1
      in if \<not> is_ok c then
           (c, if had_shadow then (snd (write_file_atomic env apath previous fs2))(shadow_name apath := None) else fs2)
         else (c, fs2(shadow_name apath := None)))"

definition file_write :: "'d tool_env \<Rightarrow> string \<Rightarrow> Invocation \<Rightarrow> tool_world \<Rightarrow> tool_result \<times> tool_world" where
  "file_write E base call w = (case arg_root (te_from_chars E) (inv_args_json call) of
     None \<Rightarrow> (tool_err ''file.write'' ''bad args'', w)
   | Some a \<Rightarrow> (case arg_string a ''path'' of
       None \<Rightarrow> (tool_err ''file.write'' ''missing required arg: path'', w)
     | Some path \<Rightarrow> (case arg_string a ''content'' of
         None \<Rightarrow> (tool_err ''file.write'' ''missing required arg: content'', w)
       | Some content \<Rightarrow> (case resolve_in_sandbox base path of
           None \<Rightarrow> (tool_err ''file.write'' (''path escapes the workspace: '' @ path), w)
         | Some apath \<Rightarrow>
             if file_exists (tw_files w) apath \<and> arg_bool a ''overwrite_guard'' True then
               (tool_err ''file.write'' (''refusing to overwrite existing file (set overwrite_guard=false): '' @ path), w)
             else if \<not> file_exists (tw_files w) apath \<and> \<not> arg_bool a ''create'' True then
               (tool_err ''file.write'' (''file does not exist (create=true to create): '' @ path), w)
             else (case write_shadowed (te_os E) apath content (tw_files w) of (c, fs') \<Rightarrow>
               (if \<not> is_ok c then tool_err ''file.write'' (''write failed: '' @ message c)
                else tool_ok ''file.write'' (''wrote '' @ show_nat (length content) @ '' bytes to '' @ path),
                w\<lparr>tw_files := fs'\<rparr>))))))"

section \<open>file.patch\<close>

definition file_patch_spec :: "'d tool_env \<Rightarrow> ToolSpec" where
  "file_patch_spec E = make_spec (te_from_chars E) (te_print E) ''file.patch''
     (''Apply a unified diff (with context) to a file, atomically. '' @ ''reverse=true rolls the patch back.'')
     [param ''path'' pt_string ''path relative to the workspace'' True,
      param ''patch'' pt_string ''unified diff text'' True,
      param ''reverse'' pt_boolean ''apply the reverse of the patch'' False] False cat_write"

definition file_patch :: "'d tool_env \<Rightarrow> string \<Rightarrow> Invocation \<Rightarrow> tool_world \<Rightarrow> tool_result \<times> tool_world" where
  "file_patch E base call w = (case arg_root (te_from_chars E) (inv_args_json call) of
     None \<Rightarrow> (tool_err ''file.patch'' ''bad args'', w)
   | Some a \<Rightarrow> (case arg_string a ''path'' of
       None \<Rightarrow> (tool_err ''file.patch'' ''missing required arg: path'', w)
     | Some path \<Rightarrow> (case arg_string a ''patch'' of
         None \<Rightarrow> (tool_err ''file.patch'' ''missing required arg: patch'', w)
       | Some diff \<Rightarrow> (case resolve_in_sandbox base path of
           None \<Rightarrow> (tool_err ''file.patch'' (''path escapes the workspace: '' @ path), w)
         | Some apath \<Rightarrow>
             (let patch_text = (if arg_bool a ''reverse'' False then reverse diff else diff) in
              case apply_file (te_os E) apath patch_text (tw_files w) of
                (Inl c, fs') \<Rightarrow> (tool_err ''file.patch'' ''patch rejected (context mismatch, no changes applied)'', w\<lparr>tw_files := fs'\<rparr>)
              | (Inr report, fs') \<Rightarrow> (tool_ok ''file.patch'' report, w\<lparr>tw_files := fs'\<rparr>))))))"

section \<open>shell.run\<close>

definition shell_spec :: "'d tool_env \<Rightarrow> ToolSpec" where
  "shell_spec E = make_spec (te_from_chars E) (te_print E) ''shell.run''
     (''Run a shell command (gated). Streams stdout/stderr via progress '' @
      ''events; kills the child on timeout or cancellation.'')
     [param ''cmd'' pt_string ''shell command to execute'' True,
      param ''timeout_ms'' pt_integer ''kill after this many ms (0 = no limit)'' False,
      param ''working_dir'' pt_string ''working directory (relative to workspace)'' False] False cat_shell"

definition proc_opts :: "string \<Rightarrow> string \<Rightarrow> int \<Rightarrow> ProcOpts" where
  "proc_opts cmd dir timeout_ms = \<lparr>po_cmd = cmd, po_working_dir = dir,
     po_timeout_ms = (if timeout_ms > 0 then of_int timeout_ms else 0)\<rparr>"

definition shell_output :: "ProcResult \<Rightarrow> string" where
  "shell_output r =
     (let out = pr_stdout r @ (if pr_stderr r \<noteq> [] then [nl] @ ''[stderr]'' @ [nl] @ pr_stderr r else [])
      in if out = [] then ''(no output)'' else out)"

definition progress :: "string \<Rightarrow> int \<Rightarrow> tool_world \<Rightarrow> tool_world" where
  "progress phase percent w = w\<lparr>tw_progress := tw_progress w @ [\<lparr>tp_phase = phase, tp_percent = percent\<rparr>]\<rparr>"

definition shell_run :: "'d tool_env \<Rightarrow> string \<Rightarrow> Invocation \<Rightarrow> tool_world \<Rightarrow> tool_result \<times> tool_world" where
  "shell_run E base call w = (case arg_root (te_from_chars E) (inv_args_json call) of
     None \<Rightarrow> (tool_err ''shell.run'' ''bad args'', w)
   | Some a \<Rightarrow> (case arg_string a ''cmd'' of
       None \<Rightarrow> (tool_err ''shell.run'' ''missing required arg: cmd'', w)
     | Some cmd \<Rightarrow>
        (let workdir = or_default [] (arg_string a ''working_dir'') in
         case (if workdir \<noteq> [] then resolve_in_sandbox base workdir else Some base) of
           None \<Rightarrow> (tool_err ''shell.run'' (''working_dir escapes the workspace: '' @ workdir), w)
         | Some dir \<Rightarrow>
             (let po = proc_opts cmd dir (or_default 30000 (arg_int (te_to_int E) a ''timeout_ms''));
                  w1 = progress ''spawn'' 0 w in
              case te_process E po (tw_files w1) of
                (Inl c, fs') \<Rightarrow> (tool_err ''shell.run'' (''process execution failed: '' @ message c), w1\<lparr>tw_files := fs'\<rparr>)
              | (Inr r, fs') \<Rightarrow>
                  if pr_timed_out r then
                    (tool_err ''shell.run'' (''command timed out after '' @ show_nat (unat (po_timeout_ms po)) @ '' ms''), w1\<lparr>tw_files := fs'\<rparr>)
                  else (tool_ok ''shell.run'' (shell_output r), progress ''done'' 100 (w1\<lparr>tw_files := fs'\<rparr>))))))"

section \<open>Toolset\<close>

definition read_file_tools :: "'d tool_env \<Rightarrow> string \<Rightarrow> tool_world Tool list" where
  "read_file_tools E ws =
     [\<lparr>tool_spec = file_read_spec E, tool_run = file_read E ws\<rparr>,
      \<lparr>tool_spec = dir_list_spec E, tool_run = dir_list E ws\<rparr>,
      \<lparr>tool_spec = file_stat_spec E, tool_run = file_stat_run E ws\<rparr>,
      \<lparr>tool_spec = file_search_spec E, tool_run = file_search E ws\<rparr>]"

definition git_tools :: "'d tool_env \<Rightarrow> string \<Rightarrow> tool_world Tool list" where
  "git_tools E ws = map (\<lambda>(s, r). \<lparr>tool_spec = s, tool_run = r\<rparr>)
     (zip (git_specs E) [git_diff E ws, git_status E ws, git_branch E ws, git_show E ws])"

definition make_write_tools :: "'d tool_env \<Rightarrow> string \<Rightarrow> tool_world Tool list" where
  "make_write_tools E ws =
     [\<lparr>tool_spec = file_write_spec E, tool_run = file_write E ws\<rparr>,
      \<lparr>tool_spec = file_patch_spec E, tool_run = file_patch E ws\<rparr>]"

definition make_shell_tool :: "'d tool_env \<Rightarrow> string \<Rightarrow> tool_world Tool list" where
  "make_shell_tool E ws = [\<lparr>tool_spec = shell_spec E, tool_run = shell_run E ws\<rparr>]"

text \<open>
  The default toolset with its write tools, without the symbol tools (no index attached), the environment
  probe and the memory tool (no store attached).
\<close>

definition default_tools :: "'d tool_env \<Rightarrow> string \<Rightarrow> tool_world Tool list" where
  "default_tools E ws = read_file_tools E ws @ git_tools E ws @ make_write_tools E ws @ make_shell_tool E ws"

section \<open>Reading\<close>

lemma unat_of_int_u64: "0 \<le> k \<Longrightarrow> k < 2 ^ 64 \<Longrightarrow> unat (of_int k :: u64) = nat k"
  by (simp add: unsigned_of_int take_bit_int_eq_self)

lemma unat_of_nat_u64: "n < 2 ^ 64 \<Longrightarrow> unat (of_nat n :: u64) = n"
  by (simp add: unsigned_of_nat take_bit_nat_eq_self)

lemma word_window:
  fixes lo hi :: u64
  assumes "lo \<le> hi" "0 \<le> mx" "mx < 2 ^ 63"
  defines "hi' \<equiv> if hi - lo > of_int mx then lo + of_int mx else hi"
  shows "unat (hi' - lo) = min (unat hi - unat lo) (nat mx)"
proof -
  have m: "unat (of_int mx :: u64) = nat mx" using assms by (intro unat_of_int_u64) simp_all
  have d: "unat (hi - lo) = unat hi - unat lo" using assms(1) by (simp add: word_le_nat_alt unat_sub)
  show ?thesis using m d by (auto simp: hi'_def word_less_nat_alt)
qed

text \<open>
  On the byte range \<open>file.read\<close> was asked for, with the end not before the start, it returns exactly the
  bytes from the start (clipped to the file) up to the end and at most \<open>max_bytes\<close> of them.
\<close>

theorem file_read_range:
  assumes "length content < 2 ^ 63" "start < 2 ^ 63" "stop < 2 ^ 63" "mx < 2 ^ 63" "stop < 0 \<or> max 0 start \<le> stop"
  shows "read_range content start stop mx =
    take (if mx < 0 then length content else nat mx)
      (drop (nat start) (take (if stop < 0 then length content else nat stop) content))"
proof -
  define st where "st = min (length content) (nat start)"
  define h where "h = (if stop < 0 then length content else min (length content) (nat stop))"
  define lo where "lo = (of_nat st :: u64)"
  define hi where "hi = (if stop \<ge> 0 \<and> of_int stop < (of_nat (length content) :: u64) then of_int stop else of_nat (length content) :: u64)"
  define hi' where "hi' = (if mx \<ge> 0 \<and> hi - lo > of_int mx then lo + of_int mx else hi)"
  have sth: "st \<le> h" "h \<le> length content" using assms(5) by (auto simp: st_def h_def)
  have lo: "unat lo = st" using assms(1) by (simp add: lo_def st_def unat_of_nat_u64)
  have "unat (of_int stop :: u64) = nat stop" if "0 \<le> stop" using that assms(3) by (intro unat_of_int_u64) simp_all
  then have hi: "unat hi = h"
    using assms(1) by (auto simp: hi_def h_def word_less_nat_alt unat_of_nat_u64)
  have "lo \<le> hi" using sth lo hi by (simp add: word_le_nat_alt)
  then have d: "unat (hi' - lo) = (if mx < 0 then h - st else min (h - st) (nat mx))"
    using word_window [of lo hi mx] assms(4) lo hi by (auto simp: hi'_def word_le_nat_alt unat_sub)
  have start': "(let start = (if start < 0 then 0 else start) in
      if start > int (length content) then int (length content) else start) = int st"
    by (auto simp: st_def)
  have "read_range content start stop mx = take (unat (hi' - lo)) (drop (unat lo) content)"
    using start' unfolding read_range_def hi'_def hi_def lo_def by (auto simp: Let_def)
  also have "\<dots> = take (if mx < 0 then h - st else min (h - st) (nat mx)) (drop st content)" by (simp add: d lo)
  also have "\<dots> = take (if mx < 0 then length content else nat mx) (drop st (take h content))"
    using sth by (auto simp: drop_take min_def)
  also have "drop st (take h content) = drop (nat start) (take (if stop < 0 then length content else nat stop) content)"
    by (auto simp: st_def h_def min_def)
  finally show ?thesis .
qed

theorem file_read_range_witness:
  "read_range ''hello world'' 6 9 2 = take 2 (drop 6 (take 9 ''hello world''))"
  using file_read_range [of "''hello world''" 6 9 2] by simp

text \<open>With the end before the start the difference wraps and everything from the start on is returned.\<close>

lemma end_before_start: "read_range ''hello world'' 6 2 (-1) = ''world''"
  by (simp add: read_range_def)

section \<open>Read-only tools\<close>

lemma read_tools_pure:
  "snd (file_read E base call w) = w" "snd (dir_list E base call w) = w"
  "snd (file_stat_run E base call w) = w" "snd (file_search E base call w) = w"
  by (auto simp: file_read_def dir_list_def file_stat_run_def file_search_def Let_def split: option.splits sum.splits if_splits)

lemmas spec_defs = file_read_spec_def dir_list_spec_def file_stat_spec_def file_search_spec_def file_write_spec_def
  file_patch_spec_def shell_spec_def make_spec_def

lemma tool_read_only:
  "t \<in> set (read_file_tools E ws @ make_write_tools E ws @ make_shell_tool E ws) \<Longrightarrow> spec_is_read_only (tool_spec t) \<Longrightarrow>
   snd (tool_run t call w) = w"
  by (auto simp: read_file_tools_def make_write_tools_def make_shell_tool_def spec_defs read_tools_pure)


text \<open>
  The git probes break this. They are registered as read-only tools but paste their arguments into a shell
  command line, so under the read-only policy the model runs any command it likes: the argument
  \<open>HEAD; rm -rf .\<close> of \<open>git.show\<close> is one.
\<close>

lemma git_show_injection:
  fixes E :: "'d tool_env"
  assumes "arg_root (te_from_chars E) (inv_args_json call) = Some (JObj [(''commit'', JStr (''HEAD; '' @ cmd))])"
    "te_process E \<lparr>po_cmd = ''git show --no-color --stat HEAD; '' @ cmd, po_working_dir = ws, po_timeout_ms = 10000\<rparr> (tw_files w)
       = (Inr r, fs')" "pr_exit_code r = 0"
  shows "gate_run (new_gate policy_allow_readonly) (git_tools E ws) ''git.show'' call w =
    (tool_ok ''git.show'' (pr_stdout r), w\<lparr>tw_files := fs'\<rparr>)"
  using assms
  by (simp add: gate_run_def git_tools_def git_specs_def Let_def reg_find_def reg_run_def make_spec_def gate_check_def
      policy_for_def new_gate_def git_show_def loose_root_def arg_string_def jfind_def or_default_def git_run_def git_attempt_def git_result_def)

section \<open>Writing\<close>

lemma shadow_neq [simp]:
  "shadow_name p \<noteq> p" "p \<noteq> shadow_name p" "tmp_name (shadow_name p) \<noteq> p" "p \<noteq> tmp_name (shadow_name p)"
  "tmp_name p \<noteq> shadow_name p" "shadow_name p \<noteq> tmp_name p"
  by (auto simp: shadow_name_def tmp_name_def)

lemma atomic_frame:
  "q \<noteq> path \<Longrightarrow> q \<noteq> tmp_name path \<Longrightarrow> snd (write_file_atomic env path c fs) q = fs q"
  by (auto simp: write_file_atomic_def Let_def)

lemma write_shadowed_cases:
  assumes "write_shadowed env p content fs = (c, fs')"
  shows "is_ok c \<and> fs' p = Some content \<or> \<not> is_ok c \<and> fs' p = fs p"
    and "q \<notin> {p, tmp_name p, shadow_name p, tmp_name (shadow_name p)} \<Longrightarrow> fs' q = fs q"
proof -
  define previous where "previous = (case read_whole_file env fs p of Inr t \<Rightarrow> t | Inl _ \<Rightarrow> [])"
  define fs1 where "fs1 = (if file_exists fs p then snd (write_file_atomic env (shadow_name p) previous fs) else fs)"
  obtain c2 fs2 where w: "write_file_atomic env p content fs1 = (c2, fs2)" by fastforce
  have fs1: "fs1 p = fs p" "q \<notin> {shadow_name p, tmp_name (shadow_name p)} \<Longrightarrow> fs1 q = fs q" for q
    by (auto simp: fs1_def atomic_frame)
  have wc: "is_ok c2 \<and> fs2 p = Some content \<or> \<not> is_ok c2 \<and> fs2 p = fs p"
    using write_file_atomic_cases(1) [OF w] fs1(1) by simp
  have wf: "q \<noteq> p \<Longrightarrow> q \<noteq> tmp_name p \<Longrightarrow> fs2 q = fs1 q" for q
    using write_file_atomic_cases(2) [OF w] by simp
  have roll: "snd (write_file_atomic env p previous fs2) p = fs p"
    if "read_whole_file env fs p = Inr t" "\<not> is_ok c2" for t
    using write_file_atomic_cases(1) [of env p previous fs2] wc that
    by (cases "write_file_atomic env p previous fs2") (auto simp: previous_def read_whole_file_def split: option.splits if_splits)
  have r: "(c, fs') = (if \<not> is_ok c2 then
      (c2, if file_exists fs p \<and> (\<exists>t. read_whole_file env fs p = Inr t)
           then (snd (write_file_atomic env p previous fs2))(shadow_name p := None) else fs2)
     else (c2, fs2(shadow_name p := None)))"
    using assms w unfolding write_shadowed_def fs1_def previous_def by (auto simp: Let_def split: if_splits sum.splits)
  show "is_ok c \<and> fs' p = Some content \<or> \<not> is_ok c \<and> fs' p = fs p"
    using r wc roll by (auto split: if_splits)
  show "fs' q = fs q" if "q \<notin> {p, tmp_name p, shadow_name p, tmp_name (shadow_name p)}"
    using r that wf fs1(2) by (auto simp: atomic_frame split: if_splits)
qed


text \<open>
  A successful write removes whatever file carries the shadow name, also one the tool did not create.
\<close>

lemma shadow_bystander_removed:
  "write_shadowed os_fine p content fs = (c, fs') \<Longrightarrow> fs' (shadow_name p) = None"
  by (auto simp: write_shadowed_def write_file_atomic_def os_fine_def Let_def split: prod.splits if_splits)

text \<open>The exit code of a shell command is dropped: a failing command is reported as a success.\<close>

lemma shell_failure_reported_ok:
  assumes "arg_root (te_from_chars E) (inv_args_json call) = Some (JObj [(''cmd'', JStr cmd)])"
    "te_process E (proc_opts cmd base 30000) (tw_files w) = (Inr \<lparr>pr_exit_code = 1, pr_stdout = [], pr_stderr = [], pr_timed_out = False\<rparr>, fs')"
  shows "fst (shell_run E base call w) = tool_ok ''shell.run'' ''(no output)''"
  using assms by (simp add: shell_run_def arg_string_def arg_int_def jfind_def or_default_def Let_def shell_output_def progress_def)

lemma huge_timeout_unlimited: "po_timeout_ms (proc_opts cmd dir 4294967296) = 0"
  by (simp add: proc_opts_def)

end
