(* ===== verification/Syntax_Check.thy ===== *)
theory Syntax_Check
  imports Errors
begin

text \<open>
  The syntax scanner of the verification gate (\<open>src/verify/syntax.cpp\<close>): one pass over the text that skips
  comments and literals, matches delimiters with a stack and reports issues with their positions. The scanner is
  a recursion over the rest of the text, with the character before it as an argument. Its verdict is
  related to an independent description: the delimiters outside comments and literals form a word of the
  bracket grammar.
\<close>

section \<open>The scanner\<close>

datatype CharClass = normal | line_comment | block_comment | string_literal | char_literal

record SyntaxIssue =
  si_line :: u32
  si_col :: u32
  si_msg :: string

record Frame =
  fr_ch :: char
  fr_line :: u32
  fr_col :: u32

record Scanner =
  sc_issues :: "SyntaxIssue list"
  sc_line :: u32
  sc_col :: u32
  sc_state :: CharClass
  sc_stack :: "Frame list"
  sc_backslash :: bool

text \<open>The stack is kept with its top first.\<close>

definition add_issue :: "u32 \<Rightarrow> u32 \<Rightarrow> string \<Rightarrow> Scanner \<Rightarrow> Scanner" where
  "add_issue l c m s = s\<lparr>sc_issues := sc_issues s @ [\<lparr>si_line = l, si_col = c, si_msg = m\<rparr>]\<rparr>"

definition is_open :: "char \<Rightarrow> bool" where
  "is_open c \<longleftrightarrow> c = CHR ''('' \<or> c = CHR ''['' \<or> c = CHR ''{''"

definition is_close :: "char \<Rightarrow> bool" where
  "is_close c \<longleftrightarrow> c = CHR '')'' \<or> c = CHR '']'' \<or> c = CHR ''}''"

definition is_balanced_close :: "char \<Rightarrow> char \<Rightarrow> bool" where
  "is_balanced_close op cl \<longleftrightarrow> op = CHR ''('' \<and> cl = CHR '')'' \<or> op = CHR ''['' \<and> cl = CHR '']'' \<or> op = CHR ''{'' \<and> cl = CHR ''}''"

definition next_col :: "Scanner \<Rightarrow> Scanner" where
  "next_col s = s\<lparr>sc_col := sc_col s + 1\<rparr>"

definition next_line :: "Scanner \<Rightarrow> Scanner" where
  "next_line s = s\<lparr>sc_line := sc_line s + 1, sc_col := 1\<rparr>"

definition enter :: "CharClass \<Rightarrow> Scanner \<Rightarrow> Scanner" where
  "enter st s = s\<lparr>sc_state := st\<rparr>"

text \<open>One character inside a string or character literal that ends at \<open>q\<close>.\<close>

definition literal_step :: "char \<Rightarrow> string \<Rightarrow> char \<Rightarrow> Scanner \<Rightarrow> Scanner" where
  "literal_step q what c s =
     (if sc_backslash s then next_col (s\<lparr>sc_backslash := False\<rparr>)
      else if c = bslash then next_col (s\<lparr>sc_backslash := True\<rparr>)
      else if c = q then next_col (enter normal s)
      else if c = nl then next_line (enter normal (add_issue (sc_line s) (sc_col s) (''unterminated '' @ what @ '' literal'') s))
      else next_col s)"

definition close_step :: "char \<Rightarrow> Scanner \<Rightarrow> Scanner" where
  "close_step c s = (case sc_stack s of
     [] \<Rightarrow> add_issue (sc_line s) (sc_col s) (''unexpected '' @ [squote, c, squote] @ '' without opening'') s
   | tp # rest \<Rightarrow>
       (if \<not> is_balanced_close (fr_ch tp) c then
          add_issue (fr_line tp) (fr_col tp)
            (''unmatched '' @ [squote, fr_ch tp, squote] @ '' closed by '' @ [squote, c, squote] @ '' at ''
             @ show_nat (unat (sc_line s)) @ '':'' @ show_nat (unat (sc_col s))) s
        else s)\<lparr>sc_stack := rest\<rparr>)"

fun in_for_header :: "Frame list \<Rightarrow> bool" where
  "in_for_header [] = False"
| "in_for_header (f # fs) =
     (if fr_ch f = CHR ''('' then True else if fr_ch f = CHR ''{'' \<or> fr_ch f = CHR ''['' then False else in_for_header fs)"

definition semicolon_step :: "char option \<Rightarrow> Scanner \<Rightarrow> Scanner" where
  "semicolon_step prev s =
     (if \<not> in_for_header (sc_stack s) \<and> prev \<noteq> None \<and> prev \<noteq> Some (CHR ''('')
      then add_issue (sc_line s) (sc_col s) ''double semicolon (;;) outside for-loop header'' s else s)"

text \<open>One character in the normal state, once comments have been ruled out.\<close>

definition normal_step :: "char option \<Rightarrow> char \<Rightarrow> string \<Rightarrow> Scanner \<Rightarrow> Scanner" where
  "normal_step prev c cs s =
     (if c = dquote then next_col (enter string_literal s)
      else if c = squote then next_col (enter char_literal s)
      else if is_open c then next_col (s\<lparr>sc_stack := \<lparr>fr_ch = c, fr_line = sc_line s, fr_col = sc_col s\<rparr> # sc_stack s\<rparr>)
      else if is_close c then next_col (close_step c s)
      else if c = CHR '';'' \<and> cs \<noteq> [] \<and> hd cs = CHR '';'' then next_col (semicolon_step prev s)
      else if c = nl then next_line s else next_col s)"

fun scan :: "char option \<Rightarrow> string \<Rightarrow> Scanner \<Rightarrow> Scanner" where
  "scan prev [] s = s"
| "scan prev (c # cs) s = (case sc_state s of
     line_comment \<Rightarrow> scan (Some c) cs (if c = nl then next_line (enter normal s) else next_col s)
   | block_comment \<Rightarrow>
       (if c = CHR ''*'' \<and> cs \<noteq> [] \<and> hd cs = CHR ''/'' then scan (Some (hd cs)) (tl cs) (next_col (next_col (enter normal s)))
        else scan (Some c) cs (if c = nl then next_line s else next_col s))
   | string_literal \<Rightarrow> scan (Some c) cs (literal_step dquote ''string'' c s)
   | char_literal \<Rightarrow> scan (Some c) cs (literal_step squote ''char'' c s)
   | normal \<Rightarrow>
       (if c = CHR ''/'' \<and> cs \<noteq> [] \<and> hd cs = CHR ''/'' then scan (Some (hd cs)) (tl cs) (next_col (next_col (enter line_comment s)))
        else if c = CHR ''/'' \<and> cs \<noteq> [] \<and> hd cs = CHR ''*'' then scan (Some (hd cs)) (tl cs) (next_col (next_col (enter block_comment s)))
        else scan (Some c) cs (normal_step prev c cs s)))"

definition unterminated :: "Frame \<Rightarrow> Scanner \<Rightarrow> Scanner" where
  "unterminated f = add_issue (fr_line f) (fr_col f) (''unterminated '' @ [squote, fr_ch f, squote] @ '' -- missing closing'')"

definition post_scan :: "Scanner \<Rightarrow> Scanner" where
  "post_scan s =
     (let s1 = (case sc_state s of
            block_comment \<Rightarrow> add_issue (sc_line s) (sc_col s) ''unterminated block comment'' s
          | string_literal \<Rightarrow> add_issue (sc_line s) (sc_col s) ''unterminated string literal'' s
          | char_literal \<Rightarrow> add_issue (sc_line s) (sc_col s) ''unterminated char literal'' s
          | _ \<Rightarrow> s)
      in fold unterminated (rev (sc_stack s)) s1)"

definition new_scanner :: Scanner where
  "new_scanner = \<lparr>sc_issues = [], sc_line = 1, sc_col = 1, sc_state = normal, sc_stack = [], sc_backslash = False\<rparr>"

definition check_syntax :: "string \<Rightarrow> SyntaxIssue list" where
  "check_syntax content = sc_issues (post_scan (scan None content new_scanner))"

section \<open>What it means to be well-formed\<close>

text \<open>
  The delimiters of a text outside comments and literals, or \<open>None\<close> when a comment or a literal is not
  terminated. The flag says that the previous character of a literal was a backslash.
\<close>

fun delimiters :: "CharClass \<Rightarrow> bool \<Rightarrow> string \<Rightarrow> string option" where
  "delimiters st bs [] = (if st = normal \<or> st = line_comment then Some [] else None)"
| "delimiters normal bs (c # cs) =
     (if c = CHR ''/'' \<and> cs \<noteq> [] \<and> hd cs = CHR ''/'' then delimiters line_comment bs (tl cs)
      else if c = CHR ''/'' \<and> cs \<noteq> [] \<and> hd cs = CHR ''*'' then delimiters block_comment bs (tl cs)
      else if c = dquote then delimiters string_literal bs cs
      else if c = squote then delimiters char_literal bs cs
      else if is_open c \<or> is_close c then map_option ((#) c) (delimiters normal bs cs)
      else delimiters normal bs cs)"
| "delimiters line_comment bs (c # cs) = delimiters (if c = nl then normal else line_comment) bs cs"
| "delimiters block_comment bs (c # cs) =
     (if c = CHR ''*'' \<and> cs \<noteq> [] \<and> hd cs = CHR ''/'' then delimiters normal bs (tl cs) else delimiters block_comment bs cs)"
| "delimiters string_literal bs (c # cs) =
     (if bs then delimiters string_literal False cs
      else if c = bslash then delimiters string_literal True cs
      else if c = dquote then delimiters normal False cs
      else if c = nl then None else delimiters string_literal False cs)"
| "delimiters char_literal bs (c # cs) =
     (if bs then delimiters char_literal False cs
      else if c = bslash then delimiters char_literal True cs
      else if c = squote then delimiters normal False cs
      else if c = nl then None else delimiters char_literal False cs)"

inductive balanced :: "string \<Rightarrow> bool" where
  empty: "balanced []"
| wrap: "balanced u \<Longrightarrow> balanced v \<Longrightarrow> is_balanced_close a b \<Longrightarrow> balanced (a # u @ b # v)"

fun matches :: "string \<Rightarrow> string \<Rightarrow> bool" where
  "matches stk [] \<longleftrightarrow> stk = []"
| "matches stk (c # cs) \<longleftrightarrow>
     (if is_open c then matches (c # stk) cs
      else case stk of [] \<Rightarrow> False | t # ts \<Rightarrow> is_balanced_close t c \<and> matches ts cs)"

lemma balanced_append: "balanced u \<Longrightarrow> balanced v \<Longrightarrow> balanced (u @ v)"
proof (induction rule: balanced.induct)
  case (wrap u w a b)
  then have "balanced (a # u @ b # (w @ v))" by (intro balanced.wrap)
  then show ?case by simp
qed simp

lemma balanced_open: "is_balanced_close a b \<Longrightarrow> is_open a \<and> \<not> is_open b"
  by (auto simp: is_balanced_close_def is_open_def)

lemma matches_balanced_prefix: "balanced u \<Longrightarrow> matches stk (u @ w) = matches stk w"
proof (induction arbitrary: stk w rule: balanced.induct)
  case (wrap u v a b)
  have "matches stk ((a # u @ b # v) @ w) = matches (a # stk) (u @ b # v @ w)"
    using balanced_open [OF wrap.hyps(3)] by simp
  also have "\<dots> = matches (a # stk) (b # v @ w)" by (rule wrap.IH(1))
  also have "\<dots> = matches stk (v @ w)" using balanced_open [OF wrap.hyps(3)] wrap.hyps(3) by simp
  also have "\<dots> = matches stk w" by (rule wrap.IH(2))
  finally show ?case .
qed simp

text \<open>A word that empties a stack is a sequence of balanced words, each but the last followed by a closer.\<close>

fun closes :: "string \<Rightarrow> string \<Rightarrow> bool" where
  "closes [] w \<longleftrightarrow> balanced w"
| "closes (t # ts) w \<longleftrightarrow> (\<exists>u b v. w = u @ b # v \<and> balanced u \<and> is_balanced_close t b \<and> closes ts v)"

lemma closes_append: "balanced u \<Longrightarrow> closes stk w \<Longrightarrow> closes stk (u @ w)"
  by (cases stk) (auto intro: balanced_append, metis append.assoc balanced_append)

lemma matches_closes: "matches stk w \<Longrightarrow> closes stk w"
proof (induction w arbitrary: stk)
  case Nil
  then show ?case by (auto intro: balanced.empty)
next
  case (Cons c cs)
  show ?case
  proof (cases "is_open c")
    case True
    then have "closes (c # stk) cs" using Cons.prems by (intro Cons.IH) simp
    then obtain u b v where w: "cs = u @ b # v" "balanced u" "is_balanced_close c b" "closes stk v" by auto
    have "balanced (c # u @ [b])" using balanced.wrap [OF w(2) balanced.empty w(3)] by simp
    from closes_append [OF this w(4)] show ?thesis using w(1) by simp
  next
    case False
    then obtain t ts where t: "stk = t # ts" "is_balanced_close t c" "matches ts cs"
      using Cons.prems by (cases stk) auto
    then show ?thesis using Cons.IH [OF t(3)] balanced.empty by fastforce
  qed
qed

lemma matches_iff_balanced: "matches [] w \<longleftrightarrow> balanced w"
  using matches_closes [of "[]" w] matches_balanced_prefix [of w "[]" "[]"] by auto

section \<open>The scanner decides it\<close>

definition verdict :: "Scanner \<Rightarrow> string \<Rightarrow> bool" where
  "verdict s rest \<longleftrightarrow> (\<exists>ds. delimiters (sc_state s) (sc_backslash s) rest = Some ds \<and> matches (map fr_ch (sc_stack s)) ds)"

lemmas scanner_steps = next_col_def next_line_def enter_def add_issue_def

lemma step_fields [simp]:
  "sc_issues (next_col s) = sc_issues s" "sc_state (next_col s) = sc_state s" "sc_stack (next_col s) = sc_stack s"
  "sc_backslash (next_col s) = sc_backslash s"
  "sc_issues (next_line s) = sc_issues s" "sc_state (next_line s) = sc_state s" "sc_stack (next_line s) = sc_stack s"
  "sc_backslash (next_line s) = sc_backslash s"
  "sc_issues (enter st s) = sc_issues s" "sc_state (enter st s) = st" "sc_stack (enter st s) = sc_stack s"
  "sc_backslash (enter st s) = sc_backslash s"
  "sc_issues (add_issue l c m s) = sc_issues s @ [\<lparr>si_line = l, si_col = c, si_msg = m\<rparr>]"
  "sc_state (add_issue l c m s) = sc_state s" "sc_stack (add_issue l c m s) = sc_stack s"
  "sc_backslash (add_issue l c m s) = sc_backslash s"
  by (simp_all add: scanner_steps)

text \<open>Issues are only ever added.\<close>

lemma literal_grows: "sc_issues s \<noteq> [] \<Longrightarrow> sc_issues (literal_step q what c s) \<noteq> []"
  by (simp add: literal_step_def)

lemma close_grows: "sc_issues s \<noteq> [] \<Longrightarrow> sc_issues (close_step c s) \<noteq> []"
  by (cases "sc_stack s") (simp_all add: close_step_def)

lemma semicolon_grows: "sc_issues s \<noteq> [] \<Longrightarrow> sc_issues (semicolon_step prev s) \<noteq> []"
  by (simp add: semicolon_step_def)

lemma normal_grows: "sc_issues s \<noteq> [] \<Longrightarrow> sc_issues (normal_step prev c cs s) \<noteq> []"
  by (simp add: normal_step_def close_grows semicolon_grows)

lemma scan_eqs:
  "sc_state s = line_comment \<Longrightarrow> scan prev (c # cs) s = scan (Some c) cs (if c = nl then next_line (enter normal s) else next_col s)"
  "sc_state s = block_comment \<Longrightarrow> c = CHR ''*'' \<and> cs \<noteq> [] \<and> hd cs = CHR ''/'' \<Longrightarrow>
     scan prev (c # cs) s = scan (Some (hd cs)) (tl cs) (next_col (next_col (enter normal s)))"
  "sc_state s = block_comment \<Longrightarrow> \<not> (c = CHR ''*'' \<and> cs \<noteq> [] \<and> hd cs = CHR ''/'') \<Longrightarrow>
     scan prev (c # cs) s = scan (Some c) cs (if c = nl then next_line s else next_col s)"
  "sc_state s = string_literal \<Longrightarrow> scan prev (c # cs) s = scan (Some c) cs (literal_step dquote ''string'' c s)"
  "sc_state s = char_literal \<Longrightarrow> scan prev (c # cs) s = scan (Some c) cs (literal_step squote ''char'' c s)"
  "sc_state s = normal \<Longrightarrow> c = CHR ''/'' \<and> cs \<noteq> [] \<and> hd cs = CHR ''/'' \<Longrightarrow>
     scan prev (c # cs) s = scan (Some (hd cs)) (tl cs) (next_col (next_col (enter line_comment s)))"
  "sc_state s = normal \<Longrightarrow> c = CHR ''/'' \<and> cs \<noteq> [] \<and> hd cs = CHR ''*'' \<Longrightarrow>
     scan prev (c # cs) s = scan (Some (hd cs)) (tl cs) (next_col (next_col (enter block_comment s)))"
  "sc_state s = normal \<Longrightarrow> \<not> (c = CHR ''/'' \<and> cs \<noteq> [] \<and> hd cs = CHR ''/'') \<Longrightarrow> \<not> (c = CHR ''/'' \<and> cs \<noteq> [] \<and> hd cs = CHR ''*'') \<Longrightarrow>
     scan prev (c # cs) s = scan (Some c) cs (normal_step prev c cs s)"
  by (simp_all only: scan.simps CharClass.case if_True if_False simp_thms) simp

declare scan.simps(2) [simp del]

lemma scan_next:
  obtains p cs' s' where "scan prev (c # cs) s = scan p cs' s'" "length cs' \<le> length cs"
    "sc_issues s \<noteq> [] \<Longrightarrow> sc_issues s' \<noteq> []"
proof (cases "sc_state s")
  case normal
  show ?thesis
  proof (cases "c = CHR ''/'' \<and> cs \<noteq> [] \<and> hd cs \<in> {CHR ''/'', CHR ''*''}")
    case True
    then show ?thesis
      by (intro that [of "Some (hd cs)" "tl cs" "next_col (next_col (enter (if hd cs = CHR ''/'' then line_comment else block_comment) s))"])
        (use normal in \<open>auto simp: scan_eqs\<close>)
  next
    case False
    then show ?thesis by (intro that [of "Some c" cs "normal_step prev c cs s"]) (use normal normal_grows in \<open>auto simp: scan_eqs\<close>)
  qed
next
  case block_comment
  show ?thesis
  proof (cases "c = CHR ''*'' \<and> cs \<noteq> [] \<and> hd cs = CHR ''/''")
    case True
    then show ?thesis
      by (intro that [of "Some (hd cs)" "tl cs" "next_col (next_col (enter normal s))"]) (use block_comment in \<open>auto simp: scan_eqs\<close>)
  next
    case False
    then show ?thesis
      by (intro that [of "Some c" cs "if c = nl then next_line s else next_col s"]) (use block_comment in \<open>auto simp: scan_eqs\<close>)
  qed
next
  case line_comment
  then show ?thesis by (intro that [of "Some c" cs "if c = nl then next_line (enter normal s) else next_col s"]) (auto simp: scan_eqs)
next
  case string_literal
  then show ?thesis by (intro that [of "Some c" cs "literal_step dquote ''string'' c s"]) (auto simp: literal_grows scan_eqs)
next
  case char_literal
  then show ?thesis by (intro that [of "Some c" cs "literal_step squote ''char'' c s"]) (auto simp: literal_grows scan_eqs)
qed

lemma scan_grows: "sc_issues s \<noteq> [] \<Longrightarrow> sc_issues (scan prev rest s) \<noteq> []"
proof (induction "length rest" arbitrary: prev rest s rule: less_induct)
  case less
  show ?case
  proof (cases rest)
    case Nil
    then show ?thesis using less.prems by simp
  next
    case (Cons c cs)
    obtain p cs' s' where n: "scan prev (c # cs) s = scan p cs' s'" "length cs' \<le> length cs"
      "sc_issues s \<noteq> [] \<Longrightarrow> sc_issues s' \<noteq> []" by (rule scan_next [where prev = prev and c = c and cs = cs and s = s]) (rule that, assumption+)
    then have "sc_issues (scan p cs' s') \<noteq> []" using less.prems Cons by (intro less.hyps) auto
    then show ?thesis unfolding Cons n(1) .
  qed
qed

lemma fold_unterminated: "sc_issues (fold unterminated fs s) = [] \<longleftrightarrow> sc_issues s = [] \<and> fs = []"
  by (induction fs arbitrary: s) (auto simp: unterminated_def)

lemma post_grows: "sc_issues s \<noteq> [] \<Longrightarrow> sc_issues (post_scan s) \<noteq> []"
  by (auto simp: post_scan_def Let_def fold_unterminated split: CharClass.split)

lemma post_verdict: "sc_issues s = [] \<Longrightarrow> sc_issues (post_scan s) = [] \<longleftrightarrow> verdict s []"
  by (auto simp: post_scan_def Let_def verdict_def fold_unterminated split: CharClass.split)

lemma literal_verdict:
  assumes "sc_issues s = []"
  shows "sc_state s = string_literal \<Longrightarrow> verdict s (c # cs) \<longleftrightarrow>
      sc_issues (literal_step dquote ''string'' c s) = [] \<and> verdict (literal_step dquote ''string'' c s) cs"
    and "sc_state s = char_literal \<Longrightarrow> verdict s (c # cs) \<longleftrightarrow>
      sc_issues (literal_step squote ''char'' c s) = [] \<and> verdict (literal_step squote ''char'' c s) cs"
  using assms by (auto simp: literal_step_def verdict_def)

text \<open>In the normal state, apart from the double semicolon.\<close>

lemma delims_distinct:
  "is_open c \<Longrightarrow> c \<noteq> dquote \<and> c \<noteq> squote \<and> c \<noteq> CHR ''/'' \<and> \<not> is_close c"
  "is_close c \<Longrightarrow> c \<noteq> dquote \<and> c \<noteq> squote \<and> c \<noteq> CHR ''/'' \<and> \<not> is_open c"
  by (auto simp: is_open_def is_close_def)

definition doubled :: "char \<Rightarrow> string \<Rightarrow> bool" where
  "doubled c cs \<longleftrightarrow> c = CHR '';'' \<and> cs \<noteq> [] \<and> hd cs = CHR '';''"

lemma close_verdict:
  assumes "sc_issues s = []" "sc_state s = normal" "is_close c"
  shows "verdict s (c # cs) \<longleftrightarrow> sc_issues (close_step c s) = [] \<and> verdict (close_step c s) cs"
proof (cases "sc_stack s")
  case Nil
  then show ?thesis using assms delims_distinct(2) [OF assms(3)] by (auto simp: verdict_def close_step_def)
next
  case (Cons f fs)
  then show ?thesis using assms delims_distinct(2) [OF assms(3)] by (auto simp: verdict_def close_step_def)
qed

lemma normal_verdict:
  assumes s: "sc_issues s = []" "sc_state s = normal"
    and plain: "\<not> (c = CHR ''/'' \<and> cs \<noteq> [] \<and> (hd cs = CHR ''/'' \<or> hd cs = CHR ''*''))"
  shows "verdict s (c # cs) \<longleftrightarrow> (doubled c cs \<or> sc_issues (normal_step prev c cs s) = []) \<and> verdict (normal_step prev c cs s) cs"
proof -
  consider "c = dquote" | "c = squote" | "is_open c" | "is_close c"
    | "c \<noteq> dquote" "c \<noteq> squote" "\<not> is_open c" "\<not> is_close c" by blast
  then show ?thesis
  proof cases
    case 3
    then show ?thesis using s delims_distinct(1) [OF 3] by (auto simp: normal_step_def verdict_def)
  next
    case 4
    note d = delims_distinct(2) [OF 4]
    have "normal_step prev c cs s = next_col (close_step c s)" using d 4 by (simp add: normal_step_def)
    moreover have "\<not> doubled c cs" using 4 by (auto simp: doubled_def is_close_def)
    ultimately show ?thesis using close_verdict [OF s 4, of cs] by (simp add: verdict_def)
  next
    case 5
    have "sc_state (normal_step prev c cs s) = normal" "sc_stack (normal_step prev c cs s) = sc_stack s"
      "sc_backslash (normal_step prev c cs s) = sc_backslash s"
      "doubled c cs \<or> sc_issues (normal_step prev c cs s) = []"
      using 5 s by (simp_all add: normal_step_def semicolon_step_def doubled_def)
    moreover have "delimiters normal b (c # cs) = delimiters normal b cs" for b
      using 5 plain by (auto simp: is_open_def)
    ultimately show ?thesis using s by (simp add: verdict_def del: delimiters.simps)
  qed (use s in \<open>auto simp: normal_step_def verdict_def is_open_def doubled_def\<close>)
qed

lemma comment_verdict:
  assumes "sc_issues s = []"
  shows "sc_state s = line_comment \<Longrightarrow> verdict s (c # cs) \<longleftrightarrow> verdict (if c = nl then next_line (enter normal s) else next_col s) cs"
    and "sc_state s = block_comment \<Longrightarrow> verdict s (c # cs) \<longleftrightarrow>
      (if c = CHR ''*'' \<and> cs \<noteq> [] \<and> hd cs = CHR ''/'' then verdict (next_col (next_col (enter normal s))) (tl cs)
       else verdict (if c = nl then next_line s else next_col s) cs)"
    and "sc_state s = normal \<Longrightarrow> cs \<noteq> [] \<Longrightarrow> hd cs = CHR ''/'' \<Longrightarrow>
      verdict s (CHR ''/'' # cs) \<longleftrightarrow> verdict (next_col (next_col (enter line_comment s))) (tl cs)"
    and "sc_state s = normal \<Longrightarrow> cs \<noteq> [] \<Longrightarrow> hd cs = CHR ''*'' \<Longrightarrow>
      verdict s (CHR ''/'' # cs) \<longleftrightarrow> verdict (next_col (next_col (enter block_comment s))) (tl cs)"
  using assms by (simp_all add: verdict_def)

abbreviation final_issues :: "char option \<Rightarrow> string \<Rightarrow> Scanner \<Rightarrow> SyntaxIssue list" where
  "final_issues prev rest s \<equiv> sc_issues (post_scan (scan prev rest s))"

lemma final_grows: "sc_issues s \<noteq> [] \<Longrightarrow> final_issues prev rest s \<noteq> []"
  by (intro post_grows scan_grows)

text \<open>Whether a double semicolon occurs anywhere in the text.\<close>

fun has_doubled :: "string \<Rightarrow> bool" where
  "has_doubled [] = False"
| "has_doubled (c # cs) = (doubled c cs \<or> has_doubled cs)"

lemma has_doubled_tl: "\<not> has_doubled cs \<Longrightarrow> \<not> has_doubled (tl cs)"
  by (cases cs) simp_all

definition agrees :: "char option \<Rightarrow> string \<Rightarrow> Scanner \<Rightarrow> bool" where
  "agrees prev rest s \<longleftrightarrow> (final_issues prev rest s = [] \<longrightarrow> verdict s rest) \<and>
     (\<not> has_doubled rest \<longrightarrow> verdict s rest \<longrightarrow> final_issues prev rest s = [])"

text \<open>One step: the rest agrees unless the step itself reported something.\<close>

lemma agrees_step:
  assumes "scan prev (c # cs) s = scan prev' cs' s'" "sc_issues s' = [] \<Longrightarrow> agrees prev' cs' s'"
    "verdict s (c # cs) \<longleftrightarrow> (d \<or> sc_issues s' = []) \<and> verdict s' cs'" "d \<Longrightarrow> has_doubled (c # cs)"
    "\<not> has_doubled (c # cs) \<Longrightarrow> \<not> has_doubled cs'"
  shows "agrees prev (c # cs) s"
proof -
  have e: "final_issues prev (c # cs) s = final_issues prev' cs' s'" by (simp only: assms(1))
  show ?thesis
  proof (cases "sc_issues s' = []")
    case True
    then show ?thesis using assms(2) [OF True] assms(3-5) unfolding agrees_def e by blast
  next
    case False
    then have "final_issues prev' cs' s' \<noteq> []" by (rule final_grows)
    then show ?thesis using assms(3,4) False unfolding agrees_def e by blast
  qed
qed

lemma scan_agrees: "sc_issues s = [] \<Longrightarrow> agrees prev rest s"
proof (induction prev rest s rule: scan.induct)
  case (1 prev s)
  then show ?case by (simp add: agrees_def post_verdict)
next
  case (2 prev c cs s)
  note ih = "2.IH" and s = "2.prems"
  have tl': "\<not> has_doubled (c # cs) \<Longrightarrow> \<not> has_doubled (tl cs)" using has_doubled_tl [of cs] by simp
  show ?case
  proof (cases "sc_state s")
    case line_comment
    show ?thesis
      by (rule agrees_step [where d = False, OF scan_eqs(1) [OF line_comment] ih(4) [OF line_comment]])
        (use s comment_verdict(1) [OF s line_comment, of c cs] in simp_all)
  next
    case block_comment
    show ?thesis
    proof (cases "c = CHR ''*'' \<and> cs \<noteq> [] \<and> hd cs = CHR ''/''")
      case True
      show ?thesis
        by (rule agrees_step [where d = False, OF scan_eqs(2) [OF block_comment True] ih(5) [OF block_comment True] _ _ tl'])
          (use True s comment_verdict(2) [OF s block_comment, of c cs] in simp_all)
    next
      case False
      have "verdict s (c # cs) \<longleftrightarrow> verdict (if c = nl then next_line s else next_col s) cs"
        unfolding comment_verdict(2) [OF s block_comment, of c cs] if_not_P [OF False] ..
      then show ?thesis
        by (intro agrees_step [where d = False, OF scan_eqs(3) [OF block_comment False] ih(6) [OF block_comment False]])
          (use s in simp_all)
    qed
  next
    case string_literal
    show ?thesis
      by (rule agrees_step [where d = False, OF scan_eqs(4) [OF string_literal] ih(7) [OF string_literal]])
        (use literal_verdict(1) [OF s string_literal, of c cs] in simp_all)
  next
    case char_literal
    show ?thesis
      by (rule agrees_step [where d = False, OF scan_eqs(5) [OF char_literal] ih(8) [OF char_literal]])
        (use literal_verdict(2) [OF s char_literal, of c cs] in simp_all)
  next
    case normal
    show ?thesis
    proof (cases "c = CHR ''/'' \<and> cs \<noteq> [] \<and> hd cs = CHR ''/''")
      case slashes: True
      show ?thesis
        by (rule agrees_step [where d = False, OF scan_eqs(6) [OF normal slashes] ih(1) [OF normal slashes] _ _ tl'])
          (use slashes s comment_verdict(3) [OF s normal, of cs] in simp_all)
    next
      case no_slashes: False
      show ?thesis
      proof (cases "c = CHR ''/'' \<and> cs \<noteq> [] \<and> hd cs = CHR ''*''")
        case star: True
        show ?thesis
          by (rule agrees_step [where d = False, OF scan_eqs(7) [OF normal star] ih(2) [OF normal no_slashes star] _ _ tl'])
            (use star s comment_verdict(4) [OF s normal, of cs] in simp_all)
      next
        case no_star: False
        have "\<not> (c = CHR ''/'' \<and> cs \<noteq> [] \<and> (hd cs = CHR ''/'' \<or> hd cs = CHR ''*''))"
          using no_slashes no_star by blast
        note v = normal_verdict [OF s normal this, of prev]
        show ?thesis
          by (rule agrees_step [OF scan_eqs(8) [OF normal no_slashes no_star] ih(3) [OF normal no_slashes no_star] v]) simp_all
      qed
    qed
  qed
qed

lemma verdict_new: "verdict new_scanner content \<longleftrightarrow> (\<exists>ds. delimiters normal False content = Some ds \<and> balanced ds)"
  by (simp add: verdict_def new_scanner_def matches_iff_balanced)

text \<open>
  C32: a text the scanner passes without an issue has all its literals and block comments terminated, and its
  delimiters outside of them form a word of the bracket grammar; and the scanner passes every such text in
  which no two semicolons stand next to each other.
\<close>

theorem check_syntax_decides:
  "(check_syntax content = [] \<longrightarrow> (\<exists>ds. delimiters normal False content = Some ds \<and> balanced ds)) \<and>
   (\<not> has_doubled content \<and> (\<exists>ds. delimiters normal False content = Some ds \<and> balanced ds) \<longrightarrow> check_syntax content = [])"
  using scan_agrees [of new_scanner None content] verdict_new [of content]
  by (auto simp: agrees_def check_syntax_def new_scanner_def)

theorem check_syntax_decides_witness:
  "check_syntax ''f(a[0]) { // ) }'' \<noteq> [] \<and> check_syntax ''f(a[0]) { /* ) */ }'' = [] \<and>
   (\<exists>ds. delimiters normal False ''f(a[0]) { /* ) */ }'' = Some ds \<and> balanced ds)"
proof -
  have "check_syntax ''f(a[0]) { // ) }'' \<noteq> []" "check_syntax ''f(a[0]) { /* ) */ }'' = []"
    by (code_simp, code_simp)
  then show ?thesis using check_syntax_decides [of "''f(a[0]) { /* ) */ }''"] by blast
qed

section \<open>Limits\<close>

text \<open>
  The scanner does not look at the kind of file: a text file with an apostrophe is refused. And a line
  continuation inside a literal is not counted, so later positions are off by one line.
\<close>

lemma apostrophe_refused: "check_syntax (''don'' @ [squote] @ ''t'' @ [nl]) \<noteq> []"
  by code_simp

lemma continuation_line_lost:
  "map si_line (check_syntax ([dquote, bslash, nl, dquote, nl] @ '')'')) = [2]"
  by code_simp

end
