(* ===== verification/Verify_Gate.thy ===== *)
theory Verify_Gate
  imports Syntax_Check Patch Agent_States
begin

text \<open>
  The verification gate every write proposal passes (\<open>src/verify/gate.cpp\<close>) with its stages: syntax, symbols
  (\<open>symbols.cpp\<close>), impact (\<open>impact.cpp\<close>), diff (\<open>diff.cpp\<close>) and the informational test map (\<open>testmap.cpp\<close>),
  and the texts the agent gets back from a failure (\<open>src/agent/feedback.cpp\<close>). The symbol index is reached
  through function pointers; it is the record \<open>GraphIndex\<close>, whose members may be absent.
\<close>

section \<open>Data\<close>

datatype Stage = stage_syntax | stage_symbols | stage_impact | stage_diff | stage_testmap

record GateResult =
  gr_stage :: Stage
  gr_pass :: bool
  gr_err :: error_code
  gr_detail :: string
  gr_line :: u32
  gr_col :: u32
  gr_file :: string

record EditProposal =
  ep_tool_name :: string
  ep_args_json :: string
  ep_path :: string
  ep_before_content :: string
  ep_after_content :: string
  ep_patch_text :: string

record lookup_out =
  lo_err :: error_code
  lo_id :: int
  lo_name :: string
  lo_file :: string
  lo_line :: u32

record GraphIndex =
  gi_index :: bool
  gi_lookup :: "(string \<Rightarrow> string \<Rightarrow> lookup_out) option"
  gi_callers_of :: "(int \<Rightarrow> int list) option"

record verify_context =
  vc_workspace_root :: string
  vc_graph :: GraphIndex
  vc_mandatory_syntax :: bool
  vc_mandatory_symbols :: bool
  vc_mandatory_impact :: bool
  vc_mandatory_diff :: bool

datatype symbol_kind = undefined_ref | removed_def | wrong_arity

record SymbolIssue =
  yi_kind :: symbol_kind
  yi_name :: string
  yi_file :: string
  yi_line :: u32

record ImpactIssue =
  ii_caller_file :: string
  ii_caller_name :: string
  ii_detail :: string

record TestMapping =
  tm_test_file :: string
  tm_rationale :: string

definition gate_pass :: "Stage \<Rightarrow> GateResult" where
  "gate_pass s = \<lparr>gr_stage = s, gr_pass = True, gr_err = ok, gr_detail = [], gr_line = 0, gr_col = 0, gr_file = []\<rparr>"

definition gate_fail :: "Stage \<Rightarrow> error_code \<Rightarrow> string \<Rightarrow> string \<Rightarrow> u32 \<Rightarrow> u32 \<Rightarrow> GateResult" where
  "gate_fail s ec detail file line col =
     \<lparr>gr_stage = s, gr_pass = False, gr_err = ec, gr_detail = detail, gr_line = line, gr_col = col, gr_file = file\<rparr>"

section \<open>Symbols\<close>

definition keyword_list :: "string list" where
  "keyword_list = [''if'', ''else'', ''for'', ''while'', ''switch'', ''case'', ''return'', ''break'', ''continue'', ''goto'',
     ''do'', ''struct'', ''class'', ''enum'', ''union'', ''typedef'', ''namespace'', ''using'', ''import'', ''package'',
     ''func'', ''type'', ''var'', ''const'', ''fn'', ''pub'', ''mod'', ''try'', ''catch'', ''throw'', ''new'', ''delete'',
     ''sizeof'', ''typeof'', ''nullptr'', ''true'', ''false'', ''void'', ''char'', ''int'', ''float'', ''double'', ''long'',
     ''short'', ''unsigned'', ''signed'', ''auto'', ''register'', ''volatile'', ''constexpr'', ''static'', ''extern'',
     ''inline'', ''virtual'', ''override'', ''final'', ''template'', ''typename'', ''friend'', ''operator'', ''public'',
     ''private'', ''protected'', ''internal'']"

definition is_keyword :: "string \<Rightarrow> bool" where
  "is_keyword s \<longleftrightarrow> s \<in> set keyword_list"

definition is_alpha :: "char \<Rightarrow> bool" where
  "is_alpha c \<longleftrightarrow> 65 \<le> byte_val c \<and> byte_val c \<le> 90 \<or> 97 \<le> byte_val c \<and> byte_val c \<le> 122"

text \<open>The lines of a text, a last empty one dropped; the loops over \<open>rest.find('\n')\<close>.\<close>

function raw_lines :: "string \<Rightarrow> string list" where
  "raw_lines t = (if t = [] then [] else
     let line = takeWhile (\<lambda>c. c \<noteq> nl) t; rest = dropWhile (\<lambda>c. c \<noteq> nl) t
     in line # (case rest of [] \<Rightarrow> [] | _ # r \<Rightarrow> raw_lines r))"
  by pat_completeness auto
termination
  by (relation "measure length") (auto simp: length_dropWhile_tl)

declare raw_lines.simps [simp del]

definition at_column_0 :: "string \<Rightarrow> bool" where
  "at_column_0 line \<longleftrightarrow> line \<noteq> [] \<and> hd line \<notin> {sp, tab, CHR ''/'', CHR ''#'', CHR ''*'', bslash, CHR ''@''}"

text \<open>The identifier a line starts with; a digit counts only after the first character.\<close>

definition ident_prefix :: "string \<Rightarrow> string" where
  "ident_prefix line = (case line of
     [] \<Rightarrow> []
   | c # cs \<Rightarrow> if is_alpha c \<or> c = CHR ''_'' then c # takeWhile (\<lambda>d. is_alpha d \<or> d = CHR ''_'' \<or> is_digit d) cs else [])"

definition line_defs :: "string \<Rightarrow> string list" where
  "line_defs line = (if at_column_0 line \<and> length (ident_prefix line) > 1 then [ident_prefix line] else [])"

definition extract_defs :: "string \<Rightarrow> string list" where
  "extract_defs content = filter (\<lambda>n. \<not> is_keyword n) (concat (map line_defs (raw_lines content)))"

definition symbol_issue :: "GraphIndex \<Rightarrow> EditProposal \<Rightarrow> string list \<Rightarrow> string \<Rightarrow> SymbolIssue list" where
  "symbol_issue g p after_defs bd = (case gi_lookup g of
     None \<Rightarrow> []
   | Some lookup \<Rightarrow>
       if bd \<in> set after_defs then []
       else (let r = lookup bd (ep_path p) in
         if is_ok (lo_err r) \<and> lo_id r \<noteq> 0 \<and> (case gi_callers_of g of Some callers \<Rightarrow> callers (lo_id r) \<noteq> [] | None \<Rightarrow> False)
         then [\<lparr>yi_kind = removed_def, yi_name = bd, yi_file = ep_path p, yi_line = 0\<rparr>] else []))"

definition check_symbols :: "EditProposal \<Rightarrow> GraphIndex \<Rightarrow> SymbolIssue list" where
  "check_symbols p g =
     (if \<not> gi_index g \<or> gi_lookup g = None then []
      else concat (map (symbol_issue g p (extract_defs (ep_after_content p))) (extract_defs (ep_before_content p))))"

section \<open>Impact\<close>

definition defs_of :: "string \<Rightarrow> string list" where
  "defs_of content = concat (map line_defs (raw_lines content))"

definition impact_issue :: "(string \<Rightarrow> string \<Rightarrow> lookup_out) \<Rightarrow> (int \<Rightarrow> int list) \<Rightarrow> EditProposal \<Rightarrow> string \<Rightarrow> ImpactIssue list" where
  "impact_issue lookup callers p name =
     (let i = lo_id (lookup name (ep_path p)) in
      if i = 0 then []
      else concat (map (\<lambda>caller_id. let c = lookup [] [] in
        if is_ok (lo_err c) \<and> lo_file c \<noteq> [] then
          [\<lparr>ii_caller_file = lo_file c,
             ii_caller_name = (if lo_name c = [] then ''sym#'' @ show_int caller_id else lo_name c),
             ii_detail = ''change removes '' @ [squote] @ name @ [squote] @ '' which is called from '' @ lo_file c\<rparr>]
        else []) (callers i)))"

definition check_impact :: "EditProposal \<Rightarrow> GraphIndex \<Rightarrow> ImpactIssue list" where
  "check_impact p g = (case (gi_lookup g, gi_callers_of g) of
     (Some lookup, Some callers) \<Rightarrow>
       (if \<not> gi_index g then []
        else concat (map (impact_issue lookup callers p)
          (filter (\<lambda>n. n \<notin> set (defs_of (ep_after_content p))) (defs_of (ep_before_content p)))))
   | _ \<Rightarrow> [])"

section \<open>Diff\<close>

definition nth_line :: "string list \<Rightarrow> nat \<Rightarrow> string" where
  "nth_line ls i = (if i < length ls then ls ! i else [])"

definition count_changed_lines :: "string \<Rightarrow> string \<Rightarrow> nat" where
  "count_changed_lines a b =
     (let la = raw_lines a; lb = raw_lines b
      in length (filter (\<lambda>i. nth_line la i \<noteq> nth_line lb i) [0..<max (length la) (length lb)]))"

text \<open>
  \<open>changed > after_lines * 0.8\<close> on doubles, for fewer than 20 lines, is exactly \<open>5 * changed > 4 * after_lines\<close>.
\<close>

definition large_fraction :: "EditProposal \<Rightarrow> string list" where
  "large_fraction p =
     (let after_lines = length (raw_lines (ep_after_content p)) in
      if after_lines < 20 \<and> ep_before_content p \<noteq> [] then
        (let changed = count_changed_lines (ep_before_content p) (ep_after_content p) in
         if 5 * changed > 4 * after_lines \<and> after_lines > 2 then
           [''large fraction of lines changed ('' @ show_nat changed @ ''/'' @ show_nat after_lines @
            '') -- may be unrelated reformatting''] else [])
      else [])"

definition check_diff :: "EditProposal \<Rightarrow> string list" where
  "check_diff p =
     (if ep_patch_text p \<noteq> [] then
        (case apply_patch (parse (ep_patch_text p)) (ep_before_content p) of
           Inl c \<Rightarrow> [''patch does not apply cleanly (context mismatch)'']
         | Inr applied \<Rightarrow>
             if applied \<noteq> ep_after_content p then [''patch applied but result differs from expected after_content'']
             else large_fraction p)
      else if ep_after_content p = ep_before_content p then [''edit produces no change'']
      else large_fraction p)"

section \<open>Test map\<close>

definition base_name :: "string \<Rightarrow> string" where
  "base_name path = (case rfind_char (CHR ''/'') path of None \<Rightarrow> path | Some i \<Rightarrow> drop (i + 1) path)"

definition strip_ext :: "string \<Rightarrow> string" where
  "strip_ext name = (case rfind_char (CHR ''.'') name of None \<Rightarrow> name | Some i \<Rightarrow> take i name)"

definition map_tests :: "EditProposal \<Rightarrow> TestMapping list" where
  "map_tests p =
     (let base = base_name (ep_path p); stem = strip_ext base in
      [\<lparr>tm_test_file = ''tests/'' @ stem @ ''_test.cpp'', tm_rationale = ''naming convention: '' @ stem @ ''_test''\<rparr>,
       \<lparr>tm_test_file = ''tests/test_'' @ stem @ ''.cpp'', tm_rationale = ''naming convention: test_'' @ stem\<rparr>]
      @ (if ends_with base ''_test.cpp'' \<or> ends_with base ''_test.c'' \<or> ends_with base ''.test.js'' \<or> ends_with base ''.test.ts''
         then [\<lparr>tm_test_file = ep_path p, tm_rationale = ''edited file is a test''\<rparr>] else []))"

section \<open>Stages\<close>

definition check_syntax_stage :: "EditProposal \<Rightarrow> GateResult" where
  "check_syntax_stage p = (case check_syntax (ep_after_content p) of
     [] \<Rightarrow> gate_pass stage_syntax
   | worst # _ \<Rightarrow> gate_fail stage_syntax (make_error e_verify_fail) (si_msg worst) (ep_path p) (si_line worst) (si_col worst))"

fun kind_text :: "symbol_kind \<Rightarrow> string" where
  "kind_text undefined_ref = ''undefined reference''"
| "kind_text removed_def = ''removed definition still referenced''"
| "kind_text wrong_arity = ''wrong arity''"

definition check_symbols_stage :: "EditProposal \<Rightarrow> verify_context \<Rightarrow> GateResult" where
  "check_symbols_stage p vctx = (case check_symbols p (vc_graph vctx) of
     [] \<Rightarrow> gate_pass stage_symbols
   | worst # _ \<Rightarrow> gate_fail stage_symbols (make_error e_verify_fail)
       (kind_text (yi_kind worst) @ '' '' @ [squote] @ yi_name worst @ [squote])
       (if yi_file worst = [] then ep_path p else yi_file worst) (yi_line worst) 0)"

definition check_impact_stage :: "EditProposal \<Rightarrow> verify_context \<Rightarrow> GateResult" where
  "check_impact_stage p vctx = (case check_impact p (vc_graph vctx) of
     [] \<Rightarrow> gate_pass stage_impact
   | worst # _ \<Rightarrow> gate_fail stage_impact (make_error e_verify_fail) (ii_detail worst) (ep_path p) 0 0)"

definition check_diff_stage :: "EditProposal \<Rightarrow> GateResult" where
  "check_diff_stage p = (case check_diff p of
     [] \<Rightarrow> gate_pass stage_diff
   | d # _ \<Rightarrow> gate_fail stage_diff (make_error e_verify_fail) d (ep_path p) 0 0)"

definition check_testmap_stage :: "EditProposal \<Rightarrow> GateResult" where
  "check_testmap_stage p = (let mappings = map_tests p in gate_pass stage_testmap)"

fun run_stage :: "Stage \<Rightarrow> EditProposal \<Rightarrow> verify_context \<Rightarrow> GateResult" where
  "run_stage stage_syntax p vctx = check_syntax_stage p"
| "run_stage stage_symbols p vctx = check_symbols_stage p vctx"
| "run_stage stage_impact p vctx = check_impact_stage p vctx"
| "run_stage stage_diff p vctx = check_diff_stage p"
| "run_stage stage_testmap p vctx = check_testmap_stage p"

fun mandatory :: "verify_context \<Rightarrow> Stage \<Rightarrow> bool" where
  "mandatory vctx stage_syntax = vc_mandatory_syntax vctx"
| "mandatory vctx stage_symbols = vc_mandatory_symbols vctx"
| "mandatory vctx stage_impact = vc_mandatory_impact vctx"
| "mandatory vctx stage_diff = vc_mandatory_diff vctx"
| "mandatory vctx stage_testmap = False"

definition stage_order :: "Stage list" where
  "stage_order = [stage_syntax, stage_symbols, stage_impact, stage_diff, stage_testmap]"

fun run_stages :: "Stage list \<Rightarrow> EditProposal \<Rightarrow> verify_context \<Rightarrow> GateResult list" where
  "run_stages [] p vctx = []"
| "run_stages (s # ss) p vctx =
     (let r = run_stage s p vctx in if \<not> gr_pass r \<and> mandatory vctx s then [r] else r # run_stages ss p vctx)"

definition run_all :: "EditProposal \<Rightarrow> verify_context \<Rightarrow> GateResult list" where
  "run_all p vctx = run_stages stage_order p vctx"

definition run_syntax :: "string \<Rightarrow> string \<Rightarrow> GateResult" where
  "run_syntax content file = (case check_syntax content of
     [] \<Rightarrow> gate_pass stage_syntax
   | worst # _ \<Rightarrow> gate_fail stage_syntax (make_error e_verify_fail) (si_msg worst) file (si_line worst) (si_col worst))"

section \<open>Feedback\<close>

fun stage_name :: "Stage \<Rightarrow> string" where
  "stage_name stage_syntax = ''syntax''"
| "stage_name stage_symbols = ''symbols''"
| "stage_name stage_impact = ''impact''"
| "stage_name stage_diff = ''diff''"
| "stage_name stage_testmap = ''testmap''"

record VerifyFeedback =
  vf_stage :: Stage
  vf_file :: string
  vf_message :: string
  vf_line :: u32
  vf_col :: u32

definition gate_feedback_text :: "GateResult \<Rightarrow> string" where
  "gate_feedback_text r = ''verify '' @ stage_name (gr_stage r)
     @ (if gr_file r \<noteq> [] then '' '' @ [squote] @ gr_file r @ [squote] else [])
     @ (if gr_line r \<noteq> 0 then '':'' @ show_nat (unat (gr_line r)) else [])
     @ (if gr_col r \<noteq> 0 then '':'' @ show_nat (unat (gr_col r)) else [])
     @ (if gr_detail r \<noteq> [] then '': '' @ gr_detail r else [])"

definition to_feedback :: "GateResult \<Rightarrow> VerifyFeedback" where
  "to_feedback r = \<lparr>vf_stage = gr_stage r, vf_file = gr_file r, vf_message = gate_feedback_text r,
     vf_line = gr_line r, vf_col = gr_col r\<rparr>"

definition feedback_key :: "VerifyFeedback \<Rightarrow> string" where
  "feedback_key fb = stage_name (vf_stage fb) @ '':'' @ vf_file fb @ '':'' @ show_nat (unat (vf_line fb))"

section \<open>What a passed gate means\<close>

lemma gate_results [simp]:
  "gr_pass (gate_pass s)" "\<not> gr_pass (gate_fail s ec d f l c)" "gr_stage (gate_pass s) = s" "gr_stage (gate_fail s ec d f l c) = s"
  by (simp_all add: gate_pass_def gate_fail_def)

lemma stage_passes:
  "gr_pass (run_stage stage_syntax p vctx) \<longleftrightarrow> check_syntax (ep_after_content p) = []"
  "gr_pass (run_stage stage_symbols p vctx) \<longleftrightarrow> check_symbols p (vc_graph vctx) = []"
  "gr_pass (run_stage stage_impact p vctx) \<longleftrightarrow> check_impact p (vc_graph vctx) = []"
  "gr_pass (run_stage stage_diff p vctx) \<longleftrightarrow> check_diff p = []"
  "gr_pass (run_stage stage_testmap p vctx)"
  by (simp_all add: check_syntax_stage_def check_symbols_stage_def check_impact_stage_def check_diff_stage_def
      check_testmap_stage_def split: list.split)

lemma stage_labels: "gr_stage (run_stage s p vctx) = s"
  by (cases s) (simp_all add: check_syntax_stage_def check_symbols_stage_def check_impact_stage_def check_diff_stage_def
      check_testmap_stage_def split: list.split)

lemma run_stages_all_pass: "list_all gr_pass (run_stages ss p vctx) \<longleftrightarrow> list_all (\<lambda>s. gr_pass (run_stage s p vctx)) ss"
  by (induction ss) (auto simp: Let_def)

lemma run_stages_prefix: "prefix (map gr_stage (run_stages ss p vctx)) ss"
  by (induction ss) (auto simp: Let_def stage_labels)

lemma run_all_pass_iff:
  "list_all gr_pass (run_all p vctx) \<longleftrightarrow> check_syntax (ep_after_content p) = [] \<and> check_symbols p (vc_graph vctx) = [] \<and>
     check_impact p (vc_graph vctx) = [] \<and> check_diff p = []"
  unfolding run_all_def run_stages_all_pass stage_order_def by (simp add: stage_passes del: run_stage.simps)

lemma run_stages_stop:
  "map gr_pass (run_stages ss p vctx) = map (\<lambda>s. gr_pass (run_stage s p vctx)) (take (length (run_stages ss p vctx)) ss) \<and>
   (length (run_stages ss p vctx) < length ss \<longrightarrow>
     (\<exists>s. ss ! (length (run_stages ss p vctx) - 1) = s \<and> mandatory vctx s \<and> \<not> gr_pass (run_stage s p vctx)))"
proof (induction ss)
  case (Cons s ss)
  show ?case
  proof (cases "\<not> gr_pass (run_stage s p vctx) \<and> mandatory vctx s")
    case True
    then show ?thesis by (simp add: Let_def)
  next
    case False
    then have r: "run_stages (s # ss) p vctx = run_stage s p vctx # run_stages ss p vctx" by (auto simp: Let_def)
    show ?thesis
    proof (cases "run_stages ss p vctx")
      case Nil
      then show ?thesis using Cons r by (cases ss) (auto simp: Let_def split: if_splits)
    next
      case (Cons x xs)
      then show ?thesis using Cons.IH r by simp
    qed
  qed
qed simp


section \<open>Limits of the stages\<close>

text \<open>
  Lines are compared by position, so putting one line on top of a short file counts every line as changed and
  the edit is refused.
\<close>

lemma insert_on_top_refused:
  "check_diff \<lparr>ep_tool_name = ''file.write'', ep_args_json = [], ep_path = ''a.c'',
     ep_before_content = ''a'' @ [nl] @ ''b'' @ [nl] @ ''c'' @ [nl],
     ep_after_content = ''x'' @ [nl] @ ''a'' @ [nl] @ ''b'' @ [nl] @ ''c'' @ [nl], ep_patch_text = []\<rparr> \<noteq> []"
  by (simp add: check_diff_def large_fraction_def count_changed_lines_def raw_lines.simps Let_def nth_line_def)

text \<open>
  The impact stage looks its callers up under the empty name, not by their ids: an index that knows no such
  symbol never reports an impact, however many callers the removed definition has.
\<close>

lemma impact_blind:
  assumes "\<not> is_ok (lo_err (lookup [] []))"
  shows "impact_issue lookup callers p name = []"
  using assms by (simp add: impact_issue_def Let_def)

end
