(* ===== verification/Intent.thy ===== *)
theory Intent
  imports Text_Util
begin

text \<open>
  Stage one of the agent's pipeline: the intent classifier (\<open>src/agent/intent.h\<close>, \<open>src/agent/intent.cpp\<close>). The
  word matcher jumps over a rejected match by its whole length; the theory shows that for the phrases of the
  classifier's tables nothing is missed by that, and reads the classifier back as its priority list.
\<close>

section \<open>Plans\<close>

datatype Intent = int_unknown | int_ask | int_explain | int_edit | int_refactor | int_bugfix | int_test
  | int_shell | int_explore | int_meta

fun intent_str :: "Intent \<Rightarrow> string" where
  "intent_str int_unknown = ''unknown''"
| "intent_str int_ask = ''ask''"
| "intent_str int_explain = ''explain''"
| "intent_str int_edit = ''edit''"
| "intent_str int_refactor = ''refactor''"
| "intent_str int_bugfix = ''bugfix''"
| "intent_str int_test = ''test''"
| "intent_str int_shell = ''shell''"
| "intent_str int_explore = ''explore''"
| "intent_str int_meta = ''meta''"

record IntentPlan =
  pl_intent :: Intent
  affected_paths :: "string list"
  budget_profile :: string
  wants_tools :: bool
  write_allowed :: bool

section \<open>Words\<close>

definition left_ok :: "string \<Rightarrow> nat \<Rightarrow> bool" where
  "left_ok hay q \<longleftrightarrow> q = 0 \<or> is_space (hay ! (q - 1))"

definition right_ok :: "string \<Rightarrow> nat \<Rightarrow> bool" where
  "right_ok hay e \<longleftrightarrow> e = length hay \<or> is_space (hay ! e) \<or> hay ! e \<in> set '',.?!''"

text \<open>
  The matcher's loop. It is only instantiated with the non-empty literals of the tables below; on an empty
  word, for which the C++ loop would not advance, the model gives no match.
\<close>

function has_word_from :: "string \<Rightarrow> string \<Rightarrow> nat \<Rightarrow> bool" where
  "has_word_from hay word pos =
     (if word = [] then False
      else case find_sub_from word hay pos of
        None \<Rightarrow> False
      | Some p \<Rightarrow>
          (if left_ok hay p \<and> right_ok hay (p + length word) then True
           else has_word_from hay word (p + length word)))"
  by pat_completeness auto
termination
proof (relation "measure (\<lambda>(hay, word, pos). Suc (length hay) - pos)", goal_cases)
  case (2 hay word pos p)
  then have "pos \<le> p" "p + length word \<le> length hay" "0 < length word"
    using find_sub_from_SomeD [of word hay pos p] by auto
  then have "Suc (length hay) - (p + length word) < Suc (length hay) - pos" by linarith
  then show ?case by simp
qed simp

declare has_word_from.simps [simp del]

definition has_word :: "string \<Rightarrow> string \<Rightarrow> bool" where
  "has_word hay word = has_word_from hay word 0"

definition has_any :: "string \<Rightarrow> string list \<Rightarrow> bool" where
  "has_any hay ws = list_ex (has_word hay) ws"

section \<open>Paths\<close>

definition kExts :: "string list" where
  "kExts = [''c'', ''cc'', ''cpp'', ''cxx'', ''h'', ''hh'', ''hpp'', ''hxx'', ''py'', ''rs'', ''go'',
     ''js'', ''ts'', ''json'', ''toml'', ''yaml'', ''yml'', ''md'', ''txt'', ''sh'', ''cmake'']"

definition is_path_ext :: "string \<Rightarrow> bool" where
  "is_path_ext token = (case rfind_char (CHR ''.'') token of
     None \<Rightarrow> False
   | Some d \<Rightarrow> if d = 0 then False else drop (d + 1) token \<in> set kExts)"

definition looks_pathy :: "string \<Rightarrow> bool" where
  "looks_pathy token \<longleftrightarrow> CHR ''/'' \<in> set token \<or> bslash \<in> set token \<or> is_path_ext token"

definition is_sep :: "char \<Rightarrow> bool" where
  "is_sep c \<longleftrightarrow> is_space c \<or> c = CHR '','' \<or> c = CHR '';''"

definition strip_token :: "string \<Rightarrow> string" where
  "strip_token tok =
     (let t = rev (dropWhile (\<lambda>c. c \<in> set ''.?!)'') (rev tok))
      in if length t \<ge> 2 \<and> hd t = dquote \<and> last t = dquote then butlast (tl t) else t)"

function path_hints :: "string \<Rightarrow> string list \<Rightarrow> string list" where
  "path_hints s out =
     (if s = [] then out
      else let s1 = dropWhile is_sep s;
               tok = takeWhile (\<lambda>c. \<not> is_sep c) s1;
               rest = drop 1 (dropWhile (\<lambda>c. \<not> is_sep c) s1);
               t = strip_token tok
           in path_hints rest (if tok \<noteq> [] \<and> looks_pathy t \<and> t \<notin> set out then out @ [t] else out))"
  by pat_completeness auto
termination
proof (relation "measure (length \<circ> fst)", goal_cases)
  case (2 s out s1 tok rest t)
  have "length s1 \<le> length s" "length (dropWhile (\<lambda>c. \<not> is_sep c) s1) \<le> length s1"
    unfolding 2 by (simp_all add: length_dropWhile_le)
  with 2 show ?case by (cases s) auto
qed simp

declare path_hints.simps [simp del]

definition extract_path_hints :: "string \<Rightarrow> string list" where
  "extract_path_hints m = path_hints m []"

section \<open>Classification\<close>

definition kMeta :: "string list" where
  "kMeta = [''remember'', ''note that'', ''add a rule'', ''remember this rule'']"

definition kShell :: "string list" where
  "kShell = [''run'', ''execute'', ''shell'', ''command'', ''compile'', ''build it'', ''run the tests'', ''make it run'']"

definition kTest :: "string list" where
  "kTest = [''add tests'', ''write a test'', ''write tests'', ''unit test'', ''fix the test'', ''add a test'',
     ''test suite'', ''test it'']"

definition kBugfix :: "string list" where
  "kBugfix = [''bug'', ''crash'', ''segfault'', ''broken'', ''fails'', ''failing'', ''doesn'' @ squote # ''t work'',
     ''does not work'', ''wrong output'', ''fix'']"

definition kRefactor :: "string list" where
  "kRefactor = [''refactor'', ''restructure'', ''rename'', ''clean up'', ''cleanup'', ''simplify'', ''extract'',
     ''reorganize'', ''tidy'']"

definition kExplore :: "string list" where
  "kExplore = [''explore'', ''find'', ''search'', ''where is'', ''show me'', ''list'', ''discover'', ''inspect'',
     ''look at'', ''show'']"

definition kExplain :: "string list" where
  "kExplain = [''explain'', ''describe'', ''walk me through'', ''clarify'', ''what does this'', ''what does the'',
     ''why does'', ''how does'']"

definition kAsk :: "string list" where
  "kAsk = [''what is'', ''what'' @ squote # ''s'', ''how do i'', ''how do you'', ''can you tell me'', ''question'', ''why is'']"

definition kEdit :: "string list" where
  "kEdit = [''edit'', ''change'', ''modify'', ''update'', ''rewrite'', ''write'', ''add'', ''remove'', ''delete'',
     ''implement'', ''create'']"

definition minimal_plan :: "Intent \<Rightarrow> string list \<Rightarrow> IntentPlan" where
  "minimal_plan i ps = \<lparr>pl_intent = i, affected_paths = ps, budget_profile = ''minimal'', wants_tools = False, write_allowed = False\<rparr>"

definition read_plan :: "Intent \<Rightarrow> string list \<Rightarrow> IntentPlan" where
  "read_plan i ps = \<lparr>pl_intent = i, affected_paths = ps, budget_profile = ''read'', wants_tools = True, write_allowed = False\<rparr>"

definition edit_plan :: "Intent \<Rightarrow> string list \<Rightarrow> IntentPlan" where
  "edit_plan i ps = \<lparr>pl_intent = i, affected_paths = ps, budget_profile = ''edit'', wants_tools = True, write_allowed = True\<rparr>"

definition classify_intent :: "string \<Rightarrow> IntentPlan" where
  "classify_intent user_message =
     (let m = to_lower user_message; ps = extract_path_hints user_message in
      if has_any m kMeta then minimal_plan int_meta ps
      else if has_any m kShell then edit_plan int_shell ps
      else if has_any m kTest then edit_plan int_test ps
      else if has_any m kBugfix then edit_plan int_bugfix ps
      else if has_any m kRefactor then edit_plan int_refactor ps
      else if has_any m kExplore then read_plan int_explore ps
      else if has_any m kExplain then minimal_plan int_explain ps
      else if has_any m kAsk \<or> find_char (CHR ''?'') m \<noteq> None then minimal_plan int_ask ps
      else if has_any m kEdit then edit_plan int_edit ps
      else if ps \<noteq> [] then edit_plan int_edit ps
      else minimal_plan int_unknown ps)"

section \<open>The matcher finds every delimited phrase\<close>

text \<open>A phrase stands at \<open>q\<close> as a word of its own.\<close>

definition word_at :: "string \<Rightarrow> string \<Rightarrow> nat \<Rightarrow> bool" where
  "word_at hay w q \<longleftrightarrow> prefix w (drop q hay) \<and> left_ok hay q \<and> right_ok hay (q + length w)"

definition says :: "string \<Rightarrow> string list \<Rightarrow> bool" where
  "says hay ws \<longleftrightarrow> (\<exists>w \<in> set ws. \<exists>q \<le> length hay. word_at hay w q)"

text \<open>
  Jumping over a match of \<open>w\<close> can only skip another occurrence that begins inside it, behind a blank of \<open>w\<close>.
\<close>

definition no_restart :: "string \<Rightarrow> bool" where
  "no_restart w \<longleftrightarrow> w \<noteq> [] \<and>
     list_all (\<lambda>k. is_space (w ! (k - 1)) \<longrightarrow> \<not> prefix (drop k w) w) [1..<length w]"

lemma word_at_inside:
  assumes "prefix w (drop p hay)" "word_at hay w q" "p < q" "q < p + length w"
  shows "\<not> no_restart w"
proof -
  define k where "k = q - p"
  have k: "0 < k" "k < length w" "q = p + k" using assms(3,4) by (auto simp: k_def)
  obtain t where t: "drop p hay = w @ t" using assms(1) by (auto simp: prefix_def)
  then have ne: "p < length hay" using k by (metis drop_all append_is_Nil_conv length_0_conv not_le less_nat_zero_code)
  have "drop q hay = drop k (w @ t)" using k(3) t by (metis add.commute drop_drop)
  then have dq: "drop q hay = drop k w @ t" using k(2) by simp
  have "prefix w (drop k w @ t)" using assms(2) dq by (simp add: word_at_def)
  moreover have "prefix (drop k w) (drop k w @ t)" by simp
  ultimately have pre: "prefix (drop k w) w" by (metis diff_le_self length_drop prefix_length_prefix)
  have "hay ! (q - 1) = drop p hay ! (k - 1)" using k ne by (simp add: nth_drop)
  then have "hay ! (q - 1) = w ! (k - 1)" using t k by (simp add: nth_append less_imp_diff_less)
  then have "is_space (w ! (k - 1))" using assms(2,3) by (auto simp: word_at_def left_ok_def)
  with pre k show ?thesis by (auto simp: no_restart_def list_all_iff)
qed

lemma has_word_from_iff:
  assumes "no_restart w"
  shows "has_word_from hay w pos \<longleftrightarrow> (\<exists>q \<ge> pos. q \<le> length hay \<and> word_at hay w q)"
  using assms
proof (induction hay w pos rule: has_word_from.induct)
  case (1 hay w pos)
  have ne: "w \<noteq> []" using "1.prems" by (simp add: no_restart_def)
  show ?case
  proof (cases "find_sub_from w hay pos")
    case None
    then have "\<not> prefix w (drop q hay)" if "pos \<le> q" "q \<le> length hay" for q
      using that by (rule find_sub_from_None)
    moreover have "\<not> has_word_from hay w pos" using None by (subst has_word_from.simps) auto
    ultimately show ?thesis by (auto simp: word_at_def)
  next
    case (Some p)
    note p = find_sub_from_SomeD [OF Some]
    show ?thesis
    proof (cases "left_ok hay p \<and> right_ok hay (p + length w)")
      case True
      then have "word_at hay w p" using p by (simp add: word_at_def)
      moreover have "has_word_from hay w pos" using True Some ne by (subst has_word_from.simps) auto
      moreover have "pos \<le> p" "p \<le> length hay" using p by simp_all
      ultimately show ?thesis by blast
    next
      case False
      have IH: "has_word_from hay w (p + length w) \<longleftrightarrow> (\<exists>q \<ge> p + length w. q \<le> length hay \<and> word_at hay w q)"
        using "1.IH" [OF ne Some False] "1.prems" by blast
      have "q \<ge> p + length w" if q: "pos \<le> q" "q \<le> length hay" "word_at hay w q" for q
      proof (rule ccontr)
        assume "\<not> p + length w \<le> q"
        moreover have "p \<le> q" using find_sub_from_first [OF Some] q by (auto simp: word_at_def not_le [symmetric])
        moreover have "q \<noteq> p" using False q(3) by (auto simp: word_at_def)
        ultimately show False using word_at_inside [of w p hay q] p q(3) "1.prems" by simp
      qed
      moreover have "has_word_from hay w pos = has_word_from hay w (p + length w)"
        using Some False ne by (subst has_word_from.simps) auto
      moreover have "pos \<le> p + length w" using p by simp
      ultimately show ?thesis using IH by (meson le_trans)
    qed
  qed
qed

lemma has_any_says:
  assumes "list_all no_restart ws"
  shows "has_any hay ws \<longleftrightarrow> says hay ws"
  using assms by (auto simp: has_any_def says_def has_word_def has_word_from_iff list_all_iff list_ex_iff)

lemmas keyword_tables = kMeta_def kShell_def kTest_def kBugfix_def kRefactor_def kExplore_def kExplain_def kAsk_def kEdit_def

lemma tables_no_restart:
  "list_all (list_all no_restart) [kMeta, kShell, kTest, kBugfix, kRefactor, kExplore, kExplain, kAsk, kEdit]"
  by code_simp

lemma tables_says: "ws \<in> {kMeta, kShell, kTest, kBugfix, kRefactor, kExplore, kExplain, kAsk, kEdit} \<Longrightarrow> has_any hay ws \<longleftrightarrow> says hay ws"
  using tables_no_restart by (intro has_any_says) auto

lemma strip_token_sublist: "sublist (strip_token tok) tok"
proof -
  define t where "t = rev (dropWhile (\<lambda>c. c \<in> set ''.?!)'') (rev tok))"
  have "prefix t tok" unfolding t_def by (metis rev_rev_ident suffix_dropWhile suffix_to_prefix)
  moreover have "sublist (butlast (tl t)) t"
    by (metis prefix_imp_sublist prefixeq_butlast sublist_order.order.trans sublist_tl)
  ultimately show ?thesis unfolding strip_token_def Let_def t_def [symmetric]
    by (auto dest: prefix_imp_sublist intro: sublist_order.order.trans)
qed

lemma path_hints_inv:
  assumes "distinct out" "list_all looks_pathy out" "\<forall>p \<in> set out. sublist p m" "suffix s m"
  shows "distinct (path_hints s out) \<and> list_all looks_pathy (path_hints s out) \<and> (\<forall>p \<in> set (path_hints s out). sublist p m)"
  using assms
proof (induction s out rule: path_hints.induct)
  case (1 s out)
  show ?case
  proof (cases "s = []")
    case False
    define s1 where "s1 = dropWhile is_sep s"
    define tok where "tok = takeWhile (\<lambda>c. \<not> is_sep c) s1"
    define rest where "rest = drop 1 (dropWhile (\<lambda>c. \<not> is_sep c) s1)"
    define t where "t = strip_token tok"
    define out' where "out' = (if tok \<noteq> [] \<and> looks_pathy t \<and> t \<notin> set out then out @ [t] else out)"
    have s1: "suffix s1 m" unfolding s1_def using "1.prems"(4) suffix_dropWhile suffix_order.trans by blast
    have "suffix rest s1" unfolding rest_def using suffix_drop suffix_dropWhile suffix_order.trans by blast
    then have rest: "suffix rest m" using s1 suffix_order.trans by blast
    have "prefix tok s1" unfolding tok_def by (rule takeWhile_is_prefix)
    then have tok: "sublist tok m" using s1 by (meson prefix_imp_sublist suffix_imp_sublist sublist_order.order.trans)
    have "sublist t tok" unfolding t_def by (rule strip_token_sublist)
    then have "\<forall>p \<in> set out'. sublist p m" using "1.prems"(3) tok by (auto simp: out'_def intro: sublist_order.order.trans)
    moreover have "distinct out'" "list_all looks_pathy out'" using "1.prems"(1,2) by (auto simp: out'_def)
    ultimately have "distinct (path_hints rest out') \<and> list_all looks_pathy (path_hints rest out') \<and>
        (\<forall>p \<in> set (path_hints rest out'). sublist p m)"
      using "1.IH" [OF False s1_def tok_def rest_def t_def] rest unfolding out'_def by blast
    moreover have "path_hints s out = path_hints rest out'"
      by (simp add: path_hints.simps [of s] False Let_def out'_def s1_def tok_def rest_def t_def)
    ultimately show ?thesis by simp
  qed (use "1.prems" in \<open>simp add: path_hints.simps\<close>)
qed

text \<open>
  The classifier is its priority list. The message is lower-cased, and the first table with a phrase that stands
  in it as words of its own (behind a blank or the start, before a blank, one of \<open>, . ? !\<close> or the end) gives the
  intent; behind the tables a question mark means a question and a path-like token an edit. Only the intents
  of the edit profile may write, only the minimal profile has no tools, and the path hints are distinct,
  path-like pieces of the message.
\<close>

theorem classify_intent_spec:
  "let plan = classify_intent user_message; m = to_lower user_message in
   pl_intent plan =
     (if says m kMeta then int_meta else if says m kShell then int_shell else if says m kTest then int_test
      else if says m kBugfix then int_bugfix else if says m kRefactor then int_refactor
      else if says m kExplore then int_explore else if says m kExplain then int_explain
      else if says m kAsk \<or> CHR ''?'' \<in> set m then int_ask
      else if says m kEdit then int_edit else if affected_paths plan = [] then int_unknown else int_edit) \<and>
   (write_allowed plan \<longleftrightarrow> budget_profile plan = ''edit'') \<and>
   (wants_tools plan \<longleftrightarrow> budget_profile plan \<noteq> ''minimal'') \<and>
   (write_allowed plan \<longleftrightarrow> pl_intent plan \<in> {int_edit, int_refactor, int_bugfix, int_test, int_shell}) \<and>
   distinct (affected_paths plan) \<and> list_all (\<lambda>p. looks_pathy p \<and> sublist p user_message) (affected_paths plan)"
proof -
  have paths: "affected_paths (classify_intent user_message) = extract_path_hints user_message"
    by (simp add: classify_intent_def Let_def minimal_plan_def read_plan_def edit_plan_def)
  have "distinct (extract_path_hints user_message) \<and> list_all looks_pathy (extract_path_hints user_message) \<and>
      (\<forall>p \<in> set (extract_path_hints user_message). sublist p user_message)"
    unfolding extract_path_hints_def by (rule path_hints_inv) simp_all
  then show ?thesis unfolding Let_def paths
    by (simp add: list_all_iff) (simp add: classify_intent_def Let_def tables_says minimal_plan_def read_plan_def edit_plan_def)
qed

text \<open>A colon or a parenthesis does not end a word, and "how do I run ..." asks for the shell.\<close>

lemma bug_colon_unknown: "pl_intent (classify_intent ''bug: nothing prints'') = int_unknown"
  by code_simp

lemma question_gets_writes: "classify_intent ''what does run do?'' = edit_plan int_shell []"
  by code_simp

end
