(* ===== verification/Sha1.thy ===== *)
theory Sha1
  imports Prelude
begin

unbundle bit_operations_syntax

text \<open>
  The message digest of \<open>src/util/sha1.cpp\<close>, which pins prompts, names lessons and fingerprints workspaces: the
  compression function on 32-bit words, the streaming context with its 64-byte buffer, padding and the
  hexadecimal form. The reference is the block-wise definition of the standard: pad the whole message,
  then fold the compression function over its 64-byte blocks.
\<close>

section \<open>Compression\<close>

type_synonym sha_state = "u32 \<times> u32 \<times> u32 \<times> u32 \<times> u32"

definition rotl :: "u32 \<Rightarrow> nat \<Rightarrow> u32" where
  "rotl v n = push_bit n v OR drop_bit (32 - n) v"

fun block_words :: "string \<Rightarrow> u32 list" where
  "block_words (a # b # c # d # rest) =
     (push_bit 24 (of_nat (byte_val a)) OR push_bit 16 (of_nat (byte_val b)) OR
      push_bit 8 (of_nat (byte_val c)) OR of_nat (byte_val d)) # block_words rest"
| "block_words _ = []"

primrec schedule :: "nat \<Rightarrow> u32 list \<Rightarrow> u32 list" where
  "schedule 0 w = w"
| "schedule (Suc n) w = schedule n
     (let i = length w in w @ [rotl (w ! (i - 3) XOR w ! (i - 8) XOR w ! (i - 14) XOR w ! (i - 16)) 1])"

definition round_fn :: "nat \<Rightarrow> u32 \<Rightarrow> u32 \<Rightarrow> u32 \<Rightarrow> u32" where
  "round_fn i b d e =
     (if i < 20 then (b AND d) OR (NOT b AND e)
      else if i < 40 then b XOR d XOR e
      else if i < 60 then (b AND d) OR (b AND e) OR (d AND e)
      else b XOR d XOR e)"

definition round_const :: "nat \<Rightarrow> u32" where
  "round_const i = (if i < 20 then 0x5A827999 else if i < 40 then 0x6ED9EBA1 else if i < 60 then 0x8F1BBCDC else 0xCA62C1D6)"

fun rounds :: "nat \<Rightarrow> u32 list \<Rightarrow> sha_state \<Rightarrow> sha_state" where
  "rounds i [] st = st"
| "rounds i (w # ws) (a, b, d, e, f) =
     rounds (Suc i) ws (rotl a 5 + round_fn i b d e + f + round_const i + w, a, rotl b 30, d, e)"

definition process_block :: "string \<Rightarrow> sha_state \<Rightarrow> sha_state" where
  "process_block block h = (case h of (h0, h1, h2, h3, h4) \<Rightarrow>
     case rounds 0 (schedule 64 (block_words block)) h of (a, b, d, e, f) \<Rightarrow>
       (h0 + a, h1 + b, h2 + d, h3 + e, h4 + f))"

section \<open>Streaming\<close>

text \<open>The first \<open>len\<close> bytes of the C++ buffer are \<open>sha_buf\<close>.\<close>

record Ctx =
  sha_h :: sha_state
  sha_bits :: u64
  sha_buf :: string

function process_blocks :: "sha_state \<Rightarrow> string \<Rightarrow> sha_state \<times> string" where
  "process_blocks h data =
     (if length data < 64 then (h, data) else process_blocks (process_block (take 64 data) h) (drop 64 data))"
  by pat_completeness auto
termination by (relation "measure (length \<circ> snd)") auto

declare process_blocks.simps [simp del]

definition sha_update :: "string \<Rightarrow> Ctx \<Rightarrow> Ctx" where
  "sha_update data c =
     (let c1 = c\<lparr>sha_bits := sha_bits c + of_nat (length data) * 8\<rparr>;
          need = 64 - length (sha_buf c);
          k = (if sha_buf c = [] then 0 else if length data < need then length data else need);
          c2 = (if sha_buf c = [] then c1
                else let buf = sha_buf c @ take k data in
                  if length buf = 64 then c1\<lparr>sha_h := process_block buf (sha_h c), sha_buf := []\<rparr>
                  else c1\<lparr>sha_buf := buf\<rparr>);
          (h, rest) = process_blocks (sha_h c2) (drop k data)
      in if rest = [] then c2\<lparr>sha_h := h\<rparr> else c2\<lparr>sha_h := h, sha_buf := rest\<rparr>)"

definition be64 :: "u64 \<Rightarrow> string" where
  "be64 bits = map (\<lambda>i. byte_of (unat (drop_bit (56 - 8 * i) bits AND 255))) [0..<8]"

definition sha_finish :: "Ctx \<Rightarrow> sha_state" where
  "sha_finish c =
     (let bits = sha_bits c;
          c1 = sha_update [byte_of 0x80] c;
          need = (56 + 64 - length (sha_buf c1)) mod 64;
          c2 = (if need > 0 then sha_update (replicate need (byte_of 0)) c1 else c1);
          c3 = sha_update (be64 bits) c2
      in sha_h c3)"

definition sha_init :: sha_state where
  "sha_init = (0x67452301, 0xEFCDAB89, 0x98BADCFE, 0x10325476, 0xC3D2E1F0)"

definition sha1 :: "string \<Rightarrow> sha_state" where
  "sha1 data = sha_finish (sha_update data \<lparr>sha_h = sha_init, sha_bits = 0, sha_buf = []\<rparr>)"

definition low_hex :: "nat \<Rightarrow> char" where
  "low_hex d = (if d < 10 then byte_of (48 + d) else byte_of (87 + d))"

definition hex8 :: "u32 \<Rightarrow> string" where
  "hex8 w = map (\<lambda>i. low_hex (unat (drop_bit (28 - 4 * i) w AND 15))) [0..<8]"

definition sha1_hex :: "string \<Rightarrow> string" where
  "sha1_hex data = (case sha1 data of (a, b, d, e, f) \<Rightarrow> hex8 a @ hex8 b @ hex8 d @ hex8 e @ hex8 f)"

section \<open>Streaming is block-wise hashing\<close>

text \<open>
  The standard's padding: a one bit, zeros up to eight bytes before a block boundary, and the number of bits.
\<close>

definition sha_pad :: "string \<Rightarrow> string" where
  "sha_pad data = data @ byte_of 0x80 # replicate ((55 + 64 - length data mod 64) mod 64) (byte_of 0)
     @ be64 (of_nat (8 * length data))"

primrec hash_blocks :: "nat \<Rightarrow> string \<Rightarrow> sha_state \<Rightarrow> sha_state" where
  "hash_blocks 0 s h = h"
| "hash_blocks (Suc n) s h = hash_blocks n (drop 64 s) (process_block (take 64 s) h)"

lemma process_blocks_rest: "snd (process_blocks h s) = drop (64 * (length s div 64)) s"
proof (induction h s rule: process_blocks.induct)
  case (1 h s)
  show ?case
  proof (cases "length s < 64")
    case False
    then have "length s div 64 = Suc (length (drop 64 s) div 64)" by (simp add: le_div_geq not_less)
    then show ?thesis using 1 False by (simp add: process_blocks.simps [of h s] add.commute)
  qed (simp add: process_blocks.simps [of h s])
qed

lemma process_blocks_hash: "fst (process_blocks h s) = hash_blocks (length s div 64) s h"
proof (induction h s rule: process_blocks.induct)
  case (1 h s)
  show ?case
  proof (cases "length s < 64")
    case False
    then have "length s div 64 = Suc (length (drop 64 s) div 64)" by (simp add: le_div_geq not_less)
    then show ?thesis using 1 False by (simp add: process_blocks.simps [of h s])
  qed (simp add: process_blocks.simps [of h s])
qed

lemma process_blocks_append:
  "process_blocks h (s @ t) = (case process_blocks h s of (h', r) \<Rightarrow> process_blocks h' (r @ t))"
proof (induction h s rule: process_blocks.induct)
  case (1 h s)
  show ?case
  proof (cases "length s < 64")
    case False
    then have "process_blocks h (s @ t) = process_blocks (process_block (take 64 s) h) (drop 64 s @ t)"
      by (subst process_blocks.simps) simp
    then show ?thesis using 1 False by (simp add: process_blocks.simps [of h s])
  qed (simp add: process_blocks.simps [of h s])
qed

lemma sha_update_blocks:
  assumes "length (sha_buf c) < 64"
  shows "(sha_h (sha_update data c), sha_buf (sha_update data c)) = process_blocks (sha_h c) (sha_buf c @ data)"
proof (cases "sha_buf c = []")
  case True
  then show ?thesis by (auto simp: sha_update_def Let_def split: prod.splits)
next
  case ne: False
  define k where "k = 64 - length (sha_buf c)"
  show ?thesis
  proof (cases "length (sha_buf c @ data) < 64")
    case True
    moreover have "process_blocks (sha_h c) [] = (sha_h c, [])" by (simp add: process_blocks.simps)
    ultimately show ?thesis using ne
      by (auto simp: sha_update_def Let_def process_blocks.simps [of "sha_h c" "sha_buf c @ data"])
  next
    case False
    obtain h r where hr: "process_blocks (process_block (sha_buf c @ take k data) (sha_h c)) (drop k data) = (h, r)" by fastforce
    have "take 64 (sha_buf c @ data) = sha_buf c @ take k data" "drop 64 (sha_buf c @ data) = drop k data"
      using assms by (simp_all add: k_def)
    then have "process_blocks (sha_h c) (sha_buf c @ data) = (h, r)"
      using False hr by (subst process_blocks.simps) simp
    moreover have "\<not> length data < k" "length (sha_buf c @ take k data) = 64" using False assms by (auto simp: k_def)
    ultimately show ?thesis using ne hr by (simp add: sha_update_def Let_def k_def [symmetric])
  qed
qed

lemma sha_update_bits: "sha_bits (sha_update data c) = sha_bits c + of_nat (length data) * 8"
  by (auto simp: sha_update_def Let_def split: prod.splits)

lemma rest_length: "process_blocks h s = (h', r) \<Longrightarrow> length r = length s mod 64"
  by (metis length_drop minus_mult_div_eq_mod process_blocks_rest snd_conv)

lemma sha_update_absorb:
  assumes "process_blocks sha_init s = (sha_h c, sha_buf c)" "length (sha_buf c) < 64"
  shows "process_blocks sha_init (s @ data) = (sha_h (sha_update data c), sha_buf (sha_update data c))"
    and "length (sha_buf (sha_update data c)) < 64"
proof -
  show *: "process_blocks sha_init (s @ data) = (sha_h (sha_update data c), sha_buf (sha_update data c))"
    unfolding process_blocks_append [of sha_init s] assms(1) using sha_update_blocks [OF assms(2), of data] by simp
  show "length (sha_buf (sha_update data c)) < 64" unfolding rest_length [OF *] by simp
qed

lemma pad_length: "((n :: nat) + Suc ((119 - n mod 64) mod 64) + 8) mod 64 = 0"
proof -
  define m where "m = n mod 64"
  have "m < 64" by (simp add: m_def)
  have "(n + Suc ((119 - m) mod 64) + 8) mod 64 = (n + ((119 - m) mod 64 + 9)) mod 64" by (simp add: add.commute add.left_commute)
  also have "\<dots> = (m + ((119 - m) mod 64 + 9) mod 64) mod 64" unfolding m_def by (rule mod_add_eq [symmetric])
  also have "\<dots> = (m + ((119 - m) + 9)) mod 64" by (metis mod_add_left_eq mod_add_right_eq)
  also have "m + ((119 - m) + 9) = 128" using \<open>m < 64\<close> by simp
  finally show ?thesis by (simp add: m_def)
qed

lemma pad_need: "(120 - Suc n mod 64) mod 64 = (119 - n mod 64) mod (64 :: nat)"
proof -
  define m where "m = n mod 64"
  have "m < 64" by (simp add: m_def)
  moreover have "Suc n mod 64 = (if m = 63 then 0 else Suc m)" by (simp add: m_def mod_Suc)
  ultimately show ?thesis unfolding m_def [symmetric] by (cases "m = 63") simp_all
qed

text \<open>
  C35: the streaming digest is the standard's: for every message the buffered context, fed with the message and the
  three pieces of padding, ends with the compression function folded over the 64-byte blocks of the padded
  message, whose length is a whole number of blocks.
\<close>

theorem sha1_blockwise:
  "sha1 data = hash_blocks (length (sha_pad data) div 64) (sha_pad data) sha_init \<and> 64 dvd length (sha_pad data)"
proof -
  define c0 where "c0 = \<lparr>sha_h = sha_init, sha_bits = 0, sha_buf = []\<rparr>"
  define c where "c = sha_update data c0"
  define c1 where "c1 = sha_update [byte_of 0x80] c"
  define need where "need = (56 + 64 - length (sha_buf c1)) mod 64"
  define c2 where "c2 = (if need > 0 then sha_update (replicate need (byte_of 0)) c1 else c1)"
  define c3 where "c3 = sha_update (be64 (sha_bits c)) c2"
  have "process_blocks sha_init [] = (sha_h c0, sha_buf c0)" "length (sha_buf c0) < 64"
    by (simp_all add: c0_def process_blocks.simps)
  from sha_update_absorb [OF this, of data]
  have c: "process_blocks sha_init data = (sha_h c, sha_buf c)" "length (sha_buf c) < 64" by (simp_all add: c_def)
  have bits: "sha_bits c = of_nat (8 * length data)" by (simp add: c_def c0_def sha_update_bits)
  from sha_update_absorb [OF c, of "[byte_of 0x80]"]
  have c1: "process_blocks sha_init (data @ [byte_of 0x80]) = (sha_h c1, sha_buf c1)" "length (sha_buf c1) < 64"
    by (simp_all add: c1_def)
  have "length (sha_buf c1) = Suc (length data) mod 64" using rest_length [OF c1(1)] by simp
  then have need: "need = (55 + 64 - length data mod 64) mod 64" unfolding need_def using pad_need [of "length data"] by simp
  have c2: "process_blocks sha_init ((data @ [byte_of 0x80]) @ replicate need (byte_of 0)) = (sha_h c2, sha_buf c2)"
    "length (sha_buf c2) < 64"
    using sha_update_absorb [OF c1, of "replicate need (byte_of 0)"] c1 by (auto simp: c2_def)
  from sha_update_absorb(1) [OF c2, of "be64 (sha_bits c)"]
  have "process_blocks sha_init (sha_pad data) = (sha_h c3, sha_buf c3)"
    by (simp add: c3_def sha_pad_def need bits)
  moreover have "sha1 data = sha_h c3"
    by (simp add: sha1_def sha_finish_def Let_def c_def c1_def c2_def c3_def need_def c0_def)
  ultimately have "sha1 data = hash_blocks (length (sha_pad data) div 64) (sha_pad data) sha_init"
    using process_blocks_hash [of sha_init "sha_pad data"] by simp
  moreover have "length (sha_pad data) mod 64 = 0"
    using pad_length [of "length data"] by (simp add: sha_pad_def be64_def add.commute add.left_commute)
  ultimately show ?thesis by (simp add: dvd_eq_mod_eq_0)
qed

lemma sha1_hex_length: "length (sha1_hex s) = 40"
  by (simp add: sha1_hex_def hex8_def split: prod.splits)

end
