(* ===== verification/Memory.thy ===== *)
theory Memory
  imports Text_Util Json_Roundtrip Mem_Store Config_Load Tools
begin

text \<open>
  Durable memory: entries and their validation (\<open>src/memory/entry.cpp\<close>), workspace memory on top of the store's
  files (\<open>src/memory/workspace_memory.cpp\<close>) and the \<open>memory.write\<close> tool (\<open>src/tools/memory_tool.cpp\<close>). The
  conversions between text, \<open>double\<close> and \<open>std::uint64_t\<close> are the parameter \<open>num_ops\<close>; the wall clock is an
  argument. A null \<open>Store*\<close> is \<open>None\<close>.
\<close>

section \<open>Entries\<close>

datatype Kind = k_decision | k_fact | k_task_state | k_repo_rule | k_lesson | k_user_pref

record Entry =
  en_id :: string
  en_kind :: Kind
  en_scope :: string
  en_key :: string
  en_value :: string
  en_source :: string
  en_created_at :: u64
  en_ttl_s :: u64
  en_tags :: "string list"

definition new_entry :: Entry where
  "new_entry = \<lparr>en_id = [], en_kind = k_fact, en_scope = [], en_key = [], en_value = [], en_source = [],
     en_created_at = 0, en_ttl_s = 0, en_tags = []\<rparr>"

definition contains_ci :: "string \<Rightarrow> string \<Rightarrow> bool" where
  "contains_ci haystack needle \<longleftrightarrow> needle \<noteq> [] \<and> find_sub (to_lower needle) (to_lower haystack) \<noteq> None"

definition valid_key_chars :: "string \<Rightarrow> u32 \<Rightarrow> bool" where
  "valid_key_chars key max_chars \<longleftrightarrow> key \<noteq> [] \<and> length key \<le> unat max_chars \<and>
     list_all (\<lambda>c. is_alnum (byte_val c) \<or> c \<in> set ''._-'') key"

fun kind_index :: "Kind \<Rightarrow> nat" where
  "kind_index k_decision = 0" | "kind_index k_fact = 1" | "kind_index k_task_state = 2"
| "kind_index k_repo_rule = 3" | "kind_index k_lesson = 4" | "kind_index k_user_pref = 5"

definition kind_names :: "string list" where
  "kind_names = [''decision'', ''fact'', ''task_state'', ''repo_rule'', ''lesson'', ''user_pref'']"

definition kind_name :: "Kind \<Rightarrow> string" where
  "kind_name k = (if kind_index k < 6 then kind_names ! kind_index k else ''unknown'')"

definition kind_from_name :: "string \<Rightarrow> Kind" where
  "kind_from_name s = (case find (\<lambda>k. s = kind_name k) [k_decision, k_fact, k_task_state, k_repo_rule, k_lesson, k_user_pref] of
     Some k \<Rightarrow> k | None \<Rightarrow> k_fact)"

definition has_secret_value :: "string \<Rightarrow> string \<Rightarrow> bool" where
  "has_secret_value key value =
     (if contains_ci key ''token'' \<or> contains_ci key ''password'' \<or> contains_ci key ''secret'' then True
      else if contains_ci value ''token'' \<or> contains_ci value ''password'' \<or> contains_ci value ''secret'' then True
      else if take 3 key = ''sk-'' then True
      else if take 3 value = ''sk-'' then True
      else find_sub ''key=sk-'' value \<noteq> None)"

definition validate_entry :: "Entry \<Rightarrow> MemoryCfg \<Rightarrow> error_code" where
  "validate_entry e caps =
     (if \<not> valid_key_chars (en_key e) (max_key_chars caps) then make_error e_invalid_cfg
      else if length (en_value e) > unat (max_value_chars caps) then make_error e_invalid_cfg
      else if has_secret_value (en_key e) (en_value e) then make_error e_invalid_cfg
      else if kind_index (en_kind e) \<ge> 6 then make_error e_model_unsup
      else ok)"

definition entry_json :: "'d num_ops \<Rightarrow> Entry \<Rightarrow> 'd jval" where
  "entry_json N e = JObj ([(''id'', JStr (en_id e)), (''kind'', JStr (kind_name (en_kind e))), (''scope'', JStr (en_scope e)),
     (''key'', JStr (en_key e)), (''value'', JStr (en_value e)), (''source'', JStr (en_source e)),
     (''created_at'', JNum (n_of_u64 N (en_created_at e))), (''ttl_s'', JNum (n_of_u64 N (en_ttl_s e)))]
     @ (if en_tags e \<noteq> [] then [(''tags'', JArr (map JStr (en_tags e)))] else []))"

definition entry_to_json :: "'d num_ops \<Rightarrow> Entry \<Rightarrow> string" where
  "entry_to_json N e = to_json (n_format N) (entry_json N e)"

definition json_u64 :: "'d num_ops \<Rightarrow> 'd jval \<Rightarrow> string \<Rightarrow> u64" where
  "json_u64 N root k = (case jfind k root of Some (JNum d) \<Rightarrow> n_to_u64 N d | _ \<Rightarrow> 0)"

definition entry_from_json :: "'d num_ops \<Rightarrow> string \<Rightarrow> error_code + Entry" where
  "entry_from_json N json = (case parse_json (n_from_chars N) json of
     Some (Inr root) \<Rightarrow>
       (case root of JObj kvs \<Rightarrow>
          Inr \<lparr>en_id = js root ''id'', en_kind = kind_from_name (js root ''kind''), en_scope = js root ''scope'',
               en_key = js root ''key'', en_value = js root ''value'', en_source = js root ''source'',
               en_created_at = json_u64 N root ''created_at'', en_ttl_s = json_u64 N root ''ttl_s'',
               en_tags = (case jfind ''tags'' root of
                  Some (JArr vs) \<Rightarrow> List.map_filter (\<lambda>v. case v of JStr t \<Rightarrow> Some t | _ \<Rightarrow> None) vs | _ \<Rightarrow> [])\<rparr>
        | _ \<Rightarrow> Inl (make_error e_proto_parse))
   | Some (Inl (ec, pos)) \<Rightarrow> Inl ec
   | None \<Rightarrow> Inl (make_error e_proto_parse))"

definition to_env_text :: "Entry \<Rightarrow> u32 \<Rightarrow> string" where
  "to_env_text e max_chars =
     (let t = ''['' @ kind_name (en_kind e) @ ''] '' @ en_key e @ '': '' @ en_value e
      in if max_chars > 0 \<and> length t > unat max_chars then take (unat max_chars) t else t)"

definition entry_id :: "string \<Rightarrow> string \<Rightarrow> string" where
  "entry_id scope key = ''mem:'' @ scope @ '':'' @ key"

section \<open>Workspace memory\<close>

definition ws_contains_ci :: "string \<Rightarrow> string \<Rightarrow> bool" where
  "ws_contains_ci haystack needle \<longleftrightarrow>
     needle \<noteq> [] \<and> haystack \<noteq> [] \<and> find_sub (to_lower needle) (to_lower haystack) \<noteq> None"

definition oldest :: "Entry list \<Rightarrow> Entry option" where
  "oldest es = fold (\<lambda>e out. case out of None \<Rightarrow> Some e
     | Some m \<Rightarrow> if en_created_at e < en_created_at m then Some e else Some m) es None"

definition workspace_scope :: "string \<Rightarrow> string" where
  "workspace_scope root = ''workspace:'' @ root"

text \<open>The file row of an entry; \<open>session_memory.cpp\<close> has the same code in \<open>save_entry\<close>.\<close>

definition entry_file :: "'d num_ops \<Rightarrow> Entry \<Rightarrow> File" where
  "entry_file N e = \<lparr>file_id = entry_id (en_scope e) (en_key e), file_session = en_scope e,
     file_path = ''memory/'' @ en_key e, file_content = entry_to_json N e, file_version = 1, file_created_at = 0\<rparr>"

definition read_entries :: "'d num_ops \<Rightarrow> MemStore option \<Rightarrow> string \<Rightarrow> Kind option \<Rightarrow> Entry list" where
  "read_entries N store root kind = (case store of
     None \<Rightarrow> []
   | Some st \<Rightarrow>
       (let scope = workspace_scope root in
        List.map_filter (\<lambda>f. case entry_from_json N (file_content f) of
            Inr e \<Rightarrow> if en_scope e = scope \<and> (case kind of None \<Rightarrow> True | Some k \<Rightarrow> en_kind e = k) then Some e else None
          | Inl _ \<Rightarrow> None)
          (files_by_session scope st)))"

definition write_entry :: "'d num_ops \<Rightarrow> MemoryCfg \<Rightarrow> string \<Rightarrow> Entry \<Rightarrow> MemStore option \<Rightarrow> error_code \<times> string \<times> MemStore option" where
  "write_entry N caps root e store = (case store of
     None \<Rightarrow> (ok, [], None)
   | Some st \<Rightarrow>
       (let e1 = e\<lparr>en_scope := workspace_scope root\<rparr>; c = validate_entry e1 caps in
        if \<not> is_ok c then (c, [], store)
        else
          (let existing = read_entries N store root None;
               e2 = (if length existing \<ge> unat (max_entries caps)
                     then (case oldest existing of Some x \<Rightarrow> e1\<lparr>en_key := en_key x\<rparr> | None \<Rightarrow> e1)
                     else e1);
               (saved, st') = file_save_version (entry_file N e2) st
           in (ok, file_id saved, Some st'))))"

definition entry_matches :: "string list \<Rightarrow> Entry \<Rightarrow> bool" where
  "entry_matches kws e \<longleftrightarrow> list_ex (\<lambda>kw. ws_contains_ci (en_key e) kw \<or> ws_contains_ci (en_value e) kw \<or>
     list_ex (\<lambda>t. ws_contains_ci t kw) (en_tags e)) kws"

definition match_entries :: "'d num_ops \<Rightarrow> MemStore option \<Rightarrow> string \<Rightarrow> string list \<Rightarrow> Entry list" where
  "match_entries N store root kws =
     (if store = None \<or> kws = [] then [] else filter (entry_matches kws) (read_entries N store root None))"

fun context_lines :: "Entry list \<Rightarrow> u32 \<Rightarrow> u32 \<Rightarrow> u32 \<Rightarrow> string \<Rightarrow> nat \<Rightarrow> u32 \<Rightarrow> string" where
  "context_lines [] max_n max_tok max_chars out count tokens = out"
| "context_lines (e # es) max_n max_tok max_chars out count tokens =
     (if max_n \<noteq> 0 \<and> count \<ge> unat max_n then out
      else let line = to_env_text e max_chars in
        if line = [] then context_lines es max_n max_tok max_chars out count tokens
        else let line_tokens = of_nat (estimate_tokens line) in
          if max_tok \<noteq> 0 \<and> tokens + line_tokens > max_tok then out
          else context_lines es max_n max_tok max_chars ((if out \<noteq> [] then out @ [nl] else out) @ line)
                 (count + 1) (tokens + line_tokens))"

definition entries_to_context :: "Entry list \<Rightarrow> u32 \<Rightarrow> u32 \<Rightarrow> u32 \<Rightarrow> string" where
  "entries_to_context es max_n max_tok max_chars = context_lines es max_n max_tok max_chars [] 0 0"

definition kStop :: "string list" where
  "kStop = [''about'', ''after'', ''again'', ''also'', ''because'', ''before'', ''being'', ''build'', ''change'',
     ''could'', ''does'', ''edit'', ''from'', ''have'', ''into'', ''just'', ''like'', ''make'', ''need'', ''only'',
     ''other'', ''please'', ''should'', ''some'', ''than'', ''that'', ''their'', ''them'', ''then'', ''there'',
     ''these'', ''they'', ''this'', ''those'', ''through'', ''under'', ''very'', ''want'', ''were'', ''what'',
     ''when'', ''where'', ''which'', ''while'', ''with'', ''would'', ''your'']"

definition flush_word :: "string \<Rightarrow> string list \<Rightarrow> string list" where
  "flush_word cur out = (if length cur \<ge> 4 \<and> cur \<notin> set kStop \<and> cur \<notin> set out then out @ [cur] else out)"

fun keywords_go :: "string \<Rightarrow> string \<Rightarrow> string list \<Rightarrow> string list" where
  "keywords_go [] cur out = flush_word cur out"
| "keywords_go (c # s) cur out =
     (if is_alnum (byte_val c) then keywords_go s (cur @ [ascii_lower c]) out
      else keywords_go s [] (flush_word cur out))"

definition keywords_from_text :: "string \<Rightarrow> string list" where
  "keywords_from_text s = keywords_go s [] []"

section \<open>The tool\<close>

definition memory_params :: "ParamSpec list" where
  "memory_params =
     [\<lparr>ps_name = ''key'', ps_type = pt_string, ps_description = ''entry key, e.g. build_tool'', ps_required = True,
       ps_default_json = [], ps_enum_values = []\<rparr>,
      \<lparr>ps_name = ''value'', ps_type = pt_string, ps_description = ''the fact to remember'', ps_required = True,
       ps_default_json = [], ps_enum_values = []\<rparr>,
      \<lparr>ps_name = ''kind'', ps_type = pt_string, ps_description = ''entry kind'', ps_required = False,
       ps_default_json = [], ps_enum_values = [''decision'', ''fact'', ''repo_rule'', ''lesson'', ''user_pref'']\<rparr>]"

definition memory_write :: "'d num_ops \<Rightarrow> string \<Rightarrow> MemoryCfg \<Rightarrow> u64 \<Rightarrow> Invocation \<Rightarrow> MemStore option \<Rightarrow> tool_result \<times> MemStore option" where
  "memory_write N workspace caps now call store = (case arg_root (n_from_chars N) (inv_args_json call) of
     None \<Rightarrow> (tool_err ''memory.write'' ''bad args'', store)
   | Some a \<Rightarrow> (case arg_string a ''key'' of
       None \<Rightarrow> (tool_err ''memory.write'' ''missing required arg: key'', store)
     | Some key \<Rightarrow> (case arg_string a ''value'' of
         None \<Rightarrow> (tool_err ''memory.write'' ''missing required arg: value'', store)
       | Some val \<Rightarrow>
           (let e = new_entry\<lparr>en_kind := kind_from_name (case arg_string a ''kind'' of Some k \<Rightarrow> k | None \<Rightarrow> []),
                     en_key := key, en_value := val, en_source := ''memory.write'', en_created_at := now,
                     en_tags := (case arg_strings a ''tags'' of Some ts \<Rightarrow> ts | None \<Rightarrow> [])\<rparr>
            in case write_entry N caps workspace e store of (c, i, store') \<Rightarrow>
                 if \<not> is_ok c then (tool_err ''memory.write'' (message c), store')
                 else (tool_ok ''memory.write'' (if i = [] then ''stored (no store)'' else ''stored '' @ i), store')))))"

definition memory_tool_text :: string where
  "memory_tool_text = ''Store a durable workspace memory entry. Re-writing the same key replaces the value; keys are short identifiers [a-z0-9._-]. Values must not contain secrets (tokens, passwords, sk-...).''"

definition make_memory_tools :: "'d num_ops \<Rightarrow> string \<Rightarrow> MemoryCfg \<Rightarrow> u64 \<Rightarrow> MemStore option Tool list" where
  "make_memory_tools N workspace caps now =
     [\<lparr>tool_spec = make_spec (n_from_chars N) (n_format N) ''memory.write'' memory_tool_text memory_params False cat_workspace,
       tool_run = memory_write N workspace caps now\<rparr>]"

section \<open>Rows with keys\<close>

text \<open>
  What the writers of memory rely on: a row that is put replaces the row of the same key in its place, or
  comes last. The laws give back what was put, leave the other keys alone and keep keys unique.
\<close>

definition upsert :: "('e \<Rightarrow> 'k) \<Rightarrow> 'e \<Rightarrow> 'e list \<Rightarrow> 'e list" where
  "upsert key e es = (if key e \<in> key ` set es then map (\<lambda>x. if key x = key e then e else x) es else es @ [e])"

lemma upsert_keys: "map key (upsert key e es) = (if key e \<in> key ` set es then map key es else map key es @ [key e])"
  by (auto simp: upsert_def)

lemma upsert_distinct: "distinct (map key es) \<Longrightarrow> distinct (map key (upsert key e es))"
  by (auto simp: upsert_keys)

lemma upsert_set: "set (upsert key e es) \<subseteq> insert e (set es)"
  by (auto simp: upsert_def)

lemma upsert_find: "find (\<lambda>x. key x = k) (upsert key e es) = (if k = key e then Some e else find (\<lambda>x. key x = k) es)"
proof -
  have "find (\<lambda>x. key x = k) (map (\<lambda>x. if key x = key e then e else x) es) =
      (if k = key e then (if key e \<in> key ` set es then Some e else None) else find (\<lambda>x. key x = k) es)"
    by (induction es) auto
  moreover have "find (\<lambda>x. key x = k) (es @ [e]) =
      (if k \<in> key ` set es then find (\<lambda>x. key x = k) es else if k = key e then Some e else None)"
    by (induction es) auto
  moreover have "find (\<lambda>x. key x = k) es = None" if "k \<notin> key ` set es" using that by (auto simp: find_None_iff)
  ultimately show ?thesis by (auto simp: upsert_def)
qed

locale keyed_rows =
  fixes put :: "'e \<Rightarrow> 's \<Rightarrow> 's" and rows :: "'s \<Rightarrow> 'e list" and key :: "'e \<Rightarrow> 'k"
    and good :: "'e \<Rightarrow> bool" and valid :: "'s \<Rightarrow> bool"
  assumes put_valid: "valid s \<Longrightarrow> good e \<Longrightarrow> valid (put e s)"
    and rows_put: "valid s \<Longrightarrow> good e \<Longrightarrow> rows (put e s) = upsert key e (rows s)"
begin

lemma lookup_put: "valid s \<Longrightarrow> good e \<Longrightarrow>
    find (\<lambda>x. key x = k) (rows (put e s)) = (if k = key e then Some e else find (\<lambda>x. key x = k) (rows s))"
  by (simp add: rows_put upsert_find)

lemma put_all: "valid s \<Longrightarrow> list_all good es \<Longrightarrow> valid (fold put es s) \<and> rows (fold put es s) = fold (upsert key) es (rows s)"
  by (induction es arbitrary: s) (simp_all add: put_valid rows_put)

end

section \<open>Entries survive the store\<close>

text \<open>
  Beside reading back what they print, the number conversions have to let a time stamp survive
  the way through \<open>double\<close>, as whole numbers of up to 53 bits do.
\<close>

definition times_ok :: "'d num_ops \<Rightarrow> Entry \<Rightarrow> bool" where
  "times_ok N e \<longleftrightarrow> n_to_u64 N (n_of_u64 N (en_created_at e)) = en_created_at e \<and>
     n_to_u64 N (n_of_u64 N (en_ttl_s e)) = en_ttl_s e"

lemma kind_from_kind_name [simp]: "kind_from_name (kind_name k) = k"
  by (cases k) (simp_all add: kind_from_name_def kind_name_def kind_names_def)

lemma strings_filter: "List.map_filter (\<lambda>v. case v of JStr t \<Rightarrow> Some t | _ \<Rightarrow> None) (map JStr ts) = ts"
  by (induction ts) (simp_all add: map_filter_simps)

lemma entry_json_ok: "json_ok (\<lambda>d. d \<in> range (n_of_u64 N)) (entry_json N e)"
  by (auto simp: entry_json_def plain_char_def byte_val_def list_all_iff)

lemma entry_roundtrip:
  assumes "nums_ok N" "times_ok N e"
  shows "entry_from_json N (entry_to_json N e) = Inr e"
proof -
  have "parse_json (n_from_chars N) (entry_to_json N e) = Some (Inr (entry_json N e))"
    unfolding entry_to_json_def using reads_back_parse [OF _ entry_json_ok] assms(1) by (simp add: nums_ok_def)
  then show ?thesis using assms(2)
    by (auto simp: entry_from_json_def entry_json_def js_def jfind_def json_u64_def times_ok_def strings_filter)
qed

section \<open>Scopes\<close>

definition plain_key :: "string \<Rightarrow> bool" where
  "plain_key k \<longleftrightarrow> CHR '':'' \<notin> set k"

definition order_of :: "MemStore \<Rightarrow> string \<Rightarrow> string list" where
  "order_of st s = (case files_order st s of None \<Rightarrow> [] | Some l \<Rightarrow> l)"

text \<open>\<open>es\<close> are the rows of a scope: their files are listed in this order and there are no others.\<close>

definition scope_inv :: "'d num_ops \<Rightarrow> string \<Rightarrow> Entry list \<Rightarrow> MemStore \<Rightarrow> bool" where
  "scope_inv N scope es st \<longleftrightarrow> distinct (map en_key es) \<and>
     (\<forall>e \<in> set es. en_scope e = scope \<and> times_ok N e \<and> plain_key (en_key e) \<and>
        (\<exists>f. files st (entry_id scope (en_key e)) = Some f \<and> file_content f = entry_to_json N e)) \<and>
     order_of st scope = map (\<lambda>e. entry_id scope (en_key e)) es \<and>
     (\<forall>k. plain_key k \<longrightarrow> k \<notin> en_key ` set es \<longrightarrow> files st (entry_id scope k) = None)"

lemma colon_split:
  assumes "a @ c # u = b @ c # v" "c \<notin> set u" "c \<notin> set v"
  shows "a = b \<and> u = v"
proof -
  have "rev u @ c # rev a = rev v @ c # rev b" using arg_cong [OF assms(1), of rev] by simp
  moreover have "takeWhile (\<lambda>x. x \<noteq> c) (w @ c # z) = w" if "c \<notin> set w" for w z
    using that by (induction w) auto
  from this [of "rev u" "rev a"] this [of "rev v" "rev b"]
  have "takeWhile (\<lambda>x. x \<noteq> c) (rev u @ c # rev a) = rev u" "takeWhile (\<lambda>x. x \<noteq> c) (rev v @ c # rev b) = rev v"
    using assms(2,3) by simp_all
  ultimately have "u = v" by (metis rev_rev_ident)
  then show ?thesis using assms(1) by simp
qed

lemma entry_id_inj:
  assumes "plain_key k" "plain_key l"
  shows "entry_id s k = entry_id t l \<longleftrightarrow> s = t \<and> k = l"
  using colon_split [of s "CHR '':''" k t l] assms by (auto simp: entry_id_def plain_key_def)

lemma scope_files:
  assumes "scope_inv N scope es st"
  shows "map file_content (files_by_session scope st) = map (entry_to_json N) es"
proof -
  have "files_by_session scope st = List.map_filter (files st) (order_of st scope)"
    by (auto simp: files_by_session_def order_of_def map_filter_simps split: option.split)
  also have "\<dots> = List.map_filter (\<lambda>e. files st (entry_id scope (en_key e))) es"
    using assms by (simp add: scope_inv_def map_filter_def filter_map comp_def)
  finally have *: "files_by_session scope st = List.map_filter (\<lambda>e. files st (entry_id scope (en_key e))) es" .
  have "map file_content (List.map_filter (\<lambda>e. files st (entry_id scope (en_key e))) xs) = map (entry_to_json N) xs"
    if "\<forall>e \<in> set xs. \<exists>f. files st (entry_id scope (en_key e)) = Some f \<and> file_content f = entry_to_json N e" for xs
    using that by (induction xs) (auto simp: map_filter_simps)
  then show ?thesis using * assms by (simp add: scope_inv_def)
qed

lemma filter_decoded:
  assumes "map file_content fs = map (entry_to_json N) es" "nums_ok N" "\<forall>e \<in> set es. times_ok N e"
  shows "List.map_filter (\<lambda>f. case entry_from_json N (file_content f) of Inr e \<Rightarrow> g e | Inl _ \<Rightarrow> None) fs = List.map_filter g es"
  using assms
proof (induction fs arbitrary: es)
  case (Cons f fs)
  then obtain e es' where es: "es = e # es'" "file_content f = entry_to_json N e" by (cases es) auto
  then show ?case using Cons by (auto simp: map_filter_simps entry_roundtrip split: option.splits)
qed (simp add: map_filter_simps)

lemma read_entries_scope:
  assumes "scope_inv N (workspace_scope root) es st" "nums_ok N"
  shows "read_entries N (Some st) root None = es"
proof -
  have "read_entries N (Some st) root None = List.map_filter (\<lambda>e. if en_scope e = workspace_scope root then Some e else None) es"
    unfolding read_entries_def Let_def option.case simp_thms using filter_decoded [OF scope_files [OF assms(1)] assms(2)] assms(1)
    by (simp add: scope_inv_def)
  moreover have "List.map_filter (\<lambda>e. if en_scope e = workspace_scope root then Some e else None) xs = xs"
    if "\<forall>e \<in> set xs. en_scope e = workspace_scope root" for xs
    using that by (induction xs) (auto simp: map_filter_simps)
  moreover have "\<forall>e \<in> set es. en_scope e = workspace_scope root" using assms(1) by (simp add: scope_inv_def)
  ultimately show ?thesis by metis
qed

definition put_entry :: "'d num_ops \<Rightarrow> Entry \<Rightarrow> MemStore \<Rightarrow> MemStore" where
  "put_entry N e st = snd (file_save_version (entry_file N e) st)"

lemma entry_id_nonempty [simp]: "entry_id s k \<noteq> []"
  by (simp add: entry_id_def)

lemma put_entry_old:
  assumes "files st (entry_id (en_scope e) (en_key e)) = Some old"
  shows "\<exists>f. files (put_entry N e st) = (files st)(entry_id (en_scope e) (en_key e) \<mapsto> f) \<and> file_content f = entry_to_json N e"
    and "order_of (put_entry N e st) s = order_of st s"
  using assms by (auto simp: put_entry_def file_save_version_def entry_file_def Let_def order_of_def)

lemma put_entry_new:
  assumes "files st (entry_id (en_scope e) (en_key e)) = None"
  shows "\<exists>f. files (put_entry N e st) = (files st)(entry_id (en_scope e) (en_key e) \<mapsto> f) \<and> file_content f = entry_to_json N e"
    and "order_of (put_entry N e st) s = (if s = en_scope e then order_of st s @ [entry_id (en_scope e) (en_key e)] else order_of st s)"
  using assms by (auto simp: put_entry_def file_save_version_def save_new_file_def entry_file_def Let_def order_of_def)

lemma put_entry_files:
  "\<exists>f. files (put_entry N e st) = (files st)(entry_id (en_scope e) (en_key e) \<mapsto> f) \<and> file_content f = entry_to_json N e"
  by (cases "files st (entry_id (en_scope e) (en_key e))") (auto dest: put_entry_old(1) put_entry_new(1))

lemma scope_inv_put_other:
  assumes "scope_inv N scope es st" "scope \<noteq> en_scope e" "plain_key (en_key e)"
  shows "scope_inv N scope es (put_entry N e st)"
proof -
  obtain f where f: "files (put_entry N e st) = (files st)(entry_id (en_scope e) (en_key e) \<mapsto> f)" using put_entry_files by blast
  have "order_of (put_entry N e st) scope = order_of st scope"
    using assms(2) by (cases "files st (entry_id (en_scope e) (en_key e))") (simp_all add: put_entry_old put_entry_new)
  moreover have "files (put_entry N e st) (entry_id scope k) = files st (entry_id scope k)" if "plain_key k" for k
    using that assms(2,3) by (simp add: f entry_id_inj)
  ultimately show ?thesis using assms(1) by (simp add: scope_inv_def)
qed

lemma scope_inv_put:
  assumes inv: "scope_inv N scope es st" and e: "en_scope e = scope" "times_ok N e" "plain_key (en_key e)"
  shows "scope_inv N scope (upsert en_key e es) (put_entry N e st)"
proof -
  obtain f where f: "files (put_entry N e st) = (files st)(entry_id scope (en_key e) \<mapsto> f)" "file_content f = entry_to_json N e"
    using put_entry_files [of N e st] e(1) by blast
  have keep: "files (put_entry N e st) (entry_id scope k) = (if k = en_key e then Some f else files st (entry_id scope k))"
    if "plain_key k" for k
    using that e(3) by (simp add: f entry_id_inj)
  have order: "order_of (put_entry N e st) scope = map (\<lambda>e. entry_id scope (en_key e)) (upsert en_key e es)"
  proof (cases "en_key e \<in> en_key ` set es")
    case True
    then have "files st (entry_id (en_scope e) (en_key e)) \<noteq> None" using inv e(1) by (auto simp: scope_inv_def)
    moreover have "map (entry_id scope) (map en_key (upsert en_key e es)) = map (entry_id scope) (map en_key es)"
      using True by (simp only: upsert_keys if_True)
    moreover have "order_of st scope = map (\<lambda>e. entry_id scope (en_key e)) es" using inv by (simp add: scope_inv_def)
    moreover have "order_of (put_entry N e st) scope = order_of st scope"
      using calculation(1) put_entry_old(2) by blast
    ultimately show ?thesis by (simp add: comp_def)
  next
    case False
    then have "files st (entry_id (en_scope e) (en_key e)) = None" using inv e by (auto simp: scope_inv_def)
    then show ?thesis using inv False e(1) by (simp add: put_entry_new(2) scope_inv_def upsert_def)
  qed
  have rows: "en_scope x = scope \<and> times_ok N x \<and> plain_key (en_key x) \<and>
      (\<exists>f. files (put_entry N e st) (entry_id scope (en_key x)) = Some f \<and> file_content f = entry_to_json N x)"
    if "x \<in> set (upsert en_key e es)" for x
  proof (cases "x = e")
    case True
    then show ?thesis using e f(2) by (simp add: keep)
  next
    case False
    then have "x \<in> set es" "en_key x \<noteq> en_key e" using that by (auto simp: upsert_def image_iff split: if_splits)
    then show ?thesis using inv by (auto simp: scope_inv_def keep)
  qed
  have "k \<notin> en_key ` set es" "k \<noteq> en_key e" if "k \<notin> en_key ` set (upsert en_key e es)" for k
    using that arg_cong [OF upsert_keys [of en_key e es], of set] by (auto split: if_splits)
  then have "files (put_entry N e st) (entry_id scope k) = None" if "plain_key k" "k \<notin> en_key ` set (upsert en_key e es)" for k
    using that inv by (simp add: keep scope_inv_def)
  moreover have "distinct (map en_key (upsert en_key e es))"
    using inv by (intro upsert_distinct) (simp add: scope_inv_def)
  ultimately show ?thesis unfolding scope_inv_def using order rows by blast
qed

text \<open>The rows of a scope, as \<open>entries_by_scope\<close> of \<open>session_memory.cpp\<close> reads them.\<close>

definition entries_by_scope :: "'d num_ops \<Rightarrow> string \<Rightarrow> MemStore \<Rightarrow> Entry list" where
  "entries_by_scope N scope st = List.map_filter (\<lambda>f. case entry_from_json N (file_content f) of
     Inr e \<Rightarrow> Some e | Inl _ \<Rightarrow> None) (files_by_session scope st)"

lemma entries_by_scope_inv: "scope_inv N scope es st \<Longrightarrow> nums_ok N \<Longrightarrow> entries_by_scope N scope st = es"
  unfolding entries_by_scope_def using filter_decoded [OF scope_files, of N scope es st Some]
  by (simp add: scope_inv_def map_filter_def)

definition scope_ok :: "'d num_ops \<Rightarrow> string \<Rightarrow> MemStore \<Rightarrow> bool" where
  "scope_ok N scope st \<longleftrightarrow> nums_ok N \<and> (\<exists>es. scope_inv N scope es st)"

interpretation mem: keyed_rows "put_entry N" "entries_by_scope N scope" en_key
    "\<lambda>e. en_scope e = scope \<and> times_ok N e \<and> plain_key (en_key e)" "scope_ok N scope"
proof unfold_locales
  fix st e
  assume st: "scope_ok N scope st" and e: "en_scope e = scope \<and> times_ok N e \<and> plain_key (en_key e)"
  from st obtain es where es: "nums_ok N" "scope_inv N scope es st" by (auto simp: scope_ok_def)
  with e have "scope_inv N scope (upsert en_key e es) (put_entry N e st)" by (blast intro: scope_inv_put)
  then show "scope_ok N scope (put_entry N e st)"
    "entries_by_scope N scope (put_entry N e st) = upsert en_key e (entries_by_scope N scope st)"
    using es by (auto simp: scope_ok_def entries_by_scope_inv)
qed

section \<open>Workspace memory is a keyed ring\<close>

text \<open>
  The abstract memory of a workspace is the list of its entries. A write that passes validation replaces the
  entry of the same key or is added; when the memory is full, it takes over the key, and with it the
  place, of the entry with the smallest time stamp.
\<close>

definition ring_write :: "MemoryCfg \<Rightarrow> string \<Rightarrow> Entry \<Rightarrow> Entry list \<Rightarrow> Entry list" where
  "ring_write caps root e es =
     (let e1 = e\<lparr>en_scope := workspace_scope root\<rparr> in
      if \<not> is_ok (validate_entry e1 caps) then es
      else upsert en_key (if length es < unat (max_entries caps) then e1
             else case oldest es of Some x \<Rightarrow> e1\<lparr>en_key := en_key x\<rparr> | None \<Rightarrow> e1) es)"

definition memory_writes :: "'d num_ops \<Rightarrow> MemoryCfg \<Rightarrow> (string \<times> Entry) list \<Rightarrow> MemStore option \<Rightarrow> MemStore option" where
  "memory_writes N caps ws = fold (\<lambda>(root, e) st. snd (snd (write_entry N caps root e st))) ws"

lemma oldest_in: "oldest es = Some x \<Longrightarrow> x \<in> set es"
proof -
  have "fold (\<lambda>e out. case out of None \<Rightarrow> Some e | Some m \<Rightarrow> if en_created_at e < en_created_at m then Some e else Some m) es out = Some x
      \<Longrightarrow> x \<in> set es \<or> out = Some x" for out
    by (induction es arbitrary: out) (auto split: option.splits if_splits)
  then show "oldest es = Some x \<Longrightarrow> x \<in> set es" unfolding oldest_def by blast
qed

lemma oldest_None: "oldest es = None \<longleftrightarrow> es = []"
proof -
  have "fold (\<lambda>e out. case out of None \<Rightarrow> Some e | Some m \<Rightarrow> if en_created_at e < en_created_at m then Some e else Some m) xs (Some m) \<noteq> None" for m xs
    by (induction xs arbitrary: m) auto
  then show ?thesis by (cases es) (auto simp: oldest_def)
qed

definition entry_ok :: "MemoryCfg \<Rightarrow> Entry \<Rightarrow> bool" where
  "entry_ok caps e \<longleftrightarrow> is_ok (validate_entry e caps)"

lemma entry_ok_iff: "entry_ok caps e \<longleftrightarrow> valid_key_chars (en_key e) (max_key_chars caps) \<and>
    length (en_value e) \<le> unat (max_value_chars caps) \<and> \<not> has_secret_value (en_key e) (en_value e)"
  by (cases "en_kind e") (auto simp: entry_ok_def validate_entry_def)

lemma entry_ok_plain: "entry_ok caps e \<Longrightarrow> plain_key (en_key e)"
  by (auto simp: entry_ok_iff valid_key_chars_def plain_key_def list_all_iff is_alnum_def byte_val_def)

text \<open>Key and value are examined separately, so valid entries may exchange their keys.\<close>

lemma entry_ok_rekey: "entry_ok caps e \<Longrightarrow> entry_ok caps x \<Longrightarrow> entry_ok caps (e\<lparr>en_key := en_key x\<rparr>)"
  unfolding entry_ok_iff has_secret_value_def by (simp split: if_splits)

definition ring_inv :: "MemoryCfg \<Rightarrow> Entry list \<Rightarrow> bool" where
  "ring_inv caps es \<longleftrightarrow> distinct (map en_key es) \<and> list_all (entry_ok caps) es \<and> length es \<le> max 1 (unat (max_entries caps))"

lemma upsert_length: "length (upsert key e es) = (if key e \<in> key ` set es then length es else Suc (length es))"
  by (simp add: upsert_def)

lemma ring_write_inv: "ring_inv caps es \<Longrightarrow> ring_inv caps (ring_write caps root e es)"
proof -
  assume inv: "ring_inv caps es"
  define e1 where "e1 = e\<lparr>en_scope := workspace_scope root\<rparr>"
  define e2 where "e2 = (if length es < unat (max_entries caps) then e1
      else case oldest es of Some x \<Rightarrow> e1\<lparr>en_key := en_key x\<rparr> | None \<Rightarrow> e1)"
  show ?thesis
  proof (cases "entry_ok caps e1")
    case True
    then have "entry_ok caps e2" using inv oldest_in entry_ok_rekey
      by (auto simp: e2_def ring_inv_def list_all_iff split: option.splits)
    moreover have "length (upsert en_key e2 es) \<le> max 1 (unat (max_entries caps))"
      using inv oldest_in oldest_None by (auto simp: e2_def upsert_length ring_inv_def split: option.splits)
    ultimately have "ring_inv caps (upsert en_key e2 es)"
      using inv upsert_distinct [of en_key es e2] upsert_set [of en_key e2 es] by (auto simp: ring_inv_def list_all_iff)
    then show ?thesis using True by (simp add: ring_write_def Let_def entry_ok_def e1_def [symmetric] e2_def [symmetric])
  qed (use inv in \<open>simp add: ring_write_def Let_def entry_ok_def e1_def\<close>)
qed

lemma times_ok_update [simp]: "times_ok N (e\<lparr>en_scope := s\<rparr>) = times_ok N e" "times_ok N (e\<lparr>en_key := k\<rparr>) = times_ok N e"
  by (simp_all add: times_ok_def)

lemma workspace_scope_inj [simp]: "workspace_scope r = workspace_scope s \<longleftrightarrow> r = s"
  by (simp add: workspace_scope_def)

lemma write_entry_ring:
  assumes N: "nums_ok N" "times_ok N e" and inv: "\<And>r. scope_inv N (workspace_scope r) (f r) st" "\<And>r. ring_inv caps (f r)"
  shows "\<exists>st'. snd (snd (write_entry N caps root e (Some st))) = Some st' \<and>
    (\<forall>r. scope_inv N (workspace_scope r) ((f(root := ring_write caps root e (f root))) r) st')"
proof -
  define e1 where "e1 = e\<lparr>en_scope := workspace_scope root\<rparr>"
  define e2 where "e2 = (if length (f root) < unat (max_entries caps) then e1
      else case oldest (f root) of Some x \<Rightarrow> e1\<lparr>en_key := en_key x\<rparr> | None \<Rightarrow> e1)"
  show ?thesis
  proof (cases "entry_ok caps e1")
    case True
    have "entry_ok caps e2" using inv(2) [of root] True oldest_in entry_ok_rekey
      by (auto simp: e2_def ring_inv_def list_all_iff split: option.splits)
    then have e2: "plain_key (en_key e2)" "en_scope e2 = workspace_scope root" "times_ok N e2"
      using N(2) by (auto simp: entry_ok_plain e2_def e1_def split: option.splits)
    have read: "read_entries N (Some st) root None = f root" by (rule read_entries_scope [OF inv(1) N(1)])
    have "snd (snd (write_entry N caps root e (Some st))) = Some (put_entry N e2 st)"
      using True by (auto simp: write_entry_def Let_def e1_def [symmetric] entry_ok_def read e2_def put_entry_def not_less
          split: prod.splits if_splits)
    moreover have "ring_write caps root e (f root) = upsert en_key e2 (f root)"
      using True by (simp add: ring_write_def Let_def e1_def [symmetric] e2_def entry_ok_def)
    moreover have "scope_inv N (workspace_scope r) ((f(root := upsert en_key e2 (f root))) r) (put_entry N e2 st)" for r
      using scope_inv_put [OF inv(1) e2(2,3,1)] scope_inv_put_other [OF inv(1) _ e2(1)] e2(2) by (cases "r = root") auto
    ultimately show ?thesis by auto
  next
    case False
    then show ?thesis using inv(1)
      by (auto simp: write_entry_def ring_write_def Let_def e1_def [symmetric] entry_ok_def)
  qed
qed

lemma memory_writes_ring:
  assumes "nums_ok N" "\<forall>(root, e) \<in> set ws. times_ok N e"
    "\<And>r. scope_inv N (workspace_scope r) (f r) st" "\<And>r. ring_inv caps (f r)"
  shows "\<exists>st'. memory_writes N caps ws (Some st) = Some st' \<and>
    (\<forall>r. let es = fold (ring_write caps r) (map snd (filter (\<lambda>(root, e). root = r) ws)) (f r) in
       scope_inv N (workspace_scope r) es st' \<and> ring_inv caps es)"
  using assms(2-)
proof (induction ws arbitrary: f st)
  case (Cons w ws)
  obtain root e where w: "w = (root, e)" by fastforce
  define g where "g = f(root := ring_write caps root e (f root))"
  obtain st1 where st1: "snd (snd (write_entry N caps root e (Some st))) = Some st1" "\<And>r. scope_inv N (workspace_scope r) (g r) st1"
    using write_entry_ring [OF assms(1) _ Cons.prems(2,3), of e root] Cons.prems(1) by (auto simp: w g_def)
  have g: "ring_inv caps (g r)" for r using Cons.prems(3) ring_write_inv by (simp add: g_def)
  have "fold (ring_write caps r) (map snd (filter (\<lambda>(root, e). root = r) (w # ws))) (f r) =
      fold (ring_write caps r) (map snd (filter (\<lambda>(root, e). root = r) ws)) (g r)" for r
    by (simp add: w g_def)
  then show ?case using Cons.IH [OF _ st1(2) g] Cons.prems(1) by (simp add: memory_writes_def w st1(1))
qed (auto simp: memory_writes_def)

lemma empty_scope: "scope_inv N scope [] create_mem_store"
  by (simp add: scope_inv_def create_mem_store_def order_of_def)


lemma nat_nums_times: "times_ok nat_nums e"
  by (simp add: times_ok_def nat_nums_def)

definition small_caps :: MemoryCfg where
  "small_caps = \<lparr>max_value_chars = 16, max_key_chars = 8, max_entries = 2, max_entries_per_task = 6, max_entry_tokens = 400\<rparr>"

definition mem_note :: "string \<Rightarrow> string \<Rightarrow> u64 \<Rightarrow> Entry" where
  "mem_note k v t = new_entry\<lparr>en_scope := workspace_scope ''w'', en_key := k, en_value := v, en_created_at := t\<rparr>"


text \<open>The updated key keeps its old value whenever the memory is full and another entry is older.\<close>

lemma full_memory_keeps_old_value:
  assumes "length es \<ge> unat (max_entries caps)" "oldest es = Some x" "en_key x \<noteq> en_key e" "entry_ok caps (e\<lparr>en_scope := workspace_scope root\<rparr>)"
  shows "find (\<lambda>y. en_key y = en_key e) (ring_write caps root e es) = find (\<lambda>y. en_key y = en_key e) es"
  using assms by (simp add: ring_write_def Let_def entry_ok_def upsert_find)

end
