(* ===== verification/Session_Memory.thy ===== *)
theory Session_Memory
  imports Memory Sha1 "HOL-Library.Char_ord" "HOL-Library.List_Lexorder"
begin

text \<open>
  Checkpoints (\<open>src/memory/session_memory.cpp\<close>): the session row, the messages and three task-state entries go to
  the store, and a later process reads them back and compares the workspace's fingerprint with the recorded
  one. The recursive directory walk is the parameter \<open>walk\<close>: the regular files below a directory with their
  relative path and content (\<open>None\<close> for a file that cannot be opened), or \<open>None\<close> when the walk fails.
\<close>

section \<open>Fingerprints\<close>

type_synonym dir_walk = "string \<Rightarrow> (string \<times> string option) list option"

definition hash_lines :: "(string \<times> string option) list \<Rightarrow> string list" where
  "hash_lines entries = List.map_filter (\<lambda>(rel, content).
     if starts_with rel ''.git/'' \<or> rel = ''.git'' then None
     else map_option (\<lambda>c. rel @ '':'' @ sha1_hex c) content) entries"

text \<open>The \<open>std::set\<close> of lines, iterated in ascending byte order.\<close>

definition workspace_hash :: "dir_walk \<Rightarrow> string \<Rightarrow> error_code + string" where
  "workspace_hash walk dir = (case walk dir of
     None \<Rightarrow> Inl (make_error e_tool_reject)
   | Some entries \<Rightarrow> Inr (sha1_hex (concat (map (\<lambda>l. l @ [nl]) (remdups (sort (hash_lines entries)))))))"

section \<open>Checkpoint and resume\<close>

record SessionCheckpoint =
  cp_session_id :: string
  cp_messages :: "Message list"
  cp_applied_edits :: "string list"
  cp_tokens_used :: u64
  cp_workspace_hash :: string
  cp_workspace_matches :: bool
  cp_found :: bool

definition no_checkpoint :: SessionCheckpoint where
  "no_checkpoint = \<lparr>cp_session_id = [], cp_messages = [], cp_applied_edits = [], cp_tokens_used = 0,
     cp_workspace_hash = [], cp_workspace_matches = False, cp_found = False\<rparr>"

definition session_scope :: "string \<Rightarrow> string" where
  "session_scope sid = ''session:'' @ sid"

definition find_entry :: "Entry list \<Rightarrow> string \<Rightarrow> Entry option" where
  "find_entry es key = find (\<lambda>e. en_key e = key) es"

definition state_entry :: "u64 \<Rightarrow> string \<Rightarrow> string \<Rightarrow> string \<Rightarrow> Entry" where
  "state_entry now sid key val = new_entry\<lparr>en_kind := k_task_state, en_scope := session_scope sid, en_key := key,
     en_value := val, en_created_at := now\<rparr>"

definition checkpoint :: "'d num_ops \<Rightarrow> u64 \<Rightarrow> string \<Rightarrow> Message list \<Rightarrow> u64 \<Rightarrow> string list \<Rightarrow> string \<Rightarrow>
    MemStore option \<Rightarrow> string \<times> MemStore option" where
  "checkpoint N now sid messages tokens_used edits hash store = (case store of
     None \<Rightarrow> ([], None)
   | Some st \<Rightarrow>
       (let row = \<lparr>ss_id = sid, ss_title = (case messages of [] \<Rightarrow> [] | m # _ \<Rightarrow> content_text m),
                    ss_created_at = 0, ss_updated_at = 0\<rparr>;
            (saved, st1) = session_save row st
        in if ss_id saved = [] then ([], Some st1)
           else (let st2 = fold (\<lambda>m s. snd (message_save m s)) messages st1;
                     st3 = put_entry N (state_entry now sid ''applied_edits'' (to_json (n_format N) (JArr (map JStr edits)))) st2;
                     st4 = put_entry N (state_entry now sid ''tokens_used'' (show_nat (unat tokens_used))) st3;
                     st5 = (if hash \<noteq> [] then put_entry N (state_entry now sid ''workspace_hash'' hash) st4 else st4)
                 in (ss_id saved, Some st5))))"

text \<open>\<open>std::stoull(s, nullptr, 10)\<close>; \<open>None\<close> when it throws.\<close>

definition stoull :: "string \<Rightarrow> u64 option" where
  "stoull s =
     (let s1 = dropWhile is_space s;
          neg = (s1 \<noteq> [] \<and> hd s1 = CHR ''-'');
          s2 = (if s1 \<noteq> [] \<and> hd s1 \<in> set ''+-'' then tl s1 else s1);
          ds = takeWhile is_digit s2;
          v = dec_value 0 ds
      in if ds = [] \<or> v > u64_max then None else Some (if neg then - of_nat v else of_nat v))"

definition edits_of :: "'d num_ops \<Rightarrow> string \<Rightarrow> string list" where
  "edits_of N val = (case parse_json (n_from_chars N) val of
     Some (Inr (JArr vs)) \<Rightarrow> List.map_filter (\<lambda>v. case v of JStr t \<Rightarrow> Some t | _ \<Rightarrow> None) vs | _ \<Rightarrow> [])"

definition resume :: "'d num_ops \<Rightarrow> dir_walk \<Rightarrow> MemStore option \<Rightarrow> string \<Rightarrow> string \<Rightarrow> SessionCheckpoint" where
  "resume N walk store sid dir = (case store of
     None \<Rightarrow> no_checkpoint
   | Some st \<Rightarrow>
       (if ss_id (session_get sid st) = [] then no_checkpoint\<lparr>cp_session_id := sid\<rparr>
        else let es = entries_by_scope N (session_scope sid) st;
                 hash = (case find_entry es ''workspace_hash'' of Some e \<Rightarrow> en_value e | None \<Rightarrow> [])
             in \<lparr>cp_session_id = sid, cp_messages = messages_by_session sid st,
                 cp_applied_edits = (case find_entry es ''applied_edits'' of Some e \<Rightarrow> edits_of N (en_value e) | None \<Rightarrow> []),
                 cp_tokens_used = (case find_entry es ''tokens_used'' of
                    Some e \<Rightarrow> (case stoull (en_value e) of Some v \<Rightarrow> v | None \<Rightarrow> 0) | None \<Rightarrow> 0),
                 cp_workspace_hash = hash,
                 cp_workspace_matches = (hash \<noteq> [] \<and> (case workspace_hash walk dir of Inr h \<Rightarrow> h = hash | Inl _ \<Rightarrow> False)),
                 cp_found = True\<rparr>))"

section \<open>What a checkpoint stores is resumed\<close>

lemma workspace_hash_order:
  assumes "walk dir = Some xs" "walk' dir = Some ys" "set (hash_lines xs) = set (hash_lines ys)"
  shows "workspace_hash walk dir = workspace_hash walk' dir"
proof -
  have "remdups (sort (hash_lines xs)) = remdups (sort (hash_lines ys))"
    using assms(3) by (intro sorted_distinct_set_unique) simp_all
  then show ?thesis using assms(1,2) by (simp add: workspace_hash_def)
qed

lemma stoull_show: "stoull (show_nat (unat v)) = Some v"
proof -
  obtain c ds where s: "show_nat (unat v) = c # ds" "is_digit c" "list_all is_digit ds"
    using show_nat_digits [of "unat v"] by (cases "show_nat (unat v)") auto
  have c: "\<not> is_space c" "c \<noteq> CHR ''-''" "c \<noteq> CHR ''+''"
    using s(2) by (auto simp: is_digit_def is_space_def byte_val_def)
  have "takeWhile is_digit (c # ds) = c # ds" using s(2,3) by (simp add: takeWhile_eq_all_conv list_all_iff)
  moreover have "dec_value 0 (c # ds) = unat v" using dec_value_show_nat [of "unat v"] s(1) by simp
  ultimately show ?thesis using c unat_u64_le [of v] unfolding stoull_def s(1) Let_def by simp
qed

lemma edits_of_text: "nums_ok N \<Longrightarrow> edits_of N (to_json (n_format N) (JArr (map JStr edits))) = edits"
  unfolding nums_ok_def edits_of_def
  by (subst reads_back_parse) (auto simp: list_all_iff strings_filter)

lemma save_files [simp]:
  "files (snd (session_save s st)) = files st" "files_order (snd (session_save s st)) = files_order st"
  "files (snd (message_save m st)) = files st" "files_order (snd (message_save m st)) = files_order st"
  "sessions (snd (message_save m st)) = sessions st"
  by (auto simp: session_save_def message_save_def Let_def next_id_def split: prod.splits if_splits)

lemma fold_save_files [simp]:
  "files (fold (\<lambda>m s. snd (message_save m s)) ms st) = files st"
  "files_order (fold (\<lambda>m s. snd (message_save m s)) ms st) = files_order st"
  "sessions (fold (\<lambda>m s. snd (message_save m s)) ms st) = sessions st"
  by (induction ms arbitrary: st) simp_all

lemma put_keeps [simp]:
  "sessions (put_entry N e st) = sessions st" "msgs (put_entry N e st) = msgs st"
  by (auto simp: put_entry_def file_save_keeps file_save_version_def save_new_file_def Let_def next_id_def
      split: option.splits prod.splits if_splits)

lemma fold_save_messages:
  "list_all (\<lambda>m. msg_id m \<noteq> [] \<and> session_id m = sid) ms \<Longrightarrow>
   messages_by_session sid (fold (\<lambda>m s. snd (message_save m s)) ms st) = messages_by_session sid st @ ms"
proof (induction ms arbitrary: st)
  case (Cons m ms)
  have "m\<lparr>msg_id := msg_id m\<rparr> = m" by simp
  then show ?case using Cons by (simp add: message_save_def Let_def messages_by_session_def)
qed simp

lemma scope_ok_cong: "files st = files st' \<Longrightarrow> files_order st = files_order st' \<Longrightarrow> scope_ok N s st = scope_ok N s st'"
  by (simp add: scope_ok_def scope_inv_def order_of_def)

lemma state_entry_good:
  assumes "times_ok N (state_entry now sid [] [])" "plain_key key"
  shows "en_scope (state_entry now sid key val) = session_scope sid \<and> times_ok N (state_entry now sid key val) \<and>
     plain_key (en_key (state_entry now sid key val))"
  using assms by (simp add: state_entry_def times_ok_def)

text \<open>
  C37: resuming the session a checkpoint was written for finds it, with the applied edits, the token count and the
  workspace hash of the checkpoint, and the workspace counts as unchanged exactly when its fingerprint is the
  recorded one. The messages are those of the checkpoint behind whatever the store already held of the
  session.
\<close>

theorem checkpoint_resume:
  assumes "scope_ok N (session_scope sid) st" "n_to_u64 N (n_of_u64 N now) = now" "n_to_u64 N (n_of_u64 N 0) = 0"
    "sid \<noteq> []" "hash \<noteq> []" "list_all (\<lambda>m. msg_id m \<noteq> [] \<and> session_id m = sid) messages"
  shows "resume N walk (snd (checkpoint N now sid messages tokens_used edits hash (Some st))) sid dir =
    \<lparr>cp_session_id = sid, cp_messages = messages_by_session sid st @ messages, cp_applied_edits = edits,
     cp_tokens_used = tokens_used, cp_workspace_hash = hash,
     cp_workspace_matches = (workspace_hash walk dir = Inr hash), cp_found = True\<rparr>"
proof -
  let ?s = "session_scope sid" let ?e = "\<lambda>k v. state_entry now sid k v"
  define row where "row = \<lparr>ss_id = sid, ss_title = (case messages of [] \<Rightarrow> [] | m # _ \<Rightarrow> content_text m),
      ss_created_at = 0 :: u64, ss_updated_at = 0 :: u64\<rparr>"
  define st2 where "st2 = fold (\<lambda>m s. snd (message_save m s)) messages (snd (session_save row st))"
  define ed where "ed = to_json (n_format N) (JArr (map JStr edits))"
  define st3 where "st3 = put_entry N (?e ''applied_edits'' ed) st2"
  define st4 where "st4 = put_entry N (?e ''tokens_used'' (show_nat (unat tokens_used))) st3"
  define st5 where "st5 = put_entry N (?e ''workspace_hash'' hash) st4"
  have nums: "nums_ok N" using assms(1) by (simp add: scope_ok_def)
  have row: "session_save row st = (row, snd (session_save row st))" "ss_id row = sid"
    using assms(4) by (simp_all add: session_save_def row_def Let_def)
  have good: "en_scope (?e k v) = ?s \<and> times_ok N (?e k v) \<and> plain_key (en_key (?e k v))" if "plain_key k" for k v
    using assms(2,3) that by (intro state_entry_good) (auto simp: times_ok_def state_entry_def new_entry_def)
  have plain: "plain_key ''applied_edits''" "plain_key ''tokens_used''" "plain_key ''workspace_hash''"
    by (simp_all add: plain_key_def)
  have v2: "scope_ok N ?s st2" using assms(1) by (simp add: st2_def cong: scope_ok_cong)
  then have v3: "scope_ok N ?s st3" unfolding st3_def by (rule mem.put_valid) (rule good [OF plain(1)])
  then have v4: "scope_ok N ?s st4" unfolding st4_def by (rule mem.put_valid) (rule good [OF plain(2)])
  have look: "find_entry (entries_by_scope N ?s st5) ''applied_edits'' = Some (?e ''applied_edits'' ed)"
    "find_entry (entries_by_scope N ?s st5) ''tokens_used'' = Some (?e ''tokens_used'' (show_nat (unat tokens_used)))"
    "find_entry (entries_by_scope N ?s st5) ''workspace_hash'' = Some (?e ''workspace_hash'' hash)"
    unfolding find_entry_def st5_def mem.lookup_put [OF v4 good [OF plain(3)]]
    unfolding st4_def mem.lookup_put [OF v3 good [OF plain(2)]]
    unfolding st3_def mem.lookup_put [OF v2 good [OF plain(1)]]
    by (simp_all add: state_entry_def)
  have "sessions st5 = sessions (snd (session_save row st))" "msgs st5 = msgs st2"
    by (simp_all add: st5_def st4_def st3_def st2_def)
  then have sess: "session_get sid st5 = row" and m: "messages_by_session sid st5 = messages_by_session sid st2"
    using assms(4) by (simp_all add: session_get_def session_save_def row_def messages_by_session_def Let_def)
  have "messages_by_session sid st2 = messages_by_session sid st @ messages"
    using fold_save_messages [OF assms(6)] session_save_keeps(1) [of row st] by (simp add: st2_def messages_by_session_def)
  moreover have "snd (checkpoint N now sid messages tokens_used edits hash (Some st)) = Some st5"
    unfolding checkpoint_def option.case Let_def row_def [symmetric]
    using assms(4,5) by (subst row(1)) (simp add: row(2) st5_def st4_def st3_def st2_def ed_def)
  moreover have "edits_of N ed = edits" unfolding ed_def by (rule edits_of_text [OF nums])
  ultimately show ?thesis using assms(4,5) sess look m
    by (simp add: resume_def row_def state_entry_def stoull_show Let_def split: sum.split)
qed

definition hello :: Message where
  "hello = \<lparr>msg_id = ''m1'', session_id = ''s'', msg_role = role_user, msg_model = [], parts = [Text ''hi''], created_at = 1\<rparr>"

theorem checkpoint_resume_witness:
  "resume nat_nums (\<lambda>_. None) (snd (checkpoint nat_nums 7 ''s'' [hello] 42 [''a.c (file.write)''] ''h'' (Some create_mem_store))) ''s'' ''.'' =
    \<lparr>cp_session_id = ''s'', cp_messages = [hello], cp_applied_edits = [''a.c (file.write)''], cp_tokens_used = 42,
     cp_workspace_hash = ''h'', cp_workspace_matches = False, cp_found = True\<rparr>"
proof -
  have "scope_ok nat_nums (session_scope ''s'') create_mem_store"
    using empty_scope nat_nums_ok by (auto simp: scope_ok_def)
  from checkpoint_resume [OF this, of 7 "''h''" "[hello]" "\<lambda>_. None" 42 "[''a.c (file.write)'']" "''.''"]
  show ?thesis by (simp add: nat_nums_def hello_def workspace_hash_def messages_by_session_def create_mem_store_def)
qed

text \<open>
  Every checkpoint saves the whole history again, so the second one of a task doubles the history that a
  resumed session starts from.
\<close>

lemma checkpoint_appends_history:
  assumes "scope_ok N (session_scope sid) st" "n_to_u64 N (n_of_u64 N now) = now" "n_to_u64 N (n_of_u64 N 0) = 0"
    "sid \<noteq> []" "list_all (\<lambda>m. msg_id m \<noteq> [] \<and> session_id m = sid) messages"
  shows "messages_by_session sid (the (snd (checkpoint N now sid messages t ed hash (Some st)))) = messages_by_session sid st @ messages"
proof -
  define row where "row = \<lparr>ss_id = sid, ss_title = (case messages of [] \<Rightarrow> [] | m # _ \<Rightarrow> content_text m),
      ss_created_at = 0 :: u64, ss_updated_at = 0 :: u64\<rparr>"
  have row: "session_save row st = (row, snd (session_save row st))" "ss_id row = sid"
    using assms(4) by (simp_all add: session_save_def row_def Let_def)
  have "msgs (the (snd (checkpoint N now sid messages t ed hash (Some st)))) =
      msgs (fold (\<lambda>m s. snd (message_save m s)) messages (snd (session_save row st)))"
    unfolding checkpoint_def option.case Let_def row_def [symmetric]
    using assms(4) by (subst row(1)) (simp add: row(2))
  then show ?thesis using fold_save_messages [OF assms(5), of "snd (session_save row st)"] session_save_keeps(1) [of row st]
    by (simp add: messages_by_session_def)
qed

end
