(* ===== verification/Summarizer.thy ===== *)
theory Summarizer
  imports Tokens
begin

text \<open>
  The lossy fold of long histories (\<open>src/memory/summarizer.cpp\<close>): when the estimated history does not fit beside the
  reserved output, everything before the newest messages becomes one summary message.
\<close>

definition edge_ws :: "char \<Rightarrow> bool" where
  "edge_ws c \<longleftrightarrow> c = nl \<or> c = cr \<or> c = sp \<or> c = tab"

definition edge_lines :: "string \<Rightarrow> string \<times> string" where
  "edge_lines body =
     (let t = rev (dropWhile edge_ws (rev (dropWhile edge_ws body))) in
      if t = [] then ([], [])
      else let first = (case find_char nl t of None \<Rightarrow> t | Some n \<Rightarrow> take n t);
               last_line = (case rfind_char nl t of
                  None \<Rightarrow> t
                | Some n \<Rightarrow> if n = 0 then t else dropWhile (\<lambda>c. c = cr \<or> c = sp \<or> c = tab) (drop (n + 1) t))
           in (first, if first = last_line then [] else last_line))"

definition line_fragment :: "string \<Rightarrow> string" where
  "line_fragment body = (case edge_lines body of (first, last_line) \<Rightarrow>
     if last_line \<noteq> [] then first @ '' ... '' @ last_line else first)"

definition estimate_history_tokens :: "Message list \<Rightarrow> u32" where
  "estimate_history_tokens ms =
     (let n = sum_list (map (\<lambda>m. estimate_tokens (content_text m) + length (tool_calls m) * 12 + length (tool_results m) * 8) ms)
      in if n > 0xFFFFFFFF then 0xFFFFFFFF else of_nat n)"

definition needs_fold :: "Message list \<Rightarrow> u32 \<Rightarrow> u32 \<Rightarrow> nat \<Rightarrow> bool" where
  "needs_fold ms context_window max_output_tokens keep_recent =
     (if context_window = 0 then False
      else if length ms \<le> keep_recent then False
      else unat (estimate_history_tokens ms) >
        (if max_output_tokens < context_window then unat context_window - unat max_output_tokens else 0))"

definition turn_text :: "Message \<Rightarrow> string" where
  "turn_text m = ''['' @ role_str (msg_role m) @ ''] ''
     @ (let body = content_text m in if body \<noteq> [] then line_fragment body else [])
     @ (if length (tool_calls m) > 0 then '' tool_calls='' @ show_nat (length (tool_calls m)) else [])
     @ (if length (tool_results m) > 0 then '' tool_results='' @ show_nat (length (tool_results m)) else [])"

definition outcome_text :: "Message \<Rightarrow> string" where
  "outcome_text m = (let body = content_text m in
     if body \<noteq> [] then line_fragment body
     else if is_finished m then finish_str (finish_reason m)
     else ''turn complete'')"

definition local_fold_text :: "Message list \<Rightarrow> string" where
  "local_fold_text ms =
     fold (\<lambda>m out. (if out \<noteq> [] then out @ [nl] else out) @ turn_text m) ms []
     @ (if ms \<noteq> [] then nl # ''outcome: '' @ outcome_text (last ms) else [])"

record FoldResult =
  fr_messages :: "Message list"
  fr_summary :: Message
  fr_folded_count :: nat
  fr_folded_tokens :: u32
  fr_event_what :: string
  fr_event_reason :: string
  fr_folded :: bool

definition no_fold :: FoldResult where
  "no_fold = \<lparr>fr_messages = [], fr_summary = empty_message, fr_folded_count = 0, fr_folded_tokens = 0,
     fr_event_what = [], fr_event_reason = [], fr_folded = False\<rparr>"

text \<open>The optional callback \<open>SummaryFn\<close> is the option \<open>fn\<close>.\<close>

definition fold_oldest :: "Message list \<Rightarrow> u32 \<Rightarrow> u32 \<Rightarrow> nat \<Rightarrow> (Message list \<Rightarrow> string \<Rightarrow> string) option \<Rightarrow> FoldResult" where
  "fold_oldest ms context_window max_output_tokens keep_recent fn =
     (if length ms \<le> keep_recent then no_fold
      else let k = length ms - keep_recent; folded = take k ms; tail = drop k ms;
               local_text = local_fold_text folded;
               (body, reason) = (case fn of
                  None \<Rightarrow> (local_text, ''budget forbids an extra LLM call'')
                | Some f \<Rightarrow> (let s = f folded local_text in
                    if s \<noteq> [] then (s, ''LLM fold'') else (local_text, ''budget forbids an extra LLM call'')));
               summary = empty_message\<lparr>parts := [Text (''[summary of earlier turns]'' @ nl # body)]\<rparr>;
               messages = summary # tail
           in \<lparr>fr_messages = messages, fr_summary = summary, fr_folded_count = length folded,
               fr_folded_tokens = estimate_history_tokens folded,
               fr_event_what = ''history fold: '' @ show_nat (length folded) @ '' messages'',
               fr_event_reason = reason @ (if needs_fold messages context_window max_output_tokens keep_recent
                  then ''; still over the context cap after fold'' else []),
               fr_folded = True\<rparr>)"

text \<open>
  A fold keeps the newest messages untouched behind exactly one summary, and counts the rest as folded; when
  it does not take place nothing was longer than the kept tail.
\<close>

lemma fold_oldest_projection:
  "let r = fold_oldest ms cw mo k fn in
   fr_folded r = (length ms > k) \<and>
   (if fr_folded r then fr_messages r = fr_summary r # drop (length ms - k) ms \<and> fr_folded_count r + k = length ms
    else fr_messages r = [])"
  by (auto simp: fold_oldest_def no_fold_def Let_def split: option.splits prod.splits)

lemma edge_lines_single:
  assumes "nl \<notin> set body" "body \<noteq> []" "\<not> edge_ws (hd body)" "\<not> edge_ws (last body)"
  shows "line_fragment body = body"
proof -
  have 1: "dropWhile edge_ws body = body" using assms(2,3) by (cases body) auto
  have "dropWhile edge_ws (rev body) = rev body" using assms(2,4) by (cases body rule: rev_cases) auto
  then have t: "rev (dropWhile edge_ws (rev (dropWhile edge_ws body))) = body" by (simp add: 1)
  have "find_char nl body = None" "rfind_char nl body = None" using assms(1) by (simp_all add: rfind_char_def)
  then show ?thesis using assms(2) unfolding line_fragment_def edge_lines_def t Let_def by (simp del: find_char_None)
qed

end
