(* ===== verification/Prompt.thy ===== *)
theory Prompt
  imports Provider Tools Sha1
begin

text \<open>
  Prompts and context assembly: the token budget (\<open>src/prompt/budget.cpp\<close>), the template compiler
  (\<open>src/prompt/compiler.cpp\<close>), the registry and the tool schema cost (\<open>src/prompt/registry.cpp\<close>) and the tiered
  context assembler (\<open>src/prompt/context.cpp\<close>). Token estimates are natural numbers, as in the token theory; the
  one subtraction of the assembler that can wrap around is written out. The directory of templates and the
  number conversions behind the JSON of the tool schemas are parameters.
\<close>

section \<open>Budgets\<close>

definition kTargetContextTokens :: u32 where "kTargetContextTokens = 3500"
definition kHardCapTokens :: u32 where "kHardCapTokens = 12000"
definition kMinOutputTokens :: u32 where "kMinOutputTokens = 1024"
definition kRetryTokensPerAttempt :: u64 where "kRetryTokensPerAttempt = 1500"

record BudgetCaps =
  bc_context_target :: u32
  bc_hard_cap :: u32
  bc_max_output :: u32
  bc_context_window :: u32
  bc_edge_mode :: bool

record CostProjection =
  cost_cents :: u64
  cost_input_tokens :: u64
  cost_output_tokens :: u64
  cost_cached_input_tokens :: u64

record TokenBudget =
  tb_total_tokens :: u64
  tb_used_tokens :: u64
  tb_retry_tokens :: u64
  tb_attempts :: u32
  tb_max_attempts :: u32

definition tb_is_exhausted :: "TokenBudget \<Rightarrow> bool" where
  "tb_is_exhausted b \<longleftrightarrow> tb_used_tokens b \<ge> tb_total_tokens b"

definition tb_remaining :: "TokenBudget \<Rightarrow> u64" where
  "tb_remaining b = (if tb_is_exhausted b then 0 else tb_total_tokens b - tb_used_tokens b)"

definition caps_for :: "string \<Rightarrow> u32 \<Rightarrow> BudgetCaps" where
  "caps_for model_id config_hard_cap =
     (let (window, max_out) = (case find_model model_id of
            Some m \<Rightarrow> (mi_context_window m, mi_default_max_tokens m) | None \<Rightarrow> (0, kMinOutputTokens));
          cap0 = (if config_hard_cap \<noteq> 0 then config_hard_cap else kHardCapTokens);
          reserved = (if max_out \<noteq> 0 then max_out else kMinOutputTokens);
          cap = (if window \<noteq> 0 \<and> window > reserved \<and> cap0 > window - reserved then window - reserved else cap0)
      in \<lparr>bc_context_target = (if kTargetContextTokens < cap then kTargetContextTokens else cap), bc_hard_cap = cap,
          bc_max_output = max_out, bc_context_window = window, bc_edge_mode = False\<rparr>)"

definition budget_floor :: "u32 \<Rightarrow> u32" where
  "budget_floor context_target = (let fl = kMinOutputTokens + 800 in if context_target < fl then fl else context_target)"

definition make_budget :: "BudgetCaps \<Rightarrow> TokenBudget" where
  "make_budget caps =
     (let fl = ucast (budget_floor (bc_context_target caps)) :: u64; hard = ucast (bc_hard_cap caps);
          total = (if bc_edge_mode caps then (if fl > hard then fl else hard) else hard)
      in \<lparr>tb_total_tokens = (if total < fl then fl else total), tb_used_tokens = 0, tb_retry_tokens = 0, tb_attempts = 0,
          tb_max_attempts = 8\<rparr>)"

definition consume :: "u64 \<Rightarrow> TokenBudget \<Rightarrow> bool \<times> TokenBudget" where
  "consume n b =
     (if tb_used_tokens b > tb_total_tokens b \<or> tb_total_tokens b - tb_used_tokens b < n then (False, b)
      else (True, b\<lparr>tb_used_tokens := tb_used_tokens b + n\<rparr>))"

definition project_cost :: "string \<Rightarrow> u64 \<Rightarrow> u64 \<Rightarrow> u64 \<Rightarrow> CostProjection" where
  "project_cost model_id inp outp cached =
     \<lparr>cost_cents = (case find_model model_id of Some m \<Rightarrow> cost_estimate m inp outp cached
                    | None \<Rightarrow> (inp + outp + cached) div 10000),
      cost_input_tokens = inp, cost_output_tokens = outp, cost_cached_input_tokens = cached\<rparr>"

definition retry_allowed :: "TokenBudget \<Rightarrow> error_code \<Rightarrow> bool" where
  "retry_allowed b ec =
     (if \<not> is_retryable ec then False
      else if tb_remaining b < kRetryTokensPerAttempt then False
      else if tb_attempts b \<ge> tb_max_attempts b then False
      else True)"

section \<open>Compiled prompts\<close>

datatype PromptPartKind = pk_system | pk_template | pk_tools

record PromptPart =
  pp_kind :: PromptPartKind
  pp_name :: string
  pp_text :: string
  pp_placeholders :: "string list"

record PromptRef =
  pr_id :: string
  pr_sha1 :: string
  pr_parts :: "PromptPart list"
  pr_estimated_tokens :: nat

definition has_placeholder :: "PromptRef \<Rightarrow> string \<Rightarrow> bool" where
  "has_placeholder r name = list_ex (\<lambda>p. list_ex (\<lambda>ph. ph = name) (pp_placeholders p)) (pr_parts r)"

function find_placeholders :: "string \<Rightarrow> nat \<Rightarrow> string list \<Rightarrow> string list" where
  "find_placeholders t pos out =
     (if pos \<ge> length t then out
      else case find_sub_from ''{{'' t pos of
        None \<Rightarrow> out
      | Some opn \<Rightarrow>
          (case find_sub_from ''}}'' t (opn + 2) of
             None \<Rightarrow> out
           | Some cls \<Rightarrow>
               (let name = take (cls - opn - 2) (drop (opn + 2) t)
                in find_placeholders t (cls + 2) (if name \<notin> set out \<and> name \<noteq> [] then out @ [name] else out))))"
  by pat_completeness auto
termination
proof (relation "measure (\<lambda>(t, pos, out). length t - pos)", goal_cases)
  case (2 t pos out opn cls name)
  then have "pos < cls + 2" using find_sub_from_SomeD [OF 2(2)] find_sub_from_SomeD [OF 2(3)] by linarith
  with 2(1) show ?case by simp
qed simp

declare find_placeholders.simps [simp del]

definition compile_prompt :: "string \<Rightarrow> string \<Rightarrow> PromptRef" where
  "compile_prompt i source =
     (let phs = find_placeholders source 0 [] in
      \<lparr>pr_id = i, pr_sha1 = sha1_hex (i @ nl # source),
       pr_parts = [\<lparr>pp_kind = (if phs = [] then pk_system else pk_template), pp_name = i, pp_text = source, pp_placeholders = phs\<rparr>],
       pr_estimated_tokens = estimate_tokens source\<rparr>)"

text \<open>The content is \<open>None\<close> when the file cannot be opened.\<close>

definition compile_prompt_file :: "string \<Rightarrow> string option \<Rightarrow> error_code + PromptRef" where
  "compile_prompt_file i content = (case content of None \<Rightarrow> Inl (make_error e_missing_cfg) | Some t \<Rightarrow> Inr (compile_prompt i t))"

section \<open>Registry\<close>

fun prompt_add :: "PromptRef \<Rightarrow> PromptRef list \<Rightarrow> PromptRef list" where
  "prompt_add p [] = [p]"
| "prompt_add p (h # hs) = (if pr_id h = pr_id p then p # hs else h # prompt_add p hs)"

definition prompt_find :: "PromptRef list \<Rightarrow> string \<Rightarrow> PromptRef option" where
  "prompt_find reg i = find (\<lambda>p. pr_id p = i) reg"

definition prompt_ids :: "PromptRef list \<Rightarrow> string list" where
  "prompt_ids reg = map pr_id reg"

text \<open>\<open>std::filesystem::path::extension\<close> and \<open>stem\<close> of a file name.\<close>

definition fs_extension :: "string \<Rightarrow> string" where
  "fs_extension name = (case rfind_char (CHR ''.'') name of None \<Rightarrow> [] | Some i \<Rightarrow> if i = 0 then [] else drop i name)"

definition fs_stem :: "string \<Rightarrow> string" where
  "fs_stem name = (case rfind_char (CHR ''.'') name of None \<Rightarrow> name | Some i \<Rightarrow> if i = 0 then name else take i name)"

fun load_prompt_files :: "(string \<times> string option) list \<Rightarrow> PromptRef list \<Rightarrow> error_code \<times> PromptRef list" where
  "load_prompt_files [] reg = (ok, reg)"
| "load_prompt_files ((name, content) # fs) reg = (case compile_prompt_file (fs_stem name) content of
     Inl c \<Rightarrow> (c, reg)
   | Inr ref \<Rightarrow> load_prompt_files fs (prompt_add ref reg))"

definition load_templates :: "(string \<times> string option) list option \<Rightarrow> PromptRef list \<Rightarrow> error_code \<times> PromptRef list" where
  "load_templates dir reg = (case dir of
     None \<Rightarrow> (make_error e_missing_cfg, reg)
   | Some entries \<Rightarrow> load_prompt_files (filter (\<lambda>(name, _). fs_extension name = ''.md'') entries) reg)"

definition tools_schema_json :: "(string \<Rightarrow> 'd) \<Rightarrow> ('d \<Rightarrow> string) \<Rightarrow> wire_ToolSpec list \<Rightarrow> string \<Rightarrow> string" where
  "tools_schema_json fc pr tools wire_family = tools_json fc pr
     (map (\<lambda>t. \<lparr>spec_id = ts_id t, spec_name = ts_name t, spec_description = ts_description t,
        spec_params_schema = ts_input_schema_json t, spec_is_read_only = True, spec_category = cat_read, spec_params = []\<rparr>) tools)
     wire_family"

definition tools_schema_tokens :: "(string \<Rightarrow> 'd) \<Rightarrow> ('d \<Rightarrow> string) \<Rightarrow> wire_ToolSpec list \<Rightarrow> string \<Rightarrow> nat" where
  "tools_schema_tokens fc pr tools wire_family = estimate_tokens (tools_schema_json fc pr tools wire_family)"

lemma prompt_find_add: "prompt_find (prompt_add p reg) i = (if i = pr_id p then Some p else prompt_find reg i)"
  by (induction reg) (auto simp: prompt_find_def)

lemma prompt_ids_add: "set (prompt_ids (prompt_add p reg)) = insert (pr_id p) (set (prompt_ids reg))"
  by (induction reg) (auto simp: prompt_ids_def)

lemma prompt_ids_distinct: "distinct (prompt_ids reg) \<Longrightarrow> distinct (prompt_ids (prompt_add p reg))"
proof (induction reg)
  case (Cons h hs)
  then show ?case using prompt_ids_add [of p hs] by (auto simp: prompt_ids_def)
qed (simp add: prompt_ids_def)

section \<open>Budget bounds\<close>

text \<open>
  The granted budget never falls below the floor, and consuming keeps the used tokens within it.
\<close>

lemma make_budget_floor: "tb_total_tokens (make_budget caps) \<ge> ucast (budget_floor (bc_context_target caps))"
  by (simp add: make_budget_def Let_def not_less)

lemma consume_bounded: "tb_used_tokens b \<le> tb_total_tokens b \<Longrightarrow>
    tb_used_tokens (snd (consume n b)) \<le> tb_total_tokens (snd (consume n b)) \<and>
    unat (tb_used_tokens (snd (consume n b))) = unat (tb_used_tokens b) + (if fst (consume n b) then unat n else 0)"
proof -
  assume le: "tb_used_tokens b \<le> tb_total_tokens b"
  have "unat (tb_used_tokens b + n) = unat (tb_used_tokens b) + unat n \<and> tb_used_tokens b + n \<le> tb_total_tokens b"
    if "\<not> tb_total_tokens b - tb_used_tokens b < n"
  proof -
    have "unat n \<le> unat (tb_total_tokens b) - unat (tb_used_tokens b)"
      using that le by (metis not_less unat_sub word_le_nat_alt)
    then have s: "unat (tb_used_tokens b) + unat n \<le> unat (tb_total_tokens b)" using le by (simp add: word_le_nat_alt)
    then have "unat (tb_used_tokens b) + unat n < 18446744073709551616" using unat_u64_le [of "tb_total_tokens b"] by linarith
    then have "unat (tb_used_tokens b + n) = unat (tb_used_tokens b) + unat n" by (simp add: unat_word_ariths)
    then show ?thesis using s by (simp add: word_le_nat_alt)
  qed
  then show ?thesis using le by (auto simp: consume_def)
qed

text \<open>The floor wins over the configured ceiling: a cap of 1000 tokens grants 1824.\<close>

lemma floor_over_cap: "tb_total_tokens (make_budget (caps_for ''unknown-model'' 1000)) = 1824"
  by code_simp

end
