(* ===== verification/Context.thy ===== *)
theory Context
  imports Prompt
begin

text \<open>
  The tiered context assembler, \<open>src/prompt/context.cpp\<close>: from the history, the tools and the environment to the
  message list of one request. Pointers to the registry, the messages and the tools are options.
\<close>

section \<open>Data\<close>

record EnvEntry =
  env_key :: string
  env_text :: string

record FileSnippet =
  snip_path :: string
  snip_text :: string

datatype event_kind = ev_omitted | ev_truncated

record ContextEvent =
  ce_kind :: event_kind
  ce_what :: string
  ce_reason :: string

record ContextInput =
  ci_registry :: "PromptRef list option"
  ci_system_ids :: "string list"
  ci_messages :: "Message list option"
  ci_tools :: "wire_ToolSpec list option"
  ci_wire_family :: string
  ci_env :: "EnvEntry list"
  ci_repo :: "FileSnippet list"
  ci_lang_style :: string
  ci_examples :: string
  ci_context_window :: u32
  ci_max_output_tokens :: u32
  ci_target_tokens :: u32
  ci_hard_cap_tokens :: u32
  ci_available_tokens :: u32
  ci_recent_assistant_turns :: u32
  ci_edge_mode :: bool
  ci_inject_tool_schema :: bool

record ContextPlan =
  plan_messages :: "Message list"
  plan_estimated_tokens :: u32
  plan_bytes :: nat
  plan_events :: "ContextEvent list"
  plan_omitted :: "string list"
  plan_truncated :: "string list"
  plan_tools :: "wire_ToolSpec list"
  plan_tool_tokens :: nat
  plan_under_target :: bool

definition empty_plan :: ContextPlan where
  "empty_plan = \<lparr>plan_messages = [], plan_estimated_tokens = 0, plan_bytes = 0, plan_events = [], plan_omitted = [],
     plan_truncated = [], plan_tools = [], plan_tool_tokens = 0, plan_under_target = False\<rparr>"

definition default_input :: ContextInput where
  "default_input = \<lparr>ci_registry = None, ci_system_ids = [], ci_messages = None, ci_tools = None, ci_wire_family = ''openai'',
     ci_env = [], ci_repo = [], ci_lang_style = [], ci_examples = [], ci_context_window = 0, ci_max_output_tokens = 0,
     ci_target_tokens = 3500, ci_hard_cap_tokens = 12000, ci_available_tokens = 0, ci_recent_assistant_turns = 2,
     ci_edge_mode = False, ci_inject_tool_schema = False\<rparr>"

definition kNewestUserFloor :: nat where "kNewestUserFloor = 800"

definition push_omit :: "string \<Rightarrow> string \<Rightarrow> ContextPlan \<Rightarrow> ContextPlan" where
  "push_omit what reason p = p\<lparr>plan_events := plan_events p @ [\<lparr>ce_kind = ev_omitted, ce_what = what, ce_reason = reason\<rparr>],
     plan_omitted := plan_omitted p @ [what]\<rparr>"

definition push_truncate :: "string \<Rightarrow> string \<Rightarrow> ContextPlan \<Rightarrow> ContextPlan" where
  "push_truncate what reason p = p\<lparr>plan_events := plan_events p @ [\<lparr>ce_kind = ev_truncated, ce_what = what, ce_reason = reason\<rparr>],
     plan_truncated := plan_truncated p @ [what]\<rparr>"

section \<open>Substitution and truncation\<close>

function replace_slot :: "string \<Rightarrow> string \<Rightarrow> string \<Rightarrow> string" where
  "replace_slot name val s =
     (let mark = ''{{'' @ name @ ''}}'' in
      case find_sub mark s of
        None \<Rightarrow> s
      | Some i \<Rightarrow> take i s @ val @ replace_slot name val (drop (i + length mark) s))"
  by pat_completeness auto
termination
proof (relation "measure (\<lambda>(name, val, s). length s)", goal_cases)
  case (2 name val s mark i)
  then have "s \<noteq> []" by (cases s) auto
  then show ?case using 2 by simp
qed simp

declare replace_slot.simps [simp del]

definition substitute :: "string \<Rightarrow> ContextInput \<Rightarrow> string \<Rightarrow> string" where
  "substitute t inp schema_text =
     replace_slot ''EXAMPLES'' (ci_examples inp)
       (replace_slot ''LANG_STYLE'' (ci_lang_style inp) (replace_slot ''TOOLS_SCHEMA'' schema_text t))"

function cut_search :: "string \<Rightarrow> nat \<Rightarrow> nat \<Rightarrow> nat \<Rightarrow> nat" where
  "cut_search t budget lo hi =
     (if lo < hi then
        (let mid = (lo + hi + 1) div 2 in
         if estimate_tokens (take mid t) \<le> budget then cut_search t budget mid hi
         else cut_search t budget lo (mid - 1))
      else lo)"
  by pat_completeness auto
termination by (relation "measure (\<lambda>(t, budget, lo, hi). hi - lo)") auto

declare cut_search.simps [simp del]

definition truncate_text :: "string \<Rightarrow> nat \<Rightarrow> string \<times> bool" where
  "truncate_text t budget =
     (if estimate_tokens t \<le> budget then (t, False)
      else (take (cut_search t budget 0 (length t)) t @ '' [context truncated]'', True))"

section \<open>Assembly\<close>

definition request_cap :: "ContextInput \<Rightarrow> nat" where
  "request_cap inp =
     (let cap = unat (if ci_available_tokens inp \<noteq> 0 then ci_available_tokens inp else ci_hard_cap_tokens inp);
          cap = (if ci_context_window inp \<noteq> 0 \<and> ci_max_output_tokens inp \<noteq> 0 \<and> ci_context_window inp > ci_max_output_tokens inp
                 then min cap (unat (ci_context_window inp - ci_max_output_tokens inp)) else cap)
      in if cap < kNewestUserFloor then kNewestUserFloor else cap)"

fun system_parts :: "ContextInput \<Rightarrow> PromptPart list \<Rightarrow> string \<Rightarrow> string" where
  "system_parts inp [] sys = sys"
| "system_parts inp (p # ps) sys =
     system_parts inp ps (if pp_kind p = pk_system \<or> pp_kind p = pk_template
       then sys @ substitute (pp_text p) inp [] @ [nl] else sys)"

fun system_text :: "ContextInput \<Rightarrow> PromptRef list \<Rightarrow> string list \<Rightarrow> string \<Rightarrow> string option" where
  "system_text inp reg [] sys = Some sys"
| "system_text inp reg (i # is) sys = (case prompt_find reg i of
     None \<Rightarrow> None
   | Some ref \<Rightarrow> system_text inp reg is (system_parts inp (pr_parts ref) sys))"

text \<open>The budget of the environment entries: a subtraction of 64-bit unsigned numbers.\<close>

definition tier2_budget :: "nat \<Rightarrow> nat \<Rightarrow> nat" where
  "tier2_budget cap tool_tokens = unat (of_nat cap - of_nat kNewestUserFloor - of_nat tool_tokens :: u64)"

definition env_step :: "bool \<Rightarrow> nat \<Rightarrow> EnvEntry \<Rightarrow> string \<times> ContextPlan \<Rightarrow> string \<times> ContextPlan" where
  "env_step skip_extras budget e acc = (case acc of (sys, p) \<Rightarrow>
     if skip_extras then (sys, push_omit (''env '' @ env_key e) ''edge_mode'' p)
     else let t = estimate_tokens (env_text e) in
       if length sys + length (env_text e) > 0 \<and> t > budget
       then (sys, push_omit (''env '' @ env_key e) (''budget ('' @ show_nat t @ '' tokens)'') p)
       else (sys @ env_text e @ [nl], p))"

definition repo_step :: "bool \<Rightarrow> nat \<Rightarrow> FileSnippet \<Rightarrow> string \<times> ContextPlan \<Rightarrow> string \<times> ContextPlan" where
  "repo_step skip_extras budget e acc = (case acc of (sys, p) \<Rightarrow>
     if skip_extras then (sys, push_omit (''repo '' @ snip_path e) ''edge_mode'' p)
     else let t = estimate_tokens (snip_text e) in
       if t > budget then (sys, push_omit (''repo '' @ snip_path e) (''budget ('' @ show_nat t @ '' tokens)'') p)
       else (sys @ snip_text e @ [nl], p))"

text \<open>The scan for the oldest message of tier 1, newest message first.\<close>

fun tier1_scan :: "Message list \<Rightarrow> nat \<Rightarrow> nat \<Rightarrow> nat" where
  "tier1_scan [] need best = best"
| "tier1_scan (m # older) need best =
     (if msg_role m = role_assistant then
        (if need > 0 then tier1_scan older (need - 1) (length older) else best)
      else tier1_scan older need best)"

definition tier1_from :: "ContextInput \<Rightarrow> Message list \<Rightarrow> nat" where
  "tier1_from inp hist =
     (let keep = (if ci_recent_assistant_turns inp \<noteq> 0 then unat (ci_recent_assistant_turns inp) else 1);
          i = tier1_scan (rev hist) keep (length hist)
      in if i = length hist \<and> hist \<noteq> [] then length hist - 1 else i)"

fun keep_messages :: "nat \<Rightarrow> nat \<Rightarrow> nat \<Rightarrow> nat \<Rightarrow> Message list \<Rightarrow> nat \<times> ContextPlan \<Rightarrow> nat \<times> ContextPlan" where
  "keep_messages t1 fixed cap i [] tp = tp"
| "keep_messages t1 fixed cap i (m # ms) (tot, p) =
     (let est = estimate_message_tokens m in
      keep_messages t1 fixed cap (Suc i) ms
        (if i < t1 \<and> tot + est + fixed > cap then
           (tot, push_omit (''message '' @ msg_id m) (''budget ('' @ show_nat est @ '' tokens)'') p)
         else (case (if msg_role m = role_user \<and> ms = [] then truncate_text (content_text m) kNewestUserFloor else ([], False)) of
           (t, was_cut) \<Rightarrow>
             if was_cut then
               (let copy = m\<lparr>parts := [Text t]\<rparr>; p1 = push_truncate (''message '' @ msg_id m) ''kNewestUserFloor'' p
                in (tot + estimate_message_tokens copy, p1\<lparr>plan_messages := plan_messages p1 @ [copy]\<rparr>))
             else (tot + est, p\<lparr>plan_messages := plan_messages p @ [m]\<rparr>))))"

definition system_message :: "string \<Rightarrow> Message" where
  "system_message sys = \<lparr>msg_id = [], session_id = [], msg_role = role_system, msg_model = [], parts = [Text sys], created_at = 0\<rparr>"

definition assemble_context :: "(string \<Rightarrow> 'd) \<Rightarrow> ('d \<Rightarrow> string) \<Rightarrow> ContextInput \<Rightarrow> error_code \<times> ContextPlan" where
  "assemble_context fc pr inp = (case ci_messages inp of
     None \<Rightarrow> (make_error e_missing_cfg, empty_plan)
   | Some hist \<Rightarrow>
       (if hist = [] then (make_error e_missing_cfg, empty_plan)
        else
          (let sys_ids = (if ci_system_ids inp = [] then [''SYSTEM_BASE''] else ci_system_ids inp);
               cap = request_cap inp;
               tools = (case ci_tools inp of Some ts \<Rightarrow> ts | None \<Rightarrow> []);
               tool_tokens = (if tools \<noteq> [] then tools_schema_tokens fc pr tools (ci_wire_family inp) else 0);
               p0 = empty_plan\<lparr>plan_tools := tools, plan_tool_tokens := tool_tokens\<rparr>
           in case ci_registry inp of
             None \<Rightarrow> (make_error e_missing_cfg, p0)
           | Some reg \<Rightarrow>
               (case system_text inp reg sys_ids [] of
                  None \<Rightarrow> (make_error e_missing_cfg, p0)
                | Some sys0 \<Rightarrow>
                    (let b2 = tier2_budget cap tool_tokens;
                         (sys, p1) = fold (repo_step (ci_edge_mode inp) b2) (ci_repo inp)
                                       (fold (env_step (ci_edge_mode inp) b2) (ci_env inp) (sys0, p0));
                         (tot, p2) = keep_messages (tier1_from inp hist) (estimate_tokens sys + tool_tokens) cap 0 hist (0, p1);
                         sys2 = (if ci_inject_tool_schema inp \<and> tools \<noteq> []
                                 then (if sys \<noteq> [] then sys @ [nl] else sys) @ tools_schema_json fc pr tools (ci_wire_family inp)
                                 else sys);
                         messages = system_message sys2 # plan_messages p2;
                         estimated = of_nat (tot + estimate_tokens sys2 + tool_tokens) :: u32
                     in (ok, p2\<lparr>plan_messages := messages, plan_estimated_tokens := estimated,
                               plan_bytes := length sys2 + sum_list (map (length \<circ> content_text) messages),
                               plan_under_target := (estimated \<le> ci_target_tokens inp)\<rparr>))))))"

section \<open>Truncation\<close>

lemma cut_search_bounds:
  assumes "lo \<le> hi" "estimate_tokens (take lo t) \<le> budget"
  shows "lo \<le> cut_search t budget lo hi \<and> cut_search t budget lo hi \<le> hi \<and>
    estimate_tokens (take (cut_search t budget lo hi) t) \<le> budget"
  using assms
proof (induction t budget lo hi rule: cut_search.induct)
  case (1 t budget lo hi)
  define mid where "mid = (lo + hi + 1) div 2"
  show ?case
  proof (cases "lo < hi")
    case True
    then have mid: "lo < mid" "mid \<le> hi" by (auto simp: mid_def)
    show ?thesis
    proof (cases "estimate_tokens (take mid t) \<le> budget")
      case fits: True
      have "cut_search t budget lo hi = cut_search t budget mid hi"
        using True fits by (simp add: cut_search.simps [of t budget lo] Let_def mid_def)
      then show ?thesis using "1.IH"(1) [OF True mid_def fits] mid fits by auto
    next
      case False
      have "cut_search t budget lo hi = cut_search t budget lo (mid - 1)"
        using True False by (simp add: cut_search.simps [of t budget lo] Let_def mid_def)
      moreover have "lo \<le> mid - 1" "mid - 1 \<le> hi" using mid by simp_all
      ultimately show ?thesis using "1.IH"(2) [OF True mid_def False] "1.prems"(2) le_trans by metis
    qed
  qed (use "1.prems" in \<open>simp add: cut_search.simps\<close>)
qed

lemma cut_search_maximal:
  assumes "lo \<le> hi" "hi < length t \<longrightarrow> estimate_tokens (take (Suc hi) t) > budget"
  shows "let k = cut_search t budget lo hi in k < length t \<longrightarrow> estimate_tokens (take (Suc k) t) > budget"
  using assms
proof (induction t budget lo hi rule: cut_search.induct)
  case (1 t budget lo hi)
  define mid where "mid = (lo + hi + 1) div 2"
  show ?case
  proof (cases "lo < hi")
    case True
    then have mid: "lo < mid" "mid \<le> hi" by (auto simp: mid_def)
    show ?thesis
    proof (cases "estimate_tokens (take mid t) \<le> budget")
      case fits: True
      have "cut_search t budget lo hi = cut_search t budget mid hi"
        using True fits by (simp add: cut_search.simps [of t budget lo] Let_def mid_def)
      then show ?thesis using "1.IH"(1) [OF True mid_def fits] mid "1.prems"(2) by simp
    next
      case False
      have "cut_search t budget lo hi = cut_search t budget lo (mid - 1)"
        using True False by (simp add: cut_search.simps [of t budget lo] Let_def mid_def)
      then show ?thesis using "1.IH"(2) [OF True mid_def False] mid False by simp
    qed
  next
    case False
    then have "cut_search t budget lo hi = hi" using "1.prems"(1) by (subst cut_search.simps) simp
    then show ?thesis using "1.prems"(2) by simp
  qed
qed

text \<open>
  The kept part of a truncated text is a prefix that fits the budget, and one more character would not fit.
  The note behind it is not part of the budget.
\<close>

lemma truncate_text_prefix:
  assumes "estimate_tokens t > b"
  shows "\<exists>k < length t. estimate_tokens (take k t) \<le> b \<and> estimate_tokens (take (Suc k) t) > b \<and>
     truncate_text t b = (take k t @ '' [context truncated]'', True)"
proof -
  define k where "k = cut_search t b 0 (length t)"
  have k: "k \<le> length t" "estimate_tokens (take k t) \<le> b"
    using cut_search_bounds [of 0 "length t" t b] by (auto simp: k_def estimate_tokens_def Let_def)
  have "k < length t \<longrightarrow> estimate_tokens (take (Suc k) t) > b"
    using cut_search_maximal [of 0 "length t" t b] by (simp add: k_def Let_def)
  moreover have "k \<noteq> length t" using k(2) assms by auto
  ultimately show ?thesis using k assms by (intro exI [of _ k]) (auto simp: truncate_text_def k_def)
qed

section \<open>Every message is sent or reported\<close>

text \<open>The history with its newest message in the form in which it is sent.\<close>

definition shown :: "Message \<Rightarrow> Message" where
  "shown m = (if msg_role m = role_user \<and> snd (truncate_text (content_text m) kNewestUserFloor)
     then m\<lparr>parts := [Text (fst (truncate_text (content_text m) kNewestUserFloor))]\<rparr> else m)"

fun sent :: "Message list \<Rightarrow> Message list" where
  "sent [] = []"
| "sent (m # ms) = (if ms = [] then [shown m] else m # sent ms)"

definition omission :: "Message \<Rightarrow> string" where
  "omission m = ''message '' @ msg_id m"

lemma length_sent [simp]: "length (sent ms) = length ms"
  by (induction ms) auto

lemma nths_sent: "B \<subseteq> {..<length ms - 1} \<Longrightarrow> nths (sent ms) B = nths ms B"
proof (induction ms arbitrary: B)
  case (Cons m ms)
  show ?case
  proof (cases "ms = []")
    case False
    have "{j. Suc j \<in> B} \<subseteq> {..<length ms - 1}" using Cons.prems by auto
    then show ?thesis using Cons.IH False by (simp add: nths_Cons)
  qed (use Cons.prems in \<open>simp add: nths_Cons\<close>)
qed simp

lemma push_simps [simp]:
  "plan_messages (push_omit w r p) = plan_messages p" "plan_omitted (push_omit w r p) = plan_omitted p @ [w]"
  "plan_messages (push_truncate w r p) = plan_messages p" "plan_omitted (push_truncate w r p) = plan_omitted p"
  "plan_tool_tokens (push_omit w r p) = plan_tool_tokens p" "plan_tool_tokens (push_truncate w r p) = plan_tool_tokens p"
  by (simp_all add: push_omit_def push_truncate_def)

lemma keep_step:
  fixes m ms i
  defines "est \<equiv> estimate_message_tokens m" and "m' \<equiv> (if ms = [] then shown m else m)"
  shows "\<exists>tot1 p1. keep_messages t1 fixed cap i (m # ms) (tot, p) = keep_messages t1 fixed cap (Suc i) ms (tot1, p1) \<and>
    plan_tool_tokens p1 = plan_tool_tokens p \<and>
    (if i < t1 \<and> tot + est + fixed > cap
     then tot1 = tot \<and> plan_messages p1 = plan_messages p \<and> plan_omitted p1 = plan_omitted p @ [omission m]
     else tot1 = tot + estimate_message_tokens m' \<and> plan_messages p1 = plan_messages p @ [m'] \<and> plan_omitted p1 = plan_omitted p)"
  unfolding est_def m'_def by (auto simp: Let_def shown_def omission_def split: prod.split)

lemma keep_tool_tokens: "plan_tool_tokens (snd (keep_messages t1 fixed cap i ms (tot, p))) = plan_tool_tokens p"
proof (induction ms arbitrary: i tot p)
  case (Cons m ms)
  then show ?case using keep_step [of t1 fixed cap i m ms tot p] by metis
qed simp

lemma keep_messages_spec:
  "\<exists>A. plan_messages (snd (keep_messages t1 fixed cap i ms (tot, p))) = plan_messages p @ nths (sent ms) A \<and>
     plan_omitted (snd (keep_messages t1 fixed cap i ms (tot, p))) = plan_omitted p @ map omission (nths ms (- A)) \<and>
     fst (keep_messages t1 fixed cap i ms (tot, p)) = tot + sum_list (map estimate_message_tokens (nths (sent ms) A)) \<and>
     (\<forall>j < length ms. t1 \<le> i + j \<longrightarrow> j \<in> A) \<and>
     (\<forall>j \<in> A. Suc j < length ms \<longrightarrow> i + j < t1 \<longrightarrow>
        tot + sum_list (map estimate_message_tokens (nths (sent ms) (A \<inter> {..j}))) + fixed \<le> cap)"
proof (induction ms arbitrary: i tot p)
  case Nil
  show ?case by (intro exI [of _ "{}"]) simp
next
  case (Cons m ms)
  define m' where "m' = (if ms = [] then shown m else m)"
  define drop_it where "drop_it \<longleftrightarrow> i < t1 \<and> tot + estimate_message_tokens m + fixed > cap"
  obtain tot1 p1 where step: "keep_messages t1 fixed cap i (m # ms) (tot, p) = keep_messages t1 fixed cap (Suc i) ms (tot1, p1)"
    and one: "if drop_it then tot1 = tot \<and> plan_messages p1 = plan_messages p \<and> plan_omitted p1 = plan_omitted p @ [omission m]
      else tot1 = tot + estimate_message_tokens m' \<and> plan_messages p1 = plan_messages p @ [m'] \<and> plan_omitted p1 = plan_omitted p"
    using keep_step [of t1 fixed cap i m ms tot p] unfolding drop_it_def m'_def by blast
  obtain A where A: "plan_messages (snd (keep_messages t1 fixed cap (Suc i) ms (tot1, p1))) = plan_messages p1 @ nths (sent ms) A"
    "plan_omitted (snd (keep_messages t1 fixed cap (Suc i) ms (tot1, p1))) = plan_omitted p1 @ map omission (nths ms (- A))"
    "fst (keep_messages t1 fixed cap (Suc i) ms (tot1, p1)) = tot1 + sum_list (map estimate_message_tokens (nths (sent ms) A))"
    "\<forall>j < length ms. t1 \<le> Suc i + j \<longrightarrow> j \<in> A"
    "\<forall>j \<in> A. Suc j < length ms \<longrightarrow> Suc i + j < t1 \<longrightarrow>
        tot1 + sum_list (map estimate_message_tokens (nths (sent ms) (A \<inter> {..j}))) + fixed \<le> cap"
    using Cons.IH [of "Suc i" tot1 p1] by blast
  define B where "B = (if drop_it then Suc ` A else insert 0 (Suc ` A))"
  have sent: "sent (m # ms) = m' # sent ms" by (auto simp: m'_def)
  have down: "{j. Suc j \<in> B} = A" "{j. Suc j \<notin> B} = - A" "{j. Suc j \<in> B \<and> j \<le> k} = A \<inter> {..k}" for k
    by (auto simp: B_def)
  have zero: "0 \<in> B \<longleftrightarrow> \<not> drop_it" by (auto simp: B_def)
  have kept: "nths (sent (m # ms)) B = (if drop_it then [] else [m']) @ nths (sent ms) A"
    unfolding sent by (simp add: nths_Cons down zero)
  have gone: "nths (m # ms) (- B) = (if drop_it then [m] else []) @ nths ms (- A)"
    by (simp add: nths_Cons down zero)
  have part: "nths (sent (m # ms)) (B \<inter> {..Suc k}) = (if drop_it then [] else [m']) @ nths (sent ms) (A \<inter> {..k})" for k
    unfolding sent by (simp add: nths_Cons down zero)
  have first: "nths (sent (m # ms)) (B \<inter> {..0}) = (if drop_it then [] else [m'])"
    unfolding sent by (auto simp: nths_Cons zero)
  have "tot + sum_list (map estimate_message_tokens (nths (sent (m # ms)) (B \<inter> {..j}))) + fixed \<le> cap"
    if "j \<in> B" "Suc j < length (m # ms)" "i + j < t1" for j
  proof (cases j)
    case 0
    then have "\<not> drop_it" "m' = m" "i < t1" using that zero by (auto simp: m'_def)
    then show ?thesis unfolding 0 first by (simp add: drop_it_def)
  next
    case (Suc k)
    then have "k \<in> A" using that(1) by (auto simp: B_def split: if_splits)
    then have "tot1 + sum_list (map estimate_message_tokens (nths (sent ms) (A \<inter> {..k}))) + fixed \<le> cap"
      using A(5) that(2,3) Suc by simp
    then show ?thesis unfolding Suc part using one by (simp split: if_splits)
  qed
  moreover have "j \<in> B" if "j < length (m # ms)" "t1 \<le> i + j" for j
    using that A(4) by (cases j) (auto simp: B_def drop_it_def)
  moreover have "fst (keep_messages t1 fixed cap i (m # ms) (tot, p)) = tot + sum_list (map estimate_message_tokens (nths (sent (m # ms)) B))"
    unfolding step kept using one A(3) by (simp split: if_splits)
  moreover have "plan_messages (snd (keep_messages t1 fixed cap i (m # ms) (tot, p))) = plan_messages p @ nths (sent (m # ms)) B"
    unfolding step kept using one A(1) by (simp split: if_splits)
  moreover have "plan_omitted (snd (keep_messages t1 fixed cap i (m # ms) (tot, p))) = plan_omitted p @ map omission (nths (m # ms) (- B))"
    unfolding step gone using one A(2) by (simp split: if_splits)
  ultimately show ?case by (intro exI [of _ B]) blast
qed

lemma tier2_fits:
  assumes "t1 < length hist"
    "\<forall>j \<in> A. Suc j < length hist \<longrightarrow> j < t1 \<longrightarrow> sum_list (map f (nths (sent hist) (A \<inter> {..j}))) + fixed \<le> cap"
  shows "A \<inter> {..<t1} = {} \<or> sum_list (map f (nths hist (A \<inter> {..<t1}))) + fixed \<le> cap"
proof (cases "A \<inter> {..<t1} = {}")
  case False
  define j where "j = Max (A \<inter> {..<t1})"
  have j: "j \<in> A" "j < t1" using Max_in [of "A \<inter> {..<t1}"] False by (auto simp: j_def)
  have "A \<inter> {..j} = A \<inter> {..<t1}" using j(2) Max_ge [of "A \<inter> {..<t1}"] by (auto simp: j_def)
  moreover have "sum_list (map f (nths (sent hist) (A \<inter> {..j}))) + fixed \<le> cap" using assms j by auto
  moreover have "nths (sent hist) (A \<inter> {..<t1}) = nths hist (A \<inter> {..<t1})" using assms(1) by (intro nths_sent) auto
  ultimately show ?thesis by simp
qed simp

lemma tier1_scan_le: "best \<le> n \<Longrightarrow> length ms \<le> n \<Longrightarrow> tier1_scan ms need best \<le> n"
  by (induction ms arbitrary: need best) auto

lemma tier1_from_less: "hist \<noteq> [] \<Longrightarrow> tier1_from inp hist < length hist"
  using tier1_scan_le [of "length hist" "length hist" "rev hist"]
  by (auto simp: tier1_from_def Let_def le_neq_implies_less)

definition extends :: "string \<times> ContextPlan \<Rightarrow> string \<times> ContextPlan \<Rightarrow> bool" where
  "extends a b \<longleftrightarrow> prefix (fst a) (fst b) \<and> plan_messages (snd b) = plan_messages (snd a) \<and>
     plan_tool_tokens (snd b) = plan_tool_tokens (snd a)"

lemma extends_trans: "extends a b \<Longrightarrow> extends b c \<Longrightarrow> extends a c"
  by (auto simp: extends_def)

lemma step_extends: "extends a (env_step b n e a)" "extends a (repo_step b n r a)"
  by (auto simp: extends_def env_step_def repo_step_def Let_def split: prod.split)

lemma fold_extends: "(\<And>x a. extends a (f x a)) \<Longrightarrow> extends a (fold f xs a)"
proof (induction xs arbitrary: a)
  case (Cons x xs)
  have "extends a (f x a)" by (rule Cons.prems)
  moreover have "extends (f x a) (fold f xs (f x a))" by (rule Cons.IH) (rule Cons.prems)
  ultimately show ?case by (simp add: extends_trans)
qed (simp add: extends_def)

definition system_ids :: "ContextInput \<Rightarrow> string list" where
  "system_ids inp = (if ci_system_ids inp = [] then [''SYSTEM_BASE''] else ci_system_ids inp)"

lemma assemble_no_prompt:
  assumes "ci_messages inp = Some hist" "ci_registry inp = Some reg" "system_text inp reg (system_ids inp) [] = None"
  shows "fst (assemble_context fc pr inp) = make_error e_missing_cfg"
  using assms by (cases "hist = []") (simp_all add: assemble_context_def Let_def system_ids_def)

lemma assemble_form:
  assumes "ci_messages inp = Some hist" "hist \<noteq> []" "ci_registry inp = Some reg" "system_text inp reg (system_ids inp) [] = Some prompts"
    and "tools = (case ci_tools inp of Some ts \<Rightarrow> ts | None \<Rightarrow> [])"
    and "tt = (if tools \<noteq> [] then tools_schema_tokens fc pr tools (ci_wire_family inp) else 0)"
    and "fold (repo_step (ci_edge_mode inp) (tier2_budget (request_cap inp) tt)) (ci_repo inp)
      (fold (env_step (ci_edge_mode inp) (tier2_budget (request_cap inp) tt)) (ci_env inp)
        (prompts, empty_plan\<lparr>plan_tools := tools, plan_tool_tokens := tt\<rparr>)) = (sys1, p1)"
    and "keep_messages (tier1_from inp hist) (estimate_tokens sys1 + tt) (request_cap inp) 0 hist (0, p1) = (tot, p2)"
  shows "\<exists>plan sys. assemble_context fc pr inp = (ok, plan) \<and> plan_messages plan = system_message sys # plan_messages p2 \<and>
    plan_omitted plan = plan_omitted p2 \<and> plan_tool_tokens plan = plan_tool_tokens p2 \<and> prefix sys1 sys \<and>
    plan_estimated_tokens plan = of_nat (tot + estimate_tokens sys + tt)"
proof -
  define sys where "sys = (if ci_inject_tool_schema inp \<and> tools \<noteq> []
      then (if sys1 \<noteq> [] then sys1 @ [nl] else sys1) @ tools_schema_json fc pr tools (ci_wire_family inp) else sys1)"
  have pre: "prefix sys1 sys" by (auto simp: sys_def)
  show ?thesis
    unfolding assemble_context_def assms(1) option.case Let_def if_not_P [OF assms(2)] assms(3) assms(5) [symmetric]
      assms(6) [symmetric] system_ids_def [symmetric] assms(4,7) prod.case assms(8) sys_def [symmetric]
    by (rule exI, rule exI [of _ sys], intro conjI, rule refl) (simp_all add: pre)
qed

lemma assemble_plan:
  assumes "ci_messages inp = Some hist" "ci_registry inp = Some reg" "system_text inp reg (system_ids inp) [] = Some prompts"
    "hist \<noteq> []"
  defines "t1 \<equiv> tier1_from inp hist"
  shows "\<exists>plan sys sys1 A extras. assemble_context fc pr inp = (ok, plan) \<and> t1 < length hist \<and>
    plan_messages plan = system_message sys # nths (sent hist) A \<and> prefix prompts sys1 \<and> prefix sys1 sys \<and>
    plan_omitted plan = extras @ map omission (nths hist (- A)) \<and> {t1..<length hist} \<subseteq> A \<and>
    (A \<inter> {..<t1} = {} \<or> sum_list (map estimate_message_tokens (nths hist (A \<inter> {..<t1}))) +
       estimate_tokens sys1 + plan_tool_tokens plan \<le> request_cap inp) \<and>
    plan_estimated_tokens plan =
      of_nat (sum_list (map estimate_message_tokens (nths (sent hist) A)) + estimate_tokens sys + plan_tool_tokens plan)"
proof -
  define tools where "tools = (case ci_tools inp of Some ts \<Rightarrow> ts | None \<Rightarrow> [])"
  define tt where "tt = (if tools \<noteq> [] then tools_schema_tokens fc pr tools (ci_wire_family inp) else 0)"
  define p0 where "p0 = empty_plan\<lparr>plan_tools := tools, plan_tool_tokens := tt\<rparr>"
  define b2 where "b2 = tier2_budget (request_cap inp) tt"
  obtain sys1 p1 where extras: "fold (repo_step (ci_edge_mode inp) b2) (ci_repo inp)
      (fold (env_step (ci_edge_mode inp) b2) (ci_env inp) (prompts, p0)) = (sys1, p1)" by fastforce
  have "extends (prompts, p0) (sys1, p1)"
    unfolding extras [symmetric] by (rule extends_trans; rule fold_extends; rule step_extends)
  then have p1: "prefix prompts sys1" "plan_messages p1 = []" "plan_tool_tokens p1 = tt"
    by (simp_all add: extends_def p0_def empty_plan_def)
  obtain tot p2 where keep: "keep_messages t1 (estimate_tokens sys1 + tt) (request_cap inp) 0 hist (0, p1) = (tot, p2)" by fastforce
  obtain A where A: "plan_messages p2 = nths (sent hist) A" "plan_omitted p2 = plan_omitted p1 @ map omission (nths hist (- A))"
    "tot = sum_list (map estimate_message_tokens (nths (sent hist) A))" "\<forall>j < length hist. t1 \<le> j \<longrightarrow> j \<in> A"
    "\<forall>j \<in> A. Suc j < length hist \<longrightarrow> j < t1 \<longrightarrow>
       sum_list (map estimate_message_tokens (nths (sent hist) (A \<inter> {..j}))) + (estimate_tokens sys1 + tt) \<le> request_cap inp"
    using keep_messages_spec [of t1 "estimate_tokens sys1 + tt" "request_cap inp" 0 hist 0 p1] p1(2) keep by auto
  have t1: "t1 < length hist" unfolding t1_def by (rule tier1_from_less [OF assms(4)])
  obtain plan sys where res: "assemble_context fc pr inp = (ok, plan)" "plan_messages plan = system_message sys # plan_messages p2"
    "plan_omitted plan = plan_omitted p2" "plan_tool_tokens plan = plan_tool_tokens p2" "prefix sys1 sys"
    "plan_estimated_tokens plan = of_nat (tot + estimate_tokens sys + tt)"
    using assemble_form [OF assms(1,4,2,3) tools_def tt_def extras [unfolded b2_def p0_def] keep [unfolded t1_def]] by blast
  have "plan_tool_tokens plan = tt" using keep_tool_tokens [of t1 "estimate_tokens sys1 + tt" "request_cap inp" 0 hist 0 p1] keep p1(3) res(4) by simp
  moreover have "{t1..<length hist} \<subseteq> A" using A(4) by auto
  ultimately show ?thesis using res A(1-3) t1 p1(1) tier2_fits [OF t1 A(5)]
    by (intro exI [of _ plan] exI [of _ sys] exI [of _ sys1] exI [of _ A] exI [of _ "plan_omitted p1"]) (simp add: add.assoc)
qed


section \<open>What the budget does not do\<close>

text \<open>
  When the tool schemas cost more than the cap leaves, the budget of the environment entries wraps around and
  admits everything.
\<close>

lemma tier2_budget_wraps: "tier2_budget 800 1 = u64_max"
  by (simp add: tier2_budget_def kNewestUserFloor_def unsigned_minus_1_eq_mask mask_eq_exp_minus_1)

text \<open>
  Older history is admitted oldest first: of two equally long old messages that do not both fit, the older is
  sent and the newer dropped.
\<close>

definition note_msg :: "string \<Rightarrow> Message" where
  "note_msg i = \<lparr>msg_id = i, session_id = [], msg_role = role_user, msg_model = [], parts = [Text ''one two three''], created_at = 0\<rparr>"

lemma oldest_first:
  "map msg_id (plan_messages (snd (keep_messages 2 0 10 0 [note_msg ''a'', note_msg ''b'', note_msg ''c''] (0, empty_plan)))) = [''a'', ''c'']"
  by code_simp

text \<open>Entries are weighed one by one, so many small ones exceed the budget together.\<close>

lemma env_entries_unbounded:
  "fst (fold (env_step False 1) (replicate n \<lparr>env_key = [], env_text = ''x''\<rparr>) (sys, p)) =
   sys @ concat (replicate n [CHR ''x'', nl])"
proof (induction n arbitrary: sys p)
  case (Suc n)
  have "estimate_tokens ''x'' = 1" by code_simp
  then have "env_step False 1 \<lparr>env_key = [], env_text = ''x''\<rparr> (sys, p) = (sys @ [CHR ''x'', nl], p)"
    by (simp add: env_step_def)
  then show ?case using Suc by simp
qed simp

end
