(* ===== verification/Http1.thy ===== *)
theory Http1
  imports Errors Text_Util
begin

text \<open>
  The HTTP/1.1 client of \<open>src/net/http1.cpp\<close>: request serialization, the incremental response parser with its
  three framings, the drain loop and the one-shot exchange. Offsets into the parser's buffer are suffixes of
  it. A transport is what its successive reads return: an error, or bytes, where no bytes mean the end of
  the stream; behind its last outcome it is at its end. \<open>None\<close> is the result of an operation that leaves by
  the exception \<open>std::length_error\<close>.
\<close>

section \<open>Messages\<close>

record HttpHeader =
  hh_name :: string
  hh_value :: string

record HttpRequest =
  rq_method :: string
  rq_path :: string
  rq_headers :: "HttpHeader list"
  rq_body :: string
  rq_request_id :: string

record HttpResponse =
  rs_code :: nat
  rs_reason :: string
  rs_headers :: "HttpHeader list"
  rs_body :: string
  rs_truncated :: bool
  rs_keep_alive :: bool

definition empty_response :: HttpResponse where
  "empty_response = \<lparr>rs_code = 0, rs_reason = [], rs_headers = [], rs_body = [], rs_truncated = False, rs_keep_alive = True\<rparr>"

definition kMaxHeadBytes :: nat where "kMaxHeadBytes = 64 * 1024"
definition kMaxBodyBytes :: u64 where "kMaxBodyBytes = 256 * 1024 * 1024"

definition ci_equals :: "string \<Rightarrow> string \<Rightarrow> bool" where
  "ci_equals a b \<longleftrightarrow> length a = length b \<and> to_lower a = to_lower b"

definition http_trim :: "string \<Rightarrow> string" where
  "http_trim s = (let ws = (\<lambda>c. c = sp \<or> c = tab) in rev (dropWhile ws (rev (dropWhile ws s))))"

fun u64_digits :: "u64 \<Rightarrow> string \<Rightarrow> u64 option" where
  "u64_digits v [] = Some v"
| "u64_digits v (c # s) = (if \<not> is_digit c then None else u64_digits (v * 10 + of_nat (digit_val c)) s)"

definition http_parse_u64 :: "string \<Rightarrow> u64 option" where
  "http_parse_u64 s = (if s = [] then None else u64_digits 0 s)"

definition http_header :: "HttpHeader list \<Rightarrow> string \<Rightarrow> string" where
  "http_header hs name = (case find (\<lambda>h. ci_equals (hh_name h) name) hs of Some h \<Rightarrow> hh_value h | None \<Rightarrow> [])"

abbreviation crlf :: string where "crlf \<equiv> [cr, nl]"

text \<open>The header lines; \<open>None\<close> when the head grows beyond its guard.\<close>

fun put_headers :: "HttpHeader list \<Rightarrow> string \<Rightarrow> string option" where
  "put_headers [] out = Some out"
| "put_headers (h # hs) out =
     (let out1 = out @ hh_name h @ '': '' @ hh_value h @ crlf in
      if length out1 > kMaxHeadBytes then None else put_headers hs out1)"

definition http_build_request :: "HttpRequest \<Rightarrow> error_code + string" where
  "http_build_request req =
     (let start = rq_method req @ '' '' @ (if rq_path req = [] then ''/'' else rq_path req) @ '' HTTP/1.1'' @ crlf;
          has_len = list_ex (\<lambda>h. ci_equals (hh_name h) ''Content-Length'') (rq_headers req);
          has_rid = list_ex (\<lambda>h. ci_equals (hh_name h) ''X-Request-Id'') (rq_headers req)
      in case put_headers (rq_headers req) start of
           None \<Rightarrow> Inl (make_error e_net_overflow)
         | Some out \<Rightarrow>
             (let out1 = (if rq_body req \<noteq> [] \<and> \<not> has_len
                          then out @ ''Content-Length: '' @ show_nat (length (rq_body req)) @ crlf else out);
                  out2 = (if rq_request_id req \<noteq> [] \<and> \<not> has_rid
                          then out1 @ ''X-Request-Id: '' @ rq_request_id req @ crlf else out1)
              in if length out2 > kMaxHeadBytes then Inl (make_error e_net_overflow)
                 else Inr (out2 @ crlf @ rq_body req)))"

definition http_status_error :: "HttpResponse \<Rightarrow> error_code" where
  "http_status_error resp =
     (let c = rs_code resp in
      if 200 \<le> c \<and> c < 300 then ok
      else if c = 429 then make_error e_rate_limit
      else if c = 401 \<or> c = 403 then make_error e_auth
      else if 400 \<le> c \<and> c < 600 then make_error_code e_provider_err (of_nat c)
      else make_error_code e_net_http (of_nat c))"

section \<open>Response parser\<close>

record HttpParser =
  hp_head :: HttpResponse
  hp_buf :: string
  hp_body_buf :: string
  hp_content_length :: u64
  hp_body_got :: u64
  hp_max_body :: u64
  hp_head_done :: bool
  hp_chunked :: bool
  hp_size_seen :: bool
  hp_chunk_size :: u64
  hp_chunked_done :: bool
  hp_eof_framed :: bool
  hp_length_framed :: bool

definition new_parser :: HttpParser where
  "new_parser = \<lparr>hp_head = empty_response, hp_buf = [], hp_body_buf = [], hp_content_length = 0, hp_body_got = 0,
     hp_max_body = kMaxBodyBytes, hp_head_done = False, hp_chunked = False, hp_size_seen = False, hp_chunk_size = 0,
     hp_chunked_done = False, hp_eof_framed = False, hp_length_framed = False\<rparr>"

text \<open>The end of the head in the buffer: its text and what follows the blank line.\<close>

definition head_split :: "string \<Rightarrow> (string \<times> string) option" where
  "head_split buf = (case find_sub (crlf @ crlf) buf of
     Some i \<Rightarrow> Some (take i buf, drop (i + 4) buf)
   | None \<Rightarrow> (case find_sub [nl, nl] buf of Some i \<Rightarrow> Some (take i buf, drop (i + 2) buf) | None \<Rightarrow> None))"

definition take_line :: "string \<Rightarrow> string \<times> string" where
  "take_line s = (chop_cr (takeWhile (\<lambda>c. c \<noteq> nl) s), drop 1 (dropWhile (\<lambda>c. c \<noteq> nl) s))"

lemma take_line_shorter: "s \<noteq> [] \<Longrightarrow> length (snd (take_line s)) < length s"
proof -
  assume "s \<noteq> []"
  have "length (dropWhile (\<lambda>c. c \<noteq> nl) s) \<le> length s" by (rule length_dropWhile_le)
  then show ?thesis using \<open>s \<noteq> []\<close> by (cases s) (auto simp: take_line_def)
qed

function head_fields :: "string \<Rightarrow> HttpHeader list \<Rightarrow> HttpHeader list option" where
  "head_fields s acc =
     (if s = [] then Some acc
      else let line = fst (take_line s); rest = snd (take_line s) in
        if line = [] then Some acc
        else case find_char (CHR '':'') line of
          None \<Rightarrow> None
        | Some c \<Rightarrow> head_fields rest (acc @ [\<lparr>hh_name = take c line, hh_value = http_trim (drop (c + 1) line)\<rparr>]))"
  by pat_completeness auto
termination
  by (relation "measure (\<lambda>(s, acc). length s)") (auto dest: take_line_shorter)

declare head_fields.simps [simp del]

definition status_line :: "string \<Rightarrow> (nat \<times> string) option" where
  "status_line first = (case find_char sp first of
     None \<Rightarrow> None
   | Some sp1 \<Rightarrow>
       (if take 5 (take sp1 first) \<noteq> ''HTTP/'' then None
        else (let after = drop (sp1 + 1) first;
                  (code_text, reason) = (case find_char sp after of
                     Some k \<Rightarrow> (take k after, drop (k + 1) after) | None \<Rightarrow> (after, []))
              in case http_parse_u64 code_text of
                   None \<Rightarrow> None
                 | Some code \<Rightarrow> if code > 999 then None else Some (unat code, reason))))"

definition parse_head :: "string \<Rightarrow> HttpParser \<Rightarrow> error_code \<times> HttpParser" where
  "parse_head head p =
     (let (first, rest) = (case find_char nl head of
            Some eol \<Rightarrow> (chop_cr (take eol head), drop (eol + 1) head) | None \<Rightarrow> (head, []))
      in case status_line first of
           None \<Rightarrow> (make_error e_proto_parse, p)
         | Some (code, reason) \<Rightarrow>
             (case head_fields rest [] of
                None \<Rightarrow> (make_error e_proto_parse, p)
              | Some hs \<Rightarrow>
                  (let st = \<lparr>rs_code = code, rs_reason = reason, rs_headers = hs, rs_body = [], rs_truncated = False,
                              rs_keep_alive = \<not> ci_equals (http_header hs ''Connection'') ''close''\<rparr>
                   in if ci_equals (http_header hs ''Transfer-Encoding'') ''chunked'' then
                        (ok, p\<lparr>hp_chunked := True, hp_size_seen := False, hp_chunk_size := 0, hp_chunked_done := False,
                                hp_head := st, hp_head_done := True\<rparr>)
                      else let cl = http_header hs ''Content-Length'' in
                        if cl \<noteq> [] then
                          (case http_parse_u64 cl of
                             None \<Rightarrow> (make_error e_proto_parse, p)
                           | Some len \<Rightarrow>
                               (let p1 = p\<lparr>hp_content_length := len, hp_length_framed := True\<rparr> in
                                if len > hp_max_body p then (make_error e_net_overflow, p1)
                                else (ok, p1\<lparr>hp_head := st, hp_head_done := True\<rparr>)))
                        else (ok, p\<lparr>hp_eof_framed := True, hp_head := st, hp_head_done := True\<rparr>))))"

fun hex_size :: "u64 \<Rightarrow> string \<Rightarrow> u64 option" where
  "hex_size v [] = Some v"
| "hex_size v (c # s) =
     (let n = byte_val c in
      if 48 \<le> n \<and> n \<le> 57 then hex_size (v * 16 + of_nat (n - 48)) s
      else if 97 \<le> n \<and> n \<le> 102 then hex_size (v * 16 + of_nat (n - 87)) s
      else if 65 \<le> n \<and> n \<le> 70 then hex_size (v * 16 + of_nat (n - 55)) s
      else None)"

definition chunk_line_size :: "string \<Rightarrow> u64 option" where
  "chunk_line_size line =
     (let l = (case find_char (CHR '';'') line of Some k \<Rightarrow> take k line | None \<Rightarrow> line) in hex_size 0 (http_trim l))"

function skip_trailers :: "string \<Rightarrow> string" where
  "skip_trailers s = (if s = [] then [] else if fst (take_line s) = [] then snd (take_line s) else skip_trailers (snd (take_line s)))"
  by pat_completeness auto
termination by (relation "measure length") (auto dest: take_line_shorter)

declare skip_trailers.simps [simp del]

text \<open>
  \<open>body_buf_.append(ptr, n)\<close> throws when the new length exceeds \<open>max_size()\<close>; the guard compares the buffer with
  the size of the chunk and its line end, a sum that wraps around.
\<close>

definition kMaxString :: nat where "kMaxString = 2 ^ 63"

lemma chunk_need: "unat (w :: u64) < kMaxString \<Longrightarrow> unat (w + 2) = unat w + 2"
  by (simp add: kMaxString_def unat_word_ariths)

function chunk_loop :: "HttpParser \<Rightarrow> string \<Rightarrow> (error_code \<times> HttpParser \<times> string) option" where
  "chunk_loop p s =
     (if s = [] then Some (ok, p, s)
      else if \<not> hp_size_seen p then
        (if nl \<notin> set s then Some (ok, p, s)
         else case chunk_line_size (fst (take_line s)) of
           None \<Rightarrow> Some (make_error e_proto_parse, p, s)
         | Some sz \<Rightarrow>
             (let p1 = p\<lparr>hp_chunk_size := sz, hp_size_seen := True\<rparr> in
              if sz = 0 then Some (ok, p1\<lparr>hp_chunked_done := True\<rparr>, skip_trailers (snd (take_line s)))
              else chunk_loop p1 (snd (take_line s))))
      else
        (let need = hp_chunk_size p + 2 in
         if length s < unat need then Some (ok, p, s)
         else if unat (hp_chunk_size p) \<ge> kMaxString then None
         else let p1 = p\<lparr>hp_body_buf := hp_body_buf p @ take (unat (hp_chunk_size p)) s,
                          hp_body_got := hp_body_got p + hp_chunk_size p, hp_size_seen := False\<rparr>
              in if hp_body_got p1 > hp_max_body p1 then Some (make_error e_net_overflow, p1, drop (unat need) s)
                 else chunk_loop p1 (drop (unat need) s)))"
  by pat_completeness auto
termination
proof (relation "measures [\<lambda>(p, s). length s, \<lambda>(p, s). if hp_size_seen p then 0 else 1]", goal_cases)
  case (2 p s sz p1)
  then show ?case using take_line_shorter by auto
next
  case (3 p s need p1)
  then have "unat need > 0" using chunk_need [of "hp_chunk_size p"] by auto
  then show ?case using 3 by auto
qed simp

declare chunk_loop.simps [simp del]

definition decode_chunked :: "HttpParser \<Rightarrow> (error_code \<times> HttpParser) option" where
  "decode_chunked p = (case chunk_loop p (hp_buf p) of
     None \<Rightarrow> None
   | Some (ec, p1, rest) \<Rightarrow> Some (ec, if is_ok ec then p1\<lparr>hp_buf := rest\<rparr> else p1))"

function plain_body :: "HttpParser \<Rightarrow> error_code \<times> HttpParser" where
  "plain_body p =
     (if hp_content_length p > 0 \<and> hp_body_got p \<ge> hp_content_length p then (ok, p\<lparr>hp_buf := []\<rparr>)
      else
        (let room = (if hp_content_length p > 0 then hp_content_length p - hp_body_got p else kMaxBodyBytes);
             n = min (unat room) (length (hp_buf p));
             p1 = p\<lparr>hp_body_buf := hp_body_buf p @ take n (hp_buf p), hp_body_got := hp_body_got p + of_nat n,
                     hp_buf := drop n (hp_buf p)\<rparr>
         in if hp_body_got p1 > hp_max_body p1 then (make_error e_net_overflow, p1)
            else if hp_content_length p1 > 0 \<and> hp_body_got p1 \<ge> hp_content_length p1 then (ok, p1)
            else if hp_buf p1 = [] then (ok, p1)
            else plain_body p1))"
  by pat_completeness auto
termination
proof (relation "measure (\<lambda>p. length (hp_buf p))", goal_cases)
  case (2 p room n p1)
  have "unat room > 0" using 2(1,2) by (auto simp: kMaxBodyBytes_def unat_gt_0 not_le split: if_splits)
  moreover have "hp_buf p \<noteq> []" using 2(4,7) by auto
  ultimately have "n > 0" by (simp add: 2(3))
  then show ?case using \<open>hp_buf p \<noteq> []\<close> by (simp add: 2(4))
qed simp

declare plain_body.simps [simp del]

definition feed_body :: "HttpParser \<Rightarrow> (error_code \<times> HttpParser) option" where
  "feed_body p =
     (if hp_chunked p \<and> \<not> hp_chunked_done p then decode_chunked p
      else if hp_chunked p then Some (ok, p)
      else Some (plain_body p))"

definition feed :: "string \<Rightarrow> HttpParser \<Rightarrow> (error_code \<times> HttpParser) option" where
  "feed inp p =
     (if inp = [] then Some (ok, p)
      else let p1 = p\<lparr>hp_buf := hp_buf p @ inp\<rparr> in
        if hp_head_done p1 then feed_body p1
        else case head_split (hp_buf p1) of
          None \<Rightarrow> Some (if length (hp_buf p1) > kMaxHeadBytes then make_error e_net_overflow else ok, p1)
        | Some (head, rest) \<Rightarrow>
            (case parse_head head p1 of (ec, p2) \<Rightarrow>
               if \<not> is_ok ec then Some (ec, p2) else feed_body (p2\<lparr>hp_buf := rest\<rparr>)))"

definition body_done :: "HttpParser \<Rightarrow> bool" where
  "body_done p =
     (if \<not> hp_head_done p then False
      else if hp_chunked p then hp_chunked_done p
      else if hp_length_framed p then hp_body_got p \<ge> hp_content_length p
      else False)"

definition take_body :: "nat \<Rightarrow> HttpParser \<Rightarrow> string \<times> HttpParser" where
  "take_body n p = (take n (hp_body_buf p), p\<lparr>hp_body_buf := drop n (hp_body_buf p)\<rparr>)"

section \<open>Draining and exchange\<close>

definition kScratch :: nat where "kScratch = 16 * 1024"

text \<open>The callback works on a state of its own; the null callback is \<open>None\<close>.\<close>

function deliver :: "(string \<Rightarrow> 'a \<Rightarrow> error_code \<times> 'a) \<Rightarrow> HttpParser \<Rightarrow> 'a \<Rightarrow> error_code \<times> HttpParser \<times> 'a" where
  "deliver on_body p a =
     (if hp_body_buf p = [] then (ok, p, a)
      else case take_body kScratch p of (chunk, p1) \<Rightarrow>
        (case on_body chunk a of (ec, a1) \<Rightarrow> if \<not> is_ok ec then (ec, p1, a1) else deliver on_body p1 a1))"
  by pat_completeness auto
termination
  by (relation "measure (\<lambda>(f, p, a). length (hp_body_buf p))") (auto simp: take_body_def kScratch_def)

declare deliver.simps [simp del]

fun http_drain_body :: "(error_code + string) list \<Rightarrow> (string \<Rightarrow> 'a \<Rightarrow> error_code \<times> 'a) option \<Rightarrow> HttpParser \<Rightarrow> 'a \<Rightarrow>
    (error_code \<times> HttpParser \<times> 'a) option" where
  "http_drain_body reads on_body p a =
     (case (case on_body of Some f \<Rightarrow> deliver f p a
            | None \<Rightarrow> (ok, if hp_body_buf p \<noteq> [] then snd (take_body kScratch p) else p, a)) of
       (ec, p1, a1) \<Rightarrow>
         if \<not> is_ok ec then Some (ec, p1, a1)
         else if body_done p1 then Some (ok, p1, a1)
         else (let at_end = (if hp_eof_framed p1 then (ok, p1, a1)
                             else if body_done p1 then (ok, p1, a1)
                             else (make_error_code e_net_connect 1, p1, a1))
               in case reads of
                    [] \<Rightarrow> Some at_end
                  | Inl re # _ \<Rightarrow> Some (re, p1, a1)
                  | Inr s # rs \<Rightarrow>
                      (if s = [] then Some at_end
                       else case feed s p1 of
                         None \<Rightarrow> None
                       | Some (fe, p2) \<Rightarrow> if \<not> is_ok fe then Some (fe, p2, a1) else http_drain_body rs on_body p2 a1)))"

declare http_drain_body.simps [simp del]

text \<open>
  Writes: each attempt fails, or takes a number of bytes; behind the last attempt listed the rest is taken at
  once.
\<close>

fun send_all :: "u32 \<Rightarrow> (error_code + int) list \<Rightarrow> nat \<Rightarrow> error_code" where
  "send_all d [] n = ok"
| "send_all d (w # ws) n =
     (if n = 0 then ok
      else case w of Inl ec \<Rightarrow> ec
        | Inr k \<Rightarrow> if k \<le> 0 then make_error_code e_net_connect d else send_all d ws (n - nat k))"

fun read_response :: "(error_code + string) list \<Rightarrow> HttpParser \<Rightarrow> (error_code \<times> HttpParser \<times> (error_code + string) list) option" where
  "read_response [] p = Some (if \<not> hp_head_done p then make_error_code e_net_connect 3 else ok, p, [])"
| "read_response (Inl ec # rs) p = Some (ec, p, rs)"
| "read_response (Inr s # rs) p =
     (if s = [] then Some (if \<not> hp_head_done p then make_error_code e_net_connect 3 else ok, p, rs)
      else case feed s p of
        None \<Rightarrow> None
      | Some (ec, p1) \<Rightarrow>
          if \<not> is_ok ec then Some (ec, p1, rs)
          else if hp_head_done p1 \<and> body_done p1 then Some (ok, p1, rs)
          else read_response rs p1)"

definition collect_body :: "u32 \<Rightarrow> string \<Rightarrow> HttpResponse \<Rightarrow> error_code \<times> HttpResponse" where
  "collect_body max_resp_bytes chunk resp =
     (ok, if max_resp_bytes = 0 \<or> length (rs_body resp) + length chunk \<le> unat max_resp_bytes
          then resp\<lparr>rs_body := rs_body resp @ chunk\<rparr>
          else resp\<lparr>rs_body := rs_body resp @ take (unat max_resp_bytes - length (rs_body resp)) chunk, rs_truncated := True\<rparr>)"

definition http_exchange :: "(error_code + int) list \<Rightarrow> (error_code + string) list \<Rightarrow> HttpRequest \<Rightarrow> u32 \<Rightarrow> (error_code \<times> HttpResponse) option" where
  "http_exchange writes reads req max_resp_bytes = (case http_build_request req of
     Inl ec \<Rightarrow> Some (ec, empty_response)
   | Inr wire \<Rightarrow>
       (let ec = send_all 2 writes (length wire) in
        if \<not> is_ok ec then Some (ec, empty_response)
        else case read_response reads new_parser of
          None \<Rightarrow> None
        | Some (ec1, p, rs) \<Rightarrow>
            if \<not> is_ok ec1 then Some (ec1, empty_response)
            else (case http_drain_body rs (Some (collect_body max_resp_bytes)) p (hp_head p) of
                    None \<Rightarrow> None
                  | Some (ec2, _, resp) \<Rightarrow> Some (ec2, resp))))"

section \<open>Chunked bodies under any segmentation\<close>

lemma until_nl: "nl \<notin> set u \<Longrightarrow> takeWhile (\<lambda>c. c \<noteq> nl) (u @ nl # w) = u \<and> dropWhile (\<lambda>c. c \<noteq> nl) (u @ nl # w) = nl # w"
  by (induction u) auto

lemma take_line_at: "nl \<notin> set u \<Longrightarrow> take_line (u @ nl # v) = (chop_cr u, v)"
  by (simp add: take_line_def until_nl)

lemma take_line_append: "nl \<in> set s \<Longrightarrow> take_line (s @ t) = (fst (take_line s), snd (take_line s) @ t)"
proof -
  assume "nl \<in> set s"
  then obtain u v where "s = u @ nl # v" "nl \<notin> set u" by (meson split_list_first)
  then show ?thesis by (simp add: take_line_at)
qed

text \<open>The seven ways a pass of the loop can go, as equations and as an induction rule.\<close>

definition chunk_head :: "HttpParser \<Rightarrow> string \<Rightarrow> bool" where
  "chunk_head p s \<longleftrightarrow> \<not> hp_size_seen p \<and> nl \<in> set s"

definition chunk_full :: "HttpParser \<Rightarrow> string \<Rightarrow> bool" where
  "chunk_full p s \<longleftrightarrow> hp_size_seen p \<and> s \<noteq> [] \<and> unat (hp_chunk_size p + 2) \<le> length s"

definition sized :: "HttpParser \<Rightarrow> u64 \<Rightarrow> HttpParser" where
  "sized p sz = p\<lparr>hp_chunk_size := sz, hp_size_seen := True\<rparr>"

definition absorbed :: "HttpParser \<Rightarrow> string \<Rightarrow> HttpParser" where
  "absorbed p s = p\<lparr>hp_body_buf := hp_body_buf p @ take (unat (hp_chunk_size p)) s,
     hp_body_got := hp_body_got p + hp_chunk_size p, hp_size_seen := False\<rparr>"

lemma chunk_eqs:
  "\<not> chunk_head p s \<Longrightarrow> \<not> chunk_full p s \<Longrightarrow> chunk_loop p s = Some (ok, p, s)"
  "chunk_head p s \<Longrightarrow> chunk_line_size (fst (take_line s)) = None \<Longrightarrow> chunk_loop p s = Some (make_error e_proto_parse, p, s)"
  "chunk_head p s \<Longrightarrow> chunk_line_size (fst (take_line s)) = Some 0 \<Longrightarrow>
     chunk_loop p s = Some (ok, (sized p 0)\<lparr>hp_chunked_done := True\<rparr>, skip_trailers (snd (take_line s)))"
  "chunk_head p s \<Longrightarrow> chunk_line_size (fst (take_line s)) = Some sz \<Longrightarrow> sz \<noteq> 0 \<Longrightarrow>
     chunk_loop p s = chunk_loop (sized p sz) (snd (take_line s))"
  "chunk_full p s \<Longrightarrow> kMaxString \<le> unat (hp_chunk_size p) \<Longrightarrow> chunk_loop p s = None"
  "chunk_full p s \<Longrightarrow> unat (hp_chunk_size p) < kMaxString \<Longrightarrow> hp_max_body p < hp_body_got (absorbed p s) \<Longrightarrow>
     chunk_loop p s = Some (make_error e_net_overflow, absorbed p s, drop (unat (hp_chunk_size p) + 2) s)"
  "chunk_full p s \<Longrightarrow> unat (hp_chunk_size p) < kMaxString \<Longrightarrow> \<not> hp_max_body p < hp_body_got (absorbed p s) \<Longrightarrow>
     chunk_loop p s = chunk_loop (absorbed p s) (drop (unat (hp_chunk_size p) + 2) s)"
  by (subst chunk_loop.simps; auto simp: chunk_head_def chunk_full_def sized_def absorbed_def Let_def chunk_need not_le)+

lemma chunk_induct [case_names stuck bad last line throw over data]:
  assumes "\<And>p s. \<not> chunk_head p s \<Longrightarrow> \<not> chunk_full p s \<Longrightarrow> P p s"
    "\<And>p s. chunk_head p s \<Longrightarrow> chunk_line_size (fst (take_line s)) = None \<Longrightarrow> P p s"
    "\<And>p s. chunk_head p s \<Longrightarrow> chunk_line_size (fst (take_line s)) = Some 0 \<Longrightarrow> P p s"
    "\<And>p s sz. chunk_head p s \<Longrightarrow> chunk_line_size (fst (take_line s)) = Some sz \<Longrightarrow> sz \<noteq> 0 \<Longrightarrow>
       P (sized p sz) (snd (take_line s)) \<Longrightarrow> P p s"
    "\<And>p s. chunk_full p s \<Longrightarrow> kMaxString \<le> unat (hp_chunk_size p) \<Longrightarrow> P p s"
    "\<And>p s. chunk_full p s \<Longrightarrow> unat (hp_chunk_size p) < kMaxString \<Longrightarrow> hp_max_body p < hp_body_got (absorbed p s) \<Longrightarrow> P p s"
    "\<And>p s. chunk_full p s \<Longrightarrow> unat (hp_chunk_size p) < kMaxString \<Longrightarrow> \<not> hp_max_body p < hp_body_got (absorbed p s) \<Longrightarrow>
       P (absorbed p s) (drop (unat (hp_chunk_size p) + 2) s) \<Longrightarrow> P p s"
  shows "P p s"
proof (induction p s rule: chunk_loop.induct)
  case (1 p s)
  consider "\<not> chunk_head p s" "\<not> chunk_full p s" | "chunk_head p s" | "chunk_full p s" by blast
  then show ?case
  proof cases
    case 2
    then have h: "s \<noteq> []" "\<not> hp_size_seen p" "\<not> nl \<notin> set s" by (auto simp: chunk_head_def)
    show ?thesis
    proof (cases "chunk_line_size (fst (take_line s))")
      case (Some sz)
      show ?thesis
      proof (cases "sz = 0")
        case False
        have "P (sized p sz) (snd (take_line s))" using "1.IH"(1) [OF h Some _ False] by (simp add: sized_def)
        then show ?thesis using assms(4) 2 Some False by blast
      qed (use assms(3) 2 Some in blast)
    qed (use assms(2) 2 in blast)
  next
    case 3
    then have h: "s \<noteq> []" "\<not> \<not> hp_size_seen p" "\<not> length s < unat (hp_chunk_size p + 2)" by (auto simp: chunk_full_def)
    show ?thesis
    proof (cases "unat (hp_chunk_size p) < kMaxString \<and> \<not> hp_max_body p < hp_body_got (absorbed p s)")
      case True
      then have "P (absorbed p s) (drop (unat (hp_chunk_size p + 2)) s)"
        using "1.IH"(2) [OF h(1,2) _ h(3)] by (simp add: absorbed_def not_le)
      then show ?thesis using assms(7) [OF 3] True chunk_need by simp
    qed (use assms(5,6) [OF 3] in \<open>meson linorder_not_less\<close>)
  qed (use assms(1) in blast)
qed

lemma chunk_head_append: "chunk_head p s \<Longrightarrow> chunk_head p (s @ t) \<and> fst (take_line (s @ t)) = fst (take_line s) \<and>
    snd (take_line (s @ t)) = snd (take_line s) @ t"
  using take_line_append [of s t] by (simp add: chunk_head_def)

lemma chunk_full_append:
  assumes "chunk_full p s" "unat (hp_chunk_size p) < kMaxString"
  shows "chunk_full p (s @ t) \<and> absorbed p (s @ t) = absorbed p s \<and>
    drop (unat (hp_chunk_size p) + 2) (s @ t) = drop (unat (hp_chunk_size p) + 2) s @ t"
  using assms chunk_need [of "hp_chunk_size p"] by (auto simp: chunk_full_def absorbed_def)

lemma chunk_fields [simp]:
  "hp_chunked_done (sized p sz) = hp_chunked_done p" "hp_chunked_done (absorbed p s) = hp_chunked_done p"
  "hp_head_done (sized p sz) = hp_head_done p" "hp_head_done (absorbed p s) = hp_head_done p"
  "hp_chunked (sized p sz) = hp_chunked p" "hp_chunked (absorbed p s) = hp_chunked p"
  "hp_max_body (sized p sz) = hp_max_body p" "hp_max_body (absorbed p s) = hp_max_body p"
  by (simp_all add: sized_def absorbed_def)

text \<open>
  What was decoded stays decoded when more bytes arrive, and the rest is decoded as if it had come at once.
\<close>

lemma chunk_loop_append:
  "\<not> hp_chunked_done p \<Longrightarrow>
   (case chunk_loop p s of
      None \<Rightarrow> chunk_loop p (s @ t) = None
    | Some (ec, p', r) \<Rightarrow>
        if is_ok ec \<and> \<not> hp_chunked_done p' then chunk_loop p (s @ t) = chunk_loop p' (r @ t)
        else \<exists>r'. chunk_loop p (s @ t) = Some (ec, p', r'))"
proof (induction p s rule: chunk_induct)
  case (bad p s)
  then show ?case using chunk_head_append [OF bad(1), of t] by (simp add: chunk_eqs(2))
next
  case (last p s)
  then show ?case using chunk_head_append [OF last(1), of t] by (simp add: chunk_eqs(3))
next
  case (line p s sz)
  have b: "chunk_loop p (s @ t) = chunk_loop (sized p sz) (snd (take_line s) @ t)"
    using line chunk_head_append [OF line(1), of t] by (subst chunk_eqs(4) [of _ _ sz]) simp_all
  show ?case unfolding chunk_eqs(4) [OF line(1,2,3)] b by (rule line.IH) (simp add: line.prems)
next
  case (throw p s)
  then have "chunk_full p (s @ t)" by (simp add: chunk_full_def)
  then show ?case using throw by (simp add: chunk_eqs(5))
next
  case (over p s)
  then show ?case using chunk_full_append [OF over(1,2), of t] by (simp add: chunk_eqs(6))
next
  case (data p s)
  have b: "chunk_loop p (s @ t) = chunk_loop (absorbed p s) (drop (unat (hp_chunk_size p) + 2) s @ t)"
    using data chunk_full_append [OF data(1,2), of t] by (subst chunk_eqs(7)) simp_all
  show ?case unfolding chunk_eqs(7) [OF data(1,2,3)] b by (rule data.IH) (simp add: data.prems)
qed (simp add: chunk_eqs(1))

lemma chunk_buf:
  "sized (p\<lparr>hp_buf := b\<rparr>) sz = (sized p sz)\<lparr>hp_buf := b\<rparr>" "absorbed (p\<lparr>hp_buf := b\<rparr>) s = (absorbed p s)\<lparr>hp_buf := b\<rparr>"
  by (simp_all add: sized_def absorbed_def)

lemma chunk_loop_buf:
  "chunk_loop (p\<lparr>hp_buf := b\<rparr>) s = map_option (\<lambda>(ec, q, r). (ec, q\<lparr>hp_buf := b\<rparr>, r)) (chunk_loop p s)"
proof (induction p s rule: chunk_induct)
  case (stuck p s)
  then show ?case by (simp add: chunk_eqs(1) chunk_head_def chunk_full_def)
next
  case (bad p s)
  then show ?case by (simp add: chunk_eqs(2) chunk_head_def)
next
  case (last p s)
  then show ?case by (simp add: chunk_eqs(3) chunk_head_def sized_def)
next
  case (line p s sz)
  then have "chunk_loop (p\<lparr>hp_buf := b\<rparr>) s = chunk_loop ((sized p sz)\<lparr>hp_buf := b\<rparr>) (snd (take_line s))"
    unfolding chunk_buf [symmetric] by (subst chunk_eqs(4) [of _ _ sz]) (simp_all add: chunk_head_def)
  then show ?case using line by (simp add: chunk_eqs(4))
next
  case (throw p s)
  then show ?case by (simp add: chunk_eqs(5) chunk_full_def)
next
  case (over p s)
  then show ?case by (simp add: chunk_eqs(6) chunk_full_def absorbed_def)
next
  case (data p s)
  then have "chunk_loop (p\<lparr>hp_buf := b\<rparr>) s = chunk_loop ((absorbed p s)\<lparr>hp_buf := b\<rparr>) (drop (unat (hp_chunk_size p) + 2) s)"
    unfolding chunk_buf [symmetric] by (subst chunk_eqs(7)) (simp_all add: chunk_full_def chunk_buf)
  then show ?case using data by (simp add: chunk_eqs(7))
qed

lemma chunk_loop_ok: "chunk_loop p s = Some (ec, q, r) \<Longrightarrow> is_ok ec \<Longrightarrow> ec = ok"
  by (induction p s rule: chunk_induct) (simp_all add: chunk_eqs, auto)

lemma chunk_loop_keeps:
  "chunk_loop p s = Some (ec, q, r) \<Longrightarrow> hp_head_done q = hp_head_done p \<and> hp_chunked q = hp_chunked p"
  by (induction p s rule: chunk_induct) (simp_all add: chunk_eqs, auto simp: sized_def absorbed_def)

section \<open>Chunked bodies round trip\<close>

text \<open>
  A chunk on the wire: a line that gives the size, the bytes, and a line end. The line may carry leading zeros,
  blanks and an extension, anything the size parser reads as the length of the data.
\<close>

definition good_chunk :: "string \<times> string \<Rightarrow> bool" where
  "good_chunk = (\<lambda>(line, data). nl \<notin> set line \<and> data \<noteq> [] \<and> length data < kMaxString \<and>
     chunk_line_size (chop_cr line) = Some (of_nat (length data)))"

definition chunk_text :: "string \<times> string \<Rightarrow> string" where
  "chunk_text = (\<lambda>(line, data). line @ nl # data @ crlf)"

fun feed_all :: "string list \<Rightarrow> HttpParser \<Rightarrow> (error_code \<times> HttpParser) option" where
  "feed_all [] p = Some (ok, p)"
| "feed_all (s # ss) p = (case feed s p of
     None \<Rightarrow> None
   | Some (ec, p1) \<Rightarrow> if is_ok ec then feed_all ss p1 else Some (ec, p1))"

definition awaiting_chunks :: "HttpParser \<Rightarrow> bool" where
  "awaiting_chunks p \<longleftrightarrow> hp_head_done p \<and> hp_chunked p \<and> \<not> hp_chunked_done p"

lemma chunk_step:
  assumes "good_chunk (line, data)" "\<not> hp_size_seen p" "unat (hp_body_got p) + length data \<le> unat (hp_max_body p)"
  defines "p1 \<equiv> absorbed (sized p (of_nat (length data))) data"
  shows "chunk_loop p (chunk_text (line, data) @ t) = chunk_loop p1 t"
    and "unat (hp_body_got p1) = unat (hp_body_got p) + length data" "hp_body_buf p1 = hp_body_buf p @ data"
proof -
  let ?n = "of_nat (length data) :: u64"
  have len: "length data < 2 ^ 63" "data \<noteq> []" using assms(1) by (auto simp: good_chunk_def kMaxString_def)
  then have n: "unat ?n = length data" by (simp add: unat_of_nat)
  then have nz: "?n \<noteq> 0" using len by (metis length_0_conv unat_0)
  have "unat (hp_body_got p) + length data < 2 ^ LENGTH(64)" using assms(3) unat_u64_le [of "hp_max_body p"] by simp
  then have got: "unat (hp_body_got p + ?n) = unat (hp_body_got p) + length data" using n by (simp add: unat_word_ariths)
  then show "unat (hp_body_got p1) = unat (hp_body_got p) + length data" by (simp add: p1_def absorbed_def sized_def)
  show "hp_body_buf p1 = hp_body_buf p @ data" by (simp add: p1_def absorbed_def sized_def n)
  have "chunk_loop p (chunk_text (line, data) @ t) = chunk_loop (sized p ?n) (data @ crlf @ t)"
  proof (subst chunk_eqs(4))
    show "chunk_head p (chunk_text (line, data) @ t)" using assms(2) by (simp add: chunk_head_def chunk_text_def)
  qed (use assms(1) nz in \<open>simp_all add: chunk_text_def take_line_at good_chunk_def\<close>)
  also have "\<dots> = chunk_loop (absorbed (sized p ?n) (data @ crlf @ t)) (drop (unat ?n + 2) (data @ crlf @ t))"
  proof (subst chunk_eqs(7))
    have sz: "hp_chunk_size (sized p ?n) = ?n" by (simp add: sized_def)
    show "chunk_full (sized p ?n) (data @ crlf @ t)" "unat (hp_chunk_size (sized p ?n)) < kMaxString"
      using len chunk_need [of ?n] n by (auto simp: chunk_full_def sz kMaxString_def) (simp add: sized_def)
    show "\<not> hp_max_body (sized p ?n) < hp_body_got (absorbed (sized p ?n) (data @ crlf @ t))"
      using got assms(3) by (simp add: absorbed_def sized_def word_less_nat_alt)
  qed (simp add: sized_def)
  also have "\<dots> = chunk_loop p1 t" by (simp add: p1_def n absorbed_def sized_def)
  finally show "chunk_loop p (chunk_text (line, data) @ t) = chunk_loop p1 t" .
qed

lemma chunk_loop_wire:
  assumes "list_all good_chunk cs" "\<not> hp_size_seen p" "unat (hp_body_got p) + length (concat (map snd cs)) \<le> unat (hp_max_body p)"
    "nl \<notin> set last_line" "chunk_line_size (chop_cr last_line) = Some 0"
  shows "\<exists>q r. chunk_loop p (concat (map chunk_text cs) @ last_line @ nl # trailer) = Some (ok, q, r) \<and>
    hp_chunked_done q \<and> hp_body_buf q = hp_body_buf p @ concat (map snd cs)"
  using assms
proof (induction cs arbitrary: p)
  case Nil
  have "chunk_head p (last_line @ nl # trailer)" using Nil.prems by (simp add: chunk_head_def)
  then show ?case using Nil.prems by (simp add: chunk_eqs(3) take_line_at sized_def)
next
  case (Cons c cs)
  obtain line data where c: "c = (line, data)" by fastforce
  define p1 where "p1 = absorbed (sized p (of_nat (length data))) data"
  have fit: "good_chunk (line, data)" "unat (hp_body_got p) + length data \<le> unat (hp_max_body p)" using Cons.prems by (auto simp: c)
  note one = chunk_step [OF fit(1) Cons.prems(2) fit(2), folded p1_def]
  have "\<not> hp_size_seen p1" "hp_max_body p1 = hp_max_body p" by (simp_all add: p1_def absorbed_def sized_def)
  then have "\<exists>q r. chunk_loop p1 (concat (map chunk_text cs) @ last_line @ nl # trailer) = Some (ok, q, r) \<and>
      hp_chunked_done q \<and> hp_body_buf q = hp_body_buf p1 @ concat (map snd cs)"
    using Cons.prems one(2) by (intro Cons.IH) (simp_all add: c)
  then show ?case using one(1) [of "concat (map chunk_text cs) @ last_line @ nl # trailer"] one(3) by (simp add: c)
qed

lemma feed_when_done:
  assumes "hp_head_done p" "hp_chunked p" "hp_chunked_done p"
  shows "\<exists>q. feed_all segs p = Some (ok, q) \<and> hp_body_buf q = hp_body_buf p \<and> body_done q"
  using assms
proof (induction segs arbitrary: p)
  case (Cons s segs)
  define p1 where "p1 = (if s = [] then p else p\<lparr>hp_buf := hp_buf p @ s\<rparr>)"
  have "feed_all (s # segs) p = feed_all segs p1" using Cons.prems by (simp add: feed_def feed_body_def p1_def)
  moreover have "hp_head_done p1" "hp_chunked p1" "hp_chunked_done p1" "hp_body_buf p1 = hp_body_buf p"
    using Cons.prems by (simp_all add: p1_def)
  ultimately show ?case using Cons.IH [of p1] by simp
qed (simp add: body_done_def)

lemma feed_chunked:
  assumes "awaiting_chunks p" "chunk_loop p (hp_buf p) = Some (ok, p, hp_buf p)"
    "chunk_loop p (hp_buf p @ concat segs) = Some (ok, q, r)" "hp_chunked_done q"
  shows "\<exists>q'. feed_all segs p = Some (ok, q') \<and> hp_body_buf q' = hp_body_buf q \<and> body_done q'"
  using assms
proof (induction segs arbitrary: p q r)
  case Nil
  then show ?case by (auto simp: awaiting_chunks_def)
next
  case (Cons s segs)
  show ?case
  proof (cases "s = []")
    case True
    then show ?thesis using Cons by (simp add: feed_def)
  next
    case False
    let ?b = "hp_buf p @ s"
    have nd: "\<not> hp_chunked_done p" using Cons.prems(1) by (simp add: awaiting_chunks_def)
    have all: "hp_buf p @ concat (s # segs) = ?b @ concat segs" by simp
    note app = chunk_loop_append [OF nd, of ?b "concat segs"]
    have "chunk_loop p ?b \<noteq> None" using app Cons.prems(3) unfolding all by (auto split: option.splits)
    then obtain ec p1 r1 where l: "chunk_loop p ?b = Some (ec, p1, r1)" by auto
    have ok: "ec = ok" using app Cons.prems(3,4) chunk_loop_ok [OF l] unfolding all l by (auto split: if_splits)
    note keep = chunk_loop_keeps [OF l]
    have "feed s p = Some (ok, p1\<lparr>hp_buf := r1\<rparr>)"
      using False Cons.prems(1) l ok
      by (simp add: chunk_loop_buf feed_def feed_body_def decode_chunked_def awaiting_chunks_def)
    then have step: "feed_all (s # segs) p = feed_all segs (p1\<lparr>hp_buf := r1\<rparr>)" by simp
    show ?thesis
    proof (cases "hp_chunked_done p1")
      case True
      then have "p1 = q" using app Cons.prems(3) unfolding all l ok by (auto split: if_splits)
      then show ?thesis using feed_when_done [of "p1\<lparr>hp_buf := r1\<rparr>" segs] keep True Cons.prems(1) step
        by (simp add: awaiting_chunks_def)
    next
      case nd1: False
      have rest: "chunk_loop p1 (r1 @ concat segs) = Some (ok, q, r)"
        using app Cons.prems(3) nd1 unfolding all l ok by simp
      have stuck: "chunk_loop p1 r1 = Some (ok, p1, r1)" using chunk_loop_append [OF nd, of ?b "[]"] l ok nd1 by simp
      define p2 where "p2 = p1\<lparr>hp_buf := r1\<rparr>"
      have "awaiting_chunks p2" using keep nd1 Cons.prems(1) by (simp add: awaiting_chunks_def p2_def)
      moreover have "chunk_loop p2 (hp_buf p2) = Some (ok, p2, hp_buf p2)" using stuck by (simp add: p2_def chunk_loop_buf)
      moreover have "chunk_loop p2 (hp_buf p2 @ concat segs) = Some (ok, q\<lparr>hp_buf := r1\<rparr>, r)"
        using rest by (simp add: p2_def chunk_loop_buf)
      ultimately show ?thesis using Cons.IH [of p2 "q\<lparr>hp_buf := r1\<rparr>" r] step Cons.prems(4) by (simp add: p2_def)
    qed
  qed
qed

text \<open>
  C39: a chunked body arrives whole, however the network cuts it. For a parser that has read the head of a chunked
  response, any sequence of pieces that together are well-formed chunks, the closing chunk and any trailer
  leaves the body complete, and it is the concatenation of the chunks' data.
\<close>

theorem chunked_body_arrives:
  assumes "awaiting_chunks p" "\<not> hp_size_seen p" "hp_buf p = []" "list_all good_chunk cs"
    "unat (hp_body_got p) + length (concat (map snd cs)) \<le> unat (hp_max_body p)"
    "nl \<notin> set last_line" "chunk_line_size (chop_cr last_line) = Some 0"
    "concat segs = concat (map chunk_text cs) @ last_line @ nl # trailer"
  shows "\<exists>q. feed_all segs p = Some (ok, q) \<and> body_done q \<and> hp_body_buf q = hp_body_buf p @ concat (map snd cs)"
proof -
  have "chunk_loop p [] = Some (ok, p, [])" by (simp add: chunk_eqs(1) chunk_head_def chunk_full_def)
  moreover obtain q r where "chunk_loop p (concat segs) = Some (ok, q, r)" "hp_chunked_done q"
    "hp_body_buf q = hp_body_buf p @ concat (map snd cs)"
    using chunk_loop_wire [OF assms(4,2,5,6,7), of trailer] assms(8) by auto
  ultimately show ?thesis using feed_chunked [OF assms(1), of segs q r] assms(3) by auto
qed

definition chunked_parser :: HttpParser where
  "chunked_parser = new_parser\<lparr>hp_head_done := True, hp_chunked := True\<rparr>"

theorem chunked_body_arrives_witness:
  "\<exists>q. feed_all [''5'', crlf @ ''hel'', ''lo'' @ crlf @ ''06 ; x=1'' @ [cr], [nl] @ '' world'' @ crlf @ ''0'' @ crlf, crlf] chunked_parser = Some (ok, q) \<and>
     body_done q \<and> hp_body_buf q = ''hello world''"
proof -
  have lines: "chunk_line_size ''5'' = Some 5" "chunk_line_size ''06 ; x=1'' = Some 6" "chunk_line_size ''0'' = Some 0"
    by (code_simp, code_simp, code_simp)
  have "\<exists>q. feed_all [''5'', crlf @ ''hel'', ''lo'' @ crlf @ ''06 ; x=1'' @ [cr], [nl] @ '' world'' @ crlf @ ''0'' @ crlf, crlf] chunked_parser = Some (ok, q) \<and>
     body_done q \<and> hp_body_buf q = hp_body_buf chunked_parser @ concat (map snd [(''5'' @ [cr], ''hello''), (''06 ; x=1'' @ [cr], '' world'')])"
    by (rule chunked_body_arrives [where last_line = "''0'' @ [cr]" and trailer = crlf])
      (simp_all add: chunked_parser_def new_parser_def awaiting_chunks_def good_chunk_def chunk_text_def chop_cr_def lines
        kMaxString_def kMaxBodyBytes_def)
  then show ?thesis by (simp add: chunked_parser_def new_parser_def)
qed

section \<open>Sizes that wrap around\<close>

text \<open>
  The sum of a chunk's size and its line end wraps around: the two largest sizes pass the guard, and appending that
  many bytes throws.
\<close>

lemma huge_chunk_throws:
  assumes "awaiting_chunks p" "\<not> hp_size_seen p" "hp_buf p = []"
  shows "feed (''FFFFFFFFFFFFFFFE'' @ nl # ''x'') p = None"
proof -
  let ?s = "''FFFFFFFFFFFFFFFE'' @ nl # ''x''"
  have line: "chunk_line_size ''FFFFFFFFFFFFFFFE'' = Some 18446744073709551614" by code_simp
  have "chunk_head p ?s" using assms by (simp add: chunk_head_def)
  moreover have "take_line ?s = (''FFFFFFFFFFFFFFFE'', ''x'')" by (subst take_line_at) (simp_all add: chop_cr_def)
  ultimately have "chunk_loop p ?s = chunk_loop (sized p 18446744073709551614) ''x''" using line by (subst chunk_eqs(4)) simp_all
  also have "\<dots> = None"
  proof (rule chunk_eqs(5))
    show "kMaxString \<le> unat (hp_chunk_size (sized p 18446744073709551614))" by (simp add: sized_def kMaxString_def)
  qed (simp add: chunk_full_def sized_def)
  finally have "chunk_loop p ?s = None" .
  then show ?thesis using assms
    by (simp add: feed_def feed_body_def decode_chunked_def awaiting_chunks_def chunk_loop_buf)
qed

text \<open>Decimal numbers are read modulo \<open>2 ^ 64\<close>: a status of \<open>2 ^ 64 + 200\<close> is 200.\<close>

lemma status_wraps: "status_line (''HTTP/1.1 18446744073709551816 OK'') = Some (200, ''OK'')"
  by code_simp

text \<open>A response of length zero still takes over the bytes behind its head.\<close>

lemma zero_length_body:
  assumes "hp_head_done p" "\<not> hp_chunked p" "hp_content_length p = 0" "hp_body_got p = 0" "hp_max_body p = kMaxBodyBytes"
  shows "plain_body (p\<lparr>hp_buf := ''x''\<rparr>) = (ok, p\<lparr>hp_buf := [], hp_body_buf := hp_body_buf p @ ''x'', hp_body_got := 1\<rparr>)"
  using assms by (subst plain_body.simps) (simp add: Let_def kMaxBodyBytes_def)

end
