(* ===== verification/Adapters.thy ===== *)
theory Adapters
  imports Provider Json_Roundtrip Base64 Sse Http1
begin

text \<open>
  The three wire adapters behind the \<open>Provider\<close> interface: Anthropic (\<open>src/provider/anthropic.cpp\<close>), OpenAI and
  its compatibles (\<open>src/provider/openai.cpp\<close>) and Gemini (\<open>src/provider/gemini.cpp\<close>), each with the request it
  builds and the stream frames it understands. The virtual calls dispatch on the class of the object. The
  members that a stream accumulates are one record for the three classes; each uses its own fields of it and
  leaves the others alone. The number conversions are the parameter of the JSON theory. \<open>static_cast\<close> of a
  \<open>double\<close> to an unsigned type is \<open>n_to_u64\<close>.
\<close>

section \<open>Requests and stream state\<close>

record Budget =
  bd_max_output_tokens :: u32
  bd_max_context_tokens :: u32
  bd_max_tool_args_bytes :: u32

definition no_budget :: Budget where
  "no_budget = \<lparr>bd_max_output_tokens = 0, bd_max_context_tokens = 0, bd_max_tool_args_bytes = 0\<rparr>"

record RequestBytes =
  rb_method :: string
  rb_path :: string
  rb_headers :: "HttpHeader list"
  rb_body :: string

record PendingTool =
  pt_id :: string
  pt_name :: string
  pt_args :: string

definition no_pending :: PendingTool where
  "no_pending = \<lparr>pt_id = [], pt_name = [], pt_args = []\<rparr>"

definition no_usage :: Usage where
  "no_usage = \<lparr>input_tokens = 0, output_tokens = 0, cached_input_tokens = 0\<rparr>"

text \<open>The \<open>std::map\<close> of the unfinished calls is an association list in the order of its keys.\<close>

record StreamState =
  st_pending :: "(u64 \<times> PendingTool) list"
  st_finish :: FinishReason
  st_done :: bool
  st_usage :: Usage
  st_call_seq :: u32

definition fresh_stream :: StreamState where
  "fresh_stream = \<lparr>st_pending = [], st_finish = finish_unknown, st_done = False, st_usage = no_usage, st_call_seq = 0\<rparr>"

fun pend_put :: "u64 \<Rightarrow> PendingTool \<Rightarrow> (u64 \<times> PendingTool) list \<Rightarrow> (u64 \<times> PendingTool) list" where
  "pend_put k v [] = [(k, v)]"
| "pend_put k v ((k', v') # xs) =
     (if k < k' then (k, v) # (k', v') # xs else if k = k' then (k, v) # xs else (k', v') # pend_put k v xs)"

text \<open>\<open>pending_[idx]\<close> finds an entry or makes an empty one.\<close>

definition pend_at :: "u64 \<Rightarrow> (u64 \<times> PendingTool) list \<Rightarrow> PendingTool" where
  "pend_at k xs = (case map_of xs k of Some v \<Rightarrow> v | None \<Rightarrow> no_pending)"

definition pend_erase :: "u64 \<Rightarrow> (u64 \<times> PendingTool) list \<Rightarrow> (u64 \<times> PendingTool) list" where
  "pend_erase k xs = filter (\<lambda>(k', _). k' \<noteq> k) xs"

section \<open>Readers\<close>

definition get_num :: "'d num_ops \<Rightarrow> 'd jval \<Rightarrow> string \<Rightarrow> 'd" where
  "get_num N v key = (case jfind key v of Some (JNum d) \<Rightarrow> d | _ \<Rightarrow> n_of_u64 N 0)"

definition get_str :: "'d jval \<Rightarrow> string \<Rightarrow> string" where
  "get_str v key = (case jfind key v of Some (JStr s) \<Rightarrow> s | _ \<Rightarrow> [])"

definition get_obj :: "'d jval \<Rightarrow> string \<Rightarrow> 'd jval option" where
  "get_obj v key = (case jfind key v of Some (JObj kvs) \<Rightarrow> Some (JObj kvs) | _ \<Rightarrow> None)"

definition get_arr :: "'d jval \<Rightarrow> string \<Rightarrow> 'd jval list option" where
  "get_arr v key = (case jfind key v of Some (JArr vs) \<Rightarrow> Some vs | _ \<Rightarrow> None)"

definition get_bool :: "'d jval \<Rightarrow> string \<Rightarrow> bool" where
  "get_bool v key = (case jfind key v of Some (JBool b) \<Rightarrow> b | _ \<Rightarrow> False)"

definition parse_owned :: "'d num_ops \<Rightarrow> string \<Rightarrow> error_code + 'd jval" where
  "parse_owned N s = (case parse_json (n_from_chars N) s of
     Some (Inr v) \<Rightarrow> Inr v | Some (Inl (ec, pos)) \<Rightarrow> Inl ec | None \<Rightarrow> Inl (make_error e_proto_parse))"

definition tool_input :: "'d num_ops \<Rightarrow> string \<Rightarrow> error_code + 'd jval" where
  "tool_input N input_json = (if input_json = [] then Inr (JObj []) else parse_owned N input_json)"

definition wire_schema :: "'d num_ops \<Rightarrow> wire_ToolSpec \<Rightarrow> 'd jval" where
  "wire_schema N t = (if ts_input_schema_json t = [] then JObj []
     else case parse_owned N (ts_input_schema_json t) of Inr (JObj kvs) \<Rightarrow> JObj kvs | _ \<Rightarrow> JObj [])"

definition host_header :: "UrlParts \<Rightarrow> string" where
  "host_header u = url_host u @
     (if url_port u \<noteq> 0 \<and> \<not> (url_scheme u = ''http'' \<and> url_port u = 80 \<or> url_scheme u = ''https'' \<and> url_port u = 443)
      then '':'' @ show_nat (unat (url_port u)) else [])"

definition output_limit :: "Budget \<Rightarrow> ModelSpec \<Rightarrow> u32 \<Rightarrow> u32" where
  "output_limit budget model dflt =
     (if bd_max_output_tokens budget \<noteq> 0 then bd_max_output_tokens budget
      else if ms_default_max_tokens model \<noteq> 0 then ms_default_max_tokens model else dflt)"

abbreviation tagged :: "string \<Rightarrow> (string \<times> 'd jval) list \<Rightarrow> 'd jval" where
  "tagged t kvs \<equiv> JObj ((''type'', JStr t) # kvs)"

section \<open>Anthropic\<close>

definition map_stop_reason :: "string \<Rightarrow> FinishReason" where
  "map_stop_reason r =
     (if r = ''end_turn'' then end_turn else if r = ''max_tokens'' then max_tokens
      else if r = ''tool_use'' then tool_use else if r = ''stop_sequence'' then end_turn else finish_unknown)"

fun user_block :: "Part \<Rightarrow> 'd jval list" where
  "user_block (Text t) = [tagged ''text'' [(''text'', JStr t)]]"
| "user_block (ImageUrl u) = [tagged ''image'' [(''source'', tagged ''url'' [(''url'', JStr u)])]]"
| "user_block (Binary mime d) = [tagged ''image''
     [(''source'', tagged ''base64'' [(''media_type'', JStr mime), (''data'', JStr (b64_encode d))])]]"
| "user_block (ToolResult i c e) = [tagged ''tool_result''
     [(''tool_use_id'', JStr i), (''content'', JStr c), (''is_error'', JBool e)]]"
| "user_block _ = []"

definition build_user_blocks :: "Message \<Rightarrow> 'd jval list" where
  "build_user_blocks m = concat (map user_block (parts m))"

fun assistant_block :: "'d num_ops \<Rightarrow> Part \<Rightarrow> 'd jval list" where
  "assistant_block N (Text t) = [tagged ''text'' [(''text'', JStr t)]]"
| "assistant_block N (Reasoning t) = [tagged ''thinking'' [(''thinking'', JStr t)]]"
| "assistant_block N (ToolCall i n inp fin) = (case tool_input N inp of
     Inr v \<Rightarrow> [tagged ''tool_use'' [(''id'', JStr i), (''name'', JStr n), (''input'', v)]] | Inl _ \<Rightarrow> [])"
| "assistant_block N _ = []"

definition build_assistant_blocks :: "'d num_ops \<Rightarrow> Message \<Rightarrow> 'd jval list" where
  "build_assistant_blocks N m = concat (map (assistant_block N) (parts m))"

text \<open>The system texts of the history in one string, as Anthropic and Gemini want it.\<close>

definition joined_system :: "Message list \<Rightarrow> string" where
  "joined_system msgs = concat (map content_text (filter (\<lambda>m. msg_role m = role_system) msgs))"

definition anthropic_message :: "'d num_ops \<Rightarrow> Message \<Rightarrow> 'd jval list" where
  "anthropic_message N m =
     (if msg_role m = role_user then
        (case build_user_blocks m of [] \<Rightarrow> []
         | bs \<Rightarrow> [JObj [(''role'', JStr ''user''), (''content'', JArr bs)]])
      else if msg_role m = role_assistant then
        (case build_assistant_blocks N m of [] \<Rightarrow> []
         | bs \<Rightarrow> [JObj [(''role'', JStr ''assistant''), (''content'', JArr bs)]])
      else [])"

definition anthropic_body :: "'d num_ops \<Rightarrow> u32 \<Rightarrow> Message list \<Rightarrow> wire_ToolSpec list \<Rightarrow> ModelSpec \<Rightarrow> Budget \<Rightarrow> 'd jval" where
  "anthropic_body N mx msgs tools model budget =
     JObj ([(''model'', JStr (ms_api_model_name model)),
            (''max_tokens'', JNum (n_of_u64 N (ucast (output_limit budget model (if mx \<noteq> 0 then mx else 4096)))))]
       @ (let s = joined_system msgs in if s \<noteq> [] then [(''system'', JStr s)] else [])
       @ [(''messages'', JArr (concat (map (anthropic_message N) msgs)))]
       @ (if tools \<noteq> [] then [(''tools'', JArr (map (\<lambda>t. JObj [(''name'', JStr (ts_name t)),
            (''description'', JStr (ts_description t)), (''input_schema'', wire_schema N t)]) tools))] else [])
       @ [(''stream'', JBool True)])"

definition anthropic_request :: "'d num_ops \<Rightarrow> string \<Rightarrow> string \<Rightarrow> u32 \<Rightarrow> Message list \<Rightarrow> wire_ToolSpec list \<Rightarrow> ModelSpec \<Rightarrow> Budget \<Rightarrow>
    error_code + RequestBytes" where
  "anthropic_request N base_url api_key mx msgs tools model budget = (case split_url base_url of (ec, url) \<Rightarrow>
     if \<not> is_ok ec then Inl ec
     else Inr \<lparr>rb_method = ''POST'', rb_path = url_path url @ ''/v1/messages'',
       rb_headers = [\<lparr>hh_name = ''Host'', hh_value = host_header url\<rparr>,
         \<lparr>hh_name = ''Content-Type'', hh_value = ''application/json''\<rparr>,
         \<lparr>hh_name = ''Accept'', hh_value = ''text/event-stream''\<rparr>,
         \<lparr>hh_name = ''x-api-key'', hh_value = api_key\<rparr>,
         \<lparr>hh_name = ''anthropic-version'', hh_value = ''2023-06-01''\<rparr>],
       rb_body = to_json (n_format N) (anthropic_body N mx msgs tools model budget)\<rparr>)"

definition anthropic_usage :: "'d num_ops \<Rightarrow> 'd jval \<Rightarrow> Usage \<Rightarrow> Usage" where
  "anthropic_usage N u us =
     (let us1 = (case jfind ''input_tokens'' u of Some (JNum d) \<Rightarrow> us\<lparr>input_tokens := n_to_u64 N d\<rparr> | _ \<Rightarrow> us)
      in case jfind ''output_tokens'' u of Some (JNum d) \<Rightarrow> us1\<lparr>output_tokens := n_to_u64 N d\<rparr> | _ \<Rightarrow> us1)"

definition anthropic_delta :: "'d num_ops \<Rightarrow> 'd jval \<Rightarrow> 'd jval \<Rightarrow> StreamState \<Rightarrow> StreamEvent list \<times> StreamState" where
  "anthropic_delta N d delta st =
     (let kind = get_str delta ''type'' in
      if kind = ''text_delta'' then ([TextDelta (get_str delta ''text'')], st)
      else if kind = ''thinking_delta'' then ([ReasoningDelta (get_str delta ''thinking'')], st)
      else if kind = ''input_json_delta'' then
        (let idx = n_to_u64 N (get_num N d ''index''); pt = pend_at idx (st_pending st);
             frag = get_str delta ''partial_json''; pt' = pt\<lparr>pt_args := pt_args pt @ frag\<rparr>
         in ([ToolCallDelta (pt_id pt') (pt_name pt') frag], st\<lparr>st_pending := pend_put idx pt' (st_pending st)\<rparr>))
      else ([], st))"

definition anthropic_error :: "'d jval \<Rightarrow> StreamEvent" where
  "anthropic_error d =
     (let err = get_obj d ''error''; t = (case err of Some e \<Rightarrow> get_str e ''type'' | None \<Rightarrow> []);
          m = (case err of Some e \<Rightarrow> get_str e ''message'' | None \<Rightarrow> []);
          code = (if t = ''authentication_error'' \<or> t = ''permission_error'' then e_auth
                  else if t = ''rate_limit_error'' then e_rate_limit else e_provider_err)
      in ProviderError (make_error code) m)"

definition anthropic_frame :: "'d num_ops \<Rightarrow> string \<Rightarrow> string \<Rightarrow> StreamState \<Rightarrow> StreamEvent list \<times> StreamState" where
  "anthropic_frame N event data st = (case parse_owned N data of
     Inl ec \<Rightarrow> ([ProviderError ec ''anthropic: bad frame JSON''], st)
   | Inr d \<Rightarrow>
       if event = ''ping'' then ([], st)
       else if event = ''message_start'' then
         ([MessageStart],
          case (case get_obj d ''message'' of Some m \<Rightarrow> get_obj m ''usage'' | None \<Rightarrow> get_obj d ''usage'') of
            Some u \<Rightarrow> st\<lparr>st_usage := anthropic_usage N u (st_usage st)\<rparr> | None \<Rightarrow> st)
       else if event = ''content_block_start'' then
         ([], case get_obj d ''content_block'' of
            Some cb \<Rightarrow> if get_str cb ''type'' = ''tool_use''
              then st\<lparr>st_pending := pend_put (n_to_u64 N (get_num N d ''index''))
                     \<lparr>pt_id = get_str cb ''id'', pt_name = get_str cb ''name'', pt_args = []\<rparr> (st_pending st)\<rparr>
              else st
          | None \<Rightarrow> st)
       else if event = ''content_block_delta'' then
         (case get_obj d ''delta'' of Some delta \<Rightarrow> anthropic_delta N d delta st | None \<Rightarrow> ([], st))
       else if event = ''content_block_stop'' then
         (let idx = n_to_u64 N (get_num N d ''index'') in
          case map_of (st_pending st) idx of
            Some pt \<Rightarrow> ([ToolCallDone (pt_id pt) (pt_name pt) (pt_args pt)],
                        st\<lparr>st_pending := pend_erase idx (st_pending st)\<rparr>)
          | None \<Rightarrow> ([], st))
       else if event = ''message_delta'' then
         (let st1 = (case get_obj d ''delta'' of
                Some delta \<Rightarrow> (let stop = get_str delta ''stop_reason'' in
                  if stop \<noteq> [] then st\<lparr>st_finish := map_stop_reason stop\<rparr> else st)
              | None \<Rightarrow> st)
          in ([], case get_obj d ''usage'' of
                Some u \<Rightarrow> st1\<lparr>st_usage := anthropic_usage N u (st_usage st1)\<rparr> | None \<Rightarrow> st1))
       else if event = ''message_stop'' then ([MessageDone (st_finish st) (st_usage st)], st)
       else if event = ''error'' then ([anthropic_error d], st)
       else ([ProviderError (make_error e_proto_parse) (''anthropic: unknown event '' @ [CHR 0x27] @ event @ [CHR 0x27])], st))"

definition anthropic_parse_usage :: "'d num_ops \<Rightarrow> 'd jval \<Rightarrow> Usage" where
  "anthropic_parse_usage N json =
     (let u = (case get_obj json ''usage'' of Some v \<Rightarrow> v | None \<Rightarrow> json) in
      \<lparr>input_tokens = n_to_u64 N (get_num N u ''input_tokens''),
       output_tokens = n_to_u64 N (get_num N u ''output_tokens''),
       cached_input_tokens = n_to_u64 N (get_num N u ''cache_read_input_tokens'')
         + n_to_u64 N (get_num N u ''cache_creation_input_tokens'')\<rparr>)"

section \<open>OpenAI\<close>

definition map_finish_reason :: "string \<Rightarrow> FinishReason" where
  "map_finish_reason r =
     (if r = ''stop'' then end_turn else if r = ''length'' then max_tokens
      else if r = ''tool_calls'' \<or> r = ''function_call'' then tool_use
      else if r = ''content_filter'' then finish_error else finish_unknown)"

fun image_part :: "Part \<Rightarrow> 'd jval list" where
  "image_part (ImageUrl u) = [tagged ''image_url'' [(''image_url'', JObj [(''url'', JStr u)])]]"
| "image_part (Binary mime d) = [tagged ''image_url''
     [(''image_url'', JObj [(''url'', JStr (''data:'' @ mime @ '';base64,'' @ b64_encode d))])]]"
| "image_part _ = []"

fun text_of :: "Part \<Rightarrow> string list" where
  "text_of (Text t) = [t]"
| "text_of _ = []"

definition build_user_content :: "Message \<Rightarrow> 'd jval" where
  "build_user_content m =
     (let texts = concat (map text_of (parts m)); images = concat (map image_part (parts m)) in
      if images = [] then JStr (concat texts)
      else JArr (map (\<lambda>t. tagged ''text'' [(''text'', JStr t)]) texts @ images))"

fun tool_message :: "Part \<Rightarrow> 'd jval list" where
  "tool_message (ToolResult i c e) =
     [JObj [(''role'', JStr ''tool''), (''tool_call_id'', JStr i), (''content'', JStr c)]]"
| "tool_message _ = []"

fun spoken :: "Part \<Rightarrow> string" where
  "spoken (Text t) = t"
| "spoken (Reasoning t) = t"
| "spoken _ = []"

fun call_object :: "Part \<Rightarrow> 'd jval list" where
  "call_object (ToolCall i n inp fin) = [JObj [(''id'', JStr i), (''type'', JStr ''function''),
     (''function'', JObj [(''name'', JStr n), (''arguments'', JStr inp)])]]"
| "call_object _ = []"

definition openai_message :: "Message \<Rightarrow> 'd jval list" where
  "openai_message m = (case msg_role m of
     role_system \<Rightarrow> (let c = content_text m in
       if c = [] then [] else [JObj [(''role'', JStr ''system''), (''content'', JStr c)]])
   | role_user \<Rightarrow>
       (let results = concat (map tool_message (parts m)); content = build_user_content m in
        (if content = JStr [] \<or> content = JArr [] then [] else [JObj [(''role'', JStr ''user''), (''content'', content)]])
        @ results)
   | role_assistant \<Rightarrow>
       (let content = concat (map spoken (parts m)); calls = concat (map call_object (parts m)) in
        if content = [] \<and> calls = [] then []
        else [JObj ([(''role'', JStr ''assistant'')]
               @ (if content \<noteq> [] \<or> calls = [] then [(''content'', JStr content)] else [])
               @ (if calls \<noteq> [] then [(''tool_calls'', JArr calls)] else []))])
   | role_tool \<Rightarrow> [])"

definition openai_body :: "'d num_ops \<Rightarrow> u32 \<Rightarrow> Message list \<Rightarrow> wire_ToolSpec list \<Rightarrow> ModelSpec \<Rightarrow> Budget \<Rightarrow> 'd jval" where
  "openai_body N mx msgs tools model budget =
     JObj ([(''model'', JStr (ms_api_model_name model)), (''messages'', JArr (concat (map openai_message msgs)))]
       @ (if tools \<noteq> [] then [(''tools'', JArr (map (\<lambda>t. tagged ''function'' [(''function'',
            JObj [(''name'', JStr (ts_name t)), (''description'', JStr (ts_description t)),
                  (''parameters'', wire_schema N t)])]) tools))] else [])
       @ [(''stream'', JBool True), (''stream_options'', JObj [(''include_usage'', JBool True)])]
       @ (let lim = output_limit budget model mx in
          if lim > 0 then [(''max_tokens'', JNum (n_of_u64 N (ucast lim)))] else []))"

definition openai_request :: "'d num_ops \<Rightarrow> string \<Rightarrow> string \<Rightarrow> u32 \<Rightarrow> string \<Rightarrow> Message list \<Rightarrow> wire_ToolSpec list \<Rightarrow> ModelSpec \<Rightarrow> Budget \<Rightarrow>
    error_code + RequestBytes" where
  "openai_request N base_url api_key mx endpoint msgs tools model budget = (case split_url base_url of (ec, url) \<Rightarrow>
     if \<not> is_ok ec then Inl ec
     else Inr \<lparr>rb_method = ''POST'',
       rb_path = url_path url @ (if endpoint = [] \<or> hd endpoint \<noteq> CHR ''/'' then CHR ''/'' # endpoint else endpoint),
       rb_headers = [\<lparr>hh_name = ''Host'', hh_value = host_header url\<rparr>,
         \<lparr>hh_name = ''Content-Type'', hh_value = ''application/json''\<rparr>,
         \<lparr>hh_name = ''Accept'', hh_value = ''text/event-stream''\<rparr>,
         \<lparr>hh_name = ''Authorization'', hh_value = ''Bearer '' @ api_key\<rparr>],
       rb_body = to_json (n_format N) (openai_body N mx msgs tools model budget)\<rparr>)"

definition openai_error :: "'d jval \<Rightarrow> StreamEvent" where
  "openai_error err =
     (let t = get_str err ''type'';
          code = (if t = ''authentication_error'' \<or> t = ''invalid_api_key'' \<or> t = ''insufficient_quota'' then e_auth
                  else if t = ''rate_limit_error'' then e_rate_limit else e_provider_err)
      in ProviderError (make_error code) (get_str err ''message''))"

definition openai_tool_delta :: "'d num_ops \<Rightarrow> 'd jval \<Rightarrow> StreamEvent list \<times> StreamState \<Rightarrow> StreamEvent list \<times> StreamState" where
  "openai_tool_delta N tc = (\<lambda>(out, st).
     (let idx = n_to_u64 N (get_num N tc ''index''); pt = pend_at idx (st_pending st); i = get_str tc ''id'';
          pt1 = (if i \<noteq> [] \<and> pt_id pt = [] then pt\<lparr>pt_id := i\<rparr> else pt)
      in case get_obj tc ''function'' of
           None \<Rightarrow> (out, st\<lparr>st_pending := pend_put idx pt1 (st_pending st)\<rparr>)
         | Some fn \<Rightarrow>
             (let pt2 = pt1\<lparr>pt_name := pt_name pt1 @ get_str fn ''name''\<rparr>; args = get_str fn ''arguments'' in
              if args = [] then (out, st\<lparr>st_pending := pend_put idx pt2 (st_pending st)\<rparr>)
              else (let pt3 = pt2\<lparr>pt_args := pt_args pt2 @ args\<rparr> in
                    (out @ [ToolCallDelta (pt_id pt3) (pt_name pt3) args],
                     st\<lparr>st_pending := pend_put idx pt3 (st_pending st)\<rparr>)))))"

definition openai_choice :: "'d num_ops \<Rightarrow> 'd jval \<Rightarrow> StreamEvent list \<times> StreamState \<Rightarrow> StreamEvent list \<times> StreamState" where
  "openai_choice N c acc =
     (let acc1 = (case get_obj c ''delta'' of
            None \<Rightarrow> acc
          | Some delta \<Rightarrow>
              (let content = get_str delta ''content'';
                   acc0 = (if content \<noteq> [] then (fst acc @ [TextDelta content], snd acc) else acc)
               in case get_arr delta ''tool_calls'' of
                    None \<Rightarrow> acc0 | Some tcs \<Rightarrow> fold (openai_tool_delta N) tcs acc0));
          fr = get_str c ''finish_reason''
      in if fr \<noteq> [] \<and> st_finish (snd acc1) = finish_unknown
         then (fst acc1, (snd acc1)\<lparr>st_finish := map_finish_reason fr\<rparr>) else acc1)"

definition openai_usage :: "'d num_ops \<Rightarrow> 'd jval \<Rightarrow> Usage \<Rightarrow> Usage" where
  "openai_usage N u us =
     (let us1 = us\<lparr>input_tokens := n_to_u64 N (get_num N u ''prompt_tokens''),
                   output_tokens := n_to_u64 N (get_num N u ''completion_tokens'')\<rparr>
      in case get_obj u ''prompt_tokens_details'' of
           Some det \<Rightarrow> us1\<lparr>cached_input_tokens := n_to_u64 N (get_num N det ''cached_tokens'')\<rparr> | None \<Rightarrow> us1)"

definition openai_finish :: "StreamEvent list \<times> StreamState \<Rightarrow> StreamEvent list \<times> StreamState" where
  "openai_finish = (\<lambda>(out, st).
     if st_finish st \<noteq> finish_unknown \<and> \<not> st_done st
     then (out @ map (\<lambda>(_, pt). ToolCallDone (pt_id pt) (pt_name pt) (pt_args pt)) (st_pending st)
               @ [MessageDone (st_finish st) (st_usage st)], st\<lparr>st_done := True\<rparr>)
     else (out, st))"

definition openai_frame :: "'d num_ops \<Rightarrow> string \<Rightarrow> StreamState \<Rightarrow> StreamEvent list \<times> StreamState" where
  "openai_frame N data st = (case parse_owned N data of
     Inl ec \<Rightarrow> ([ProviderError ec ''openai: bad frame JSON''], st)
   | Inr d \<Rightarrow>
       (case get_obj d ''error'' of
          Some err \<Rightarrow> ([openai_error err], st)
        | None \<Rightarrow>
            (let (out, st1) = (case get_arr d ''choices'' of
                   None \<Rightarrow> ([], st) | Some cs \<Rightarrow> fold (openai_choice N) cs ([], st));
                 st2 = (case get_obj d ''usage'' of
                   Some u \<Rightarrow> st1\<lparr>st_usage := openai_usage N u (st_usage st1)\<rparr> | None \<Rightarrow> st1)
             in openai_finish (out, st2))))"

definition openai_parse_usage :: "'d num_ops \<Rightarrow> 'd jval \<Rightarrow> Usage" where
  "openai_parse_usage N json = openai_usage N json no_usage"

section \<open>Gemini\<close>

definition map_finish :: "string \<Rightarrow> FinishReason" where
  "map_finish r =
     (if r = ''STOP'' then end_turn else if r = ''MAX_TOKENS'' then max_tokens
      else if r = ''SAFETY'' \<or> r = ''RECITATION'' \<or> r = ''BLOCKLIST'' then finish_error else finish_unknown)"

fun gemini_user_part :: "(string \<times> string) list \<Rightarrow> Part \<Rightarrow> 'd jval list" where
  "gemini_user_part names (Text t) = [JObj [(''text'', JStr t)]]"
| "gemini_user_part names (ImageUrl u) = [JObj [(''fileData'', JObj [(''fileUri'', JStr u)])]]"
| "gemini_user_part names (Binary mime d) =
     [JObj [(''inlineData'', JObj [(''mimeType'', JStr mime), (''data'', JStr (b64_encode d))])]]"
| "gemini_user_part names (ToolResult i c e) = (case map_of names i of
     Some n \<Rightarrow> [JObj [(''functionResponse'', JObj [(''name'', JStr n),
       (''response'', JObj [(''content'', JStr c), (''is_error'', JBool e)])])]]
   | None \<Rightarrow> [JObj [(''text'', JStr (''[tool_result '' @ i @ ''] '' @ c))]])"
| "gemini_user_part names _ = []"

fun gemini_model_part :: "'d num_ops \<Rightarrow> Part \<Rightarrow> 'd jval list" where
  "gemini_model_part N (Text t) = [JObj [(''text'', JStr t)]]"
| "gemini_model_part N (Reasoning t) = [JObj [(''text'', JStr t), (''thought'', JBool True)]]"
| "gemini_model_part N (ToolCall i n inp fin) = (case tool_input N inp of
     Inr v \<Rightarrow> [JObj [(''functionCall'', JObj [(''name'', JStr n), (''args'', v)])]] | Inl _ \<Rightarrow> [])"
| "gemini_model_part N _ = []"

text \<open>\<open>call_names.emplace\<close> keeps the first name of an id, so later ones go to the end.\<close>

definition call_names :: "Message \<Rightarrow> (string \<times> string) list" where
  "call_names m = List.map_filter (\<lambda>p. case p of ToolCall i n inp fin \<Rightarrow> Some (i, n) | _ \<Rightarrow> None) (parts m)"

fun gemini_contents :: "'d num_ops \<Rightarrow> (string \<times> string) list \<Rightarrow> Message list \<Rightarrow> 'd jval list" where
  "gemini_contents N names [] = []"
| "gemini_contents N names (m # ms) =
     (if msg_role m = role_assistant then
        (case concat (map (gemini_model_part N) (parts m)) of [] \<Rightarrow> []
         | ps \<Rightarrow> [JObj [(''role'', JStr ''model''), (''parts'', JArr ps)]])
        @ gemini_contents N (names @ call_names m) ms
      else if msg_role m = role_user then
        (case concat (map (gemini_user_part names) (parts m)) of [] \<Rightarrow> []
         | ps \<Rightarrow> [JObj [(''role'', JStr ''user''), (''parts'', JArr ps)]])
        @ gemini_contents N names ms
      else gemini_contents N names ms)"

definition gemini_body :: "'d num_ops \<Rightarrow> u32 \<Rightarrow> Message list \<Rightarrow> wire_ToolSpec list \<Rightarrow> ModelSpec \<Rightarrow> Budget \<Rightarrow> 'd jval" where
  "gemini_body N mx msgs tools model budget =
     JObj ([(''contents'', JArr (gemini_contents N [] msgs))]
       @ (let s = joined_system msgs in
          if s \<noteq> [] then [(''systemInstruction'', JObj [(''parts'', JArr [JObj [(''text'', JStr s)]])])] else [])
       @ (if tools \<noteq> [] then [(''tools'', JArr [JObj [(''functionDeclarations'',
            JArr (map (\<lambda>t. JObj [(''name'', JStr (ts_name t)), (''description'', JStr (ts_description t)),
              (''parameters'', wire_schema N t)]) tools))]])] else [])
       @ (let lim = output_limit budget model mx in
          if lim > 0 then [(''generationConfig'', JObj [(''maxOutputTokens'', JNum (n_of_u64 N (ucast lim)))])] else []))"

definition gemini_request :: "'d num_ops \<Rightarrow> string \<Rightarrow> string \<Rightarrow> u32 \<Rightarrow> Message list \<Rightarrow> wire_ToolSpec list \<Rightarrow> ModelSpec \<Rightarrow> Budget \<Rightarrow>
    error_code + RequestBytes" where
  "gemini_request N base_url api_key mx msgs tools model budget = (case split_url base_url of (ec, url) \<Rightarrow>
     if \<not> is_ok ec then Inl ec
     else Inr \<lparr>rb_method = ''POST'',
       rb_path = url_path url @ ''/models/'' @ ms_api_model_name model @ '':streamGenerateContent?alt=json&key='' @ api_key,
       rb_headers = [\<lparr>hh_name = ''Host'', hh_value = host_header url\<rparr>,
         \<lparr>hh_name = ''Content-Type'', hh_value = ''application/json''\<rparr>,
         \<lparr>hh_name = ''Accept'', hh_value = ''application/json''\<rparr>],
       rb_body = to_json (n_format N) (gemini_body N mx msgs tools model budget)\<rparr>)"

definition gemini_part :: "'d num_ops \<Rightarrow> 'd jval \<Rightarrow> StreamEvent list \<times> StreamState \<Rightarrow> StreamEvent list \<times> StreamState" where
  "gemini_part N p = (\<lambda>(out, st). case get_obj p ''functionCall'' of
     Some fn \<Rightarrow>
       (let inp = (case get_obj fn ''args'' of Some a \<Rightarrow> to_json (n_format N) a | None \<Rightarrow> ''{}'') in
        (out @ [ToolCallDone (''fc'' @ show_nat (unat (st_call_seq st))) (get_str fn ''name'') inp],
         st\<lparr>st_call_seq := st_call_seq st + 1\<rparr>))
   | None \<Rightarrow>
       (let t = get_str p ''text'' in
        if t = [] then (out, st)
        else (out @ [if get_bool p ''thought'' then ReasoningDelta t else TextDelta t], st)))"

definition gemini_usage :: "'d num_ops \<Rightarrow> 'd jval \<Rightarrow> Usage" where
  "gemini_usage N u = \<lparr>input_tokens = n_to_u64 N (get_num N u ''promptTokenCount''),
     output_tokens = n_to_u64 N (get_num N u ''candidatesTokenCount''),
     cached_input_tokens = n_to_u64 N (get_num N u ''cachedContentTokenCount'')\<rparr>"

definition gemini_frame :: "'d num_ops \<Rightarrow> string \<Rightarrow> StreamState \<Rightarrow> StreamEvent list \<times> StreamState" where
  "gemini_frame N data st = (case parse_owned N data of
     Inl ec \<Rightarrow> ([ProviderError ec ''gemini: bad frame JSON''], st)
   | Inr d \<Rightarrow>
       (let (finish, ps) = (case get_arr d ''candidates'' of
              Some (cand # _) \<Rightarrow> (get_str cand ''finishReason'',
                case get_obj cand ''content'' of
                  Some c \<Rightarrow> (case get_arr c ''parts'' of Some vs \<Rightarrow> vs | None \<Rightarrow> []) | None \<Rightarrow> [])
            | _ \<Rightarrow> ([], []));
            (out, st1) = fold (gemini_part N) ps ([], st);
            st2 = (case get_obj d ''usageMetadata'' of Some u \<Rightarrow> st1\<lparr>st_usage := gemini_usage N u\<rparr> | None \<Rightarrow> st1)
        in if finish \<noteq> [] \<and> \<not> st_done st2
           then (out @ [MessageDone (map_finish finish) (st_usage st2)], st2\<lparr>st_done := True\<rparr>)
           else (out, st2)))"

definition gemini_parse_usage :: "'d num_ops \<Rightarrow> 'd jval \<Rightarrow> Usage" where
  "gemini_parse_usage N json = gemini_usage N (case get_obj json ''usageMetadata'' of Some u \<Rightarrow> u | None \<Rightarrow> json)"

section \<open>Dispatch\<close>

fun build_request :: "'d num_ops \<Rightarrow> provider_obj \<Rightarrow> Message list \<Rightarrow> wire_ToolSpec list \<Rightarrow> ModelSpec \<Rightarrow> Budget \<Rightarrow> error_code + RequestBytes" where
  "build_request N (AnthropicProvider url key mx) = anthropic_request N url key mx"
| "build_request N (OpenAiProvider url key mx endpoint) = openai_request N url key mx endpoint"
| "build_request N (GeminiProvider url key mx) = gemini_request N url key mx"

fun parse_frame :: "'d num_ops \<Rightarrow> provider_obj \<Rightarrow> string \<Rightarrow> string \<Rightarrow> StreamState \<Rightarrow> error_code \<times> StreamEvent list \<times> StreamState" where
  "parse_frame N (AnthropicProvider url key mx) event data st = (ok, anthropic_frame N event data st)"
| "parse_frame N (OpenAiProvider url key mx endpoint) event data st = (ok, openai_frame N data st)"
| "parse_frame N (GeminiProvider url key mx) event data st = (ok, gemini_frame N data st)"

fun stream_kind :: "provider_obj \<Rightarrow> StreamKind" where
  "stream_kind (AnthropicProvider url key mx) = sse"
| "stream_kind (OpenAiProvider url key mx endpoint) = sse"
| "stream_kind (GeminiProvider url key mx) = jsonl"

fun provider_name :: "provider_obj \<Rightarrow> string" where
  "provider_name (AnthropicProvider url key mx) = ''anthropic''"
| "provider_name (OpenAiProvider url key mx endpoint) = ''openai''"
| "provider_name (GeminiProvider url key mx) = ''gemini''"

fun reset_stream :: "provider_obj \<Rightarrow> StreamState \<Rightarrow> StreamState" where
  "reset_stream (AnthropicProvider url key mx) st = st\<lparr>st_pending := [], st_finish := finish_unknown, st_usage := no_usage\<rparr>"
| "reset_stream (OpenAiProvider url key mx endpoint) st =
     st\<lparr>st_pending := [], st_finish := finish_unknown, st_done := False, st_usage := no_usage\<rparr>"
| "reset_stream (GeminiProvider url key mx) st = st\<lparr>st_call_seq := 0, st_done := False, st_usage := no_usage\<rparr>"

section \<open>What the agent collects\<close>

text \<open>
  The sink of \<open>Agent::one_round\<close> (\<open>src/agent/loop.cpp\<close>) keeps the text, the finished calls, the usage, the reason
  and the last error of a stream. A call is id, name and arguments.
\<close>

record Collected =
  co_text :: string
  co_calls :: "(string \<times> string \<times> string) list"
  co_usage :: Usage
  co_finish :: FinishReason
  co_error :: error_code

definition nothing_collected :: Collected where
  "nothing_collected = \<lparr>co_text = [], co_calls = [], co_usage = no_usage, co_finish = finish_unknown, co_error = ok\<rparr>"

fun sink :: "StreamEvent \<Rightarrow> Collected \<Rightarrow> Collected" where
  "sink (TextDelta t) c = c\<lparr>co_text := co_text c @ t\<rparr>"
| "sink (ToolCallDone i n a) c = c\<lparr>co_calls := co_calls c @ [(i, n, a)]\<rparr>"
| "sink (MessageDone f u) c = c\<lparr>co_usage := u, co_finish := f\<rparr>"
| "sink (ProviderError ec m) c = c\<lparr>co_error := (if is_ok ec then make_error e_provider_err else ec)\<rparr>"
| "sink _ c = c"

fun openai_frames :: "'d num_ops \<Rightarrow> string list \<Rightarrow> StreamState \<times> Collected \<Rightarrow> StreamState \<times> Collected" where
  "openai_frames N [] acc = acc"
| "openai_frames N (data # rest) (st, c) = (case openai_frame N data st of (evs, st') \<Rightarrow> openai_frames N rest (st', fold sink evs c))"

section \<open>Calls are stitched together\<close>

text \<open>
  What a server says: pieces of text, and pieces of the call with some index, each with an id, a part of the name and
  a part of the arguments, all of which may be empty.
\<close>

datatype chunk = Say string | Piece u64 string string string

fun chunk_json :: "'d num_ops \<Rightarrow> chunk \<Rightarrow> 'd jval" where
  "chunk_json N (Say t) = JObj [(''choices'', JArr [JObj [(''delta'', JObj [(''content'', JStr t)])]])]"
| "chunk_json N (Piece i d n a) = JObj [(''choices'', JArr [JObj [(''delta'', JObj [(''tool_calls'', JArr [
     JObj [(''index'', JNum (n_of_u64 N i)), (''id'', JStr d),
           (''function'', JObj [(''name'', JStr n), (''arguments'', JStr a)])]])])]])]"

definition finish_json :: "string \<Rightarrow> 'd jval" where
  "finish_json r = JObj [(''choices'', JArr [JObj [(''delta'', JObj []), (''finish_reason'', JStr r)]])]"

fun said :: "chunk \<Rightarrow> string" where
  "said (Say t) = t"
| "said (Piece i d n a) = []"

fun pieces :: "u64 \<Rightarrow> chunk list \<Rightarrow> (string \<times> string \<times> string) list" where
  "pieces i [] = []"
| "pieces i (Say t # cs) = pieces i cs"
| "pieces i (Piece k d n a # cs) = (if k = i then (d, n, a) # pieces i cs else pieces i cs)"

definition indexes :: "chunk list \<Rightarrow> u64 set" where
  "indexes cs = {i. pieces i cs \<noteq> []}"

fun first_nonempty :: "string list \<Rightarrow> string" where
  "first_nonempty [] = []"
| "first_nonempty (d # ds) = (if d \<noteq> [] then d else first_nonempty ds)"

text \<open>A call as the server meant it: its first id, and the parts of its name and arguments in order.\<close>

definition meant :: "chunk list \<Rightarrow> u64 \<Rightarrow> PendingTool" where
  "meant cs i = (let ps = pieces i cs in
     \<lparr>pt_id = first_nonempty (map fst ps),
      pt_name = concat (map (fst \<circ> snd) ps), pt_args = concat (map (snd \<circ> snd) ps)\<rparr>)"

definition indexes_ok :: "'d num_ops \<Rightarrow> chunk list \<Rightarrow> bool" where
  "indexes_ok N cs \<longleftrightarrow> (\<forall>i \<in> indexes cs. n_to_u64 N (n_of_u64 N i) = i)"

lemma pieces_append [simp]: "pieces i (cs @ ds) = pieces i cs @ pieces i ds"
  by (induction i cs rule: pieces.induct) auto

lemma indexes_simps [simp]:
  "indexes [] = {}" "indexes (cs @ [Say t]) = indexes cs" "indexes (cs @ [Piece i d n a]) = insert i (indexes cs)"
  by (auto simp: indexes_def)

lemma indexes_Cons [simp]: "indexes (Say t # cs) = indexes cs" "indexes (Piece i d n a # cs) = insert i (indexes cs)"
  by (auto simp: indexes_def)

lemma finite_indexes [simp]: "finite (indexes cs)"
proof (induction cs)
  case (Cons c cs)
  then show ?case by (cases c) simp_all
qed simp

lemma meant_other [simp]:
  "meant (cs @ [Say t]) = meant cs" "k \<noteq> i \<Longrightarrow> meant (cs @ [Piece i d n a]) k = meant cs k"
  by (auto simp: meant_def)

lemma meant_none: "i \<notin> indexes cs \<Longrightarrow> meant cs i = no_pending"
  by (simp add: indexes_def meant_def no_pending_def)

lemma first_nonempty_snoc: "first_nonempty (ds @ [d]) = (if first_nonempty ds = [] then d else first_nonempty ds)"
  by (induction ds) auto

lemma meant_piece:
  "meant (cs @ [Piece i d n a]) i =
     (let pt = meant cs i in
      \<lparr>pt_id = (if d \<noteq> [] \<and> pt_id pt = [] then d else pt_id pt), pt_name = pt_name pt @ n, pt_args = pt_args pt @ a\<rparr>)"
  by (simp add: meant_def Let_def first_nonempty_snoc)

lemma pend_put_sorted:
  "sorted_wrt (<) xs \<Longrightarrow> pend_put i v (map (\<lambda>k. (k, f k)) xs) =
     map (\<lambda>k. (k, (f(i := v)) k)) (if i \<in> set xs then xs else insort i xs)"
  by (induction xs) auto

lemma pend_at_map: "pend_at i (map (\<lambda>k. (k, f k)) xs) = (if i \<in> set xs then f i else no_pending)"
  by (simp add: pend_at_def map_of_map_restrict restrict_map_def)

definition table :: "chunk list \<Rightarrow> (u64 \<times> PendingTool) list" where
  "table cs = map (\<lambda>k. (k, meant cs k)) (sorted_list_of_set (indexes cs))"

lemma pend_at_table: "pend_at i (table cs) = meant cs i"
  by (simp add: table_def pend_at_map meant_none)

lemma table_piece: "pend_put i (meant (cs @ [Piece i d n a]) i) (table cs) = table (cs @ [Piece i d n a])"
proof -
  let ?xs = "sorted_list_of_set (indexes cs)"
  have keys: "(if i \<in> set ?xs then ?xs else insort i ?xs) = sorted_list_of_set (insert i (indexes cs))"
    by (cases "i \<in> indexes cs") (simp_all add: insert_absorb)
  have "((meant cs)(i := meant (cs @ [Piece i d n a]) i)) = meant (cs @ [Piece i d n a])" by (auto simp: fun_eq_iff)
  then show ?thesis unfolding table_def pend_put_sorted [OF strict_sorted_list_of_set] keys by simp
qed

lemma parse_owned_written:
  "nums_ok N \<Longrightarrow> json_ok (\<lambda>d. d \<in> range (n_of_u64 N)) v \<Longrightarrow> parse_owned N (to_json (n_format N) v) = Inr v"
  by (simp add: parse_owned_def nums_ok_def reads_back_parse)

lemmas readers = get_num_def get_str_def get_obj_def get_arr_def get_bool_def jfind_def

definition collecting :: "chunk list \<Rightarrow> StreamState \<times> Collected" where
  "collecting cs = (fresh_stream\<lparr>st_pending := table cs\<rparr>, nothing_collected\<lparr>co_text := concat (map said cs)\<rparr>)"

lemma openai_frames_append: "openai_frames N (xs @ ys) acc = openai_frames N ys (openai_frames N xs acc)"
proof (induction xs arbitrary: acc)
  case (Cons x xs)
  then show ?case by (cases acc) (simp add: case_prod_unfold)
qed simp

lemma chunk_json_ok: "json_ok (\<lambda>d. d \<in> range (n_of_u64 N)) (chunk_json N c)"
  by (cases c) (simp_all add: plain_char_def byte_val_def)

definition openai_event :: "'d num_ops \<Rightarrow> 'd jval \<Rightarrow> StreamState \<Rightarrow> StreamEvent list \<times> StreamState" where
  "openai_event N d st = (case get_obj d ''error'' of
     Some err \<Rightarrow> ([openai_error err], st)
   | None \<Rightarrow>
       (let (out, st1) = (case get_arr d ''choices'' of None \<Rightarrow> ([], st) | Some cs \<Rightarrow> fold (openai_choice N) cs ([], st));
            st2 = (case get_obj d ''usage'' of Some u \<Rightarrow> st1\<lparr>st_usage := openai_usage N u (st_usage st1)\<rparr> | None \<Rightarrow> st1)
        in openai_finish (out, st2)))"

lemma openai_frame_written:
  "nums_ok N \<Longrightarrow> json_ok (\<lambda>d. d \<in> range (n_of_u64 N)) v \<Longrightarrow> openai_frame N (to_json (n_format N) v) st = openai_event N v st"
  by (simp add: openai_frame_def openai_event_def parse_owned_written)

lemma collecting_piece:
  assumes "n_to_u64 N (n_of_u64 N i) = i"
  shows "openai_event N (chunk_json N (Piece i d n a)) (fst (collecting cs)) =
    ((if a = [] then [] else [ToolCallDelta (pt_id (meant (cs @ [Piece i d n a]) i)) (pt_name (meant (cs @ [Piece i d n a]) i)) a]),
     fst (collecting (cs @ [Piece i d n a])))"
proof -
  have new: "pend_put i
     ((if d \<noteq> [] \<and> pt_id (meant cs i) = [] then (meant cs i)\<lparr>pt_id := d\<rparr> else meant cs i)
       \<lparr>pt_name := pt_name (meant cs i) @ n, pt_args := pt_args (meant cs i) @ a\<rparr>) (table cs) = table (cs @ [Piece i d n a])"
    unfolding table_piece [symmetric] by (rule arg_cong [where f = "\<lambda>v. pend_put i v (table cs)"]) (simp add: meant_piece Let_def)
  show ?thesis using assms new
    by (cases "a = []") (auto simp: collecting_def openai_event_def readers openai_choice_def openai_tool_delta_def
        openai_finish_def pend_at_table fresh_stream_def Let_def meant_piece)
qed

lemma collecting_say:
  "openai_event N (chunk_json N (Say t)) (fst (collecting cs)) = ((if t = [] then [] else [TextDelta t]), fst (collecting (cs @ [Say t])))"
  by (auto simp: collecting_def table_def openai_event_def readers openai_choice_def openai_finish_def fresh_stream_def Let_def)

abbreviation frame_of :: "'d num_ops \<Rightarrow> chunk \<Rightarrow> string" where
  "frame_of N c \<equiv> to_json (n_format N) (chunk_json N c)"

lemma openai_chunk:
  assumes "nums_ok N" "indexes_ok N [c]"
  shows "openai_frames N [frame_of N c] (collecting cs) = collecting (cs @ [c])"
proof -
  obtain st co where col: "collecting cs = (st, co)" by fastforce
  have "openai_frames N [frame_of N c] (collecting cs) =
      (case openai_event N (chunk_json N c) (fst (collecting cs)) of (evs, st') \<Rightarrow> (st', fold sink evs co))"
    by (simp add: col openai_frame_written [OF assms(1) chunk_json_ok])
  also have "\<dots> = collecting (cs @ [c])"
  proof (cases c)
    case (Say t)
    then show ?thesis using col unfolding Say collecting_say by (auto simp: collecting_def)
  next
    case (Piece i d n a)
    have i: "n_to_u64 N (n_of_u64 N i) = i" using assms(2) by (simp add: Piece indexes_ok_def)
    show ?thesis using col unfolding Piece collecting_piece [OF i] by (auto simp: collecting_def)
  qed
  finally show ?thesis .
qed

lemma openai_chunks:
  assumes "nums_ok N" "indexes_ok N cs"
  shows "openai_frames N (map (frame_of N) cs) (fresh_stream, nothing_collected) = collecting cs"
  using assms(2)
proof (induction cs rule: rev_induct)
  case Nil
  then show ?case by (simp add: collecting_def table_def fresh_stream_def nothing_collected_def)
next
  case (snoc c cs)
  have "indexes_ok N cs" "indexes_ok N [c]" using snoc.prems by (auto simp: indexes_ok_def indexes_def)
  then show ?case using snoc.IH openai_chunk [OF assms(1)] by (simp add: openai_frames_append)
qed

lemma sink_calls: "fold sink (map (\<lambda>(k, pt). ToolCallDone (pt_id pt) (pt_name pt) (pt_args pt)) xs) c =
    c\<lparr>co_calls := co_calls c @ map (\<lambda>(k, pt). (pt_id pt, pt_name pt, pt_args pt)) xs\<rparr>"
  by (induction xs arbitrary: c) (auto simp: case_prod_unfold)

lemma openai_last:
  assumes "nums_ok N" "map_finish_reason r \<noteq> finish_unknown"
  shows "snd (openai_frames N [to_json (n_format N) (finish_json r)] (collecting cs)) =
    \<lparr>co_text = concat (map said cs), co_calls = map (\<lambda>(k, pt). (pt_id pt, pt_name pt, pt_args pt)) (table cs),
     co_usage = no_usage, co_finish = map_finish_reason r, co_error = ok\<rparr>"
proof -
  have js: "json_ok (\<lambda>d. d \<in> range (n_of_u64 N)) (finish_json r)" by (simp add: finish_json_def plain_char_def byte_val_def)
  have r: "r \<noteq> []" using assms(2) by (auto simp: map_finish_reason_def)
  have "openai_event N (finish_json r) (fst (collecting cs)) =
      (map (\<lambda>(k, pt). ToolCallDone (pt_id pt) (pt_name pt) (pt_args pt)) (table cs) @ [MessageDone (map_finish_reason r) no_usage],
       (fst (collecting cs))\<lparr>st_finish := map_finish_reason r, st_done := True\<rparr>)"
    using assms(2) r
    by (simp add: openai_event_def finish_json_def readers openai_choice_def openai_finish_def collecting_def fresh_stream_def Let_def)
  moreover obtain st where "collecting cs = (st, nothing_collected\<lparr>co_text := concat (map said cs)\<rparr>)"
    by (simp add: collecting_def)
  ultimately show ?thesis
    by (simp add: openai_frame_written [OF assms(1) js] sink_calls nothing_collected_def)
qed



text \<open>
  The sentinel \<open>[DONE]\<close> that ends an OpenAI stream is not JSON, and is taken for an error of the provider.
\<close>

lemma done_sentinel_is_error:
  "snd (openai_frames N [''[DONE]''] (st, c)) = c\<lparr>co_error := make_error_code e_proto_parse 1\<rparr>"
proof -
  have "parse_owned N ''[DONE]'' = Inl (make_error_code e_proto_parse 1)"
    by (simp add: parse_owned_def parse_json_def json_fail_def skip_ws_def is_json_ws_def eat_def keyword_def parse_number_def
        scan_number_def at_digit_def is_digit_def byte_val_def eval_nat_numeral)
  then show ?thesis by (simp add: openai_frame_def)
qed

end
