(* ===== verification/Agent_Stream.thy ===== *)
theory Agent_Stream
  imports Session Adapters Tools Memory Session_Memory Retry_Policy Verify_Gate Prompt
begin

text \<open>
  The first half of the agent (\<open>src/agent/loop.cpp\<close>): its state, and one streamed call to the model with the
  retries around it. What the agent observes of its host is the record \<open>io\<close>: the cancellation flag
  and the wall clock at each observation (the agent counts its observations), the outcome of every socket
  operation of each connection, the workspace as files and as a directory walk, the number conversions and
  the share of the jitter. The reads of a connection end with end of file behind those listed: the deadline
  of the request makes them finitely many. \<open>None\<close> is an exception that leaves the call.

  Tools act on the workspace together with the store, which the session shares with them.
\<close>

section \<open>State\<close>

record net_call =
  nc_open :: error_code
  nc_connect :: error_code
  nc_writes :: "(error_code + int) list"
  nc_attach :: error_code
  nc_reads :: "(error_code + string) list"

record ('d, 'w) io =
  io_nums :: "'d num_ops"
  io_share :: "u64 \<Rightarrow> u64"
  io_cancel :: "nat \<Rightarrow> bool"
  io_clock :: "nat \<Rightarrow> u64"
  io_net :: "nat \<Rightarrow> net_call"
  io_read :: "'w \<Rightarrow> string \<Rightarrow> string option"
  io_walk :: "'w \<Rightarrow> dir_walk"

record 'w LoopOptions =
  op_loop :: bool
  op_prompt :: "PromptRef list option"
  op_tools :: "('w \<times> MemStore option) Tool list option"
  op_permission :: "Gate option"
  op_verify :: bool
  op_verify_ctx :: verify_context
  op_retry :: RetryBudget

record ('d, 'w) Agent =
  ag_session :: "'d Session"
  ag_world :: 'w
  ag_stream :: StreamState
  ag_feedback_seen :: "string list"
  ag_aborted :: bool
  ag_user_input :: string
  ag_tick :: nat
  ag_calls :: nat

definition new_agent :: "'d Session \<Rightarrow> 'w \<Rightarrow> ('d, 'w) Agent" where
  "new_agent s w = \<lparr>ag_session = s, ag_world = w, ag_stream = fresh_stream, ag_feedback_seen = [], ag_aborted = False,
     ag_user_input = [], ag_tick = 0, ag_calls = 0\<rparr>"

definition in_session :: "('d Session \<Rightarrow> 'd Session) \<Rightarrow> ('d, 'w) Agent \<Rightarrow> ('d, 'w) Agent" where
  "in_session f a = a\<lparr>ag_session := f (ag_session a)\<rparr>"

definition poll :: "('d, 'w) io \<Rightarrow> ('d, 'w) Agent \<Rightarrow> bool \<times> ('d, 'w) Agent" where
  "poll E a = (io_cancel E (ag_tick a), a\<lparr>ag_tick := Suc (ag_tick a)\<rparr>)"

definition wall_clock :: "('d, 'w) io \<Rightarrow> ('d, 'w) Agent \<Rightarrow> u64 \<times> ('d, 'w) Agent" where
  "wall_clock E a = (io_clock E (ag_tick a), a\<lparr>ag_tick := Suc (ag_tick a)\<rparr>)"

section \<open>Helpers\<close>

definition fnv1a32 :: "string \<Rightarrow> u32" where
  "fnv1a32 s = foldl (\<lambda>h c. (h XOR of_nat (byte_val c)) * 16777619) 2166136261 s"

definition status_of :: "error_code \<Rightarrow> int" where
  "status_of ec = err_num (ec_code ec)"

function sleep_backoff :: "('d, 'w) io \<Rightarrow> u64 \<Rightarrow> ('d, 'w) Agent \<Rightarrow> ('d, 'w) Agent" where
  "sleep_backoff E ms a =
     (if ms = 0 then a
      else case poll E a of (c, a1) \<Rightarrow> if c then a1 else sleep_backoff E (ms - (if ms < 100 then ms else 100)) a1)"
  by pat_completeness auto
termination
proof (relation "measure (\<lambda>(E, ms, a). unat ms)")
  fix ms :: u64
  assume "ms \<noteq> 0"
  then have "ms - (if ms < 100 then ms else 100) < ms"
    by (auto simp: word_le_sub1 not_less word_less_nat_alt word_le_nat_alt unat_sub unat_gt_0)
  then show "((E, ms - (if ms < 100 then ms else 100), a1), (E, ms, a)) \<in> measure (\<lambda>(E, ms, a). unat ms)"
    for E :: "('d, 'w) io" and a1 a :: "('d, 'w) Agent" by (simp add: word_less_nat_alt)
qed simp

declare sleep_backoff.simps [simp del]

section \<open>One request\<close>

text \<open>Sending polls the flag before every attempt; behind the listed attempts the rest is taken at once.\<close>

fun send_polled :: "('d, 'w) io \<Rightarrow> (error_code + int) list \<Rightarrow> nat \<Rightarrow> nat \<Rightarrow> error_code \<times> nat" where
  "send_polled E [] n tick =
     (if n = 0 then (ok, tick) else if io_cancel E tick then (make_error e_cancelled, Suc tick) else (ok, Suc tick))"
| "send_polled E (w # ws) n tick =
     (if n = 0 then (ok, tick)
      else if io_cancel E tick then (make_error e_cancelled, Suc tick)
      else case w of
          Inl ec \<Rightarrow> if is_ok ec then (make_error e_net_connect, Suc tick) else (ec, Suc tick)
        | Inr k \<Rightarrow> if k \<le> 0 then (make_error e_net_connect, Suc tick) else send_polled E ws (n - nat k) (Suc tick))"

fun read_head :: "('d, 'w) io \<Rightarrow> (error_code + string) list \<Rightarrow> HttpParser \<Rightarrow> nat \<Rightarrow>
    (error_code \<times> HttpParser \<times> (error_code + string) list \<times> nat) option" where
  "read_head E [] hp tick =
     Some (if io_cancel E tick then make_error e_cancelled else make_error e_net_connect, hp, [], Suc tick)"
| "read_head E (r # rs) hp tick =
     (if io_cancel E tick then Some (make_error e_cancelled, hp, rs, Suc tick)
      else case r of
          Inl ec \<Rightarrow> Some (if is_ok ec then make_error e_net_connect else ec, hp, rs, Suc tick)
        | Inr s \<Rightarrow>
            if s = [] then Some (make_error e_net_connect, hp, rs, Suc tick)
            else (case feed s hp of
                    None \<Rightarrow> None
                  | Some (ec, hp1) \<Rightarrow>
                      if \<not> is_ok ec then Some (ec, hp1, rs, Suc tick)
                      else if hp_head_done hp1 then Some (ok, hp1, rs, Suc tick)
                      else read_head E rs hp1 (Suc tick)))"

text \<open>What the body callback works on: stream parser, adapter state, collected reply, parse error, tick.\<close>

type_synonym body_state = "SseParser \<times> StreamState \<times> Collected \<times> error_code \<times> nat"

definition frame_step :: "'d num_ops \<Rightarrow> provider_obj \<Rightarrow> SseEvent \<Rightarrow> StreamState \<times> Collected \<times> error_code \<Rightarrow> StreamState \<times> Collected \<times> error_code" where
  "frame_step N p se = (\<lambda>(st, co, perr).
     if \<not> is_ok perr then (st, co, perr)
     else case parse_frame N p (ev_event se) (ev_data se) st of (ec, evs, st') \<Rightarrow> (st', fold sink evs co, ec))"

definition on_body :: "('d, 'w) io \<Rightarrow> provider_obj \<Rightarrow> string \<Rightarrow> body_state \<Rightarrow> error_code \<times> body_state" where
  "on_body E p chunk = (\<lambda>(pa, st, co, perr, tick).
     case sse_feed (io_cancel E tick) chunk pa of (ec, pa', evs) \<Rightarrow>
       case fold (frame_step (io_nums E) p) evs (st, co, perr) of (st', co', perr') \<Rightarrow>
         (ec, (pa', st', co', perr', Suc tick)))"

definition request_path :: "UrlParts \<Rightarrow> RequestBytes \<Rightarrow> string" where
  "request_path url req =
     (let p = url_path url in (if p \<noteq> [] \<and> last p = CHR ''/'' then butlast p else p) @ rb_path req)"

definition request_headers :: "UrlParts \<Rightarrow> RequestBytes \<Rightarrow> HttpHeader list" where
  "request_headers url req =
     (if http_header (rb_headers req) ''Host'' = []
      then rb_headers req @ [\<lparr>hh_name = ''Host'', hh_value = url_host url @ '':'' @ show_nat (unat (url_port url))\<rparr>]
      else rb_headers req)"

text \<open>
  The transfer on a connected socket: send, wait for the head, check the status, and feed the body to the stream
  parser until it ends.
\<close>

definition transfer :: "('d, 'w) io \<Rightarrow> provider_obj \<Rightarrow> net_call \<Rightarrow> string \<Rightarrow> Collected \<Rightarrow> ('d, 'w) Agent \<Rightarrow>
    (error_code \<times> Collected \<times> ('d, 'w) Agent) option" where
  "transfer E p nc wire co a = (case send_polled E (nc_writes nc) (length wire) (ag_tick a) of (ec, t1) \<Rightarrow>
     (let a1 = a\<lparr>ag_tick := t1\<rparr> in
      if \<not> is_ok ec then Some (ec, co, a1)
      else if \<not> is_ok (nc_attach nc) then Some (nc_attach nc, co, a1)
      else case read_head E (nc_reads nc) new_parser t1 of
        None \<Rightarrow> None
      | Some (ec, hp, rs, t2) \<Rightarrow>
          (let a2 = a1\<lparr>ag_tick := t2\<rparr>; status = http_status_error (hp_head hp) in
           if \<not> is_ok ec then Some (ec, co, a2)
           else if \<not> is_ok status then
             Some (status, co, in_session (emit ''stream'' (''http '' @ show_nat (rs_code (hp_head hp))) (status_of status)) a2)
           else
             (let a3 = in_session (emit ''stream'' ''open'' 0 \<circ> set_state streaming) a2 in
              case http_drain_body rs (Some (on_body E p)) hp (sse_new (stream_kind p), ag_stream a3, co, ok, t2) of
                None \<Rightarrow> None
              | Some (ec, _, (_, st, co', perr, t3)) \<Rightarrow>
                  (let a4 = a3\<lparr>ag_stream := st, ag_tick := t3\<rparr> in
                   if \<not> is_ok ec then
                     Some (ec, co', in_session (emit ''stream'' (if ec_code ec = e_cancelled then ''cancelled'' else ''closed'') (status_of ec)) a4)
                   else if \<not> is_ok perr then Some (perr, co', a4)
                   else Some (ok, co', in_session (emit ''stream'' ''closed'' 0) a4))))))"

definition stream_call :: "('d, 'w) io \<Rightarrow> 'w LoopOptions \<Rightarrow> Message list \<Rightarrow> wire_ToolSpec list \<Rightarrow> Budget \<Rightarrow> Collected \<Rightarrow> ('d, 'w) Agent \<Rightarrow>
    (error_code \<times> Collected \<times> ('d, 'w) Agent) option" where
  "stream_call E O1 ms tools budget co a =
     (if \<not> op_loop O1 then Some (make_error e_invalid_cfg, co, a)
      else case poll E a of (stop, a1) \<Rightarrow>
        if stop then Some (make_error e_cancelled, co, a1)
        else case sn_provider (ag_session a1) of
          None \<Rightarrow> Some (make_error e_invalid_cfg, co, a1)
        | Some p \<Rightarrow>
            (case build_request (io_nums E) p ms tools (sn_model (ag_session a1)) budget of
               Inl ec \<Rightarrow> Some (ec, co, a1)
             | Inr req \<Rightarrow>
                 (case split_url (ms_base_url (sn_model (ag_session a1))) of (ec, url0) \<Rightarrow>
                    if \<not> is_ok ec then Some (ec, co, a1)
                    else if url_scheme url0 \<noteq> ''http'' then Some (make_error e_not_impl, co, a1)
                    else
                      (let url = (if url_port url0 = 0 then url0\<lparr>url_port := 80\<rparr> else url0);
                           path = request_path url req;
                           a2 = in_session (emit ''connect'' (url_host url @ '':'' @ show_nat (unat (url_port url)) @ path) 0 \<circ> set_state connecting) a1;
                           nc = io_net E (ag_calls a2);
                           a3 = a2\<lparr>ag_calls := Suc (ag_calls a2)\<rparr>
                       in if \<not> is_ok (nc_open nc) then Some (nc_open nc, co, a3)
                          else if \<not> is_ok (nc_connect nc) then
                            Some (nc_connect nc, co, in_session (emit ''connect'' (''failed '' @ message (nc_connect nc)) (status_of (nc_connect nc))) a3)
                          else case http_build_request \<lparr>rq_method = rb_method req, rq_path = path, rq_headers = request_headers url req,
                                  rq_body = rb_body req, rq_request_id = sn_request_id (ag_session a3)\<rparr> of
                              Inl ec \<Rightarrow> Some (ec, co, a3)
                            | Inr wire \<Rightarrow> transfer E p nc wire co a3))))"

section \<open>One round\<close>

lemma decide_retry: "rd_retry (fst (decide share b ec attempt seed)) \<Longrightarrow> attempt < RetryBudget.max_retries b"
  by (auto simp: decide_def no_decision_def case_prod_unfold split: if_splits)

text \<open>The attempts of a round; \<open>decide\<close> stops them at the retry budget, so the recursion ends.\<close>

function attempts :: "('d, 'w) io \<Rightarrow> 'w LoopOptions \<Rightarrow> wire_ToolSpec list \<Rightarrow> Budget \<Rightarrow> u32 \<Rightarrow> u32 \<Rightarrow> Collected \<Rightarrow> ('d, 'w) Agent \<Rightarrow>
    (error_code \<times> Collected \<times> ('d, 'w) Agent) option" where
  "attempts E O1 tools budget attempt seed co a = (case poll E a of (stop, a1) \<Rightarrow>
     if stop then Some (make_error e_cancelled, co, a1)
     else case stream_call E O1 (sn_messages (ag_session a1)) tools budget co a1 of
       None \<Rightarrow> None
     | Some (ec, co1, a2) \<Rightarrow>
         if is_ok ec then Some (co_error co1, co1, a2)
         else if ec_code ec = e_cancelled then Some (ec, co1, a2)
         else if \<not> is_ok (co_error co1) then Some (co_error co1, co1, a2)
         else
           (let d = decide (io_share E) (op_retry O1) ec attempt seed in
            if \<not> rd_retry (fst d) then Some (ec, co1, a2)
            else
              (let a3 = in_session (emit ''backoff'' (rd_reason (fst d)) (status_of ec) \<circ> set_lane lane_backoff) a2;
                   a4 = in_session (set_lane lane_none) (sleep_backoff E (rd_delay_ms (fst d)) a3)
               in attempts E O1 tools budget (attempt + 1) (snd d) co1 a4)))"
  by pat_completeness auto
termination
proof (relation "measure (\<lambda>(E, O1, tools, budget, attempt, seed, co, a). unat (RetryBudget.max_retries (op_retry O1)) - unat attempt)", goal_cases)
  case 1
  then show ?case by simp
next
  case (2 E O1 tools budget attempt seed co a)
  then have lt: "attempt < RetryBudget.max_retries (op_retry O1)" using decide_retry by fastforce
  then have "unat (attempt + 1) = Suc (unat attempt)" 
    using unat_u32_le [of "RetryBudget.max_retries (op_retry O1)"] by (simp add: unat_word_ariths word_less_nat_alt)
  then show ?case using lt by (simp add: word_less_nat_alt)
qed

declare attempts.simps [simp del]

definition one_round :: "('d, 'w) io \<Rightarrow> 'w LoopOptions \<Rightarrow> wire_ToolSpec list \<Rightarrow> Budget \<Rightarrow> ('d, 'w) Agent \<Rightarrow>
    (error_code \<times> Collected \<times> ('d, 'w) Agent) option" where
  "one_round E O1 tools budget a = (case ensure_provider (ag_session a) of (ec, s1) \<Rightarrow>
     (let a1 = a\<lparr>ag_session := s1\<rparr> in
      if \<not> is_ok ec then Some (ec, nothing_collected, a1)
      else case sn_provider s1 of
        None \<Rightarrow> Some (make_error e_invalid_cfg, nothing_collected, a1)
      | Some p \<Rightarrow>
          attempts E O1 tools budget 1 (set_seed (fnv1a32 (sn_id s1))) nothing_collected
            (a1\<lparr>ag_stream := reset_stream p (ag_stream a1), ag_session := snd (begin_request s1)\<rparr>)))"

section \<open>What a round leaves alone\<close>

text \<open>A call to the model touches neither the workspace nor the store, the history, the budget or the configuration.\<close>

definition task :: "('d, 'w) Agent \<Rightarrow> 'w \<times> string list \<times> bool \<times> string \<times> MemStore option \<times> Message list \<times> u64 \<times> 'd Config \<times> string" where
  "task a = (let s = ag_session a in (ag_world a, ag_feedback_seen a, ag_aborted a, ag_user_input a, sn_store s, sn_messages s,
     sn_tokens_used s, sn_cfg s, sn_workspace s))"

lemma session_ops_calm [simp]:
  "sn_store (emit p d s x) = sn_store x" "sn_messages (emit p d s x) = sn_messages x"
  "sn_tokens_used (emit p d s x) = sn_tokens_used x" "sn_cfg (emit p d s x) = sn_cfg x" "sn_workspace (emit p d s x) = sn_workspace x"
  "sn_store (set_state t x) = sn_store x" "sn_messages (set_state t x) = sn_messages x"
  "sn_tokens_used (set_state t x) = sn_tokens_used x" "sn_cfg (set_state t x) = sn_cfg x" "sn_workspace (set_state t x) = sn_workspace x"
  "sn_store (set_lane l x) = sn_store x" "sn_messages (set_lane l x) = sn_messages x"
  "sn_tokens_used (set_lane l x) = sn_tokens_used x" "sn_cfg (set_lane l x) = sn_cfg x" "sn_workspace (set_lane l x) = sn_workspace x"
  by (simp_all add: emit_def set_state_def set_lane_def)

lemma task_steps [simp]:
  "task (in_session (emit p d s) b) = task b" "task (in_session (set_state t) b) = task b" "task (in_session (set_lane l) b) = task b"
  "task (in_session (emit p d s \<circ> set_state t) b) = task b" "task (in_session (emit p d s \<circ> set_lane l) b) = task b"
  "task (b\<lparr>ag_tick := n\<rparr>) = task b" "task (b\<lparr>ag_calls := n\<rparr>) = task b" "task (b\<lparr>ag_stream := st\<rparr>) = task b"
  "task (b\<lparr>ag_stream := st, ag_tick := n\<rparr>) = task b"
  by (simp_all add: task_def in_session_def Let_def)

lemma task_poll [simp]: "task (snd (poll E a)) = task a"
  by (simp add: poll_def)

lemma task_sleep [simp]: "task (sleep_backoff E ms a) = task a"
proof (induction E ms a rule: sleep_backoff.induct)
  case (1 E ms a)
  then show ?case by (subst sleep_backoff.simps) (auto simp: poll_def)
qed

lemma task_transfer: "transfer E p nc wire co a = Some (ec, co', a') \<Longrightarrow> task a' = task a"
  by (auto simp: transfer_def Let_def split: prod.splits option.splits if_splits)

lemma task_stream_call: "stream_call E O1 ms tools budget co a = Some (ec, co', a') \<Longrightarrow> task a' = task a"
  by (auto simp: stream_call_def Let_def poll_def dest!: task_transfer split: option.splits sum.splits prod.splits if_splits)

lemma task_attempts: "attempts E O1 tools budget attempt seed co a = Some (ec, co', a') \<Longrightarrow> task a' = task a"
proof (induction E O1 tools budget attempt seed co a arbitrary: ec co' a' rule: attempts.induct)
  case (1 E O1 tools budget attempt seed co a)
  obtain stop a1 where p: "poll E a = (stop, a1)" by fastforce
  then have t1: "task a1 = task a" by (auto simp: poll_def)
  show ?case
  proof (cases "stop \<or> stream_call E O1 (sn_messages (ag_session a1)) tools budget co a1 = None")
    case True
    then show ?thesis using "1.prems" p t1 by (subst (asm) attempts.simps) (auto simp: p split: if_splits)
  next
    case False
    then obtain ec1 co1 a2 where sc: "\<not> stop" "stream_call E O1 (sn_messages (ag_session a1)) tools budget co a1 = Some (ec1, co1, a2)" by auto
    have "task a2 = task a" using task_stream_call [OF sc(2)] t1 by simp
    then show ?thesis using "1.prems" "1.IH" [OF p [symmetric] sc(1) sc(2) refl refl]
      by (subst (asm) attempts.simps) (auto simp: p sc Let_def split: if_splits)
  qed
qed

lemma task_one_round: "one_round E O1 tools budget a = Some (ec, co, a') \<Longrightarrow> task a' = task a"
proof -
  assume r: "one_round E O1 tools budget a = Some (ec, co, a')"
  obtain ec1 s1 where e: "ensure_provider (ag_session a) = (ec1, s1)" by fastforce
  then have "task (a\<lparr>ag_session := s1\<rparr>) = task a"
    by (auto simp: ensure_provider_def task_def Let_def case_prod_unfold split: if_splits)
  moreover have "task (a\<lparr>ag_stream := st, ag_session := snd (begin_request s1)\<rparr>) = task (a\<lparr>ag_session := s1\<rparr>)" for st
    by (simp add: task_def begin_request_def Let_def)
  ultimately show ?thesis using r e
    by (auto simp: one_round_def Let_def dest!: task_attempts split: if_splits option.splits)
qed

text \<open>
  Both the adapter and the agent put the path of the base URL in front of the endpoint, so a base URL with a path
  gives a request for the wrong resource.
\<close>

lemma base_path_doubled:
  "case (split_url ''http://h/v1'', openai_request N ''http://h/v1'' key mx ''/chat/completions'' ms tools model budget) of
     ((ec, url), Inr req) \<Rightarrow> request_path url req = ''/v1/v1/chat/completions'' | _ \<Rightarrow> False"
proof -
  have "split_url ''http://h/v1'' = (ok, \<lparr>url_scheme = ''http'', url_host = ''h'', url_port = 0, url_path = ''/v1''\<rparr>)" by code_simp
  then show ?thesis by (simp add: openai_request_def request_path_def)
qed

end
