(* ===== verification/Agent_Loop.thy ===== *)
theory Agent_Loop
  imports Agent_Stream Intent Summarizer Context
begin

text \<open>
  The second half of the agent (\<open>src/agent/loop.cpp\<close>, \<open>src/agent/feedback.cpp\<close>): context assembly, the tools with the
  verification gate in front of the writing ones, and the loop that drives a task from the user's message to
  its end. The loop may run for ever; it is bounded by a number of rounds, and \<open>None\<close> means that this
  number was not enough.
\<close>

section \<open>Feedback\<close>

definition tool_error_text :: "tool_result \<Rightarrow> string" where
  "tool_error_text r = ''tool '' @ tr_tool_id r @ (if tr_status r = ts_canceled then '' canceled'' else [])
     @ (if tr_content r \<noteq> [] then '': '' @ tr_content r else [])"

definition permission_text :: "string \<Rightarrow> string" where
  "permission_text tool_name = ''permission_denied: '' @ tool_name"

section \<open>Tools offered to the model\<close>

definition to_provider_specs :: "'w Tool list \<Rightarrow> wire_ToolSpec list" where
  "to_provider_specs reg = map (\<lambda>t. let s = tool_spec t in
     \<lparr>ts_id = spec_id s, ts_name = spec_name s, ts_description = spec_description s,
      ts_input_schema_json = spec_params_schema s\<rparr>) reg"

definition toolset_for :: "IntentPlan \<Rightarrow> 'w Tool list option \<Rightarrow> wire_ToolSpec list" where
  "toolset_for plan reg = (case reg of
     None \<Rightarrow> []
   | Some ts \<Rightarrow>
       if \<not> wants_tools plan then []
       else if budget_profile plan = ''edit'' then to_provider_specs ts
       else to_provider_specs (filter (\<lambda>t. spec_is_read_only (tool_spec t)) ts))"

section \<open>Memory and checkpoints\<close>

definition agent_checkpoint :: "('d, 'w) io \<Rightarrow> string list \<Rightarrow> ('d, 'w) Agent \<Rightarrow> ('d, 'w) Agent" where
  "agent_checkpoint E edits a = (let s = ag_session a in
     if sn_store s = None then a
     else
       (let hash = (case workspace_hash (io_walk E (ag_world a)) (sn_workspace s) of Inr h \<Rightarrow> h | Inl _ \<Rightarrow> []);
            (now, a1) = wall_clock E a;
            (_, st) = checkpoint (io_nums E) now (sn_id s) (sn_messages s) (sn_tokens_used s) edits hash (sn_store s)
        in in_session (\<lambda>s. emit ''checkpoint'' (sn_id s) 0 (s\<lparr>sn_store := st\<rparr>)) a1))"

definition remember :: "('d, 'w) io \<Rightarrow> Entry \<Rightarrow> ('d, 'w) Agent \<Rightarrow> ('d, 'w) Agent" where
  "remember E e a = (case wall_clock E a of (now, a1) \<Rightarrow>
     in_session (\<lambda>s. s\<lparr>sn_store := snd (snd (write_entry (io_nums E) (memory_cfg (sn_cfg s)) (sn_workspace s)
       (e\<lparr>en_created_at := now\<rparr>) (sn_store s)))\<rparr>) a1)"

definition write_task_lesson :: "('d, 'w) io \<Rightarrow> string \<Rightarrow> IntentPlan \<Rightarrow> ('d, 'w) Agent \<Rightarrow> ('d, 'w) Agent" where
  "write_task_lesson E summary plan a =
     (if sn_store (ag_session a) = None then a
      else remember E (new_entry\<lparr>en_kind := k_lesson,
             en_key := ''lesson_'' @ take 8 (sha1_hex (ag_user_input a)),
             en_value := (if summary = [] then ''task done, intent '' @ intent_str (pl_intent plan) else summary),
             en_source := ''engine:task_done'', en_tags := [intent_str (pl_intent plan), ''task'']\<rparr>) a)"

definition write_repo_rule :: "('d, 'w) io \<Rightarrow> string \<Rightarrow> ('d, 'w) Agent \<Rightarrow> ('d, 'w) Agent" where
  "write_repo_rule E tool_name a =
     (if sn_store (ag_session a) = None then a
      else remember E (new_entry\<lparr>en_kind := k_repo_rule, en_key := ''rule_'' @ tool_name,
             en_value := ''permission denied: '' @ tool_name @ '' is not allowed in this workspace'',
             en_source := ''engine:permission_denied'', en_tags := [tool_name, ''permission'']\<rparr>) a)"

section \<open>Context\<close>

definition memory_env :: "'d num_ops \<Rightarrow> ('d, 'w) Agent \<Rightarrow> EnvEntry list" where
  "memory_env N a = (let s = ag_session a; mem = memory_cfg (sn_cfg s) in
     if sn_store s = None \<or> ag_user_input a = [] then []
     else (let c = entries_to_context
                     (match_entries N (sn_store s) (sn_workspace s) (keywords_from_text (ag_user_input a)))
                     (max_entries_per_task mem) (max_entry_tokens mem) (max_value_chars mem)
           in if c \<noteq> [] then [\<lparr>env_key = ''memory'', env_text = c\<rparr>] else []))"

definition assemble :: "('d, 'w) io \<Rightarrow> 'w LoopOptions \<Rightarrow> IntentPlan \<Rightarrow> ('d, 'w) Agent \<Rightarrow>
    (error_code + (Message list \<times> wire_ToolSpec list \<times> Budget)) \<times> ('d, 'w) Agent" where
  "assemble E O1 plan a = (case op_prompt O1 of
     None \<Rightarrow> (Inl (make_error e_missing_cfg), a)
   | Some reg \<Rightarrow>
       (let tools = toolset_for plan (op_tools O1); s = ag_session a; model = sn_model s; hist = sn_messages s;
            folds = needs_fold hist (ms_context_window model) (ms_default_max_tokens model) 4;
            fr = (if folds then fold_oldest hist (ms_context_window model) (ms_default_max_tokens model) 4 None else no_fold);
            a1 = (if fr_folded fr then in_session (emit ''fold'' (fr_event_what fr @ '': '' @ fr_event_reason fr) 0) a else a);
            inp = default_input\<lparr>ci_registry := Some reg,
              ci_messages := Some (if fr_folded fr then fr_messages fr else hist),
              ci_tools := Some tools, ci_wire_family := ms_api_family model,
              ci_edge_mode := (budget_profile plan = ''minimal''),
              ci_context_window := ms_context_window model, ci_max_output_tokens := ms_default_max_tokens model,
              ci_hard_cap_tokens := max_tokens_per_task (sn_cfg s),
              ci_available_tokens := ucast (budget_remaining s),
              ci_env := memory_env (io_nums E) a1\<rparr>
        in case assemble_context (n_from_chars (io_nums E)) (n_format (io_nums E)) inp of (ec, plan_out) \<Rightarrow>
             if \<not> is_ok ec then (Inl ec, a1)
             else (Inr (plan_messages plan_out, tools,
                     \<lparr>bd_max_output_tokens = ms_default_max_tokens model, bd_max_context_tokens = ms_context_window model,
                      bd_max_tool_args_bytes = 0\<rparr>), a1)))"

section \<open>Tool calls\<close>

text \<open>A call of the model: id, name and arguments.\<close>

type_synonym call = "string \<times> string \<times> string"

definition build_proposal :: "('d, 'w) io \<Rightarrow> 'w LoopOptions \<Rightarrow> call \<Rightarrow> 'w \<Rightarrow> error_code + EditProposal" where
  "build_proposal E O1 call w = (case call of (i, name, input) \<Rightarrow>
     (let out = \<lparr>ep_tool_name = name, ep_args_json = input, ep_path = [], ep_before_content = [], ep_after_content = [],
                 ep_patch_text = []\<rparr>
      in case parse_owned (io_nums E) input of
           Inl ec \<Rightarrow> Inl ec
         | Inr args \<Rightarrow>
             (case jfind ''path'' args of
                Some (JStr p) \<Rightarrow>
                  if p = [] then Inl (make_error e_tool_reject)
                  else if hd p = CHR ''/'' \<or> find_sub ''..'' p \<noteq> None then Inl (make_error e_tool_reject)
                  else if name = ''file.write'' then
                    (case jfind ''content'' args of
                       Some (JStr content) \<Rightarrow>
                         (let root = vc_workspace_root (op_verify_ctx O1);
                              full = (if root = [] then p else root @ ''/'' @ p)
                          in Inr (out\<lparr>ep_path := p, ep_after_content := content,
                               ep_before_content := (case io_read E w full of Some t \<Rightarrow> t | None \<Rightarrow> [])\<rparr>))
                     | _ \<Rightarrow> Inl (make_error e_tool_reject))
                  else if name = ''file.patch'' then
                    (case jfind ''patch'' args of
                       Some (JStr patch) \<Rightarrow> Inr (out\<lparr>ep_path := p, ep_patch_text := patch\<rparr>)
                     | _ \<Rightarrow> Inl (make_error e_tool_reject))
                  else Inl (make_error e_tool_notfound)
              | _ \<Rightarrow> Inl (make_error e_tool_reject))))"

definition error_result :: "string \<Rightarrow> string \<Rightarrow> tool_result" where
  "error_result name content = empty_result\<lparr>tr_tool_id := name, tr_status := ts_error, tr_content := content,
     tr_content_is_error := True\<rparr>"

text \<open>The permission gate runs the tool on the workspace and the shared store.\<close>

definition dispatch :: "Gate \<Rightarrow> ('w \<times> MemStore option) Tool list \<Rightarrow> call \<Rightarrow> ('d, 'w) Agent \<Rightarrow> tool_result \<times> ('d, 'w) Agent" where
  "dispatch g reg call a = (case call of (i, name, input) \<Rightarrow>
     (case gate_run g reg name \<lparr>inv_tool_name = name, inv_args_json = input, inv_span_id = 0\<rparr> (ag_world a, sn_store (ag_session a)) of
        (r, w, st) \<Rightarrow> (r, in_session (\<lambda>s. s\<lparr>sn_store := st\<rparr>) (a\<lparr>ag_world := w\<rparr>))))"

text \<open>The feedback for a failed gate; a failure that was seen before in the task aborts it.\<close>

definition gate_failed :: "GateResult \<Rightarrow> ('d, 'w) Agent \<Rightarrow> string \<times> ('d, 'w) Agent" where
  "gate_failed g a =
     (let t = gate_feedback_text g; key = feedback_key (to_feedback g);
          a1 = in_session (emit ''verify'' t (status_of (make_error e_verify_fail))) a
      in if key \<in> set (ag_feedback_seen a1) then (''verify aborted: '' @ t, a1\<lparr>ag_aborted := True\<rparr>)
         else (t, a1\<lparr>ag_feedback_seen := ag_feedback_seen a1 @ [key]\<rparr>))"

text \<open>The result, the applied edits, the feedback and the agent.\<close>

definition run_tool :: "('d, 'w) io \<Rightarrow> 'w LoopOptions \<Rightarrow> call \<Rightarrow> string list \<Rightarrow> ('d, 'w) Agent \<Rightarrow>
    tool_result \<times> string list \<times> string \<times> ('d, 'w) Agent" where
  "run_tool E O1 call edits a = (case call of (i, name, input) \<Rightarrow>
     (case (op_tools O1, op_permission O1, op_verify O1) of
        (Some reg, Some g, True) \<Rightarrow>
          (case reg_find reg name of
             None \<Rightarrow> (error_result name (''unknown tool: '' @ name), edits, [], a)
           | Some t \<Rightarrow>
               if spec_category (tool_spec t) = cat_write then
                 (let a1 = in_session (emit ''verify'' name 0 \<circ> set_state verifying) a in
                  case build_proposal E O1 call (ag_world a1) of
                    Inl pec \<Rightarrow>
                      (let fb = ''verify invalid '' @ name @ '': '' @ message pec in (error_result name fb, edits, fb, a1))
                  | Inr prop \<Rightarrow>
                      (case find (\<lambda>g. \<not> gr_pass g) (run_all prop (op_verify_ctx O1)) of
                         Some fail \<Rightarrow> (case gate_failed fail a1 of (fb, a2) \<Rightarrow> (error_result name fb, edits, fb, a2))
                       | None \<Rightarrow>
                           (case dispatch g reg call (in_session (emit ''apply'' name 0 \<circ> set_state applying) a1) of (r, a2) \<Rightarrow>
                              (case tr_status r of
                                 ts_ok \<Rightarrow> (r, edits @ [if ep_path prop = [] then name else ep_path prop @ '' ('' @ name @ '')''], [], a2)
                               | ts_error \<Rightarrow> (r, edits, tool_error_text r,
                                   if tr_content r = ''permission_denied'' then write_repo_rule E name a2 else a2)
                               | ts_canceled \<Rightarrow> (r, edits, [], a2)))))
               else
                 (case dispatch g reg call a of (r, a2) \<Rightarrow>
                    if tr_status r \<noteq> ts_ok then
                      (if tr_content r = ''permission_denied'' then (r, edits, permission_text name, write_repo_rule E name a2)
                       else (r, edits, tool_error_text r, a2))
                    else (r, edits, [], a2)))
      | _ \<Rightarrow> (error_result name ''agent loop missing registry/permission/verify'', edits, [], a)))"

section \<open>Driving a task\<close>

record DriveResult =
  dr_ec :: error_code
  dr_summary :: string
  dr_applied_edits :: "string list"
  dr_feedback :: "string list"
  dr_tokens_used :: u64
  dr_iterations :: u32

definition empty_drive :: DriveResult where
  "empty_drive = \<lparr>dr_ec = ok, dr_summary = [], dr_applied_edits = [], dr_feedback = [], dr_tokens_used = 0, dr_iterations = 0\<rparr>"

definition record_result :: "('d, 'w) io \<Rightarrow> string \<Rightarrow> tool_result \<Rightarrow> string \<Rightarrow> ('d, 'w) Agent \<Rightarrow> ('d, 'w) Agent" where
  "record_result E call_id r fb a = (case wall_clock E a of (now, a1) \<Rightarrow>
     if fb \<noteq> [] then in_session (append_tool_result now call_id fb True) a1
     else in_session (append_tool_result now call_id (if tr_content r = [] then ''ok'' else tr_content r)
            (tr_status r \<noteq> ts_ok \<or> tr_content_is_error r)) a1)"

text \<open>The calls of a round, until one is cancelled or aborts the task.\<close>

fun run_calls :: "('d, 'w) io \<Rightarrow> 'w LoopOptions \<Rightarrow> call list \<Rightarrow> DriveResult \<Rightarrow> ('d, 'w) Agent \<Rightarrow> DriveResult \<times> ('d, 'w) Agent" where
  "run_calls E O1 [] res a = (res, a)"
| "run_calls E O1 (call # calls) res a = (case poll E a of (stop, a1) \<Rightarrow>
     if stop then (res, a1)
     else case run_tool E O1 call (dr_applied_edits res) a1 of (r, edits, fb, a2) \<Rightarrow>
       (let res1 = res\<lparr>dr_applied_edits := edits, dr_feedback := dr_feedback res @ (if fb \<noteq> [] then [fb] else [])\<rparr>;
            a3 = record_result E (fst call) r fb a2
        in if tr_status r = ts_canceled then (res1\<lparr>dr_ec := make_error e_cancelled\<rparr>, a3)
           else if ag_aborted a3 then (res1, a3)
           else run_calls E O1 calls res1 a3))"

text \<open>Back from the end of a tool round to the idle state.\<close>

definition boundary :: "'d Session \<Rightarrow> 'd Session" where
  "boundary s =
     (let s1 = (if sn_state s = tool_phase then emit ''verify'' ''no write proposals'' 0 (set_state verifying s) else s);
          s2 = (if sn_state s1 = verifying then emit ''apply'' ''round complete'' 0 (set_state applying s1) else s1)
      in if sn_state s2 = applying then emit ''idle'' ''round boundary'' 0 (set_state idle s2) else s2)"

datatype 'a progress = Again 'a | Leave 'a | Thrown

text \<open>The part of a round behind the reply of the model.\<close>

definition after_reply :: "('d, 'w) io \<Rightarrow> 'w LoopOptions \<Rightarrow> Collected \<Rightarrow> DriveResult \<Rightarrow> ('d, 'w) Agent \<Rightarrow> (DriveResult \<times> ('d, 'w) Agent) progress" where
  "after_reply E O1 co res a =
     (let (now, a1) = wall_clock E a;
          calls = map (\<lambda>(i, n, inp). ToolCall i n inp True) (co_calls co);
          a2 = in_session (\<lambda>s. snd (append_assistant now (co_text co) calls (co_finish co) (co_usage co) s)) a1
      in if co_finish co = permission_denied then Leave (res\<lparr>dr_ec := make_error e_tool_reject\<rparr>, a2)
         else if co_calls co = [] then
           Leave (res\<lparr>dr_summary := co_text co\<rparr>, in_session (emit ''done'' ''summary'' 0 \<circ> set_state done_state) a2)
         else
           (let a3 = in_session (emit ''tools'' (show_nat (length (co_calls co)) @ '' calls'') 0 \<circ> set_state tool_phase) a2;
                (res1, a4) = run_calls E O1 (co_calls co) res a3;
                a5 = agent_checkpoint E (dr_applied_edits res1) a4
            in if ec_code (dr_ec res1) = e_cancelled then Leave (res1, a5)
               else if ag_aborted a5 then Leave (res1\<lparr>dr_ec := make_error e_aborted\<rparr>, a5)
               else Again (res1, a5)))"

definition drive_round :: "('d, 'w) io \<Rightarrow> 'w LoopOptions \<Rightarrow> IntentPlan \<Rightarrow> DriveResult \<Rightarrow> ('d, 'w) Agent \<Rightarrow> (DriveResult \<times> ('d, 'w) Agent) progress" where
  "drive_round E O1 plan res a = (case poll E a of (stop, a1) \<Rightarrow>
     if stop then Leave (res, a1)
     else
       (let a2 = in_session (set_state preparing \<circ> boundary) a1 in
        if budget_exhausted (ag_session a2) then Leave (res\<lparr>dr_ec := make_error e_budget\<rparr>, a2)
        else case assemble E O1 plan a2 of
          (Inl ec, a3) \<Rightarrow> Leave (res\<lparr>dr_ec := ec\<rparr>, a3)
        | (Inr (ms, tools, budget), a3) \<Rightarrow>
            (let a4 = in_session (emit ''assemble'' (''tier='' @ budget_profile plan @ '' tools='' @ show_nat (length tools)) 0) a3 in
             case one_round E O1 tools budget a4 of
               None \<Rightarrow> Thrown
             | Some (ec, co, a5) \<Rightarrow>
                 if \<not> is_ok ec then Leave (res\<lparr>dr_ec := ec\<rparr>, a5)
                 else after_reply E O1 co (res\<lparr>dr_iterations := dr_iterations res + 1\<rparr>) a5)))"

fun drive_rounds :: "nat \<Rightarrow> ('d, 'w) io \<Rightarrow> 'w LoopOptions \<Rightarrow> IntentPlan \<Rightarrow> DriveResult \<Rightarrow> ('d, 'w) Agent \<Rightarrow>
    (DriveResult \<times> ('d, 'w) Agent) option option" where
  "drive_rounds 0 E O1 plan res a = None"
| "drive_rounds (Suc n) E O1 plan res a = (case drive_round E O1 plan res a of
     Again (res1, a1) \<Rightarrow> drive_rounds n E O1 plan res1 a1
   | Leave x \<Rightarrow> Some (Some x)
   | Thrown \<Rightarrow> Some None)"

definition conclude :: "('d, 'w) io \<Rightarrow> IntentPlan \<Rightarrow> DriveResult \<times> ('d, 'w) Agent \<Rightarrow> DriveResult \<times> ('d, 'w) Agent" where
  "conclude E plan = (\<lambda>(res, a).
     (let a1 = agent_checkpoint E (dr_applied_edits res) a;
          res1 = res\<lparr>dr_tokens_used := sn_tokens_used (ag_session a1)\<rparr>
      in (res1,
          if ec_code (dr_ec res1) = e_cancelled then
            in_session (emit ''cancelled'' ''host cancelled'' 0 \<circ> set_state cancelled_state) a1
          else if ec_code (dr_ec res1) = err_ok then
            write_task_lesson E (dr_summary res1) plan
              (if sn_state (ag_session a1) \<noteq> done_state then in_session (emit ''done'' ''summary'' 0 \<circ> set_state done_state) a1 else a1)
          else in_session (emit ''error'' (message (dr_ec res1)) (status_of (dr_ec res1)) \<circ> set_state error_state) a1)))"

definition begin_task :: "('d, 'w) io \<Rightarrow> string \<Rightarrow> ('d, 'w) Agent \<Rightarrow> ('d, 'w) Agent" where
  "begin_task E user_input a =
     (let a1 = a\<lparr>ag_feedback_seen := [], ag_aborted := False, ag_user_input := user_input\<rparr>;
          a2 = in_session (emit ''intent'' ''classifying'' 0 \<circ> set_state preparing) a1;
          (now, a3) = wall_clock E a2
      in in_session (\<lambda>s. snd (append_user now user_input s)) a3)"

text \<open>\<open>Some None\<close> is an exception that leaves \<open>drive\<close>.\<close>

definition drive :: "nat \<Rightarrow> ('d, 'w) io \<Rightarrow> 'w LoopOptions \<Rightarrow> string \<Rightarrow> ('d, 'w) Agent \<Rightarrow> (DriveResult \<times> ('d, 'w) Agent) option option" where
  "drive n E O1 user_input a0 =
     (let a1 = (if is_terminal (sn_state (ag_session a0)) then in_session (set_state idle) a0 else a0) in
      if sn_state (ag_session a1) \<noteq> idle then Some (Some (empty_drive\<lparr>dr_ec := make_error e_busy\<rparr>, a1))
      else case poll E a1 of (stop, a2) \<Rightarrow>
        if stop then Some (Some (empty_drive\<lparr>dr_ec := make_error e_cancelled\<rparr>, a2))
        else
          (let plan = classify_intent user_input
           in map_option (map_option (conclude E plan)) (drive_rounds n E O1 plan empty_drive (begin_task E user_input a2))))"

section \<open>The workspace changes only through the gates\<close>

text \<open>
  A path of the workspace with the edits made on it. Every step is a registered tool that the permission gate lets
  through; for a writing tool, the proposal made from its arguments and the workspace as it is at that moment
  passes every stage of the verification gate, and the edit counts if the tool succeeds.
\<close>

inductive workspace_path :: "('d, 'w) io \<Rightarrow> 'w LoopOptions \<Rightarrow> string list \<Rightarrow> 'w \<Rightarrow> 'w \<Rightarrow> bool" for E O1 where
  path_start: "workspace_path E O1 [] w w"
| path_tool: "workspace_path E O1 es w w1 \<Longrightarrow> op_tools O1 = Some reg \<Longrightarrow> op_permission O1 = Some g \<Longrightarrow>
    reg_find reg name = Some t \<Longrightarrow> call = \<lparr>inv_tool_name = name, inv_args_json = input, inv_span_id = 0\<rparr> \<Longrightarrow>
    permits g reg (name, call) \<Longrightarrow> tool_run t call (w1, st) = (r, w2, st') \<Longrightarrow>
    (spec_category (tool_spec t) = cat_write \<Longrightarrow>
       build_proposal E O1 (i, name, input) w1 = Inr prop \<and> list_all gr_pass (run_all prop (op_verify_ctx O1))) \<Longrightarrow>
    es' = es @ (if spec_category (tool_spec t) = cat_write \<and> tr_status r = ts_ok then [ep_path prop @ '' ('' @ name @ '')''] else []) \<Longrightarrow>
    workspace_path E O1 es' w w2"

lemma build_proposal_path: "build_proposal E O1 call w = Inr prop \<Longrightarrow> ep_path prop \<noteq> []"
  by (auto simp: build_proposal_def Let_def split: prod.splits sum.splits option.splits jval.splits if_splits)

lemma world_simps [simp]:
  "ag_world (in_session f a) = ag_world a" "ag_world (snd (wall_clock E a)) = ag_world a" "ag_world (snd (poll E a)) = ag_world a"
  "ag_world (remember E e a) = ag_world a" "ag_world (write_repo_rule E name a) = ag_world a"
  "ag_world (write_task_lesson E summary plan a) = ag_world a" "ag_world (agent_checkpoint E edits a) = ag_world a"
  "ag_world (record_result E i r fb a) = ag_world a"
  by (simp_all add: in_session_def wall_clock_def poll_def remember_def write_repo_rule_def write_task_lesson_def
      agent_checkpoint_def record_result_def Let_def case_prod_unfold)

lemma begin_task_world [simp]: "ag_world (begin_task E user_input a) = ag_world a"
  by (simp add: begin_task_def Let_def wall_clock_def)

lemma gate_failed_world [simp]: "ag_world (snd (gate_failed g a)) = ag_world a"
  by (simp add: gate_failed_def Let_def)

text \<open>A dispatched call either is refused and changes nothing, or is the tool at work.\<close>

lemma dispatch_cases:
  assumes "dispatch g reg (i, name, input) a = (r, a')" "reg_find reg name = Some t"
  defines "call \<equiv> \<lparr>inv_tool_name = name, inv_args_json = input, inv_span_id = 0\<rparr>"
  shows "(\<not> permits g reg (name, call) \<and> tr_status r = ts_error \<and> ag_world a' = ag_world a) \<or>
    (permits g reg (name, call) \<and> (\<exists>st st'. tool_run t call (ag_world a, st) = (r, ag_world a', st')))"
proof -
  obtain r1 w1 st1 where run: "gate_run g reg name call (ag_world a, sn_store (ag_session a)) = (r1, w1, st1)" by (metis prod_cases3)
  have res: "r = r1" "ag_world a' = w1" using assms(1) run by (auto simp: dispatch_def call_def)
  show ?thesis
  proof (cases "permits g reg (name, call)")
    case True
    then have "reg_run reg name call (ag_world a, sn_store (ag_session a)) = (r1, w1, st1)"
      using gate.granted [of g reg "(name, call)"] run by simp
    then show ?thesis using True res assms(2) by (auto simp: reg_run_def reg_find_def)
  next
    case False
    then have "(w1, st1) = (ag_world a, sn_store (ag_session a))"
      using gate.refused [of g reg "(name, call)" "(ag_world a, sn_store (ag_session a))"] run by simp
    moreover have "tr_status r1 = ts_error" using run False assms(2)
      by (auto simp: gate_run_def permits_def gate_check_def Let_def split: Policy.splits option.splits if_splits)
    ultimately show ?thesis using False res by simp
  qed
qed

lemma run_write_path:
  assumes path: "workspace_path E O1 es w (ag_world a)" and O1: "op_tools O1 = Some reg" "op_permission O1 = Some g"
    and t: "reg_find reg name = Some t" "spec_category (tool_spec t) = cat_write"
    and pr: "build_proposal E O1 (i, name, input) (ag_world a) = Inr prop" "list_all gr_pass (run_all prop (op_verify_ctx O1))"
    and d: "dispatch g reg (i, name, input) a = (r, a')"
  shows "workspace_path E O1 (es @ (if tr_status r = ts_ok then [ep_path prop @ '' ('' @ name @ '')''] else [])) w (ag_world a')"
  using dispatch_cases [OF d t(1)]
proof (elim disjE conjE exE)
  fix st st'
  assume p: "permits g reg (name, \<lparr>inv_tool_name = name, inv_args_json = input, inv_span_id = 0\<rparr>)"
    and run: "tool_run t \<lparr>inv_tool_name = name, inv_args_json = input, inv_span_id = 0\<rparr> (ag_world a, st) = (r, ag_world a', st')"
  show ?thesis
    by (rule path_tool [OF path O1 t(1) refl p run]) (use pr t(2) in simp_all)
qed (use path in simp)

lemma run_other_path:
  assumes path: "workspace_path E O1 es w (ag_world a)" and O1: "op_tools O1 = Some reg" "op_permission O1 = Some g"
    and t: "reg_find reg name = Some t" "spec_category (tool_spec t) \<noteq> cat_write"
    and d: "dispatch g reg (i, name, input) a = (r, a')"
  shows "workspace_path E O1 es w (ag_world a')"
  using dispatch_cases [OF d t(1)]
proof (elim disjE conjE exE)
  fix st st'
  assume p: "permits g reg (name, \<lparr>inv_tool_name = name, inv_args_json = input, inv_span_id = 0\<rparr>)"
    and run: "tool_run t \<lparr>inv_tool_name = name, inv_args_json = input, inv_span_id = 0\<rparr> (ag_world a, st) = (r, ag_world a', st')"
  show ?thesis
    by (rule path_tool [OF path O1 t(1) refl p run]) (use t(2) in simp_all)
qed (use path in simp)

lemma find_None_all: "find (\<lambda>g. \<not> P g) xs = None \<longleftrightarrow> list_all P xs"
  by (auto simp: find_None_iff list_all_iff)

lemma run_tool_path:
  assumes path: "workspace_path E O1 edits w (ag_world a)" and run: "run_tool E O1 (i, name, input) edits a = (r, edits', fb, a')"
  shows "workspace_path E O1 edits' w (ag_world a')"
proof (cases "\<exists>reg g t. op_tools O1 = Some reg \<and> op_permission O1 = Some g \<and> op_verify O1 \<and> reg_find reg name = Some t")
  case False
  then have "edits' = edits \<and> a' = a" using run
    by (auto simp: run_tool_def split: option.splits bool.splits)
  then show ?thesis using path by simp
next
  case True
  then obtain reg g t where O1: "op_tools O1 = Some reg" "op_permission O1 = Some g" "op_verify O1" and t: "reg_find reg name = Some t" by blast
  define a1 where "a1 = in_session (emit ''verify'' name 0 \<circ> set_state verifying) a"
  show ?thesis
  proof (cases "spec_category (tool_spec t) = cat_write")
    case False
    obtain r2 a2 where d: "dispatch g reg (i, name, input) a = (r2, a2)" by fastforce
    have "workspace_path E O1 edits w (ag_world a2)" by (rule run_other_path [OF path O1(1,2) t False d])
    then show ?thesis using run False O1 t d by (auto simp: run_tool_def split: if_splits)
  next
    case wr: True
    show ?thesis
    proof (cases "\<exists>pp. build_proposal E O1 (i, name, input) (ag_world a) = Inr pp \<and> list_all gr_pass (run_all pp (op_verify_ctx O1))")
      case False
      then have "edits' = edits \<and> ag_world a' = ag_world a" using run O1 t wr
        by (auto simp: run_tool_def Let_def find_None_all split: sum.splits option.splits prod.splits)
          (metis gate_failed_world snd_conv world_simps(1))+
      then show ?thesis using path by simp
    next
      case True
      then obtain pp where pr: "build_proposal E O1 (i, name, input) (ag_world a) = Inr pp" "list_all gr_pass (run_all pp (op_verify_ctx O1))" by blast
      define b where "b = in_session (emit ''apply'' name 0 \<circ> set_state applying) a1"
      have b: "ag_world b = ag_world a" by (simp add: b_def a1_def)
      obtain r2 a2 where d: "dispatch g reg (i, name, input) b = (r2, a2)" by fastforce
      have "workspace_path E O1 (edits @ (if tr_status r2 = ts_ok then [ep_path pp @ '' ('' @ name @ '')''] else [])) w (ag_world a2)"
        by (rule run_write_path [OF _ O1(1,2) t wr _ pr(2) d]) (use path pr(1) b in simp_all)
      moreover have "find (\<lambda>g. \<not> gr_pass g) (run_all pp (op_verify_ctx O1)) = None" using pr(2) by (simp add: find_None_all)
      ultimately show ?thesis using run O1 t wr pr(1) d build_proposal_path [OF pr(1)] unfolding b_def a1_def
        by (auto simp: run_tool_def Let_def split: ToolStatus.splits if_splits)
    qed
  qed
qed

lemma run_calls_path:
  "workspace_path E O1 (dr_applied_edits res) w (ag_world a) \<Longrightarrow> run_calls E O1 calls res a = (res', a') \<Longrightarrow>
   workspace_path E O1 (dr_applied_edits res') w (ag_world a')"
proof (induction calls arbitrary: res a)
  case (Cons call calls)
  obtain stop a1 where p: "poll E a = (stop, a1)" by fastforce
  obtain i name input where c: "call = (i, name, input)" by (cases call)
  obtain r edits fb a2 where rt: "run_tool E O1 call (dr_applied_edits res) a1 = (r, edits, fb, a2)" by (metis prod_cases4)
  have "ag_world a1 = ag_world a" using p by (auto simp: poll_def)
  then have "workspace_path E O1 edits w (ag_world a2)" using run_tool_path [OF _ rt [unfolded c]] Cons.prems(1) by simp
  then show ?case using Cons.prems \<open>ag_world a1 = ag_world a\<close>
      Cons.IH [of "res\<lparr>dr_applied_edits := edits, dr_feedback := dr_feedback res @ (if fb \<noteq> [] then [fb] else [])\<rparr>"
        "record_result E (fst call) r fb a2"]
    by (auto simp: p rt Let_def split: if_splits)
qed simp

text \<open>What holds of the state a round leaves, whether it is the last one or not.\<close>

fun progress_all :: "('a \<Rightarrow> bool) \<Rightarrow> 'a progress \<Rightarrow> bool" where
  "progress_all P (Again x) = P x"
| "progress_all P (Leave x) = P x"
| "progress_all P Thrown = True"

definition on_path :: "('d, 'w) io \<Rightarrow> 'w LoopOptions \<Rightarrow> 'w \<Rightarrow> DriveResult \<times> ('d, 'w) Agent \<Rightarrow> bool" where
  "on_path E O1 w = (\<lambda>(res, a). workspace_path E O1 (dr_applied_edits res) w (ag_world a))"

lemma task_world: "task a' = task a \<Longrightarrow> ag_world a' = ag_world a"
  by (simp add: task_def Let_def)

lemma assemble_world: "assemble E O1 plan a = (x, a') \<Longrightarrow> ag_world a' = ag_world a"
  by (auto simp: assemble_def Let_def split: option.splits prod.splits if_splits)

lemma after_reply_path: "on_path E O1 w (res, a) \<Longrightarrow> progress_all (on_path E O1 w) (after_reply E O1 co res a)"
proof -
  assume p: "on_path E O1 w (res, a)"
  obtain now a1 where c: "wall_clock E a = (now, a1)" by fastforce
  have w: "ag_world a1 = ag_world a" using c by (auto simp: wall_clock_def)
  show ?thesis using p w unfolding after_reply_def c Let_def prod.case on_path_def
    by (auto split: prod.splits dest!: run_calls_path [rotated])
qed

lemma drive_round_path: "on_path E O1 w (res, a) \<Longrightarrow> progress_all (on_path E O1 w) (drive_round E O1 plan res a)"
proof -
  assume p: "on_path E O1 w (res, a)"
  obtain stop a1 where c: "poll E a = (stop, a1)" by fastforce
  define a2 where "a2 = in_session (set_state preparing \<circ> boundary) a1"
  have w: "ag_world a2 = ag_world a" "ag_world a1 = ag_world a" using c by (auto simp: poll_def a2_def)
  obtain x a3 where as: "assemble E O1 plan a2 = (x, a3)" by fastforce
  have w3: "ag_world a3 = ag_world a" using assemble_world [OF as] w by simp
  show ?thesis
  proof (cases "stop \<or> budget_exhausted (ag_session a2) \<or> (\<exists>ec. x = Inl ec)")
    case True
    then show ?thesis using p w w3 unfolding drive_round_def c Let_def prod.case a2_def [symmetric] as by (auto simp: on_path_def)
  next
    case False
    then obtain ms tools budget where x: "x = Inr (ms, tools, budget)" by (cases x) auto
    define a4 where "a4 = in_session (emit ''assemble'' (''tier='' @ budget_profile plan @ '' tools='' @ show_nat (length tools)) 0) a3"
    show ?thesis
    proof (cases "one_round E O1 tools budget a4")
      case None
      then show ?thesis using False x unfolding drive_round_def c Let_def prod.case a2_def [symmetric] as by (simp add: a4_def)
    next
      case (Some y)
      then obtain ec co a5 where r: "one_round E O1 tools budget a4 = Some (ec, co, a5)" by (cases y) auto
      have "ag_world a5 = ag_world a" using task_world [OF task_one_round [OF r]] w3 by (simp add: a4_def)
      then have "on_path E O1 w (res\<lparr>dr_iterations := n\<rparr>, a5)" "on_path E O1 w (res\<lparr>dr_ec := ec\<rparr>, a5)" for n
        using p by (simp_all add: on_path_def)
      moreover from this have "progress_all (on_path E O1 w) (after_reply E O1 co (res\<lparr>dr_iterations := n\<rparr>) a5)" for n
        by (intro after_reply_path)
      ultimately show ?thesis using False x r unfolding drive_round_def c Let_def prod.case a2_def [symmetric] as a4_def
        by simp
    qed
  qed
qed

lemma drive_rounds_path:
  "on_path E O1 w (res, a) \<Longrightarrow> drive_rounds n E O1 plan res a = Some (Some x) \<Longrightarrow> on_path E O1 w x"
proof (induction n arbitrary: res a)
  case (Suc n)
  then show ?case using drive_round_path [OF Suc.prems(1), of plan]
    by (auto split: progress.splits prod.splits)
qed simp

lemma conclude_path: "on_path E O1 w x \<Longrightarrow> on_path E O1 w (conclude E plan x)"
  by (cases x) (simp add: on_path_def conclude_def Let_def)

text \<open>
  C40: the workspace changes only through the gates. Whatever the user, the model and the network do, when \<open>drive\<close>
  returns, the workspace is reached from where it started by a sequence of tools that are registered and permitted,
  and each writing one was verified against the workspace as it was at that moment; and the reported edits are
  exactly the verified writes that succeeded, in their order.
\<close>

theorem drive_guarded:
  "case drive n E O1 user_input a of
     Some (Some (res, a')) \<Rightarrow> workspace_path E O1 (dr_applied_edits res) (ag_world a) (ag_world a')
   | _ \<Rightarrow> True"
proof (cases "drive n E O1 user_input a")
  case (Some y)
  show ?thesis
  proof (cases y)
    case y: (Some x)
    have start: "on_path E O1 (ag_world a) (empty_drive\<lparr>dr_ec := ec\<rparr>, b)" if "ag_world b = ag_world a" for b ec
      using that by (simp add: on_path_def empty_drive_def path_start)
    have rounds: "on_path E O1 (ag_world a) z"
      if "drive_rounds n E O1 plan empty_drive (begin_task E user_input b) = Some (Some z)" "ag_world b = ag_world a" for plan b z
      using drive_rounds_path [OF _ that(1)] start [of "begin_task E user_input b" ok] that(2) by (simp add: empty_drive_def)
    have "on_path E O1 (ag_world a) x"
      using Some y unfolding drive_def Let_def
      by (auto simp: poll_def intro!: start dest!: rounds intro: conclude_path split: if_splits)
    then show ?thesis using Some y by (auto simp: on_path_def)
  qed (use Some in simp)
qed simp

section \<open>A metered task ends\<close>

definition meter :: "('d, 'w) Agent \<Rightarrow> 'd Config \<times> u64" where
  "meter a = (sn_cfg (ag_session a), sn_tokens_used (ag_session a))"

lemma append_meter [simp]:
  "sn_cfg (append_tool_result now i c e s) = sn_cfg s" "sn_tokens_used (append_tool_result now i c e s) = sn_tokens_used s"
  "sn_cfg (snd (append_user now c s)) = sn_cfg s" "sn_tokens_used (snd (append_user now c s)) = sn_tokens_used s"
  by (simp_all add: append_tool_result_def append_user_def next_msg_id_def push_message_def Let_def)

lemma meter_simps [simp]:
  "meter (in_session (emit p d n) a) = meter a" "meter (in_session (emit p d n \<circ> set_state t) a) = meter a"
  "meter (snd (poll E a)) = meter a" "meter (snd (wall_clock E a)) = meter a"
  "meter (remember E e a) = meter a" "meter (write_repo_rule E name a) = meter a" "meter (agent_checkpoint E edits a) = meter a"
  "meter (record_result E i r fb a) = meter a" "meter (snd (dispatch g reg call a)) = meter a" "meter (snd (gate_failed f a)) = meter a"
  by (simp_all add: meter_def in_session_def poll_def wall_clock_def remember_def write_repo_rule_def agent_checkpoint_def
      record_result_def dispatch_def gate_failed_def Let_def case_prod_unfold)

lemma run_tool_meter: "meter (snd (snd (snd (run_tool E O1 call edits a)))) = meter a"
proof -
  have d: "dispatch g reg c b = (r, b') \<Longrightarrow> meter b' = meter b" for g reg c b r b' by (metis meter_simps(9) snd_conv)
  have f: "gate_failed x b = (fb, b') \<Longrightarrow> meter b' = meter b" for x b fb b' by (metis meter_simps(10) snd_conv)
  show ?thesis unfolding run_tool_def Let_def
    by (auto split: prod.split option.split bool.split sum.split ToolStatus.split dest: d f)
qed

lemma run_calls_meter: "meter (snd (run_calls E O1 calls res a)) = meter a"
proof (induction calls arbitrary: res a)
  case (Cons call calls)
  obtain stop a1 where p: "poll E a = (stop, a1)" by fastforce
  obtain r edits fb a2 where rt: "run_tool E O1 call (dr_applied_edits res) a1 = (r, edits, fb, a2)" by (metis prod_cases4)
  have "meter a1 = meter a" "meter a2 = meter a1"
    using p rt meter_simps(3) [of E a] run_tool_meter [of E O1 call "dr_applied_edits res" a1] by simp_all
  then show ?case using Cons.IH by (simp add: p rt Let_def)
qed simp

lemma boundary_meter [simp]: "sn_cfg (boundary s) = sn_cfg s" "sn_tokens_used (boundary s) = sn_tokens_used s"
  by (simp_all add: boundary_def Let_def)

definition reply_tokens :: "Collected \<Rightarrow> nat" where
  "reply_tokens co = unat (input_tokens (co_usage co)) + unat (output_tokens (co_usage co))"

text \<open>Every reply that asks for tools reports at least one token, and not absurdly many.\<close>

definition metered :: "('d, 'w) io \<Rightarrow> 'w LoopOptions \<Rightarrow> bool" where
  "metered E O1 \<longleftrightarrow> (\<forall>tools budget a ec co a'. one_round E O1 tools budget a = Some (ec, co, a') \<and> is_ok ec \<and> co_calls co \<noteq> [] \<longrightarrow>
     0 < reply_tokens co \<and> reply_tokens co < 2 ^ 63)"

lemma after_reply_again:
  assumes "after_reply E O1 co res a = Again (res', a')"
  shows "co_calls co \<noteq> [] \<and> meter a' = (sn_cfg (ag_session a), sn_tokens_used (ag_session a) + of_nat (reply_tokens co))"
proof -
  define now where "now = fst (wall_clock E a)"
  define calls where "calls = map (\<lambda>(i, n, inp). ToolCall i n inp True) (co_calls co)"
  define a2 where "a2 = in_session (\<lambda>s. snd (append_assistant now (co_text co) calls (co_finish co) (co_usage co) s)) (snd (wall_clock E a))"
  define a3 where "a3 = in_session (emit ''tools'' (show_nat (length (co_calls co)) @ '' calls'') 0 \<circ> set_state tool_phase) a2"
  have "meter a2 = (sn_cfg (ag_session a), sn_tokens_used (ag_session a) + of_nat (reply_tokens co))"
    by (auto simp: a2_def meter_def in_session_def wall_clock_def append_assistant_def next_msg_id_def push_message_def account_tokens_def
        reply_tokens_def Let_def)
  moreover have "a' = agent_checkpoint E (dr_applied_edits res') (snd (run_calls E O1 (co_calls co) res a3)) \<and> co_calls co \<noteq> []"
    using assms unfolding after_reply_def Let_def case_prod_unfold now_def [symmetric] calls_def [unfolded case_prod_unfold, symmetric] a2_def [symmetric] a3_def [symmetric]
    by (auto split: if_splits)
  ultimately show ?thesis by (simp add: run_calls_meter a3_def)
qed

lemma task_meter: "task a' = task a \<Longrightarrow> meter a' = meter a"
  by (simp add: task_def meter_def Let_def)

lemma assemble_task: "assemble E O1 plan a = (x, a') \<Longrightarrow> task a' = task a"
  by (auto simp: assemble_def Let_def split: option.splits prod.splits if_splits)

lemma budget_cap_cfg: "sn_cfg s = sn_cfg t \<Longrightarrow> budget_cap s = budget_cap t"
  by (simp only: budget_cap_def)

lemma budget_meter: "meter a = meter b \<Longrightarrow> budget_remaining (ag_session a) = budget_remaining (ag_session b)"
proof -
  assume m: "meter a = meter b"
  then have "sn_tokens_used (ag_session a) = sn_tokens_used (ag_session b)" "budget_cap (ag_session a) = budget_cap (ag_session b)"
    using budget_cap_cfg by (auto simp: meter_def)
  then show ?thesis by (simp only: budget_remaining_def)
qed

lemma budget_cap_small: "unat (budget_cap s) \<le> 4294967295"
  using unat_u32_le by (simp add: budget_cap_def split: option.split)

lemma spending:
  assumes "meter b = (sn_cfg (ag_session a), sn_tokens_used (ag_session a) + of_nat k)" "budget_remaining (ag_session a) \<noteq> 0"
    "0 < k" "k < 2 ^ 63"
  shows "unat (budget_remaining (ag_session b)) < unat (budget_remaining (ag_session a))"
proof -
  define cap where "cap = budget_cap (ag_session a)"
  define used where "used = sn_tokens_used (ag_session a)"
  have cap: "budget_cap (ag_session b) = cap" using assms(1) unfolding cap_def by (intro budget_cap_cfg) (simp add: meter_def)
  have lt: "used < cap" using assms(2) unfolding budget_remaining_def Let_def cap_def used_def by (auto split: if_splits)
  have small: "unat used < 2 ^ 32" using lt budget_cap_small [of "ag_session a"] by (simp add: cap_def word_less_nat_alt)
  then have sum: "unat (used + of_nat k) = unat used + k" using assms(4) by (simp add: unat_word_ariths unat_of_nat)
  have rem: "unat (budget_remaining (ag_session a)) = unat cap - unat used"
    using lt by (simp add: budget_remaining_def Let_def cap_def used_def unat_sub less_imp_le not_le [symmetric])
  have "unat (budget_remaining (ag_session b)) = unat cap - (unat used + k)"
    using assms(1) sum by (auto simp: budget_remaining_def cap meter_def used_def Let_def unat_sub not_le less_imp_le word_le_nat_alt)
  then show ?thesis using rem lt assms(3) by (simp add: word_less_nat_alt)
qed

lemma drive_round_again:
  assumes "drive_round E O1 plan res a = Again (res', a')" "metered E O1"
  shows "unat (budget_remaining (ag_session a')) < unat (budget_remaining (ag_session a))"
proof -
  obtain stop a1 where c: "poll E a = (stop, a1)" by fastforce
  define a2 where "a2 = in_session (set_state preparing \<circ> boundary) a1"
  have m2: "meter a2 = meter a" using c by (auto simp: a2_def poll_def meter_def in_session_def)
  obtain x a3 where as: "assemble E O1 plan a2 = (x, a3)" by fastforce
  note round = assms(1) [unfolded drive_round_def c Let_def prod.case a2_def [symmetric] as]
  then have go: "\<not> stop" "\<not> budget_exhausted (ag_session a2)" by (auto split: if_splits)
  then obtain ms tools budget where x: "x = Inr (ms, tools, budget)" using round by (cases x) auto
  define a4 where "a4 = in_session (emit ''assemble'' (''tier='' @ budget_profile plan @ '' tools='' @ show_nat (length tools)) 0) a3"
  obtain ec co a5 where r: "one_round E O1 tools budget a4 = Some (ec, co, a5)" "is_ok ec"
    and again: "after_reply E O1 co (res\<lparr>dr_iterations := dr_iterations res + 1\<rparr>) a5 = Again (res', a')"
  proof (cases "one_round E O1 tools budget a4")
    case None
    then show ?thesis using round go x by (simp add: a4_def)
  next
    case (Some y)
    then show ?thesis using round go x that by (cases y) (auto simp: a4_def split: if_splits)
  qed
  have m5: "meter a5 = meter a" using task_meter [OF task_one_round [OF r(1)]] task_meter [OF assemble_task [OF as]] m2 by (simp add: a4_def)
  have "0 < reply_tokens co \<and> reply_tokens co < 2 ^ 63" using assms(2) r after_reply_again [OF again] unfolding metered_def by blast
  moreover have "budget_remaining (ag_session a5) \<noteq> 0" using go(2) budget_meter [OF m5] budget_meter [OF m2] by (simp add: budget_exhausted_def)
  ultimately show ?thesis using spending [of a' a5 "reply_tokens co"] after_reply_again [OF again] budget_meter [OF m5] by simp
qed

lemma drive_rounds_end:
  assumes "metered E O1" "unat (budget_remaining (ag_session a)) < n"
  shows "drive_rounds n E O1 plan res a \<noteq> None"
  using assms(2)
proof (induction n arbitrary: res a)
  case (Suc n)
  then show ?case using drive_round_again [OF _ assms(1), of plan res a] by (auto split: progress.split prod.split)
qed simp

lemma begin_task_meter [simp]: "meter (begin_task E user_input a) = meter a"
  by (simp add: begin_task_def meter_def in_session_def wall_clock_def Let_def)


text \<open>A host without network, as an instance: every connection is refused, so every round fails.\<close>

definition no_net :: net_call where
  "no_net = \<lparr>nc_open = make_error e_net_connect, nc_connect = ok, nc_writes = [], nc_attach = ok, nc_reads = []\<rparr>"

definition offline_io :: "(nat, unit) io" where
  "offline_io = \<lparr>io_nums = nat_nums, io_share = (\<lambda>_. 0), io_cancel = (\<lambda>_. False), io_clock = (\<lambda>_. 0), io_net = (\<lambda>_. no_net),
     io_read = (\<lambda>_ _. None), io_walk = (\<lambda>_ _. None)\<rparr>"

definition offline_options :: "unit LoopOptions" where
  "offline_options = \<lparr>op_loop = True, op_prompt = Some [compile_prompt ''SYSTEM_BASE'' ''You edit code.''], op_tools = Some [],
     op_permission = Some (new_gate policy_allow), op_verify = True,
     op_verify_ctx = \<lparr>vc_workspace_root = [], vc_graph = \<lparr>gi_index = False, gi_lookup = None, gi_callers_of = None\<rparr>,
       vc_mandatory_syntax = True, vc_mandatory_symbols = True, vc_mandatory_impact = True, vc_mandatory_diff = True\<rparr>,
     op_retry = default_budget\<rparr>"

definition offline_agent :: "(nat, unit) Agent" where
  "offline_agent = new_agent (new_session 1 \<lparr>so_workspace = ''/w'', so_session_id = ''s1'',
     so_config = \<lparr>providers = [], agents = [], network = \<lparr>timeout_ms = 30000, NetworkCfg.max_retries = 3, backoff_base_ms = 250,
         backoff_max_ms = 8000, jitter = 0\<rparr>, max_tokens_per_task = 12000,
       memory_cfg = small_caps, data_dir = [], context_paths = [], edge_mode = False\<rparr>,
     so_model = empty_spec\<lparr>ms_base_url := ''http://localhost:8080''\<rparr>, so_provider_id = ''openai'', so_api_key = ''k'', so_store = None\<rparr>) ()"

lemma build_request_error: "build_request N p ms tools model budget = Inl ec \<Longrightarrow> \<not> is_ok ec"
  by (cases p) (auto simp: anthropic_request_def openai_request_def gemini_request_def split: prod.splits if_splits)

lemma not_ok [simp]: "\<not> is_ok (make_error e_cancelled)" "\<not> is_ok (make_error e_invalid_cfg)" "\<not> is_ok (make_error e_not_impl)"
    "\<not> is_ok (make_error e_net_connect)"
  by (simp_all add: is_ok_def make_error_code_def)

lemma offline_call: "stream_call offline_io O1 ms tools budget co a = Some (ec, co', a') \<Longrightarrow> \<not> is_ok ec"
  by (auto simp: stream_call_def Let_def poll_def offline_io_def no_net_def dest: build_request_error
      split: option.splits sum.splits prod.splits if_splits)

lemma offline_attempts: "attempts offline_io O1 tools budget attempt seed co a = Some (ec, co', a') \<Longrightarrow> \<not> is_ok ec"
proof (induction "offline_io" O1 tools budget attempt seed co a arbitrary: ec co' a' rule: attempts.induct)
  case (1 O1 tools budget attempt seed co a)
  obtain stop a1 where p: "poll offline_io a = (stop, a1)" by fastforce
  show ?case
  proof (cases "stop \<or> stream_call offline_io O1 (sn_messages (ag_session a1)) tools budget co a1 = None")
    case True
    then show ?thesis using "1.prems" p by (subst (asm) attempts.simps) (auto simp: p split: if_splits)
  next
    case False
    then obtain ec1 co1 a2 where sc: "\<not> stop" "stream_call offline_io O1 (sn_messages (ag_session a1)) tools budget co a1 = Some (ec1, co1, a2)" by auto
    have "\<not> is_ok ec1" using offline_call [OF sc(2)] .
    then show ?thesis using "1.prems" "1.hyps" [OF p [symmetric] sc(1) sc(2) refl refl]
      by (subst (asm) attempts.simps) (auto simp: p sc Let_def split: if_splits)
  qed
qed

lemma offline_metered: "metered offline_io O1"
proof -
  have "\<not> is_ok ec" if "one_round offline_io O1 tools budget a = Some (ec, co, a')" for tools budget a ec co a'
    using that by (auto simp: one_round_def Let_def dest: offline_attempts split: prod.splits option.splits if_splits)
  then show ?thesis unfolding metered_def by blast
qed


section \<open>What the loop does not do\<close>

text \<open>A reply without usage is free: the budget does not bound a model that reports none.\<close>

lemma unmetered_round_is_free:
  "after_reply E O1 co res a = Again (res', a') \<Longrightarrow> reply_tokens co = 0 \<Longrightarrow>
   budget_remaining (ag_session a') = budget_remaining (ag_session a)"
  by (rule budget_meter, drule after_reply_again) (simp add: meter_def)

text \<open>A cancellation seen at the top of the loop leaves it without an error, so the task counts as done.\<close>

lemma cancelled_task_is_done:
  assumes "io_cancel E (ag_tick a)"
  shows "\<exists>a'. drive_rounds (Suc n) E O1 plan empty_drive a = Some (Some (empty_drive, a')) \<and> is_ok (dr_ec empty_drive)"
  using assms by (simp add: drive_round_def poll_def empty_drive_def is_ok_def ok_def)

text \<open>
  For \<open>file.patch\<close> the proposal has neither the old nor the new content, so the diff stage applies the patch to the empty
  text: only a patch that turns the empty text into itself passes.
\<close>

lemma patch_refused:
  assumes "build_proposal E O1 (i, ''file.patch'', input) w = Inr p" "list_all gr_pass (run_all p (op_verify_ctx O1))"
  shows "ep_patch_text p \<noteq> [] \<and> apply_patch (parse (ep_patch_text p)) [] = Inr []"
proof -
  have "ep_before_content p = [] \<and> ep_after_content p = []" using assms(1)
    by (auto simp: build_proposal_def Let_def split: sum.splits option.splits jval.splits if_splits)
  moreover have "check_diff p = []" using assms(2) by (simp add: run_all_pass_iff)
  ultimately show ?thesis by (auto simp: check_diff_def split: if_splits sum.splits)
qed

end
