(* ===== verification/Graph_Symbols.thy ===== *)
theory Graph_Symbols
  imports Errors
begin

text \<open>
  The symbol extractor of the code graph: the data of \<open>src/graph/index.h\<close> and the line scanner of
  \<open>src/graph/symbols.cpp\<close> (the mask of comments and literals, the definition, type, macro, namespace and global
  recognisers of C and C++, the recognisers of Go, and the call sites). Offsets into a text are natural numbers, and
  the 32-bit fields of a symbol keep their width. The extractor is \<open>noexcept\<close>, so an exception inside it
  ends the process; that outcome is \<open>None\<close>.

  The theorems say that the mask keeps every offset and what it does to line breaks, that the lines of a text are the
  text, and that each extracted call is attributed to the definition around it.
\<close>

section \<open>Data\<close>

datatype Lang = lang_unknown | lang_c | lang_cpp | lang_go

datatype SymKind = sym_unknown | sym_function | sym_method | sym_class | sym_struct | sym_type | sym_global
  | sym_import | sym_namespace | sym_enum | sym_const | sym_macro | sym_package

datatype DepKind = dep_call | dep_type | dep_include

datatype Visibility = vis_unknown | vis_public | vis_private | vis_protected | vis_internal

record Sym =
  sy_id :: int
  sy_kind :: SymKind
  sy_name :: string
  sy_qual :: string
  sy_file :: string
  sy_line :: u32
  sy_start :: u32
  sy_end :: u32
  sy_lang :: Lang
  sy_vis :: Visibility

record Dep =
  dp_from_sym :: int
  dp_to_sym :: int
  dp_kind :: DepKind
  dp_from_file :: string
  dp_to_file :: string
  dp_to_name :: string

definition empty_sym :: Sym where
  "empty_sym = \<lparr>sy_id = 0, sy_kind = sym_unknown, sy_name = [], sy_qual = [], sy_file = [], sy_line = 0, sy_start = 0,
     sy_end = 0, sy_lang = lang_unknown, sy_vis = vis_unknown\<rparr>"

definition empty_dep :: Dep where
  "empty_dep = \<lparr>dp_from_sym = 0, dp_to_sym = 0, dp_kind = dep_call, dp_from_file = [], dp_to_file = [], dp_to_name = []\<rparr>"

section \<open>Words and characters\<close>

definition kCKeywords :: "string list" where
  "kCKeywords = [''if'', ''else'', ''while'', ''for'', ''do'', ''switch'', ''case'', ''return'', ''sizeof'', ''catch'',
     ''throw'', ''new'', ''delete'', ''goto'', ''try'', ''using'', ''typedef'', ''friend'', ''operator'', ''template'',
     ''typename'', ''virtual'', ''override'', ''final'', ''namespace'', ''struct'', ''class'', ''enum'', ''union'',
     ''public'', ''private'', ''protected'', ''const_cast'', ''static_cast'', ''dynamic_cast'', ''reinterpret_cast'',
     ''void'', ''char'', ''int'', ''float'', ''double'', ''long'', ''short'', ''unsigned'', ''signed'', ''auto'',
     ''register'', ''volatile'', ''constexpr'', ''static'', ''const'', ''extern'', ''inline'']"

definition kGoKeywords :: "string list" where
  "kGoKeywords = [''if'', ''for'', ''range'', ''switch'', ''select'', ''func'', ''go'', ''defer'', ''return'', ''make'',
     ''new'', ''append'', ''len'', ''cap'', ''copy'', ''delete'', ''recover'', ''panic'', ''goto'', ''case'',
     ''fallthrough'', ''type'', ''var'', ''const'', ''package'', ''import'', ''struct'', ''interface'', ''map'', ''chan'']"

fun in_keywords :: "string \<Rightarrow> string list \<Rightarrow> bool" where
  "in_keywords s [] = False"
| "in_keywords s (k # ks) = (s = k \<or> in_keywords s ks)"

definition is_c_keyword :: "string \<Rightarrow> bool" where
  "is_c_keyword s = in_keywords s kCKeywords"

definition is_go_keyword :: "string \<Rightarrow> bool" where
  "is_go_keyword s = in_keywords s kGoKeywords"

definition is_ident_char :: "char \<Rightarrow> bool" where
  "is_ident_char c \<longleftrightarrow> 97 \<le> byte_val c \<and> byte_val c \<le> 122 \<or> 65 \<le> byte_val c \<and> byte_val c \<le> 90 \<or>
     48 \<le> byte_val c \<and> byte_val c \<le> 57 \<or> c = CHR ''_''"

definition is_blank :: "char \<Rightarrow> bool" where
  "is_blank c \<longleftrightarrow> c = sp \<or> c = tab"

definition ltrim :: "string \<Rightarrow> string" where
  "ltrim s = dropWhile is_blank s"

definition ident :: "string \<Rightarrow> string" where
  "ident s = takeWhile is_ident_char s"

section \<open>The mask\<close>

text \<open>
  The loop is in one of four states; the states of the two literal loops differ in the closing quote. The character
  after a backslash in a literal is blanked whatever it is, and the backslash stays.
\<close>

datatype MaskState = in_code | in_line_comment | in_block_comment | in_literal char

fun mask :: "MaskState \<Rightarrow> string \<Rightarrow> string" where
  "mask st [] = []"
| "mask in_line_comment (c # cs) =
     (if c = nl then c # mask in_code cs else sp # mask in_line_comment cs)"
| "mask in_block_comment (c # d # cs) =
     (if c = CHR ''*'' \<and> d = CHR ''/'' then sp # sp # mask in_code cs
      else (if c \<noteq> nl then sp else c) # mask in_block_comment (d # cs))"
| "mask in_block_comment [c] = [if c \<noteq> nl then sp else c]"
| "mask (in_literal q) (c # cs) =
     (if c = bslash then (case cs of [] \<Rightarrow> [c] | d # ds \<Rightarrow> c # sp # mask (in_literal q) ds)
      else if c = q then sp # mask in_code cs
      else (if c \<noteq> nl then sp else c) # mask (in_literal q) cs)"
| "mask in_code (c # cs) =
     (if c = CHR ''/'' \<and> cs \<noteq> [] \<and> hd cs = CHR ''/'' then sp # sp # mask in_line_comment (tl cs)
      else if c = CHR ''/'' \<and> cs \<noteq> [] \<and> hd cs = CHR ''*'' then sp # sp # mask in_block_comment (tl cs)
      else if c = dquote then sp # mask (in_literal dquote) cs
      else if c = squote then sp # mask (in_literal squote) cs
      else c # mask in_code cs)"

definition mask_comments_and_strings :: "string \<Rightarrow> string" where
  "mask_comments_and_strings code = mask in_code code"

section \<open>Lines, positions and braces\<close>

definition line_of :: "string \<Rightarrow> nat \<Rightarrow> nat" where
  "line_of src off = 1 + length (filter (\<lambda>c. c = nl) (take off src))"

fun match_from :: "char \<Rightarrow> char \<Rightarrow> int \<Rightarrow> nat \<Rightarrow> string \<Rightarrow> nat option" where
  "match_from op cl depth i [] = None"
| "match_from op cl depth i (c # cs) =
     (if c = op then match_from op cl (depth + 1) (i + 1) cs
      else if c = cl then (if depth - 1 = 0 then Some (i + 1) else match_from op cl (depth - 1) (i + 1) cs)
      else match_from op cl depth (i + 1) cs)"

definition match_brace :: "string \<Rightarrow> nat \<Rightarrow> char \<Rightarrow> char \<Rightarrow> nat option" where
  "match_brace code from op cl = match_from op cl 0 from (drop from code)"

record Line =
  l_off :: nat
  l_end :: nat
  l_sv :: string

function lines_at :: "nat \<Rightarrow> string \<Rightarrow> Line list" where
  "lines_at start s =
     (let l = takeWhile (\<lambda>c. c \<noteq> nl) s in
      \<lparr>l_off = start, l_end = start + length l, l_sv = l\<rparr> #
      (case dropWhile (\<lambda>c. c \<noteq> nl) s of [] \<Rightarrow> [] | _ # r \<Rightarrow> lines_at (start + length l + 1) r))"
  by pat_completeness auto
termination
  by (relation "measure (\<lambda>(i, s). length s)") (auto simp: length_dropWhile_tl)

declare lines_at.simps [simp del]

definition for_each_line :: "string \<Rightarrow> Line list" where
  "for_each_line s = lines_at 0 s"

text \<open>\<open>while (q > lo && P(code[q - 1])) --q\<close>.\<close>

fun back_over :: "(char \<Rightarrow> bool) \<Rightarrow> string \<Rightarrow> nat \<Rightarrow> nat \<Rightarrow> nat" where
  "back_over P code lo q = (if q > lo \<and> P (code ! (q - 1)) then back_over P code lo (q - 1) else q)"

declare back_over.simps [simp del]

lemma back_over_le: "back_over P code lo q \<le> q"
proof (induction P code lo q rule: back_over.induct)
  case (1 P code lo q)
  then show ?case by (subst back_over.simps) (simp split: if_splits; force)
qed

definition substr :: "string \<Rightarrow> nat \<Rightarrow> nat \<Rightarrow> string" where
  "substr s i n = take n (drop i s)"

section \<open>Definitions of C and C++\<close>

record FuncDef =
  fd_name_off :: nat
  fd_start :: nat
  fd_body_open :: nat
  fd_body_end :: nat
  fd_name :: string

fun open_brace :: "nat \<Rightarrow> string \<Rightarrow> nat option" where
  "open_brace k [] = None"
| "open_brace k (c # cs) = (if c = CHR ''{'' then Some k else if c = CHR '';'' then None else open_brace (k + 1) cs)"

function extend_name :: "string \<Rightarrow> nat \<Rightarrow> nat \<Rightarrow> nat" where
  "extend_name code lo ns =
     (if ns \<ge> 2 \<and> code ! (ns - 1) = CHR '':'' \<and> code ! (ns - 2) = CHR '':''
      then extend_name code lo (back_over is_ident_char code lo (ns - 2)) else ns)"
  by pat_completeness auto
termination
proof (relation "measure (\<lambda>(c, l, n). n)", simp)
  fix code lo ns
  assume "ns \<ge> 2 \<and> code ! (ns - 1) = CHR '':'' \<and> code ! (ns - 2) = CHR '':''"
  then have "ns \<ge> 2" by simp
  then show "((code, lo, back_over is_ident_char code lo (ns - 2)), code, lo, ns) \<in> measure (\<lambda>(c, l, n). n)"
    using back_over_le [of is_ident_char code lo "ns - 2"] by simp
qed

declare extend_name.simps [simp del]

definition cpp_def_at :: "string \<Rightarrow> Line \<Rightarrow> nat \<Rightarrow> FuncDef option" where
  "cpp_def_at code l i =
     (if code ! i \<noteq> CHR ''('' then None
      else let q = back_over is_ident_char code (l_off l) i in
        if q = i then None
        else if is_c_keyword (substr code q (i - q)) then None
        else (case match_from CHR ''('' CHR '')'' 0 i (substr code i (l_end l - i)) of
            None \<Rightarrow> None
          | Some j \<Rightarrow> (case open_brace j (substr code j (l_end l - j)) of
                None \<Rightarrow> None
              | Some bo \<Rightarrow> (case match_brace code bo CHR ''{'' CHR ''}'' of
                    None \<Rightarrow> None
                  | Some bc \<Rightarrow>
                      (let ns = extend_name code (l_off l) q in
                       Some \<lparr>fd_name_off = ns, fd_start = l_off l, fd_body_open = bo, fd_body_end = bc,
                             fd_name = substr code ns (i - ns)\<rparr>)))))"

fun first_def :: "string \<Rightarrow> Line \<Rightarrow> nat list \<Rightarrow> FuncDef option" where
  "first_def code l [] = None"
| "first_def code l (i # is) = (case cpp_def_at code l i of Some d \<Rightarrow> Some d | None \<Rightarrow> first_def code l is)"

definition try_cpp_def :: "string \<Rightarrow> Line \<Rightarrow> FuncDef option" where
  "try_cpp_def code l =
     (let t = ltrim (l_sv l) in
      if t = [] \<or> hd t = CHR ''#'' \<or> hd t = CHR ''}'' \<or> hd t = CHR ''{'' then None
      else first_def code l [l_off l..<l_end l])"

section \<open>The lines of C and C++\<close>

definition include_dep :: "string \<Rightarrow> Line \<Rightarrow> Dep list" where
  "include_dep file l =
     (let t = ltrim (l_sv l) in
      if \<not> starts_with t ''#include'' then []
      else (case dropWhile is_blank (drop 8 t) of
          [] \<Rightarrow> []
        | op # u \<Rightarrow>
            (if op \<noteq> CHR ''<'' \<and> op \<noteq> dquote then []
             else (case find_char (if op = CHR ''<'' then CHR ''>'' else dquote) u of
                 None \<Rightarrow> []
               | Some e \<Rightarrow> [empty_dep\<lparr>dp_kind := dep_include, dp_from_file := file, dp_to_file := take e u,
                                    dp_to_name := take e u\<rparr>]))))"

text \<open>A symbol whose range is its name, at offset \<open>off\<close>.\<close>

definition named_sym :: "SymKind \<Rightarrow> string \<Rightarrow> string \<Rightarrow> nat \<Rightarrow> Sym" where
  "named_sym k code name off =
     empty_sym\<lparr>sy_kind := k, sy_name := name, sy_qual := name, sy_line := of_nat (line_of code off),
               sy_start := of_nat off, sy_end := of_nat off + of_nat (length name)\<rparr>"

definition tbase :: "Line \<Rightarrow> nat" where
  "tbase l = l_off l + (length (l_sv l) - length (ltrim (l_sv l)))"

definition macro_syms :: "string \<Rightarrow> Line \<Rightarrow> Sym list" where
  "macro_syms code l =
     (let t = ltrim (l_sv l) in
      if \<not> starts_with t ''#define'' then []
      else let u = dropWhile is_blank (drop 7 t) in
        if u = [] \<or> \<not> is_ident_char (hd u) then []
        else [named_sym sym_macro code (ident u) (tbase l + (length t - length u))])"

text \<open>
  \<open>struct\<close>, \<open>class\<close>, \<open>enum\<close> or \<open>union\<close> with its name; \<open>None\<close> where
  \<open>after.substr(npos)\<close> throws.
\<close>

definition tagged_words :: "string list" where
  "tagged_words = [''struct'', ''class'', ''enum'', ''union'']"

definition typedef_rest :: "string \<Rightarrow> string" where
  "typedef_rest t = (if starts_with t ''typedef'' then ltrim (drop 7 t) else t)"

definition type_syms :: "string \<Rightarrow> Line \<Rightarrow> Sym list option" where
  "type_syms code l =
     (let t = ltrim (l_sv l); rest = typedef_rest t; w = ident rest; after = ltrim (drop (length w) rest);
          kind = (if w = ''struct'' then sym_struct else if w = ''class'' then sym_class
                  else if w = ''enum'' then sym_enum else sym_type);
          at = (\<lambda>a. named_sym kind code (ident a) (tbase l + length t - length a)) in
      if w = ''enum'' \<and> ident after = ''class'' then
        (case dropWhile (\<lambda>c. \<not> is_blank c) after of
           [] \<Rightarrow> None
         | u \<Rightarrow> (let a = ltrim u in Some (if ident a = [] then [] else [at a])))
      else Some (if ident after = [] then [] else [at after]))"

definition namespace_syms :: "string \<Rightarrow> Line \<Rightarrow> Sym list" where
  "namespace_syms code l =
     (let t = ltrim (l_sv l); rest = ltrim (drop 9 t) in
      if ident rest = [] then []
      else [named_sym sym_namespace code (ident rest) (tbase l + length t - length rest)])"

definition cpp_line :: "string \<Rightarrow> Line \<Rightarrow> (FuncDef list \<times> Sym list) option" where
  "cpp_line code l =
     (let t = ltrim (l_sv l) in
      if t = [] then Some ([], [])
      else if hd t = CHR ''#'' then Some ([], macro_syms code l)
      else if ident (typedef_rest t) \<in> set tagged_words then map_option (Pair []) (type_syms code l)
      else if starts_with t ''namespace'' then Some ([], namespace_syms code l)
      else Some (case try_cpp_def code l of None \<Rightarrow> [] | Some d \<Rightarrow> [d], []))"

fun scan_lines :: "(Line \<Rightarrow> (FuncDef list \<times> Sym list) option) \<Rightarrow> Line list \<Rightarrow> (FuncDef list \<times> Sym list) option" where
  "scan_lines f [] = Some ([], [])"
| "scan_lines f (l # ls) = (case f l of
     None \<Rightarrow> None
   | Some (ds, es) \<Rightarrow> map_option (\<lambda>(ds', es'). (ds @ ds', es @ es')) (scan_lines f ls))"

definition def_sym :: "string \<Rightarrow> FuncDef \<Rightarrow> Sym" where
  "def_sym code d =
     empty_sym\<lparr>sy_kind := sym_function, sy_name := fd_name d, sy_qual := fd_name d,
               sy_line := of_nat (line_of code (fd_name_off d)), sy_start := of_nat (fd_start d),
               sy_end := of_nat (fd_body_end d)\<rparr>"

fun inside_def :: "FuncDef list \<Rightarrow> nat \<Rightarrow> nat option" where
  "inside_def [] off = None"
| "inside_def (d # ds) off =
     (if off > fd_body_open d \<and> off < fd_body_end d then Some 0 else map_option Suc (inside_def ds off))"

definition skip_word :: "string \<Rightarrow> string option" where
  "skip_word r = (let u = ltrim r in if u = [] \<or> \<not> is_ident_char (hd u) then None else Some (dropWhile is_ident_char u))"

definition qualifiers :: "string list" where
  "qualifiers = [''static'', ''const'', ''constexpr'', ''extern'', ''volatile'']"

definition global_syms :: "string \<Rightarrow> FuncDef list \<Rightarrow> Line \<Rightarrow> Sym list" where
  "global_syms code defs l =
     (let t = ltrim (l_sv l) in
      if inside_def defs (l_off l) \<noteq> None then []
      else if t = [] \<or> hd t = CHR ''#'' \<or> hd t = CHR ''}'' then []
      else (case skip_word t of None \<Rightarrow> []
        | Some r1 \<Rightarrow>
            (case (if take (length t - length r1) t \<in> set qualifiers then skip_word r1 else Some r1) of None \<Rightarrow> []
              | Some r2 \<Rightarrow>
                  (let name_start = length t - length r2 in
                   case skip_word r2 of None \<Rightarrow> []
                     | Some r3 \<Rightarrow>
                         (let name_end = length t - length r3; u = ltrim r3 in
                          if u = [] \<or> hd u \<noteq> CHR ''='' \<and> hd u \<noteq> CHR '';'' \<and> hd u \<noteq> CHR ''['' then []
                          else [named_sym sym_global code (substr t name_start (name_end - name_start))
                                  (tbase l + name_start)])))))"

definition call_at :: "(string \<Rightarrow> bool) \<Rightarrow> string \<Rightarrow> string \<Rightarrow> FuncDef list \<Rightarrow> nat \<Rightarrow> Line \<Rightarrow> nat \<Rightarrow> Dep list" where
  "call_at kw file code defs syms_base l i =
     (if code ! i \<noteq> CHR ''('' then []
      else let q = back_over is_ident_char code (l_off l) i; tok = substr code q (i - q) in
        if q = i \<or> kw tok \<or> list_ex (\<lambda>d. fd_name_off d = q) defs then []
        else [empty_dep\<lparr>dp_kind := dep_call, dp_to_name := tok, dp_to_file := file, dp_from_file := file,
                        dp_from_sym := (case inside_def defs q of Some e \<Rightarrow> int (syms_base + e + 1) | None \<Rightarrow> 0)\<rparr>])"

definition call_deps :: "(string \<Rightarrow> bool) \<Rightarrow> string \<Rightarrow> string \<Rightarrow> FuncDef list \<Rightarrow> nat \<Rightarrow> Dep list" where
  "call_deps kw file code defs syms_base =
     concat (map (\<lambda>l. concat (map (call_at kw file code defs syms_base l) [l_off l..<l_end l])) (for_each_line code))"

definition extract_cpp :: "string \<Rightarrow> string \<Rightarrow> Sym list \<Rightarrow> Dep list \<Rightarrow> (Sym list \<times> Dep list) option" where
  "extract_cpp file src syms deps =
     (let deps1 = deps @ concat (map (include_dep file) (for_each_line src));
          code = mask_comments_and_strings src in
      case scan_lines (cpp_line code) (for_each_line code) of
        None \<Rightarrow> None
      | Some (defs, extra) \<Rightarrow>
          Some (syms @ map (def_sym code) defs @ extra @ concat (map (global_syms code defs) (for_each_line code)),
                deps1 @ call_deps is_c_keyword file code defs (length syms)))"

section \<open>Go\<close>

definition package_syms :: "string \<Rightarrow> Line \<Rightarrow> Sym list" where
  "package_syms src l =
     (let t = ltrim (l_sv l); rest = ltrim (drop 7 t) in
      if \<not> starts_with t ''package'' \<or> ident rest = [] then []
      else [named_sym sym_package src (ident rest) (tbase l + length t - length rest)])"

definition push_imp :: "string \<Rightarrow> string \<Rightarrow> Dep list" where
  "push_imp file line = (case find_char dquote (ltrim line) of
     None \<Rightarrow> []
   | Some q \<Rightarrow>
       (let u = drop (q + 1) (ltrim line) in
        case find_char dquote u of
          None \<Rightarrow> []
        | Some e \<Rightarrow> [empty_dep\<lparr>dp_kind := dep_include, dp_from_file := file, dp_to_file := take e u, dp_to_name := take e u\<rparr>]))"

text \<open>
  The lines of an import block are those behind the rest of the import line, up to the one that starts with the
  closing parenthesis.
\<close>

definition import_deps :: "string \<Rightarrow> string \<Rightarrow> Line \<Rightarrow> Dep list" where
  "import_deps file src l =
     (let t = ltrim (l_sv l); rest = ltrim (drop 6 t) in
      if starts_with t ''package'' \<or> \<not> starts_with t ''import'' then []
      else if starts_with rest ''('' then
        concat (map (\<lambda>k. push_imp file (l_sv k))
          (takeWhile (\<lambda>k. \<not> starts_with (ltrim (l_sv k)) '')'') (lines_at (l_end l) (drop (l_end l) src))))
      else push_imp file rest)"

lemma match_from_pos: "match_from op cl d i s = Some k \<Longrightarrow> i < k \<and> k \<le> i + length s"
  by (induction op cl d i s rule: match_from.induct) (auto split: if_splits)

function skip_generic :: "string \<Rightarrow> string" where
  "skip_generic [] = []"
| "skip_generic (c # cs) =
     (if is_blank c then skip_generic cs
      else if c = CHR ''['' then
        (case match_from CHR ''['' CHR '']'' 0 0 (c # cs) of None \<Rightarrow> [] | Some k \<Rightarrow> skip_generic (drop k (c # cs)))
      else c # cs)"
  by pat_completeness auto
termination
  by (relation "measure length") (auto dest: match_from_pos)

definition go_func :: "string \<Rightarrow> Line \<Rightarrow> FuncDef list" where
  "go_func code l =
     (let t = ltrim (l_sv l); r0 = ltrim (drop 4 t);
          recv = (if starts_with r0 ''('' then map_option (\<lambda>k. ltrim (drop k r0)) (match_from CHR ''('' CHR '')'' 0 0 r0)
                  else Some r0) in
      case recv of None \<Rightarrow> []
      | Some rest \<Rightarrow>
          (let name = ident rest; name_off = tbase l + length t - length rest;
               u = skip_generic (drop (length name) rest) in
           if name = [] \<or> u = [] \<or> hd u \<noteq> CHR ''('' then []
           else (case match_from CHR ''('' CHR '')'' 0 0 u of None \<Rightarrow> []
             | Some k \<Rightarrow> (case find_char CHR ''{'' (drop k u) of None \<Rightarrow> []
                 | Some m \<Rightarrow>
                     (let bo = tbase l + length t - length (drop k u) + m in
                      case match_brace code bo CHR ''{'' CHR ''}'' of None \<Rightarrow> []
                      | Some bc \<Rightarrow> [\<lparr>fd_name_off = name_off, fd_start = l_off l, fd_body_open = bo, fd_body_end = bc,
                                   fd_name = name\<rparr>])))))"

definition is_exported :: "string \<Rightarrow> bool" where
  "is_exported name \<longleftrightarrow> name \<noteq> [] \<and> 65 \<le> byte_val (hd name) \<and> byte_val (hd name) \<le> 90"

definition go_vis :: "string \<Rightarrow> Visibility" where
  "go_vis name = (if is_exported name then vis_public else vis_private)"

definition go_type_syms :: "string \<Rightarrow> Line \<Rightarrow> Sym list" where
  "go_type_syms code l =
     (let t = ltrim (l_sv l); rest = ltrim (drop 4 t) in
      if ident rest = [] then []
      else [(named_sym sym_type code (ident rest) (tbase l + length t - length rest))\<lparr>sy_vis := go_vis (ident rest)\<rparr>])"

definition go_value_syms :: "string \<Rightarrow> Line \<Rightarrow> Sym list" where
  "go_value_syms code l =
     (let t = ltrim (l_sv l); rest = ltrim (drop (if hd t = CHR ''v'' then 3 else 5) t) in
      if ident rest = [] then []
      else [named_sym (if hd t = CHR ''c'' then sym_const else sym_global) code (ident rest)
              (tbase l + length t - length rest)])"

definition go_line :: "string \<Rightarrow> Line \<Rightarrow> (FuncDef list \<times> Sym list) option" where
  "go_line code l =
     (let t = ltrim (l_sv l) in
      if starts_with t ''func'' \<and> (length t = 4 \<or> is_blank (t ! 4)) then Some (go_func code l, [])
      else if starts_with t ''type'' then Some ([], go_type_syms code l)
      else if starts_with t ''var'' \<or> starts_with t ''const'' then Some ([], go_value_syms code l)
      else Some ([], []))"

definition go_def_sym :: "string \<Rightarrow> FuncDef \<Rightarrow> Sym" where
  "go_def_sym code d =
     (let p = back_over is_blank code (fd_start d) (fd_name_off d);
          meth = (p > fd_start d \<and> code ! (p - 1) = CHR '')'') in
      (def_sym code d)\<lparr>sy_kind := if meth then sym_method else sym_function, sy_vis := go_vis (fd_name d)\<rparr>)"

definition extract_go :: "string \<Rightarrow> string \<Rightarrow> Sym list \<Rightarrow> Dep list \<Rightarrow> (Sym list \<times> Dep list) option" where
  "extract_go file src syms deps =
     (let syms1 = syms @ concat (map (package_syms src) (for_each_line src));
          deps1 = deps @ concat (map (import_deps file src) (for_each_line src));
          code = mask_comments_and_strings src in
      case scan_lines (go_line code) (for_each_line code) of
        None \<Rightarrow> None
      | Some (defs, extra) \<Rightarrow>
          Some (syms1 @ map (go_def_sym code) defs @ extra,
                deps1 @ call_deps is_go_keyword file code defs (length syms1)))"

definition extract_lang :: "Lang \<Rightarrow> string \<Rightarrow> string \<Rightarrow> (error_code + Sym list \<times> Dep list) option" where
  "extract_lang lang file src = (case lang of
     lang_unknown \<Rightarrow> Some (Inl (make_error e_not_impl))
   | lang_go \<Rightarrow> map_option Inr (extract_go file src [] [])
   | _ \<Rightarrow> map_option Inr (extract_cpp file src [] []))"

section \<open>The mask keeps offsets\<close>

lemma mask_chars: "list_all2 (\<lambda>m c. m = c \<or> m = sp) (mask st s) s"
  by (induction st s rule: mask.induct) (auto split: list.splits simp: neq_Nil_conv)

lemma mask_length [simp]: "length (mask st s) = length s"
  using mask_chars by (rule list_all2_lengthD)

lemma mask_comments_length [simp]: "length (mask_comments_and_strings s) = length s"
  by (simp add: mask_comments_and_strings_def)

text \<open>
  Line breaks survive exactly when none is escaped: a backslash followed by a line break, inside a literal, loses it.
\<close>

lemma mask_newlines:
  "\<not> sublist [bslash, nl] s \<Longrightarrow> st \<noteq> in_literal nl \<Longrightarrow> list_all2 (\<lambda>m c. m = nl \<longleftrightarrow> c = nl) (mask st s) s"
proof (induction st s rule: mask.induct)
  case (5 q c cs)
  have tl: "\<not> sublist [bslash, nl] cs" using 5(4) by (simp add: sublist_Cons_right)
  moreover have "\<not> sublist [bslash, nl] ds" if "cs = d # ds" for d ds using tl that by (simp add: sublist_Cons_right)
  moreover have "d \<noteq> nl" if "cs = d # ds" "c = bslash" for d ds using 5(4) that by (auto simp: sublist_Cons_right)
  ultimately show ?case using 5(1-3,5) by (cases cs) auto
next
  case (6 c cs)
  have tl: "\<not> sublist [bslash, nl] cs" using 6(6) by (simp add: sublist_Cons_right)
  moreover have "\<not> sublist [bslash, nl] (List.tl cs)" using tl by (cases cs) (simp_all add: sublist_Cons_right)
  ultimately show ?case using 6 by (cases cs) simp_all
qed (simp_all add: sublist_Cons_right)

lemma newline_count:
  "list_all2 (\<lambda>m c. m = nl \<longleftrightarrow> c = nl) m s \<Longrightarrow>
   length (filter (\<lambda>c. c = nl) (take k m)) = length (filter (\<lambda>c. c = nl) (take k s))"
  by (induction m s arbitrary: k rule: list_all2_induct) (auto simp: take_Cons split: nat.splits)

lemma line_of_mask:
  "\<not> sublist [bslash, nl] s \<Longrightarrow> line_of (mask_comments_and_strings s) k = line_of s k"
  unfolding line_of_def mask_comments_and_strings_def by (simp add: newline_count [OF mask_newlines])

section \<open>Lines and definitions\<close>

lemma lines_at_bounds:
  "l \<in> set (lines_at st s) \<Longrightarrow>
   st \<le> l_off l \<and> l_off l \<le> l_end l \<and> l_end l \<le> st + length s \<and> l_end l = l_off l + length (l_sv l) \<and>
   l_sv l = substr s (l_off l - st) (length (l_sv l)) \<and> nl \<notin> set (l_sv l)"
proof (induction st s rule: lines_at.induct)
  case (1 st s)
  let ?t = "takeWhile (\<lambda>c. c \<noteq> nl) s"
  from 1(2) consider "l = \<lparr>l_off = st, l_end = st + length ?t, l_sv = ?t\<rparr>"
    | c r where "dropWhile (\<lambda>c. c \<noteq> nl) s = c # r" "l \<in> set (lines_at (st + length ?t + 1) r)"
    unfolding lines_at.simps [of st s] by (cases "dropWhile (\<lambda>c. c \<noteq> nl) s") (auto simp: Let_def)
  then show ?case
  proof cases
    case 1
    moreover have "take (length ?t) s = ?t" by (rule takeWhile_eq_take [symmetric])
    moreover have "nl \<notin> set ?t" by (auto dest: set_takeWhileD)
    ultimately show ?thesis by (simp add: substr_def length_takeWhile_le)
  next
    case (2 c r)
    have s: "s = ?t @ c # r" using takeWhile_dropWhile_id [of "\<lambda>c. c \<noteq> nl" s] by (simp only: 2(1))
    have len: "length s = length ?t + 1 + length r" using arg_cong [OF s, of length] by simp
    note IH = "1.IH" [OF refl 2]
    obtain j where j: "l_off l = st + length ?t + 1 + j" using IH le_Suc_ex by blast
    have "drop (length ?t + Suc j) (?t @ c # r) = drop j r" by simp
    then have "drop (l_off l - st) s = drop (l_off l - (st + length ?t + 1)) r" using j by (simp add: s [symmetric])
    then show ?thesis using IH len by (simp add: substr_def)
  qed
qed

text \<open>Put together again with line breaks between them, the lines are the text.\<close>

lemma lines_at_join:
  "concat (map (\<lambda>l. nl # l_sv l) (lines_at st s)) = nl # s"
proof (induction st s rule: lines_at.induct)
  case (1 st s)
  let ?t = "takeWhile (\<lambda>c. c \<noteq> nl) s"
  show ?case
  proof (cases "dropWhile (\<lambda>c. c \<noteq> nl) s")
    case Nil
    then have "?t = s" using takeWhile_dropWhile_id [of "\<lambda>c. c \<noteq> nl" s] by (simp only: append_Nil2)
    then show ?thesis unfolding lines_at.simps [of st s] by (simp only: Nil Let_def) simp
  next
    case (Cons c r)
    then have "c = nl" by (simp add: dropWhile_eq_Cons_conv)
    moreover have "?t @ c # r = s" using takeWhile_dropWhile_id [of "\<lambda>c. c \<noteq> nl" s] by (simp only: Cons)
    ultimately show ?thesis using "1.IH" [OF refl Cons] unfolding lines_at.simps [of st s]
      by (simp only: Cons Let_def) simp
  qed
qed

lemma back_over_lo: "lo \<le> q \<Longrightarrow> lo \<le> back_over P code lo q"
proof (induction P code lo q rule: back_over.induct)
  case (1 P code lo q)
  then show ?case by (auto simp: back_over.simps [of P code lo q])
qed

lemma back_over_all: "back_over P code lo q \<le> k \<Longrightarrow> k < q \<Longrightarrow> P (code ! k)"
proof (induction P code lo q rule: back_over.induct)
  case (1 P code lo q)
  show ?case
  proof (cases "q > lo \<and> P (code ! (q - 1))")
    case True
    then have "back_over P code lo q = back_over P code lo (q - 1)" by (simp add: back_over.simps [of P code lo q])
    then show ?thesis using 1 True by (cases "k = q - 1") auto
  next
    case False
    then have "back_over P code lo q = q" by (simp only: back_over.simps [of P code lo q] if_False)
    then show ?thesis using 1(2,3) by simp
  qed
qed

lemma open_brace_SomeD: "open_brace k s = Some b \<Longrightarrow> k \<le> b \<and> b < k + length s"
  by (induction k s rule: open_brace.induct) (auto split: if_splits)

lemma match_brace_bounds: "match_brace code b op cl = Some e \<Longrightarrow> b < e \<and> e \<le> length code"
  by (auto simp: match_brace_def dest!: match_from_pos)

definition def_in :: "string \<Rightarrow> FuncDef \<Rightarrow> bool" where
  "def_in code d \<longleftrightarrow> fd_start d \<le> fd_body_open d \<and> fd_body_open d < fd_body_end d \<and> fd_body_end d \<le> length code"

lemma try_cpp_def_in:
  assumes "try_cpp_def code l = Some d"
  shows "def_in code d"
proof -
  have "first_def code l is = Some d \<Longrightarrow> set is \<subseteq> {l_off l..} \<Longrightarrow> \<exists>i \<ge> l_off l. cpp_def_at code l i = Some d" for "is"
    by (induction "is") (auto split: option.splits)
  then obtain i where "l_off l \<le> i" "cpp_def_at code l i = Some d"
    using assms by (force simp: try_cpp_def_def Let_def split: if_splits)
  then show ?thesis
    by (auto simp: cpp_def_at_def def_in_def Let_def split: if_splits option.splits
        dest!: match_from_pos open_brace_SomeD match_brace_bounds)
qed

lemma skip_generic_length: "length (skip_generic s) \<le> length s"
  by (induction s rule: skip_generic.induct) (auto split: option.splits)

lemma length_ltrim: "length (ltrim s) \<le> length s"
  by (simp add: ltrim_def length_dropWhile_le)

lemma go_brace_behind_line:
  "length rest \<le> length (ltrim (l_sv l)) \<Longrightarrow>
   l_off l \<le> tbase l + length (ltrim (l_sv l)) - length (drop k (skip_generic (drop n rest))) + m"
  using skip_generic_length [of "drop n rest"] by (simp add: tbase_def)

lemma receiver_length:
  assumes "(if starts_with r ''('' then map_option (\<lambda>k. ltrim (drop k r)) (match_from a b 0 0 r) else Some r) = Some rest"
  shows "length rest \<le> length r"
proof (cases "starts_with r ''(''")
  case True
  then obtain k where "rest = ltrim (drop k r)" using assms by auto
  then show ?thesis using length_ltrim [of "drop k r"] by simp
qed (use assms in auto)

lemma go_func_in:
  assumes "d \<in> set (go_func code l)"
  shows "def_in code d"
proof -
  let ?t = "ltrim (l_sv l)" and ?r = "ltrim (drop 4 (ltrim (l_sv l)))"
  let ?recv = "if starts_with ?r ''('' then map_option (\<lambda>k. ltrim (drop k ?r)) (match_from CHR ''('' CHR '')'' 0 0 ?r) else Some ?r"
  obtain rest where rest: "?recv = Some rest"
    using assms unfolding go_func_def Let_def by (cases ?recv) (simp_all only: option.case list.set empty_iff)
  then have "length rest \<le> length ?t" using receiver_length [OF rest] length_ltrim [of "drop 4 ?t"] by simp
  note behind = go_brace_behind_line [OF this]
  show ?thesis
    using assms unfolding go_func_def Let_def rest option.case
    by (auto simp: def_in_def simp del: length_drop split: if_splits option.splits dest!: match_brace_bounds [OF sym] intro: behind)
qed

section \<open>Calls are attributed to the definition around them\<close>

lemma scan_lines_defs:
  assumes "scan_lines f ls = Some (ds, es)" "d \<in> set ds"
  obtains l ds' es' where "l \<in> set ls" "f l = Some (ds', es')" "d \<in> set ds'"
  using assms
proof (induction ls arbitrary: ds es thesis)
  case (Cons l ls)
  then show ?case by (auto split: option.splits; blast)
qed simp

lemma cpp_defs_in: "scan_lines (cpp_line code) ls = Some (ds, es) \<Longrightarrow> list_all (def_in code) ds"
  unfolding list_all_iff
proof
  fix d
  assume scan: "scan_lines (cpp_line code) ls = Some (ds, es)" and "d \<in> set ds"
  from scan_lines_defs [OF this] obtain l ds' es' where "cpp_line code l = Some (ds', es')" "d \<in> set ds'" .
  then have "try_cpp_def code l = Some d" by (auto simp: cpp_line_def Let_def split: if_splits option.splits)
  then show "def_in code d" by (rule try_cpp_def_in)
qed

lemma go_defs_in: "scan_lines (go_line code) ls = Some (ds, es) \<Longrightarrow> list_all (def_in code) ds"
  unfolding list_all_iff
  by (auto elim!: scan_lines_defs simp: go_line_def Let_def split: if_splits intro: go_func_in)

lemma inside_def_SomeD:
  "inside_def ds off = Some e \<Longrightarrow> e < length ds \<and> fd_body_open (ds ! e) < off \<and> off < fd_body_end (ds ! e)"
  by (induction ds arbitrary: e) (auto split: if_splits)

text \<open>
  \<open>name\<close> stands at \<open>q\<close> as an identifier with an opening parenthesis right behind it.
\<close>

definition call_site :: "string \<Rightarrow> nat \<Rightarrow> string \<Rightarrow> bool" where
  "call_site code q name \<longleftrightarrow> name \<noteq> [] \<and> list_all is_ident_char name \<and> substr code q (length name) = name \<and>
     q + length name < length code \<and> code ! (q + length name) = CHR ''(''"

lemma call_at_site:
  assumes "d \<in> set (call_at kw file code defs b l i)" "l_off l \<le> i" "i < length code"
  obtains q where "call_site code q (dp_to_name d)" "\<not> kw (dp_to_name d)" "dp_from_file d = file"
    "dp_from_sym d = (case inside_def defs q of Some e \<Rightarrow> int (b + e + 1) | None \<Rightarrow> 0)" "dp_kind d = dep_call"
proof -
  let ?q = "back_over is_ident_char code (l_off l) i"
  let ?tok = "substr code ?q (i - ?q)"
  have le: "?q \<le> i" by (rule back_over_le)
  have d: "code ! i = CHR ''(''" "?q \<noteq> i" "\<not> kw ?tok"
    "d = empty_dep\<lparr>dp_kind := dep_call, dp_to_name := ?tok, dp_to_file := file, dp_from_file := file,
       dp_from_sym := (case inside_def defs ?q of Some e \<Rightarrow> int (b + e + 1) | None \<Rightarrow> 0)\<rparr>"
    using assms(1) by (auto simp: call_at_def Let_def split: if_splits)
  have len: "length ?tok = i - ?q" using assms(3) le by (simp add: substr_def)
  have "list_all is_ident_char ?tok"
    using len assms(3) le by (auto simp: list_all_length substr_def intro!: back_over_all [of is_ident_char code "l_off l" i])
  then have "call_site code ?q ?tok"
    using len d(1,2) le assms(3) by (auto simp: call_site_def substr_def)
  then show thesis using that [of ?q] d by simp
qed

lemma call_deps_site:
  assumes "d \<in> set (call_deps kw file code defs b)"
  obtains q where "call_site code q (dp_to_name d)" "\<not> kw (dp_to_name d)" "dp_from_file d = file"
    "dp_from_sym d = (case inside_def defs q of Some e \<Rightarrow> int (b + e + 1) | None \<Rightarrow> 0)" "dp_kind d = dep_call"
proof -
  obtain l i where "l \<in> set (lines_at 0 code)" "i \<in> set [l_off l..<l_end l]" "d \<in> set (call_at kw file code defs b l i)"
    using assms by (auto simp: call_deps_def for_each_line_def)
  moreover have "l_end l \<le> length code" using lines_at_bounds calculation(1) by fastforce
  ultimately show thesis using that by (auto elim!: call_at_site)
qed

lemma include_not_call: "d \<in> set (include_dep file l) \<Longrightarrow> dp_kind d = dep_include"
  by (auto simp: include_dep_def Let_def split: if_splits list.splits option.splits)

lemma push_imp_not_call: "d \<in> set (push_imp file x) \<Longrightarrow> dp_kind d = dep_include"
  by (auto simp: push_imp_def Let_def split: option.splits)

lemma import_not_call: "d \<in> set (import_deps file src l) \<Longrightarrow> dp_kind d = dep_include"
  by (auto simp: import_deps_def Let_def split: if_splits dest: push_imp_not_call)

lemma def_sym_fields [simp]:
  "sy_kind (def_sym code d) = sym_function" "sy_name (def_sym code d) = fd_name d"
  "sy_start (def_sym code d) = of_nat (fd_start d)" "sy_end (def_sym code d) = of_nat (fd_body_end d)"
  by (simp_all add: def_sym_def)

lemma go_def_sym_fields [simp]:
  "sy_kind (go_def_sym code d) = sym_function \<or> sy_kind (go_def_sym code d) = sym_method"
  "sy_name (go_def_sym code d) = fd_name d"
  "sy_start (go_def_sym code d) = of_nat (fd_start d)" "sy_end (go_def_sym code d) = of_nat (fd_body_end d)"
  by (auto simp: go_def_sym_def Let_def)

text \<open>The definition of \<open>sym\<close> spans the offset \<open>q\<close>.\<close>

definition spans :: "Sym \<Rightarrow> nat \<Rightarrow> bool" where
  "spans s q \<longleftrightarrow> (sy_kind s = sym_function \<or> sy_kind s = sym_method) \<and> unat (sy_start s) \<le> q \<and> q < unat (sy_end s)"

definition attributed :: "string \<Rightarrow> Sym list \<Rightarrow> Dep \<Rightarrow> bool" where
  "attributed code syms d \<longleftrightarrow>
     (\<exists>q. call_site code q (dp_to_name d) \<and>
       (dp_from_sym d = 0 \<or> (\<exists>k < length syms. dp_from_sym d = int k + 1 \<and> spans (syms ! k) q)))"

lemma unat_of_nat_u32: "n < 4294967296 \<Longrightarrow> unat (of_nat n :: u32) = n"
  by (simp add: unat_of_nat)

lemma call_deps_attributed:
  assumes "d \<in> set (call_deps kw file code defs (length pre))" "list_all (def_in code) defs" "length code < 4294967296"
    and f: "\<And>x. x \<in> set defs \<Longrightarrow> (sy_kind (f x) = sym_function \<or> sy_kind (f x) = sym_method) \<and>
              sy_start (f x) = of_nat (fd_start x) \<and> sy_end (f x) = of_nat (fd_body_end x)"
  shows "dp_from_file d = file \<and> \<not> kw (dp_to_name d) \<and> attributed code (pre @ map f defs @ post) d"
proof -
  obtain q where q: "call_site code q (dp_to_name d)" "\<not> kw (dp_to_name d)" "dp_from_file d = file"
    "dp_from_sym d = (case inside_def defs q of Some e \<Rightarrow> int (length pre + e + 1) | None \<Rightarrow> 0)"
    using assms(1) by (rule call_deps_site)
  have "attributed code (pre @ map f defs @ post) d"
  proof (cases "inside_def defs q")
    case None
    then show ?thesis using q by (auto simp: attributed_def)
  next
    case (Some e)
    let ?x = "defs ! e"
    have e: "e < length defs" "fd_body_open ?x < q" "q < fd_body_end ?x" using inside_def_SomeD [OF Some] by auto
    then have "def_in code ?x" using assms(2) by (simp add: list_all_length)
    then have "spans (f ?x) q"
      using f [OF nth_mem [OF e(1)]] e(2,3) assms(3) by (auto simp: spans_def def_in_def unat_of_nat_u32)
    moreover have "(pre @ map f defs @ post) ! (length pre + e) = f ?x" using e(1) by (simp add: nth_append)
    ultimately have "\<exists>k < length (pre @ map f defs @ post). dp_from_sym d = int k + 1 \<and> spans ((pre @ map f defs @ post) ! k) q"
      using q(4) Some e(1) by (intro exI [of _ "length pre + e"]) simp
    then show ?thesis using q(1) by (auto simp: attributed_def)
  qed
  then show ?thesis using q by simp
qed



section \<open>The ranges of symbols\<close>

definition range_ok :: "nat \<Rightarrow> Sym \<Rightarrow> bool" where
  "range_ok n s \<longleftrightarrow> unat (sy_start s) \<le> unat (sy_end s) \<and> unat (sy_end s) \<le> n"

lemma named_sym_range:
  assumes "off + length name \<le> n" "n < 4294967296"
  shows "range_ok n (named_sym k code name off)"
proof -
  have "unat (of_nat off + of_nat (length name) :: u32) = off + length name"
    using assms unat_of_nat_u32 [of "off + length name"] by simp
  then show ?thesis using assms by (simp add: range_ok_def named_sym_def unat_of_nat_u32)
qed

lemma suffix_sym_range:
  assumes "l \<in> set (for_each_line code)" "length rest \<le> length (ltrim (l_sv l))" "length code < 4294967296"
  shows "range_ok (length code) (named_sym k src (ident rest) (tbase l + length (ltrim (l_sv l)) - length rest))"
proof (rule named_sym_range [OF _ assms(3)])
  have "length (ident rest) \<le> length rest" by (simp add: ident_def length_takeWhile_le)
  then show "tbase l + length (ltrim (l_sv l)) - length rest + length (ident rest) \<le> length code"
    using assms(1,2) lines_at_bounds [of l 0 code] length_ltrim [of "l_sv l"] by (auto simp: for_each_line_def tbase_def)
qed

lemma typedef_rest_length: "length (typedef_rest t) \<le> length t"
  using length_ltrim [of "drop 7 t"] by (auto simp: typedef_rest_def)

lemma dropWhile_drop_length: "length (dropWhile P (drop k s)) \<le> length s"
  using length_dropWhile_le [of P "drop k s"] by simp

lemma ltrim_drop_length: "length (ltrim (drop k s)) \<le> length s"
  unfolding ltrim_def by (rule dropWhile_drop_length)

lemma macro_range:
  assumes "l \<in> set (for_each_line code)" "length code < 4294967296" "s \<in> set (macro_syms code l)"
  shows "range_ok (length code) s"
proof -
  let ?t = "ltrim (l_sv l)" and ?u = "dropWhile is_blank (drop 7 (ltrim (l_sv l)))"
  have le: "length ?u \<le> length ?t" by (rule dropWhile_drop_length)
  have "s = named_sym sym_macro code (ident ?u) (tbase l + length ?t - length ?u)"
    using assms(3) le by (auto simp: macro_syms_def Let_def split: if_splits)
  then show ?thesis using suffix_sym_range [OF assms(1) le assms(2)] by simp
qed

lemma type_range:
  assumes "l \<in> set (for_each_line code)" "length code < 4294967296" "type_syms code l = Some ss" "s \<in> set ss"
  shows "range_ok (length code) s"
proof -
  let ?t = "ltrim (l_sv l)"
  let ?after = "ltrim (drop (length (ident (typedef_rest ?t))) (typedef_rest ?t))"
  have a: "length ?after \<le> length ?t"
    using ltrim_drop_length typedef_rest_length [of ?t] by (rule order_trans)
  have b: "length (ltrim (dropWhile (\<lambda>c. \<not> is_blank c) ?after)) \<le> length ?t"
    using length_ltrim [of "dropWhile (\<lambda>c. \<not> is_blank c) ?after"] length_dropWhile_le [of "\<lambda>c. \<not> is_blank c" ?after] a
    by linarith
  show ?thesis
    using assms(3,4) suffix_sym_range [OF assms(1) a assms(2)] suffix_sym_range [OF assms(1) b assms(2)]
    by (auto simp: type_syms_def Let_def split: if_splits list.splits)
qed

lemma namespace_range:
  assumes "l \<in> set (for_each_line code)" "length code < 4294967296" "s \<in> set (namespace_syms code l)"
  shows "range_ok (length code) s"
  using assms(3) suffix_sym_range [OF assms(1) ltrim_drop_length assms(2)]
  by (auto simp: namespace_syms_def Let_def split: if_splits)

lemma skip_word_split:
  assumes "skip_word r = Some r'"
  obtains b w where "r = b @ w @ r'" "list_all is_blank b" "w \<noteq> []" "list_all is_ident_char w"
    "r' = [] \<or> \<not> is_ident_char (hd r')"
proof -
  have u: "ltrim r \<noteq> []" "is_ident_char (hd (ltrim r))" "r' = dropWhile is_ident_char (ltrim r)"
    using assms by (auto simp: skip_word_def Let_def split: if_splits)
  show thesis
  proof (rule that [of "takeWhile is_blank r" "takeWhile is_ident_char (ltrim r)"])
    show "r = takeWhile is_blank r @ takeWhile is_ident_char (ltrim r) @ r'" by (simp add: u(3) ltrim_def)
    show "takeWhile is_ident_char (ltrim r) \<noteq> []" using u(1,2) by (cases "ltrim r") auto
    show "r' = [] \<or> \<not> is_ident_char (hd r')" using u(3) hd_dropWhile by blast
  qed (auto simp: list_all_iff dest: set_takeWhileD)
qed

lemma global_symsD:
  assumes "s \<in> set (global_syms code defs l)"
  obtains r2 r3 where "skip_word r2 = Some r3" "suffix r2 (ltrim (l_sv l))" "r2 = [] \<or> \<not> is_ident_char (hd r2)"
    "s = named_sym sym_global code (take (length r2 - length r3) r2) (tbase l + (length (ltrim (l_sv l)) - length r2))"
proof -
  let ?t = "ltrim (l_sv l)"
  have body: "s \<in> set (case skip_word ?t of None \<Rightarrow> [] | Some r1 \<Rightarrow>
      (case (if take (length ?t - length r1) ?t \<in> set qualifiers then skip_word r1 else Some r1) of None \<Rightarrow> []
       | Some r2 \<Rightarrow> (case skip_word r2 of None \<Rightarrow> [] | Some r3 \<Rightarrow>
           (if ltrim r3 = [] \<or> hd (ltrim r3) \<noteq> CHR ''='' \<and> hd (ltrim r3) \<noteq> CHR '';'' \<and> hd (ltrim r3) \<noteq> CHR ''['' then []
            else [named_sym sym_global code (substr ?t (length ?t - length r2) (length ?t - length r3 - (length ?t - length r2)))
              (tbase l + (length ?t - length r2))]))))"
    using assms unfolding global_syms_def Let_def by (auto split: if_splits)
  obtain r1 where r1: "skip_word ?t = Some r1" using body by (cases "skip_word ?t") auto
  define g where "g = (if take (length ?t - length r1) ?t \<in> set qualifiers then skip_word r1 else Some r1)"
  obtain r2 where g: "g = Some r2" using body unfolding r1 option.case g_def [symmetric] by (cases g) auto
  obtain r3 where r3: "skip_word r2 = Some r3"
    using body unfolding r1 option.case g_def [symmetric] g by (cases "skip_word r2") auto
  have s: "s = named_sym sym_global code (substr ?t (length ?t - length r2) (length ?t - length r3 - (length ?t - length r2)))
          (tbase l + (length ?t - length r2))"
    using body unfolding r1 option.case g_def [symmetric] g r3 by (auto split: if_splits)
  note r = r1 g [unfolded g_def] r3
  have 1: "suffix r1 ?t" "r1 = [] \<or> \<not> is_ident_char (hd r1)"
    using r(1) by (auto elim!: skip_word_split simp: suffix_def)
  have 2: "suffix r2 r1 \<and> (r2 = [] \<or> \<not> is_ident_char (hd r2))"
  proof (cases "take (length ?t - length r1) ?t \<in> set qualifiers")
    case True
    then have "skip_word r1 = Some r2" using r(2) by simp
    then show ?thesis by (auto elim!: skip_word_split simp: suffix_def)
  qed (use 1 r(2) in auto)
  have suf: "suffix r2 ?t" using 1 2 suffix_order.trans by blast
  then obtain z where z: "?t = z @ r2" by (auto simp: suffix_def)
  have "suffix r3 r2" using r(3) by (auto elim!: skip_word_split simp: suffix_def)
  then have "length r3 \<le> length r2" by (rule suffix_length_le)
  then show thesis using that [OF r(3) suf] 2 s z by (simp add: substr_def)
qed

lemma global_range:
  assumes "l \<in> set (for_each_line code)" "length code < 4294967296" "s \<in> set (global_syms code defs l)"
  shows "range_ok (length code) s"
proof -
  let ?t = "ltrim (l_sv l)"
  from assms(3) obtain r2 r3 :: string where "suffix r2 ?t"
    and s: "s = named_sym sym_global code (take (length r2 - length r3) r2) (tbase l + (length ?t - length r2))"
    by (rule global_symsD) blast
  then have "length r2 \<le> length ?t" by (rule_tac suffix_length_le)
  then show ?thesis unfolding s
    using assms(1) lines_at_bounds [of l 0 code] length_ltrim [of "l_sv l"]
    by (intro named_sym_range [OF _ assms(2)]) (auto simp: for_each_line_def tbase_def)
qed

lemma def_sym_range: "def_in code d \<Longrightarrow> length code < 4294967296 \<Longrightarrow> range_ok (length code) (def_sym code d)"
  by (simp add: range_ok_def def_in_def unat_of_nat_u32)

lemma go_def_sym_range: "def_in code d \<Longrightarrow> length code < 4294967296 \<Longrightarrow> range_ok (length code) (go_def_sym code d)"
  by (simp add: range_ok_def def_in_def unat_of_nat_u32)

lemma scan_lines_extra:
  assumes "scan_lines f ls = Some (ds, es)" "\<And>l ds' es'. l \<in> set ls \<Longrightarrow> f l = Some (ds', es') \<Longrightarrow> list_all P es'"
  shows "list_all P es"
  using assms
proof (induction ls arbitrary: ds es)
  case (Cons l ls)
  obtain ds1 es1 ds2 es2 where "f l = Some (ds1, es1)" "scan_lines f ls = Some (ds2, es2)" "es = es1 @ es2"
    using Cons.prems(1) by (auto split: option.splits)
  then show ?case using Cons.IH [of ds2 es2] Cons.prems(2) by (simp; blast)
qed simp

lemma cpp_line_range:
  assumes "l \<in> set (for_each_line code)" "length code < 4294967296" "cpp_line code l = Some (ds, es)"
  shows "list_all (range_ok (length code)) es"
  using assms macro_range [OF assms(1,2)] type_range [OF assms(1,2)] namespace_range [OF assms(1,2)]
  by (auto simp: cpp_line_def Let_def list_all_iff split: if_splits)

lemma go_line_range:
  assumes "l \<in> set (for_each_line code)" "length code < 4294967296" "go_line code l = Some (ds, es)"
  shows "list_all (range_ok (length code)) es"
  using assms(3) suffix_sym_range [OF assms(1) ltrim_drop_length assms(2)]
  by (auto simp: go_line_def go_type_syms_def go_value_syms_def Let_def range_ok_def split: if_splits)

theorem extract_ranges:
  assumes "extract_lang lang file src = Some (Inr (syms, deps))" and "length src < 4294967296"
  shows "list_all (range_ok (length src)) syms"
proof (cases "lang = lang_go")
  case True
  let ?code = "mask_comments_and_strings src"
  obtain defs extra where x: "scan_lines (go_line ?code) (for_each_line ?code) = Some (defs, extra)"
    "syms = concat (map (package_syms src) (for_each_line src)) @ map (go_def_sym ?code) defs @ extra"
    using assms(1) True by (auto simp: extract_lang_def extract_go_def Let_def split: option.splits)
  have "list_all (range_ok (length src)) (concat (map (package_syms src) (for_each_line src)))"
    using suffix_sym_range [of _ src, OF _ ltrim_drop_length assms(2)]
    by (auto simp: list_all_iff package_syms_def Let_def split: if_splits)
  moreover have "list_all (range_ok (length src)) (map (go_def_sym ?code) defs)"
    using go_defs_in [OF x(1)] go_def_sym_range [of ?code] assms(2) by (simp add: list_all_iff)
  moreover have "list_all (range_ok (length src)) extra"
    using scan_lines_extra [OF x(1)] go_line_range [of _ ?code] assms(2) by simp
  ultimately show ?thesis using x(2) by simp
next
  case False
  let ?code = "mask_comments_and_strings src"
  obtain defs extra where x: "scan_lines (cpp_line ?code) (for_each_line ?code) = Some (defs, extra)"
    "syms = map (def_sym ?code) defs @ extra @ concat (map (global_syms ?code defs) (for_each_line ?code))"
    using assms(1) False by (cases lang) (auto simp: extract_lang_def extract_cpp_def Let_def split: option.splits)
  have "list_all (range_ok (length src)) (map (def_sym ?code) defs)"
    using cpp_defs_in [OF x(1)] def_sym_range [of ?code] assms(2) by (simp add: list_all_iff)
  moreover have "list_all (range_ok (length src)) extra"
    using scan_lines_extra [OF x(1)] cpp_line_range [of _ ?code] assms(2) by simp
  moreover have "list_all (range_ok (length src)) (concat (map (global_syms ?code defs) (for_each_line ?code)))"
    using global_range [of _ ?code] assms(2) by (auto simp: list_all_iff)
  ultimately show ?thesis using x(2) by simp
qed

section \<open>The numbers in a dependency\<close>

text \<open>No target is resolved yet, and a caller is the number of a symbol of the same extraction.\<close>

definition local_dep :: "nat \<Rightarrow> Dep \<Rightarrow> bool" where
  "local_dep n d \<longleftrightarrow> dp_to_sym d = 0 \<and> 0 \<le> dp_from_sym d \<and> dp_from_sym d \<le> int n"

lemma include_local: "d \<in> set (include_dep file l) \<Longrightarrow> local_dep n d"
  by (auto simp: include_dep_def local_dep_def empty_dep_def Let_def split: if_splits list.splits option.splits)

lemma import_local: "d \<in> set (import_deps file src l) \<Longrightarrow> local_dep n d"
  by (auto simp: import_deps_def push_imp_def local_dep_def empty_dep_def Let_def split: if_splits option.splits)

lemma call_local:
  assumes "d \<in> set (call_deps kw file code defs b)" "b + length defs \<le> n"
  shows "local_dep n d"
proof -
  obtain l i where "d \<in> set (call_at kw file code defs b l i)" using assms(1) by (auto simp: call_deps_def)
  then show ?thesis using assms(2) inside_def_SomeD
    by (fastforce simp: call_at_def local_dep_def empty_dep_def Let_def split: if_splits option.splits)
qed

lemma extract_local:
  assumes "extract_lang lang file src = Some (Inr (syms, deps))"
  shows "list_all (local_dep (length syms)) deps"
proof (cases "lang = lang_go")
  case True
  let ?pre = "concat (map (package_syms src) (for_each_line src))" and ?code = "mask_comments_and_strings src"
  obtain defs extra where x: "syms = ?pre @ map (go_def_sym ?code) defs @ extra"
    "deps = concat (map (import_deps file src) (for_each_line src)) @ call_deps is_go_keyword file ?code defs (length ?pre)"
    using assms True by (auto simp: extract_lang_def extract_go_def Let_def split: option.splits)
  have "local_dep (length syms) d" if "d \<in> set (call_deps is_go_keyword file ?code defs (length ?pre))" for d
    using that by (rule call_local) (simp add: x(1))
  then show ?thesis using import_local by (auto simp: x(2) list_all_iff)
next
  case False
  let ?code = "mask_comments_and_strings src"
  obtain defs extra where
    x: "syms = map (def_sym ?code) defs @ extra @ concat (map (global_syms ?code defs) (for_each_line ?code))"
    "deps = concat (map (include_dep file) (for_each_line src)) @ call_deps is_c_keyword file ?code defs 0"
    using assms False by (cases lang) (auto simp: extract_lang_def extract_cpp_def Let_def split: option.splits)
  have "local_dep (length syms) d" if "d \<in> set (call_deps is_c_keyword file ?code defs 0)" for d
    using that by (rule call_local) (simp add: x(1))
  then show ?thesis using include_local by (auto simp: x(2) list_all_iff)
qed

section \<open>Deviations\<close>

text \<open>
  The name of a C global starts with the blank in front of it, so no lookup by its identifier finds it: the start of
  the name is taken before the blanks are skipped.
\<close>

theorem global_name_blank:
  assumes "s \<in> set (global_syms code defs l)"
  shows "sy_name s \<noteq> [] \<and> is_blank (hd (sy_name s))"
proof -
  from assms obtain r2 r3 where r: "skip_word r2 = Some r3" "r2 = [] \<or> \<not> is_ident_char (hd r2)"
    and s: "sy_name s = take (length r2 - length r3) r2"
    by (rule global_symsD) (simp add: named_sym_def)
  obtain b w where "r2 = b @ w @ r3" "list_all is_blank b" "w \<noteq> []" "list_all is_ident_char w"
    using r(1) by (rule skip_word_split)
  moreover have "b \<noteq> []" using calculation r(2) by (cases w) auto
  ultimately show ?thesis using s by (cases b) auto
qed

text \<open>An \<open>enum class\<close> that ends its line makes \<open>substr(npos)\<close> throw inside a \<open>noexcept\<close> function.\<close>

theorem enum_class_terminates: "extract_lang lang_cpp file (''enum class'' @ [nl]) = None"
  by code_simp

text \<open>An escaped line break in a literal is blanked, so the symbols behind it are reported a line too early.\<close>

theorem escaped_newline_lost:
  "mask_comments_and_strings [dquote, bslash, nl, dquote, nl] = [sp, bslash, sp, sp, nl] \<and>
   line_of (mask_comments_and_strings [dquote, bslash, nl, dquote, nl]) 5 = 2 \<and> line_of [dquote, bslash, nl, dquote, nl] 5 = 3"
  by code_simp

text \<open>The name of an out-of-class definition is qualified, and the definition is also recorded as a call.\<close>

theorem qualified_def_is_call:
  "map_option (map_sum id (\<lambda>(ss, ds). (map sy_name ss, map (\<lambda>d. (dp_to_name d, dp_from_sym d)) ds)))
     (extract_lang lang_cpp file ''int A::f() { }'') = Some (Inr ([''A::f''], [(''f'', 0)]))"
  by code_simp

end
