(* ===== verification/Graph_Index.thy ===== *)
theory Graph_Index
  imports Graph_Symbols "HOL-Library.AList"
begin

text \<open>
  The symbol index of \<open>src/graph/index.cpp\<close>, \<open>callgraph.cpp\<close>, \<open>lazy.cpp\<close> and
  \<open>queries.cpp\<close>. Symbols and dependencies live in two arrays; removing a file overwrites its entries with
  tombstones, and the dependency array is compacted when half of it is dead. Reading a file is a parameter:
  \<open>rd\<close> gives the text of a path, \<open>st\<close> the text with its time stamp and size. Identifiers and array
  positions are unbounded here, which is faithful below \<open>2 ^ 31\<close> symbols.

  The theorems say that every sequence of indexing operations keeps the two arrays, the name table and the file table
  consistent, so that no query returns an entry of a file that was removed or parsed again, and what the queries
  answer.
\<close>

section \<open>State\<close>

record Snippet =
  sn_sym :: string
  sn_file :: string
  sn_text :: string
  sn_line :: u32
  sn_bytes :: nat
  sn_truncated :: bool

definition empty_snippet :: Snippet where
  "empty_snippet = \<lparr>sn_sym = [], sn_file = [], sn_text = [], sn_line = 0, sn_bytes = 0, sn_truncated = False\<rparr>"

record IndexLimits =
  lim_snippet_bytes :: nat
  lim_context_total_bytes :: nat
  lim_max_syms_per_file :: nat
  lim_max_deps_per_file :: nat
  lim_cache_files :: nat

definition default_limits :: IndexLimits where
  "default_limits = \<lparr>lim_snippet_bytes = 4096, lim_context_total_bytes = 16384, lim_max_syms_per_file = 4096,
     lim_max_deps_per_file = 8192, lim_cache_files = 256\<rparr>"

record ParsedFile =
  pf_mtime :: u64
  pf_size :: u64
  pf_sym_first :: nat
  pf_sym_count :: nat
  pf_dep_first :: nat
  pf_dep_count :: nat
  pf_lang :: Lang

text \<open>
  The tables of files and of time stamps are association lists, since their sizes and members are read; the order of
  the members of \<open>touch_\<close> does not matter, because no two time stamps are equal.
\<close>

record SymbolIndex =
  ix_limits :: IndexLimits
  ix_syms :: "Sym list"
  ix_deps :: "Dep list"
  ix_by_name :: "string \<rightharpoonup> int list"
  ix_files :: "(string \<times> ParsedFile) list"
  ix_touch :: "(string \<times> nat) list"
  ix_touch_clock :: nat
  ix_version :: u32
  ix_extract_count :: u32

definition new_index :: "IndexLimits \<Rightarrow> SymbolIndex" where
  "new_index lim = \<lparr>ix_limits = lim, ix_syms = [], ix_deps = [], ix_by_name = Map.empty, ix_files = [], ix_touch = [],
     ix_touch_clock = 0, ix_version = 0, ix_extract_count = 0\<rparr>"

definition set_cache_cap :: "nat \<Rightarrow> SymbolIndex \<Rightarrow> SymbolIndex" where
  "set_cache_cap n ix = ix\<lparr>ix_limits := (ix_limits ix)\<lparr>lim_cache_files := n\<rparr>\<rparr>"

section \<open>Removing a file\<close>

definition detect_lang :: "string \<Rightarrow> Lang" where
  "detect_lang file = (case rfind_char CHR ''.'' file of
     None \<Rightarrow> lang_unknown
   | Some dot \<Rightarrow>
       (let ext = drop dot file in
        if ext = ''.c'' then lang_c
        else if ext \<in> set [''.cpp'', ''.cc'', ''.cxx'', ''.hpp'', ''.hh'', ''.hxx'', ''.h'', ''.ipp''] then lang_cpp
        else if ext = ''.go'' then lang_go
        else lang_unknown))"

definition forget_name :: "string \<Rightarrow> int \<Rightarrow> (string \<rightharpoonup> int list) \<Rightarrow> (string \<rightharpoonup> int list)" where
  "forget_name n i m = (case m n of
     None \<Rightarrow> m
   | Some v \<Rightarrow> (let v' = filter (\<lambda>x. x \<noteq> i) v in if v' = [] then m(n := None) else m(n \<mapsto> v')))"

definition clear_sym :: "nat \<Rightarrow> SymbolIndex \<Rightarrow> SymbolIndex" where
  "clear_sym i ix =
     (let s = ix_syms ix ! i in
      if sy_id s = 0 then ix
      else ix\<lparr>ix_by_name := forget_name (sy_name s) (sy_id s) (ix_by_name ix), ix_syms := (ix_syms ix)[i := empty_sym]\<rparr>)"

definition clear_dep :: "nat \<Rightarrow> SymbolIndex \<Rightarrow> SymbolIndex" where
  "clear_dep i ix = ix\<lparr>ix_deps := (ix_deps ix)[i := empty_dep]\<rparr>"

definition close_run :: "string \<Rightarrow> nat \<Rightarrow> nat \<Rightarrow> (string \<times> ParsedFile) list \<Rightarrow> (string \<times> ParsedFile) list" where
  "close_run cur run_start e fs =
     (if cur = [] then fs
      else case map_of fs cur of
        None \<Rightarrow> fs
      | Some pf \<Rightarrow> AList.update cur (pf\<lparr>pf_dep_first := run_start, pf_dep_count := e - run_start\<rparr>) fs)"

fun rebuild_runs :: "string \<Rightarrow> nat \<Rightarrow> nat \<Rightarrow> Dep list \<Rightarrow> (string \<times> ParsedFile) list \<Rightarrow> (string \<times> ParsedFile) list" where
  "rebuild_runs cur run_start i [] fs = close_run cur run_start i fs"
| "rebuild_runs cur run_start i (d # ds) fs =
     (if dp_from_file d \<noteq> cur then rebuild_runs (dp_from_file d) i (i + 1) ds (close_run cur run_start i fs)
      else rebuild_runs cur run_start (i + 1) ds fs)"

definition maybe_compact_deps :: "SymbolIndex \<Rightarrow> SymbolIndex" where
  "maybe_compact_deps ix =
     (let ds = ix_deps ix; dead = length (filter (\<lambda>d. dp_from_file d = []) ds) in
      if length ds < 8192 then ix
      else if dead * 2 < length ds then ix
      else let ds' = filter (\<lambda>d. dp_from_file d \<noteq> []) ds in
        ix\<lparr>ix_deps := ds', ix_files := rebuild_runs [] 0 0 ds' (ix_files ix)\<rparr>)"

definition remove_file :: "string \<Rightarrow> SymbolIndex \<Rightarrow> SymbolIndex" where
  "remove_file file ix = (case map_of (ix_files ix) file of
     None \<Rightarrow> ix
   | Some pf \<Rightarrow>
       (let ix1 = fold clear_sym [pf_sym_first pf..<min (pf_sym_first pf + pf_sym_count pf) (length (ix_syms ix))] ix;
            ix2 = fold clear_dep [pf_dep_first pf..<min (pf_dep_first pf + pf_dep_count pf) (length (ix_deps ix1))] ix1 in
        maybe_compact_deps (ix2\<lparr>ix_files := AList.delete file (ix_files ix2), ix_touch := AList.delete file (ix_touch ix2),
                                ix_version := ix_version ix2 + 1\<rparr>)))"

section \<open>Indexing a file\<close>

definition add_sym :: "string \<Rightarrow> Lang \<Rightarrow> Sym \<Rightarrow> SymbolIndex \<Rightarrow> SymbolIndex" where
  "add_sym file lang s ix =
     (let i = int (length (ix_syms ix)) + 1;
          old = (case ix_by_name ix (sy_name s) of None \<Rightarrow> [] | Some v \<Rightarrow> v) in
      ix\<lparr>ix_by_name := (ix_by_name ix)(sy_name s \<mapsto> old @ [i]),
         ix_syms := ix_syms ix @ [s\<lparr>sy_id := i, sy_file := file, sy_lang := lang\<rparr>]\<rparr>)"

text \<open>\<open>name_to_id.emplace\<close> keeps the first symbol of a name, as \<open>map_of\<close> does.\<close>

definition name_to_id :: "nat \<Rightarrow> Sym list \<Rightarrow> (string \<rightharpoonup> int)" where
  "name_to_id sym_base syms = map_of (zip (map sy_name syms) (map (\<lambda>k. int (sym_base + k) + 1) [0..<length syms]))"

definition link_dep :: "string \<Rightarrow> nat \<Rightarrow> (string \<rightharpoonup> int) \<Rightarrow> Dep \<Rightarrow> Dep" where
  "link_dep file sym_base ids d =
     d\<lparr>dp_from_file := file,
       dp_from_sym := (if dp_from_sym d \<noteq> 0 then dp_from_sym d + int sym_base else dp_from_sym d),
       dp_to_sym := (case ids (dp_to_name d) of Some i \<Rightarrow> i | None \<Rightarrow> dp_to_sym d)\<rparr>"

definition extract_into :: "string \<Rightarrow> Lang \<Rightarrow> Sym list \<Rightarrow> Dep list \<Rightarrow> SymbolIndex \<Rightarrow> SymbolIndex" where
  "extract_into file lang syms deps ix =
     (let sym_base = length (ix_syms ix); dep_base = length (ix_deps ix);
          ss = take (lim_max_syms_per_file (ix_limits ix)) syms;
          ds = take (lim_max_deps_per_file (ix_limits ix)) deps;
          ix1 = fold (add_sym file lang) ss ix;
          pf = \<lparr>pf_mtime = 0, pf_size = 0, pf_sym_first = sym_base, pf_sym_count = length ss, pf_dep_first = dep_base,
                pf_dep_count = length ds, pf_lang = lang\<rparr> in
      ix1\<lparr>ix_deps := ix_deps ix1 @ map (link_dep file sym_base (name_to_id sym_base ss)) ds,
          ix_files := AList.update file pf (ix_files ix1),
          ix_version := ix_version ix1 + 1, ix_extract_count := ix_extract_count ix1 + 1\<rparr>)"

definition index_text :: "string \<Rightarrow> Lang \<Rightarrow> string \<Rightarrow> SymbolIndex \<Rightarrow> (error_code \<times> SymbolIndex) option" where
  "index_text file lang src ix = (case extract_lang lang file src of
     None \<Rightarrow> None
   | Some (Inl ec) \<Rightarrow> Some (ec, ix)
   | Some (Inr (syms, deps)) \<Rightarrow>
       (let ix1 = (if map_of (ix_files ix) file \<noteq> None then remove_file file ix else ix) in
        Some (ok, extract_into file lang syms deps ix1)))"

definition extract_file :: "(string \<Rightarrow> string option) \<Rightarrow> string \<Rightarrow> SymbolIndex \<Rightarrow> (error_code \<times> SymbolIndex) option" where
  "extract_file rd file ix =
     (let lang = detect_lang file in
      if lang = lang_unknown then Some (make_error e_missing_cfg, ix)
      else case rd file of
        None \<Rightarrow> Some (make_error e_missing_cfg, ix)
      | Some src \<Rightarrow> index_text file lang src ix)"

fun lru :: "nat \<Rightarrow> string \<Rightarrow> (string \<times> nat) list \<Rightarrow> string" where
  "lru mn victim [] = victim"
| "lru mn victim ((file, t) # ts) = (if t < mn then lru t file ts else lru mn victim ts)"

definition evict_lru :: "SymbolIndex \<Rightarrow> SymbolIndex" where
  "evict_lru ix =
     (if length (ix_files ix) \<le> lim_cache_files (ix_limits ix) then ix
      else let victim = lru u64_max [] (ix_touch ix) in
        if victim \<noteq> [] then remove_file victim ix else ix)"

definition touch_file :: "string \<Rightarrow> SymbolIndex \<Rightarrow> SymbolIndex" where
  "touch_file file ix =
     ix\<lparr>ix_touch_clock := ix_touch_clock ix + 1, ix_touch := AList.update file (ix_touch_clock ix + 1) (ix_touch ix)\<rparr>"

definition stamp_file :: "string \<Rightarrow> u64 \<Rightarrow> u64 \<Rightarrow> SymbolIndex \<Rightarrow> SymbolIndex" where
  "stamp_file file mtime sz ix = (case map_of (ix_files ix) file of
     None \<Rightarrow> ix
   | Some pf \<Rightarrow> ix\<lparr>ix_files := AList.update file (pf\<lparr>pf_mtime := mtime, pf_size := sz\<rparr>) (ix_files ix)\<rparr>)"

text \<open>The result holds the error code, what is written to \<open>changed\<close> (\<open>None\<close>: nothing) and the index.\<close>

definition ensure_indexed ::
    "(string \<Rightarrow> (string \<times> u64 \<times> u64) option) \<Rightarrow> string \<Rightarrow> SymbolIndex \<Rightarrow> (error_code \<times> string option \<times> SymbolIndex) option" where
  "ensure_indexed st file ix = (case st file of
     None \<Rightarrow> Some (make_error e_missing_cfg, None, ix)
   | Some (src, mtime, sz) \<Rightarrow>
       (if (case map_of (ix_files ix) file of None \<Rightarrow> False | Some pf \<Rightarrow> pf_mtime pf = mtime \<and> pf_size pf = sz)
        then Some (ok, Some [], touch_file file ix)
        else case index_text file (detect_lang file) src ix of
          None \<Rightarrow> None
        | Some (ec, ix1) \<Rightarrow>
            (if \<not> is_ok ec then Some (ec, None, ix1)
             else Some (ok, Some file, evict_lru (touch_file file (stamp_file file mtime sz ix1))))))"

section \<open>Queries\<close>

definition live :: "SymbolIndex \<Rightarrow> int \<Rightarrow> Sym option" where
  "live ix i =
     (if i < 1 \<or> i > int (length (ix_syms ix)) then None
      else let s = ix_syms ix ! (nat i - 1) in if sy_id s \<noteq> i then None else Some s)"

fun best_of :: "SymbolIndex \<Rightarrow> string \<Rightarrow> Sym option \<Rightarrow> int list \<Rightarrow> Sym option" where
  "best_of ix hint best [] = best"
| "best_of ix hint best (i # is) = (case live ix i of
     None \<Rightarrow> best_of ix hint best is
   | Some s \<Rightarrow> best_of ix hint (if best = None \<or> hint \<noteq> [] \<and> sy_file s = hint then Some s else best) is)"

definition lookup :: "SymbolIndex \<Rightarrow> string \<Rightarrow> string \<Rightarrow> error_code + Sym" where
  "lookup ix q hint =
     (case (case ix_by_name ix q of None \<Rightarrow> None | Some v \<Rightarrow> best_of ix hint None v) of
        Some s \<Rightarrow> Inr s
      | None \<Rightarrow> (case find (\<lambda>s. sy_id s \<noteq> 0 \<and> sy_qual s = q) (ix_syms ix) of
          Some s \<Rightarrow> Inr s
        | None \<Rightarrow> (case find (\<lambda>s. sy_id s \<noteq> 0 \<and> sy_name s = q) (ix_syms ix) of
            Some s \<Rightarrow> Inr s
          | None \<Rightarrow> Inl (make_error e_missing_cfg))))"

definition sym_by_id :: "SymbolIndex \<Rightarrow> int \<Rightarrow> error_code + Sym" where
  "sym_by_id ix i = (case live ix i of None \<Rightarrow> Inl (make_error e_missing_cfg) | Some s \<Rightarrow> Inr s)"

definition all_syms :: "SymbolIndex \<Rightarrow> SymKind \<Rightarrow> string \<Rightarrow> nat \<Rightarrow> Sym list" where
  "all_syms ix kind pre limit =
     (let r = filter (\<lambda>s. sy_id s \<noteq> 0 \<and> (kind = sym_unknown \<or> sy_kind s = kind) \<and>
                          (pre = [] \<or> starts_with (sy_name s) pre)) (ix_syms ix) in
      if limit \<noteq> 0 then take limit r else r)"

text \<open>
  The range of a symbol is cut to the text, which may have changed since it was parsed, and widened to whole lines. A
  range of an index never ends before it starts; the first disjunct of the cap stands for the wrap-around of
  \<open>e - b\<close>.
\<close>

definition sym_text :: "string \<Rightarrow> Sym \<Rightarrow> nat \<Rightarrow> bool \<times> string" where
  "sym_text src s cap =
     (let b0 = min (unat (sy_start s)) (length src); e0 = min (unat (sy_end s)) (length src);
          b = back_over (\<lambda>c. c \<noteq> nl) src 0 b0;
          e = e0 + length (takeWhile (\<lambda>c. c \<noteq> nl) (drop e0 src));
          long = (e < b \<or> e - b > cap) in
      (long, substr src b (if long then cap else e - b)))"

definition snippet :: "(string \<Rightarrow> string option) \<Rightarrow> SymbolIndex \<Rightarrow> int \<Rightarrow> nat \<Rightarrow> Snippet \<Rightarrow> error_code \<times> Snippet" where
  "snippet rd ix i max_bytes out =
     (if i < 1 \<or> i > int (length (ix_syms ix)) then (make_error e_missing_cfg, out)
      else let s = ix_syms ix ! (nat i - 1); title = (if sy_qual s = [] then sy_name s else sy_qual s) in
        if sy_id s = 0 then (make_error e_missing_cfg, out)
        else case rd (sy_file s) of
          None \<Rightarrow> (make_error e_missing_cfg, out)
        | Some src \<Rightarrow>
            (if src = [] then (ok, empty_snippet\<lparr>sn_sym := title, sn_file := sy_file s, sn_line := sy_line s\<rparr>)
             else case sym_text src s (if max_bytes \<noteq> 0 then max_bytes else lim_snippet_bytes (ix_limits ix)) of (long, t) \<Rightarrow>
               (ok, out\<lparr>sn_truncated := long \<or> sn_truncated out, sn_sym := title, sn_file := sy_file s, sn_line := sy_line s,
                        sn_text := t, sn_bytes := length t\<rparr>)))"

definition append_unique :: "'a list \<Rightarrow> 'a \<Rightarrow> 'a list" where
  "append_unique v x = (if x \<in> set v then v else v @ [x])"

definition callees :: "SymbolIndex \<Rightarrow> int \<Rightarrow> string list" where
  "callees ix i = fold (\<lambda>d out.
     if dp_from_file d = [] then out
     else if dp_from_sym d = i \<and> dp_kind d = dep_call then append_unique out (dp_to_name d) else out) (ix_deps ix) []"

definition callers_of :: "SymbolIndex \<Rightarrow> int \<Rightarrow> int list" where
  "callers_of ix i = fold (\<lambda>d out.
     if dp_from_file d = [] then out
     else if dp_to_sym d = i \<and> dp_kind d = dep_call \<and> dp_from_sym d \<noteq> 0 then append_unique out (dp_from_sym d) else out)
     (ix_deps ix) []"

definition callers_of_name :: "SymbolIndex \<Rightarrow> string \<Rightarrow> int list" where
  "callers_of_name ix name = fold (\<lambda>d out.
     if dp_from_file d = [] then out
     else if dp_kind d = dep_call \<and> dp_from_sym d \<noteq> 0 \<and> dp_to_name d = name then append_unique out (dp_from_sym d) else out)
     (ix_deps ix) []"

text \<open>\<open>push_snippet\<close> returns whether budget is left, with the budget and the list it updates.\<close>

definition push_snippet :: "(string \<Rightarrow> string option) \<Rightarrow> SymbolIndex \<Rightarrow> int \<Rightarrow> nat \<Rightarrow> Snippet list \<Rightarrow> bool \<times> nat \<times> Snippet list" where
  "push_snippet rd ix i budget out =
     (case snippet rd ix i 0 empty_snippet of (ec, sn) \<Rightarrow>
        if \<not> is_ok ec then (budget > 0, budget, out)
        else if sn_bytes sn > budget then
          (False, 0, out @ [sn\<lparr>sn_text := take budget (sn_text sn), sn_bytes := budget, sn_truncated := True\<rparr>])
        else (budget - sn_bytes sn > 0, budget - sn_bytes sn, out @ [sn]))"

fun push_callees :: "(string \<Rightarrow> string option) \<Rightarrow> SymbolIndex \<Rightarrow> string \<Rightarrow> string list \<Rightarrow> nat \<Rightarrow> Snippet list \<Rightarrow> Snippet list" where
  "push_callees rd ix file [] budget out = out"
| "push_callees rd ix file (c # cs) budget out =
     (if budget = 0 then out
      else case lookup ix c file of
        Inl _ \<Rightarrow> push_callees rd ix file cs budget out
      | Inr s \<Rightarrow> (case push_snippet rd ix (sy_id s) budget out of (left, budget', out') \<Rightarrow>
          if \<not> left then out' else push_callees rd ix file cs budget' out'))"

definition snippet_for_call :: "(string \<Rightarrow> string option) \<Rightarrow> SymbolIndex \<Rightarrow> string \<Rightarrow> string \<Rightarrow> error_code \<times> Snippet list" where
  "snippet_for_call rd ix call_file call_name = (case lookup ix call_name call_file of
     Inl ec \<Rightarrow> (ec, [])
   | Inr callee \<Rightarrow>
       (case push_snippet rd ix (sy_id callee) (lim_context_total_bytes (ix_limits ix)) [] of (left, budget, out) \<Rightarrow>
          if \<not> left then (ok, out)
          else let cals = callees ix (sy_id callee) in
            if length cals > 8 then (ok, out) else (ok, push_callees rd ix (sy_file callee) cals budget out)))"

record ChangeScan =
  cs_budget :: nat
  cs_seen :: "int list"
  cs_out :: "Snippet list"

text \<open>The loops return whether they go on.\<close>

definition push_seen :: "(string \<Rightarrow> string option) \<Rightarrow> SymbolIndex \<Rightarrow> int \<Rightarrow> ChangeScan \<Rightarrow> bool \<times> ChangeScan" where
  "push_seen rd ix i cs = (case push_snippet rd ix i (cs_budget cs) (cs_out cs) of (left, budget, out) \<Rightarrow>
     (left, cs\<lparr>cs_budget := budget, cs_seen := append_unique (cs_seen cs) i, cs_out := out\<rparr>))"

fun change_callers :: "(string \<Rightarrow> string option) \<Rightarrow> SymbolIndex \<Rightarrow> int list \<Rightarrow> ChangeScan \<Rightarrow> bool \<times> ChangeScan" where
  "change_callers rd ix [] cs = (True, cs)"
| "change_callers rd ix (c # rest) cs =
     (if cs_budget cs = 0 then (False, cs)
      else if c \<in> set (cs_seen cs) then change_callers rd ix rest cs
      else case push_seen rd ix c cs of (left, cs') \<Rightarrow> if left then change_callers rd ix rest cs' else (False, cs'))"

fun change_syms :: "(string \<Rightarrow> string option) \<Rightarrow> SymbolIndex \<Rightarrow> string \<Rightarrow> nat list \<Rightarrow> ChangeScan \<Rightarrow> bool \<times> ChangeScan" where
  "change_syms rd ix f [] cs = (True, cs)"
| "change_syms rd ix f (i # is) cs =
     (if cs_budget cs = 0 then (False, cs)
      else let s = ix_syms ix ! i in
        if sy_id s = 0 \<or> sy_file s \<noteq> f then change_syms rd ix f is cs
        else case push_seen rd ix (sy_id s) cs of (left, cs1) \<Rightarrow>
          (if \<not> left then (False, cs1)
           else case change_callers rd ix (callers_of ix (sy_id s)) cs1 of (left', cs2) \<Rightarrow>
             (if left' then change_syms rd ix f is cs2 else (False, cs2))))"

fun change_files :: "(string \<Rightarrow> string option) \<Rightarrow> SymbolIndex \<Rightarrow> string list \<Rightarrow> ChangeScan \<Rightarrow> ChangeScan" where
  "change_files rd ix [] cs = cs"
| "change_files rd ix (f # fs) cs = (case map_of (ix_files ix) f of
     None \<Rightarrow> change_files rd ix fs cs
   | Some pf \<Rightarrow>
       (case change_syms rd ix f [pf_sym_first pf..<pf_sym_first pf + pf_sym_count pf] cs of (left, cs') \<Rightarrow>
          if left then change_files rd ix fs cs' else cs'))"

definition context_for_change :: "(string \<Rightarrow> string option) \<Rightarrow> SymbolIndex \<Rightarrow> string list \<Rightarrow> error_code \<times> Snippet list" where
  "context_for_change rd ix files =
     (ok, cs_out (change_files rd ix files \<lparr>cs_budget = lim_context_total_bytes (ix_limits ix), cs_seen = [], cs_out = []\<rparr>))"

section \<open>The name table is a function of the symbols\<close>

definition ids_of :: "Sym list \<Rightarrow> string \<Rightarrow> int list" where
  "ids_of syms n = map sy_id (filter (\<lambda>s. sy_id s \<noteq> 0 \<and> sy_name s = n) syms)"

definition some_ids :: "int list \<Rightarrow> int list option" where
  "some_ids v = (if v = [] then None else Some v)"

definition numbered :: "Sym list \<Rightarrow> bool" where
  "numbered syms \<longleftrightarrow> (\<forall>i < length syms. syms ! i = empty_sym \<or> sy_id (syms ! i) = int i + 1)"

lemma empty_sym_id [simp]: "sy_id empty_sym = 0" "sy_name empty_sym = []" "sy_file empty_sym = []"
  by (simp_all add: empty_sym_def)

lemma empty_dep_fields [simp]: "dp_from_file empty_dep = []" "dp_from_sym empty_dep = 0" "dp_to_sym empty_dep = 0"
  by (simp_all add: empty_dep_def)

lemma ids_of_append [simp]: "ids_of (xs @ ys) n = ids_of xs n @ ids_of ys n"
  by (simp add: ids_of_def)

lemma ids_of_Cons: "ids_of (s # ys) n = (if sy_id s \<noteq> 0 \<and> sy_name s = n then [sy_id s] else []) @ ids_of ys n"
  by (simp add: ids_of_def)

lemma numbered_nth: "numbered syms \<Longrightarrow> i < length syms \<Longrightarrow> sy_id (syms ! i) \<noteq> 0 \<Longrightarrow> sy_id (syms ! i) = int i + 1"
  unfolding numbered_def by fastforce

lemma ids_of_mem:
  assumes "x \<in> set (ids_of ys n)"
  obtains j where "j < length ys" "sy_id (ys ! j) = x" "x \<noteq> 0" "sy_name (ys ! j) = n"
  using assms by (auto simp: ids_of_def in_set_conv_nth)

lemma ids_of_update:
  assumes "numbered syms" "i < length syms" "sy_id (syms ! i) \<noteq> 0"
  shows "ids_of (syms[i := empty_sym]) n =
    (if sy_name (syms ! i) = n then filter (\<lambda>x. x \<noteq> sy_id (syms ! i)) (ids_of syms n) else ids_of syms n)"
proof -
  let ?a = "take i syms" and ?b = "drop (Suc i) syms" and ?s = "syms ! i"
  have id: "sy_id ?s = int i + 1" using numbered_nth [OF assms] .
  have a: "filter (\<lambda>x. x \<noteq> sy_id ?s) (ids_of ?a n) = ids_of ?a n"
  proof (rule filter_True, rule ballI)
    fix x assume "x \<in> set (ids_of ?a n)"
    then obtain j where "j < length ?a" "sy_id (?a ! j) = x" "x \<noteq> 0" by (rule ids_of_mem)
    then show "x \<noteq> sy_id ?s" using numbered_nth [OF assms(1), of j] id by auto
  qed
  have b: "filter (\<lambda>x. x \<noteq> sy_id ?s) (ids_of ?b n) = ids_of ?b n"
  proof (rule filter_True, rule ballI)
    fix x assume "x \<in> set (ids_of ?b n)"
    then obtain j where "j < length ?b" "sy_id (?b ! j) = x" "x \<noteq> 0" by (rule ids_of_mem)
    then show "x \<noteq> sy_id ?s" using numbered_nth [OF assms(1), of "Suc (i + j)"] id by auto
  qed
  have "ids_of (?a @ ?s # ?b) n = ids_of ?a n @ (if sy_name ?s = n then [sy_id ?s] else []) @ ids_of ?b n"
    using assms(3) by (simp add: ids_of_Cons)
  then have "ids_of syms n = ids_of ?a n @ (if sy_name ?s = n then [sy_id ?s] else []) @ ids_of ?b n"
    by (simp only: id_take_nth_drop [OF assms(2), symmetric])
  moreover have "ids_of (syms[i := empty_sym]) n = ids_of ?a n @ ids_of ?b n"
    using assms(2) by (simp add: upd_conv_take_nth_drop ids_of_Cons)
  ultimately show ?thesis using a b by simp
qed

lemma numbered_update: "numbered syms \<Longrightarrow> numbered (syms[i := empty_sym])"
  unfolding numbered_def by (metis length_list_update nth_list_update_eq nth_list_update_neq)

lemma forget_name_ids:
  assumes "numbered syms" "i < length syms" "sy_id (syms ! i) \<noteq> 0"
  shows "forget_name (sy_name (syms ! i)) (sy_id (syms ! i)) (\<lambda>n. some_ids (ids_of syms n)) =
    (\<lambda>n. some_ids (ids_of (syms[i := empty_sym]) n))"
  unfolding ids_of_update [OF assms] by (auto simp: forget_name_def some_ids_def Let_def fun_eq_iff)

definition blank_at :: "nat list \<Rightarrow> 'a \<Rightarrow> 'a list \<Rightarrow> 'a list" where
  "blank_at is z xs = fold (\<lambda>i ys. ys[i := z]) is xs"

lemma blank_at_length [simp]: "length (blank_at is z xs) = length xs"
  by (induction "is" arbitrary: xs) (simp_all add: blank_at_def)

lemma blank_at_nth: "j < length xs \<Longrightarrow> blank_at is z xs ! j = (if j \<in> set is then z else xs ! j)"
  by (induction "is" arbitrary: xs) (auto simp: blank_at_def nth_list_update)

definition name_table :: "Sym list \<Rightarrow> (string \<rightharpoonup> int list)" where
  "name_table syms = (\<lambda>n. some_ids (ids_of syms n))"

lemma clear_sym_effect:
  assumes "numbered (ix_syms ix)" "ix_by_name ix = name_table (ix_syms ix)" "i < length (ix_syms ix)"
  shows "clear_sym i ix = ix\<lparr>ix_by_name := name_table ((ix_syms ix)[i := empty_sym]), ix_syms := (ix_syms ix)[i := empty_sym]\<rparr>"
proof (cases "sy_id (ix_syms ix ! i) = 0")
  case True
  then have "ix_syms ix ! i = empty_sym" using assms(1,3) by (auto simp: numbered_def)
  then have "(ix_syms ix)[i := empty_sym] = ix_syms ix" by (metis list_update_id)
  then show ?thesis using assms(2) True by (simp add: clear_sym_def)
next
  case False
  then show ?thesis using assms forget_name_ids [of "ix_syms ix" i] by (simp add: clear_sym_def Let_def name_table_def)
qed

lemma fold_clear_sym:
  assumes "numbered (ix_syms ix)" "ix_by_name ix = name_table (ix_syms ix)" "set is \<subseteq> {..<length (ix_syms ix)}"
  shows "fold clear_sym is ix =
    ix\<lparr>ix_by_name := name_table (blank_at is empty_sym (ix_syms ix)), ix_syms := blank_at is empty_sym (ix_syms ix)\<rparr>"
  using assms
proof (induction "is" arbitrary: ix)
  case (Cons i "is")
  then show ?case
    by (simp add: clear_sym_effect numbered_update) (simp add: blank_at_def)
qed (simp add: blank_at_def)

lemma numbered_blank: "numbered syms \<Longrightarrow> numbered (blank_at is empty_sym syms)"
  by (auto simp: numbered_def blank_at_nth)

lemma fold_clear_dep: "fold clear_dep is ix = ix\<lparr>ix_deps := blank_at is empty_dep (ix_deps ix)\<rparr>"
  by (induction "is" arbitrary: ix) (simp_all add: clear_dep_def blank_at_def)

text \<open>Blanking positions that a filter drops anyway does not change what it keeps.\<close>

lemma filter_blank_at:
  assumes "\<not> P z" "\<And>i. i \<in> set is \<Longrightarrow> i < length xs \<Longrightarrow> \<not> P (xs ! i)"
  shows "filter P (blank_at is z xs) = filter P xs"
proof -
  have upd: "filter P (ys[i := z]) = filter P ys" if "i < length ys \<Longrightarrow> \<not> P (ys ! i)" for ys i
    using that assms(1) by (induction ys arbitrary: i) (auto split: nat.splits)
  show ?thesis using assms(2)
  proof (induction "is" arbitrary: xs)
    case (Cons i "is")
    have "filter P (blank_at is z (xs[i := z])) = filter P (xs[i := z])"
    proof (rule Cons.IH)
      fix k assume "k \<in> set is" "k < length (xs[i := z])"
      then show "\<not> P (xs[i := z] ! k)" using Cons.prems assms(1) by (cases "k = i") auto
    qed
    also have "\<dots> = filter P xs" using upd Cons.prems by simp
    finally show ?case by (simp add: blank_at_def)
  qed (simp add: blank_at_def)
qed

section \<open>Compaction keeps the ranges of the files\<close>

text \<open>The entries of a list with the same value stand next to each other.\<close>

fun contiguous :: "'a list \<Rightarrow> bool" where
  "contiguous [] = True"
| "contiguous (x # xs) = (x \<notin> set (dropWhile ((=) x) xs) \<and> contiguous xs)"

definition places :: "'a \<Rightarrow> 'a list \<Rightarrow> nat set" where
  "places f xs = {j. j < length xs \<and> xs ! j = f}"

definition dep_range :: "(string \<times> ParsedFile) list \<Rightarrow> string \<Rightarrow> nat set" where
  "dep_range fs f = (case map_of fs f of None \<Rightarrow> {} | Some pf \<Rightarrow> {pf_dep_first pf..<pf_dep_first pf + pf_dep_count pf})"

definition sym_range :: "(string \<times> ParsedFile) list \<Rightarrow> string \<Rightarrow> nat set" where
  "sym_range fs f = (case map_of fs f of None \<Rightarrow> {} | Some pf \<Rightarrow> {pf_sym_first pf..<pf_sym_first pf + pf_sym_count pf})"

lemma contiguous_filter: "contiguous xs \<Longrightarrow> contiguous (filter P xs)"
proof (induction xs)
  case (Cons x xs)
  have "set (dropWhile ((=) x) (filter P xs)) \<subseteq> set (dropWhile ((=) x) xs)" if "P x"
    using that by (induction xs) (auto dest: set_dropWhileD)
  then show ?case using Cons by auto
qed simp

lemma contiguous_append_replicate: "contiguous xs \<Longrightarrow> f \<notin> set xs \<Longrightarrow> contiguous (xs @ replicate n f)"
proof (induction xs)
  case Nil
  have "dropWhile ((=) f) (replicate m f) = []" for m by (induction m) auto
  then show ?case by (induction n) auto
next
  case (Cons x xs)
  then have "set (dropWhile ((=) x) (xs @ replicate n f)) \<subseteq> set (dropWhile ((=) x) xs) \<union> {f}"
    by (auto simp: dropWhile_append split: if_splits dest: set_dropWhileD)
  then show ?case using Cons by auto
qed

lemma places_Nil [simp]: "places f [] = {}"
  by (simp add: places_def)

lemma places_Cons: "places f (x # xs) = (if x = f then {0} else {}) \<union> Suc ` places f xs"
proof (rule set_eqI)
  show "j \<in> places f (x # xs) \<longleftrightarrow> j \<in> (if x = f then {0} else {}) \<union> Suc ` places f xs" for j
    by (cases j) (auto simp: places_def)
qed

lemma places_absent [simp]: "f \<notin> set xs \<Longrightarrow> places f xs = {}"
  by (auto simp: places_def)

lemma places_empty: "places f xs = {} \<longleftrightarrow> f \<notin> set xs"
  by (auto simp: places_def in_set_conv_nth)

text \<open>
  The ranges that the run scan leaves, while it stands at position \<open>i\<close> in a run of \<open>cur\<close> that began at
  \<open>st\<close>.
\<close>

lemma rebuild_keys: "map_of (rebuild_runs cur st i ds fs) f = None \<longleftrightarrow> map_of fs f = None"
  by (induction cur st i ds fs rule: rebuild_runs.induct)
     (auto simp: close_run_def update_conv' split: option.splits if_splits)

lemma dep_range_close:
  assumes "cur \<noteq> []" "st \<le> i"
  shows "dep_range (close_run cur st i fs) f =
    (if f = cur \<and> map_of fs cur \<noteq> None then {st..<i} else dep_range fs f)"
  using assms by (auto simp: close_run_def dep_range_def update_conv' split: option.splits)

lemma dep_range_rebuild:
  assumes "cur \<noteq> []" "st \<le> i" "contiguous (map dp_from_file ds)" "cur \<notin> set (dropWhile ((=) cur) (map dp_from_file ds))"
    "[] \<notin> dp_from_file ` set ds" "map_of fs f \<noteq> None"
  shows "dep_range (rebuild_runs cur st i ds fs) f =
    (if f = cur then {st..<i} \<union> (+) i ` places f (map dp_from_file ds)
     else if f \<in> dp_from_file ` set ds then (+) i ` places f (map dp_from_file ds) else dep_range fs f)"
  using assms
proof (induction cur st i ds fs rule: rebuild_runs.induct)
  case (1 cur st i fs)
  then show ?case by (auto simp: dep_range_close)
next
  case (2 cur st i d ds fs)
  let ?g = "dp_from_file d"
  have shift: "(+) (Suc i) ` A = (+) i ` Suc ` A" for A by (auto simp: image_image)
  show ?case
  proof (cases "?g = cur")
    case True
    have "{st..<Suc i} = {st..<i} \<union> {i}" using 2(4) by auto
    then show ?thesis using 2(2) [OF _ 2(3)] 2 True
      by (auto simp: places_Cons shift image_Un)
  next
    case False
    have n: "?g \<noteq> []" using 2(7) by auto
    have m: "map_of (close_run cur st i fs) f \<noteq> None"
      using 2(8) by (auto simp: close_run_def update_conv' split: option.splits)
    have cur: "cur \<notin> dp_from_file ` set ds" using 2(6) False by auto
    show ?thesis
      using 2(1) [OF False n _ _ _ _ m] 2 False n cur
      by (auto simp: places_Cons shift image_Un dep_range_close)
  qed
qed

section \<open>The invariant of the index\<close>

definition sym_places :: "Sym list \<Rightarrow> string \<Rightarrow> nat set" where
  "sym_places syms f = {i. i < length syms \<and> sy_id (syms ! i) \<noteq> 0 \<and> sy_file (syms ! i) = f}"

text \<open>The symbols: numbered by position, listed by name, and each file owns exactly the symbols of its range.\<close>

definition syms_ok :: "SymbolIndex \<Rightarrow> bool" where
  "syms_ok ix \<longleftrightarrow> numbered (ix_syms ix) \<and> ix_by_name ix = name_table (ix_syms ix) \<and>
     (\<forall>f. sym_places (ix_syms ix) f = sym_range (ix_files ix) f)"

text \<open>The dependencies: each file owns exactly those of its range.\<close>

definition deps_ok :: "SymbolIndex \<Rightarrow> bool" where
  "deps_ok ix \<longleftrightarrow> contiguous (filter (\<lambda>f. f \<noteq> []) (map dp_from_file (ix_deps ix))) \<and>
     (\<forall>f. f \<noteq> [] \<longrightarrow> places f (map dp_from_file (ix_deps ix)) = dep_range (ix_files ix) f)"

definition files_ok :: "SymbolIndex \<Rightarrow> bool" where
  "files_ok ix \<longleftrightarrow> distinct (map fst (ix_files ix)) \<and> map_of (ix_files ix) [] = None \<and>
     distinct (map fst (ix_touch ix)) \<and> distinct (map snd (ix_touch ix)) \<and>
     (\<forall>(f, t) \<in> set (ix_touch ix). map_of (ix_files ix) f \<noteq> None \<and> t \<le> ix_touch_clock ix)"

text \<open>
  A dependency points at live symbols of its own file, and its target has the name it was resolved by. The caller may
  only be missing when the file had more symbols than the index keeps.
\<close>

definition owns :: "SymbolIndex \<Rightarrow> string \<Rightarrow> int \<Rightarrow> Sym \<Rightarrow> bool" where
  "owns ix f i s \<longleftrightarrow> live ix i = Some s \<and> sy_file s = f"

definition crowded :: "SymbolIndex \<Rightarrow> string \<Rightarrow> bool" where
  "crowded ix f \<longleftrightarrow> (case map_of (ix_files ix) f of None \<Rightarrow> False
     | Some pf \<Rightarrow> pf_sym_count pf = lim_max_syms_per_file (ix_limits ix))"

definition link_ok :: "SymbolIndex \<Rightarrow> Dep \<Rightarrow> bool" where
  "link_ok ix d \<longleftrightarrow>
     (dp_to_sym d = 0 \<or> (\<exists>s. owns ix (dp_from_file d) (dp_to_sym d) s \<and> sy_name s = dp_to_name d)) \<and>
     (dp_from_sym d = 0 \<or> (\<exists>s. owns ix (dp_from_file d) (dp_from_sym d) s) \<or> crowded ix (dp_from_file d))"

definition links_ok :: "SymbolIndex \<Rightarrow> bool" where
  "links_ok ix \<longleftrightarrow> list_all (\<lambda>d. dp_from_file d = [] \<or> link_ok ix d) (ix_deps ix)"

definition index_ok :: "SymbolIndex \<Rightarrow> bool" where
  "index_ok ix \<longleftrightarrow> syms_ok ix \<and> deps_ok ix \<and> files_ok ix \<and> links_ok ix"

text \<open>What the index holds of a file.\<close>

definition file_syms :: "SymbolIndex \<Rightarrow> string \<Rightarrow> Sym list" where
  "file_syms ix f = filter (\<lambda>s. sy_id s \<noteq> 0 \<and> sy_file s = f) (ix_syms ix)"

definition file_deps :: "SymbolIndex \<Rightarrow> string \<Rightarrow> Dep list" where
  "file_deps ix f = filter (\<lambda>d. dp_from_file d = f) (ix_deps ix)"

definition fingerprint :: "SymbolIndex \<Rightarrow> string \<Rightarrow> (u64 \<times> u64) option" where
  "fingerprint ix f = map_option (\<lambda>pf. (pf_mtime pf, pf_size pf)) (map_of (ix_files ix) f)"

lemma new_index_ok: "index_ok (new_index lim)"
  by (simp add: index_ok_def syms_ok_def deps_ok_def files_ok_def links_ok_def new_index_def numbered_def name_table_def
      some_ids_def ids_of_def sym_places_def sym_range_def dep_range_def)

subsection \<open>Removal\<close>

definition without_file :: "string \<Rightarrow> ParsedFile \<Rightarrow> SymbolIndex \<Rightarrow> SymbolIndex" where
  "without_file f pf ix =
     (let syms = blank_at [pf_sym_first pf..<pf_sym_first pf + pf_sym_count pf] empty_sym (ix_syms ix) in
      ix\<lparr>ix_by_name := name_table syms, ix_syms := syms,
         ix_deps := blank_at [pf_dep_first pf..<pf_dep_first pf + pf_dep_count pf] empty_dep (ix_deps ix),
         ix_files := AList.delete f (ix_files ix), ix_touch := AList.delete f (ix_touch ix),
         ix_version := ix_version ix + 1\<rparr>)"

lemma file_ranges:
  assumes "index_ok ix" "map_of (ix_files ix) f = Some pf"
  shows "sym_places (ix_syms ix) f = {pf_sym_first pf..<pf_sym_first pf + pf_sym_count pf}"
    "places f (map dp_from_file (ix_deps ix)) = {pf_dep_first pf..<pf_dep_first pf + pf_dep_count pf}" "f \<noteq> []"
proof -
  show f: "f \<noteq> []" using assms by (auto simp: index_ok_def files_ok_def)
  show "sym_places (ix_syms ix) f = {pf_sym_first pf..<pf_sym_first pf + pf_sym_count pf}"
    using assms by (simp add: index_ok_def syms_ok_def sym_range_def)
  show "places f (map dp_from_file (ix_deps ix)) = {pf_dep_first pf..<pf_dep_first pf + pf_dep_count pf}"
    using assms f by (simp add: index_ok_def deps_ok_def dep_range_def)
qed

lemma interval_below:
  assumes "{a..<a + n} \<subseteq> {..<m}"
  shows "a + n \<le> m \<or> n = (0 :: nat)"
proof (cases n)
  case (Suc k)
  then have "a + k \<in> {a..<a + n}" by simp
  then have "a + k \<in> {..<m}" by (rule subsetD [OF assms])
  then show ?thesis using Suc by simp
qed simp

lemma range_bounds:
  assumes "index_ok ix" "map_of (ix_files ix) f = Some pf"
  shows "pf_sym_first pf + pf_sym_count pf \<le> length (ix_syms ix) \<or> pf_sym_count pf = 0"
    "pf_dep_first pf + pf_dep_count pf \<le> length (ix_deps ix) \<or> pf_dep_count pf = 0"
proof -
  have "sym_places (ix_syms ix) f \<subseteq> {..<length (ix_syms ix)}" by (auto simp: sym_places_def)
  then show "pf_sym_first pf + pf_sym_count pf \<le> length (ix_syms ix) \<or> pf_sym_count pf = 0"
    unfolding file_ranges [OF assms] by (rule interval_below)
  have "places f (map dp_from_file (ix_deps ix)) \<subseteq> {..<length (ix_deps ix)}" by (auto simp: places_def)
  then show "pf_dep_first pf + pf_dep_count pf \<le> length (ix_deps ix) \<or> pf_dep_count pf = 0"
    unfolding file_ranges [OF assms] by (rule interval_below)
qed

lemma remove_file_without:
  assumes "index_ok ix" "map_of (ix_files ix) f = Some pf"
  shows "remove_file f ix = maybe_compact_deps (without_file f pf ix)"
proof -
  have r: "[a..<min (a + n) m] = [a..<a + n]" if "a + n \<le> m \<or> n = 0" for a n m :: nat
    using that by auto
  have sub: "set [pf_sym_first pf..<pf_sym_first pf + pf_sym_count pf] \<subseteq> {..<length (ix_syms ix)}"
    using range_bounds(1) [OF assms] by auto
  have "numbered (ix_syms ix)" "ix_by_name ix = name_table (ix_syms ix)" using assms(1) by (auto simp: index_ok_def syms_ok_def)
  then show ?thesis
    using assms(2) r [OF range_bounds(1) [OF assms]] r [OF range_bounds(2) [OF assms]]
    by (simp add: remove_file_def Let_def fold_clear_sym [OF _ _ sub] fold_clear_dep without_file_def)
qed

lemma sym_range_delete: "sym_range (AList.delete f fs) g = (if g = f then {} else sym_range fs g)"
  by (simp add: sym_range_def delete_conv')

lemma dep_range_delete: "dep_range (AList.delete f fs) g = (if g = f then {} else dep_range fs g)"
  by (simp add: dep_range_def delete_conv')

lemma sym_places_blank: "sym_places (blank_at is empty_sym syms) g = sym_places syms g - set is"
  by (auto simp: sym_places_def blank_at_nth split: if_splits)

lemma places_blank: "g \<noteq> [] \<Longrightarrow> places g (map dp_from_file (blank_at is empty_dep deps)) = places g (map dp_from_file deps) - set is"
  by (auto simp: places_def blank_at_nth split: if_splits)

lemma sym_places_disjoint: "g \<noteq> f \<Longrightarrow> sym_places syms g - sym_places syms f = sym_places syms g"
  by (auto simp: sym_places_def)

lemma places_disjoint: "g \<noteq> f \<Longrightarrow> places g xs - places f xs = places g xs"
  by (auto simp: places_def)

lemma without_simps [simp]:
  "ix_files (without_file f pf ix) = AList.delete f (ix_files ix)" "ix_touch (without_file f pf ix) = AList.delete f (ix_touch ix)"
  "ix_touch_clock (without_file f pf ix) = ix_touch_clock ix" "ix_limits (without_file f pf ix) = ix_limits ix"
  by (simp_all add: without_file_def Let_def)

lemma without_fields:
  assumes "index_ok ix" "map_of (ix_files ix) f = Some pf"
  obtains "is" js where "set is = sym_places (ix_syms ix) f" "set js = places f (map dp_from_file (ix_deps ix))"
    "ix_syms (without_file f pf ix) = blank_at is empty_sym (ix_syms ix)"
    "ix_deps (without_file f pf ix) = blank_at js empty_dep (ix_deps ix)"
  using that [of "[pf_sym_first pf..<pf_sym_first pf + pf_sym_count pf]" "[pf_dep_first pf..<pf_dep_first pf + pf_dep_count pf]"]
  by (simp add: without_file_def Let_def file_ranges [OF assms])

lemma without_syms_ok:
  assumes "index_ok ix" "map_of (ix_files ix) f = Some pf"
  shows "syms_ok (without_file f pf ix)"
proof -
  obtain "is" js where i: "set is = sym_places (ix_syms ix) f" "ix_syms (without_file f pf ix) = blank_at is empty_sym (ix_syms ix)"
    using without_fields [OF assms] by metis
  have s: "numbered (ix_syms ix)" "\<And>g. sym_places (ix_syms ix) g = sym_range (ix_files ix) g"
    using assms(1) by (auto simp: index_ok_def syms_ok_def)
  have "sym_places (blank_at is empty_sym (ix_syms ix)) g = sym_range (AList.delete f (ix_files ix)) g" for g
    using s(2) i(1) sym_places_disjoint [of g f "ix_syms ix"]
    by (cases "g = f") (simp_all add: sym_places_blank sym_range_delete)
  moreover have "ix_by_name (without_file f pf ix) = name_table (ix_syms (without_file f pf ix))"
    by (simp add: without_file_def Let_def)
  ultimately show ?thesis by (simp add: syms_ok_def i(2) numbered_blank s(1))
qed

lemma filter_from_file: "filter (\<lambda>f. P f) (map dp_from_file ds) = map dp_from_file (filter (\<lambda>d. P (dp_from_file d)) ds)"
  by (simp add: filter_map o_def)

lemma without_deps_ok:
  assumes "index_ok ix" "map_of (ix_files ix) f = Some pf"
  shows "deps_ok (without_file f pf ix)"
proof -
  obtain "is" js where j: "set js = places f (map dp_from_file (ix_deps ix))"
    "ix_deps (without_file f pf ix) = blank_at js empty_dep (ix_deps ix)"
    using without_fields [OF assms] by metis
  let ?ds = "blank_at js empty_dep (ix_deps ix)"
  have f: "f \<noteq> []" by (rule file_ranges(3) [OF assms])
  have d: "contiguous (filter (\<lambda>f. f \<noteq> []) (map dp_from_file (ix_deps ix)))"
    "\<And>g. g \<noteq> [] \<Longrightarrow> places g (map dp_from_file (ix_deps ix)) = dep_range (ix_files ix) g"
    using assms(1) by (auto simp: index_ok_def deps_ok_def)
  have pl: "places g (map dp_from_file ?ds) = dep_range (AList.delete f (ix_files ix)) g" if "g \<noteq> []" for g
    using d(2) [OF that] j(1) places_disjoint [of g f "map dp_from_file (ix_deps ix)"] that
    by (cases "g = f") (simp_all add: places_blank dep_range_delete)
  then have "places f (map dp_from_file ?ds) = {}" using f by (simp add: dep_range_delete)
  then have "f \<notin> dp_from_file ` set ?ds" by (auto simp: places_def in_set_conv_nth)
  then have "filter (\<lambda>d. dp_from_file d \<noteq> []) ?ds = filter (\<lambda>d. dp_from_file d \<noteq> [] \<and> dp_from_file d \<noteq> f) ?ds"
    by (intro filter_cong) auto
  also have "\<dots> = filter (\<lambda>d. dp_from_file d \<noteq> [] \<and> dp_from_file d \<noteq> f) (ix_deps ix)"
    by (rule filter_blank_at) (use j(1) in \<open>auto simp: places_def\<close>)
  finally have "filter (\<lambda>f. f \<noteq> []) (map dp_from_file ?ds) =
      filter (\<lambda>g. g \<noteq> f) (filter (\<lambda>f. f \<noteq> []) (map dp_from_file (ix_deps ix)))"
    by (simp add: filter_from_file conj_commute)
  then have "contiguous (filter (\<lambda>f. f \<noteq> []) (map dp_from_file ?ds))" using contiguous_filter [OF d(1)] by simp
  then show ?thesis using pl by (simp add: deps_ok_def j(2))
qed

lemma distinct_fst_delete: "distinct (map fst xs) \<Longrightarrow> distinct (map fst (AList.delete f xs))"
  by (rule distinct_delete)

lemma distinct_snd_delete: "distinct (map snd xs) \<Longrightarrow> distinct (map snd (AList.delete f xs))"
  unfolding AList.delete_eq by (induction xs) auto

lemma set_delete: "(k, v) \<in> set (AList.delete f xs) \<longleftrightarrow> (k, v) \<in> set xs \<and> k \<noteq> f"
  unfolding AList.delete_eq by auto

lemma without_files_ok:
  assumes "index_ok ix"
  shows "files_ok (without_file f pf ix)"
proof -
  have x: "ix_files (without_file f pf ix) = AList.delete f (ix_files ix)" "ix_touch (without_file f pf ix) = AList.delete f (ix_touch ix)"
    "ix_touch_clock (without_file f pf ix) = ix_touch_clock ix"
    by (simp_all add: without_file_def Let_def)
  have "files_ok ix" using assms by (simp add: index_ok_def)
  then show ?thesis unfolding files_ok_def x delete_conv'
    by (auto simp: distinct_fst_delete distinct_snd_delete set_delete simp del: map_of_eq_None_iff)
qed

lemma without_owns:
  assumes "index_ok ix" "map_of (ix_files ix) f = Some pf" "owns ix g i s" "g \<noteq> f"
  shows "owns (without_file f pf ix) g i s"
proof -
  obtain "is" js where x: "set is = sym_places (ix_syms ix) f" "ix_syms (without_file f pf ix) = blank_at is empty_sym (ix_syms ix)"
    using without_fields [OF assms(1,2)] by metis
  have s: "1 \<le> i" "i \<le> int (length (ix_syms ix))" "ix_syms ix ! (nat i - 1) = s" "sy_id s = i" "sy_file s = g"
    using assms(3) by (auto simp: owns_def live_def Let_def split: if_splits)
  then have "nat i - 1 \<notin> set is" using x(1) assms(4) by (auto simp: sym_places_def)
  moreover have "nat i - 1 < length (ix_syms ix)" using s(1,2) by linarith
  ultimately show ?thesis using s by (simp add: owns_def live_def Let_def x(2) blank_at_nth)
qed

lemma without_links_ok:
  assumes "index_ok ix" "map_of (ix_files ix) f = Some pf"
  shows "links_ok (without_file f pf ix)"
  unfolding links_ok_def list_all_iff
proof
  fix d assume d: "d \<in> set (ix_deps (without_file f pf ix))"
  obtain "is" js where j: "set js = places f (map dp_from_file (ix_deps ix))"
    "ix_deps (without_file f pf ix) = blank_at js empty_dep (ix_deps ix)"
    using without_fields [OF assms] by metis
  have f: "f \<noteq> []" by (rule file_ranges(3) [OF assms])
  show "dp_from_file d = [] \<or> link_ok (without_file f pf ix) d"
  proof (cases "dp_from_file d = []")
    case False
    obtain k where k: "k < length (ix_deps ix)" "d = (if k \<in> set js then empty_dep else ix_deps ix ! k)"
      using d unfolding j(2) by (auto simp: in_set_conv_nth blank_at_nth)
    then have "k \<notin> set js" "d = ix_deps ix ! k" using False by (auto split: if_splits)
    then have m: "d \<in> set (ix_deps ix)" "dp_from_file d \<noteq> f" using k(1) j(1) by (auto simp: places_def)
    then have "link_ok ix d" using assms(1) False by (auto simp: index_ok_def links_ok_def list_all_iff)
    moreover have "crowded ix g \<Longrightarrow> crowded (without_file f pf ix) g" if "g \<noteq> f" for g
      using that by (simp add: crowded_def split: option.splits)
    ultimately show ?thesis using without_owns [OF assms _ m(2)] m(2) by (auto simp: link_ok_def)
  qed simp
qed

lemma without_index_ok: "index_ok ix \<Longrightarrow> map_of (ix_files ix) f = Some pf \<Longrightarrow> index_ok (without_file f pf ix)"
  unfolding index_ok_def [of "without_file f pf ix"]
  by (simp add: without_syms_ok without_deps_ok without_files_ok without_links_ok)

text \<open>What removing a file leaves of this and of every other file.\<close>

lemma without_file_syms:
  assumes "index_ok ix" "map_of (ix_files ix) f = Some pf"
  shows "file_syms (without_file f pf ix) g = (if g = f then [] else file_syms ix g)"
proof -
  obtain "is" js where i: "set is = sym_places (ix_syms ix) f" "ix_syms (without_file f pf ix) = blank_at is empty_sym (ix_syms ix)"
    using without_fields [OF assms] by metis
  show ?thesis
  proof (cases "g = f")
    case True
    have "sym_places (blank_at is empty_sym (ix_syms ix)) f = {}" using i(1) by (simp add: sym_places_blank)
    then show ?thesis using True i(2)
      by (auto simp: file_syms_def filter_empty_conv in_set_conv_nth sym_places_def)
  next
    case False
    then have "filter (\<lambda>s. sy_id s \<noteq> 0 \<and> sy_file s = g) (blank_at is empty_sym (ix_syms ix)) =
        filter (\<lambda>s. sy_id s \<noteq> 0 \<and> sy_file s = g) (ix_syms ix)"
      by (intro filter_blank_at) (use i(1) in \<open>auto simp: sym_places_def\<close>)
    then show ?thesis using False i(2) by (simp add: file_syms_def)
  qed
qed

lemma without_file_deps:
  assumes "index_ok ix" "map_of (ix_files ix) f = Some pf" "g \<noteq> []"
  shows "file_deps (without_file f pf ix) g = (if g = f then [] else file_deps ix g)"
proof -
  obtain "is" js where j: "set js = places f (map dp_from_file (ix_deps ix))"
    "ix_deps (without_file f pf ix) = blank_at js empty_dep (ix_deps ix)"
    using without_fields [OF assms(1,2)] by metis
  show ?thesis
  proof (cases "g = f")
    case True
    have "places f (map dp_from_file (blank_at js empty_dep (ix_deps ix))) = {}" using j(1) assms(3) True by (simp add: places_blank)
    then have "\<forall>k < length (ix_deps ix). dp_from_file (blank_at js empty_dep (ix_deps ix) ! k) \<noteq> f" by (auto simp: places_def)
    then show ?thesis using True j(2) by (auto simp: file_deps_def filter_empty_conv in_set_conv_nth)
  next
    case False
    then have "filter (\<lambda>d. dp_from_file d = g) (blank_at js empty_dep (ix_deps ix)) = filter (\<lambda>d. dp_from_file d = g) (ix_deps ix)"
      by (intro filter_blank_at) (use j(1) assms(3) in \<open>auto simp: places_def\<close>)
    then show ?thesis using False j(2) by (simp add: file_deps_def)
  qed
qed

subsection \<open>Compaction\<close>

lemma rebuild_other:
  "map_option (\<lambda>pf. (pf_mtime pf, pf_size pf, pf_sym_first pf, pf_sym_count pf, pf_lang pf)) (map_of (rebuild_runs cur st i ds fs) f) =
   map_option (\<lambda>pf. (pf_mtime pf, pf_size pf, pf_sym_first pf, pf_sym_count pf, pf_lang pf)) (map_of fs f)"
  by (induction cur st i ds fs rule: rebuild_runs.induct)
     (auto simp: close_run_def update_conv' split: option.splits if_splits)

lemma rebuild_fst: "map fst (rebuild_runs cur st i ds fs) = map fst fs"
proof -
  have c: "map fst (close_run cur st i fs) = map fst fs" for cur st i fs
  proof (cases "map_of fs cur")
    case (Some pf)
    then have "cur \<in> fst ` set fs" by (force dest: map_of_SomeD)
    then show ?thesis using Some by (simp add: close_run_def AList.update_keys)
  qed (simp add: close_run_def)
  then show ?thesis by (induction cur st i ds fs rule: rebuild_runs.induct) simp_all
qed

lemma dep_range_compact:
  assumes "contiguous (map dp_from_file ds)" "[] \<notin> dp_from_file ` set ds" "map_of fs f \<noteq> None"
  shows "dep_range (rebuild_runs [] 0 0 ds fs) f =
    (if f \<in> dp_from_file ` set ds then places f (map dp_from_file ds) else dep_range fs f)"
proof (cases ds)
  case Nil
  then show ?thesis by (simp add: close_run_def)
next
  case (Cons d rest)
  let ?g = "dp_from_file d"
  have g: "?g \<noteq> []" using assms(2) Cons by auto
  have "dep_range (rebuild_runs ?g 0 1 rest fs) f =
    (if f = ?g then {0..<1} \<union> (+) 1 ` places f (map dp_from_file rest)
     else if f \<in> dp_from_file ` set rest then (+) 1 ` places f (map dp_from_file rest) else dep_range fs f)"
    by (rule dep_range_rebuild) (use assms Cons g in auto)
  moreover have "rebuild_runs [] 0 0 ds fs = rebuild_runs ?g 0 1 rest fs" using Cons g by (simp add: close_run_def)
  moreover have "(+) (Suc 0) = Suc" by auto
  ultimately show ?thesis using Cons by (auto simp: places_Cons)
qed

definition compacted :: "SymbolIndex \<Rightarrow> SymbolIndex" where
  "compacted ix = (let ds = filter (\<lambda>d. dp_from_file d \<noteq> []) (ix_deps ix) in
     ix\<lparr>ix_deps := ds, ix_files := rebuild_runs [] 0 0 ds (ix_files ix)\<rparr>)"

lemma maybe_compact_cases: "maybe_compact_deps ix = ix \<or> maybe_compact_deps ix = compacted ix"
  by (simp add: maybe_compact_deps_def compacted_def Let_def)

lemma compacted_simps [simp]:
  "ix_syms (compacted ix) = ix_syms ix" "ix_by_name (compacted ix) = ix_by_name ix" "ix_limits (compacted ix) = ix_limits ix"
  "ix_deps (compacted ix) = filter (\<lambda>d. dp_from_file d \<noteq> []) (ix_deps ix)"
  "ix_touch (compacted ix) = ix_touch ix" "ix_touch_clock (compacted ix) = ix_touch_clock ix"
  by (simp_all add: compacted_def Let_def)

lemma compacted_files:
  "ix_files (compacted ix) = rebuild_runs [] 0 0 (filter (\<lambda>d. dp_from_file d \<noteq> []) (ix_deps ix)) (ix_files ix)"
  by (simp add: compacted_def Let_def)

lemma compacted_map_of:
  obtains (absent) "map_of (ix_files ix) f = None" "map_of (ix_files (compacted ix)) f = None"
  | (present) pf pf' where "map_of (ix_files ix) f = Some pf" "map_of (ix_files (compacted ix)) f = Some pf'"
    "pf_mtime pf' = pf_mtime pf" "pf_size pf' = pf_size pf" "pf_sym_first pf' = pf_sym_first pf" "pf_sym_count pf' = pf_sym_count pf"
  using rebuild_other [of "[]" 0 0 "filter (\<lambda>d. dp_from_file d \<noteq> []) (ix_deps ix)" "ix_files ix" f]
  unfolding compacted_files [symmetric]
  by (cases "map_of (ix_files ix) f"; cases "map_of (ix_files (compacted ix)) f") auto

lemma compacted_deps_ok:
  assumes "deps_ok ix"
  shows "deps_ok (compacted ix)"
proof -
  let ?ds = "filter (\<lambda>d. dp_from_file d \<noteq> []) (ix_deps ix)" and ?fs = "ix_files ix"
  have d: "contiguous (map dp_from_file ?ds)" "\<And>f. f \<noteq> [] \<Longrightarrow> places f (map dp_from_file (ix_deps ix)) = dep_range ?fs f"
    using assms by (auto simp: deps_ok_def filter_from_file)
  have absent: "places f (map dp_from_file ?ds) = {} \<and> f \<notin> dp_from_file ` set ?ds" if "dep_range ?fs f = {}" "f \<noteq> []" for f
  proof -
    have "f \<notin> set (map dp_from_file (ix_deps ix))" using d(2) [OF that(2)] that(1) by (simp add: places_empty)
    then have "f \<notin> set (map dp_from_file ?ds)" by auto
    then show ?thesis by (metis list.set_map places_empty)
  qed
  have "places f (map dp_from_file ?ds) = dep_range (rebuild_runs [] 0 0 ?ds ?fs) f" if f: "f \<noteq> []" for f
  proof (cases "map_of ?fs f")
    case None
    then have "map_of (rebuild_runs [] 0 0 ?ds ?fs) f = None" by (simp add: rebuild_keys del: map_of_eq_None_iff)
    then have "dep_range ?fs f = {}" "dep_range (rebuild_runs [] 0 0 ?ds ?fs) f = {}"
      using None by (simp_all add: dep_range_def del: map_of_eq_None_iff)
    then show ?thesis using absent f by simp
  next
    case (Some pf)
    have "dep_range (rebuild_runs [] 0 0 ?ds ?fs) f =
        (if f \<in> dp_from_file ` set ?ds then places f (map dp_from_file ?ds) else dep_range ?fs f)"
      using Some by (intro dep_range_compact [OF d(1)]) (simp_all, force)
    moreover have "dep_range ?fs f = {}" if "f \<notin> dp_from_file ` set ?ds"
    proof -
      have "f \<notin> set (map dp_from_file (ix_deps ix))" using that f by auto
      then show ?thesis using d(2) [OF f] by (simp only: places_empty [symmetric])
    qed
    ultimately show ?thesis using absent [OF _ f] by (cases "f \<in> dp_from_file ` set ?ds") simp_all
  qed
  then show ?thesis using d(1) by (simp add: deps_ok_def filter_from_file compacted_files)
qed

lemma compacted_crowded [simp]: "crowded (compacted ix) f = crowded ix f"
  by (cases rule: compacted_map_of [of ix f]) (simp_all add: crowded_def del: map_of_eq_None_iff)

lemma compacted_sym_range [simp]: "sym_range (ix_files (compacted ix)) f = sym_range (ix_files ix) f"
  by (cases rule: compacted_map_of [of ix f]) (simp_all add: sym_range_def del: map_of_eq_None_iff)

lemma compacted_fingerprint [simp]: "fingerprint (compacted ix) f = fingerprint ix f"
  by (cases rule: compacted_map_of [of ix f]) (simp_all add: fingerprint_def del: map_of_eq_None_iff)

lemma compacted_owns [simp]: "owns (compacted ix) f i s = owns ix f i s"
  by (simp add: owns_def live_def)

lemma compacted_index_ok:
  assumes "index_ok ix"
  shows "index_ok (compacted ix)"
proof -
  have "links_ok (compacted ix)" using assms by (auto simp: index_ok_def links_ok_def list_all_iff link_ok_def)
  moreover have "files_ok (compacted ix)"
    using assms by (auto simp: index_ok_def files_ok_def compacted_files rebuild_fst rebuild_keys simp del: map_of_eq_None_iff)
  ultimately show ?thesis using assms compacted_deps_ok [of ix] by (simp add: index_ok_def syms_ok_def)
qed

lemma compact_kept:
  "index_ok ix \<Longrightarrow> index_ok (maybe_compact_deps ix)"
  "file_syms (maybe_compact_deps ix) f = file_syms ix f"
  "f \<noteq> [] \<Longrightarrow> file_deps (maybe_compact_deps ix) f = file_deps ix f"
  "fingerprint (maybe_compact_deps ix) f = fingerprint ix f"
  "map fst (ix_files (maybe_compact_deps ix)) = map fst (ix_files ix)"
  "ix_limits (maybe_compact_deps ix) = ix_limits ix" "ix_touch (maybe_compact_deps ix) = ix_touch ix"
  "ix_touch_clock (maybe_compact_deps ix) = ix_touch_clock ix"
  using maybe_compact_cases [of ix]
  by (auto simp: compacted_index_ok file_syms_def file_deps_def compacted_files rebuild_fst intro: filter_cong)

text \<open>
  Removing a file keeps the invariant, forgets the file and leaves the symbols, dependencies and fingerprint of every
  other file as they were.
\<close>

lemma remove_file_effect:
  assumes "index_ok ix"
  shows "index_ok (remove_file f ix) \<and>
    file_syms (remove_file f ix) g = (if g = f then [] else file_syms ix g) \<and>
    (g \<noteq> [] \<longrightarrow> file_deps (remove_file f ix) g = (if g = f then [] else file_deps ix g)) \<and>
    fingerprint (remove_file f ix) g = (if g = f then None else fingerprint ix g) \<and>
    ix_limits (remove_file f ix) = ix_limits ix \<and> ix_touch (remove_file f ix) = AList.delete f (ix_touch ix) \<and>
    ix_touch_clock (remove_file f ix) = ix_touch_clock ix \<and>
    map fst (ix_files (remove_file f ix)) = removeAll f (map fst (ix_files ix))"
proof (cases "map_of (ix_files ix) f")
  case None
  then have f: "f \<notin> fst ` set (ix_files ix)" by (simp add: map_of_eq_None_iff)
  have "sym_places (ix_syms ix) f = {}" using assms None by (simp add: index_ok_def syms_ok_def sym_range_def del: map_of_eq_None_iff)
  then have "file_syms ix f = []" by (auto simp: file_syms_def filter_empty_conv in_set_conv_nth sym_places_def)
  moreover have "file_deps ix f = []" if "f \<noteq> []"
  proof -
    have "places f (map dp_from_file (ix_deps ix)) = {}"
      using assms None that by (simp add: index_ok_def deps_ok_def dep_range_def del: map_of_eq_None_iff)
    then have "\<forall>k < length (ix_deps ix). dp_from_file (ix_deps ix ! k) \<noteq> f" by (auto simp: places_def)
    then show ?thesis by (auto simp: file_deps_def filter_empty_conv in_set_conv_nth)
  qed
  moreover have "f \<notin> fst ` set (ix_touch ix)" using assms None by (fastforce simp: index_ok_def files_ok_def simp del: map_of_eq_None_iff)
  moreover have "remove_file f ix = ix" using None by (simp add: remove_file_def del: map_of_eq_None_iff)
  ultimately show ?thesis using assms None f by (auto simp: fingerprint_def simp del: map_of_eq_None_iff)
next
  case (Some pf)
  have "fingerprint (without_file f pf ix) g = (if g = f then None else fingerprint ix g)"
    by (simp add: fingerprint_def delete_conv')
  then show ?thesis
    using without_index_ok [OF assms Some] without_file_syms [OF assms Some] without_file_deps [OF assms Some]
    by (simp add: remove_file_without [OF assms Some] compact_kept AList.delete_keys)
qed

subsection \<open>Adding a file\<close>

fun place_syms :: "string \<Rightarrow> Lang \<Rightarrow> nat \<Rightarrow> Sym list \<Rightarrow> Sym list" where
  "place_syms file lang b [] = []"
| "place_syms file lang b (s # ss) = s\<lparr>sy_id := int b + 1, sy_file := file, sy_lang := lang\<rparr> # place_syms file lang (b + 1) ss"

lemma place_syms_length [simp]: "length (place_syms file lang b ss) = length ss"
  by (induction ss arbitrary: b) simp_all

lemma place_syms_nth:
  "k < length ss \<Longrightarrow> place_syms file lang b ss ! k = (ss ! k)\<lparr>sy_id := int (b + k) + 1, sy_file := file, sy_lang := lang\<rparr>"
  by (induction ss arbitrary: b k) (auto simp: nth_Cons split: nat.splits)

lemma name_table_snoc:
  "sy_id s \<noteq> 0 \<Longrightarrow> name_table (syms @ [s]) =
     (name_table syms)(sy_name s \<mapsto> (case name_table syms (sy_name s) of None \<Rightarrow> [] | Some v \<Rightarrow> v) @ [sy_id s])"
  by (auto simp: name_table_def some_ids_def ids_of_Cons ids_of_def fun_eq_iff)

lemma fold_add_sym:
  "ix_by_name ix = name_table (ix_syms ix) \<Longrightarrow>
   fold (add_sym f lang) ss ix =
     ix\<lparr>ix_by_name := name_table (ix_syms ix @ place_syms f lang (length (ix_syms ix)) ss),
        ix_syms := ix_syms ix @ place_syms f lang (length (ix_syms ix)) ss\<rparr>"
proof (induction ss arbitrary: ix)
  case (Cons s ss)
  let ?s = "s\<lparr>sy_id := int (length (ix_syms ix)) + 1, sy_file := f, sy_lang := lang\<rparr>"
  have "add_sym f lang s ix = ix\<lparr>ix_by_name := name_table (ix_syms ix @ [?s]), ix_syms := ix_syms ix @ [?s]\<rparr>"
    using Cons.prems name_table_snoc [of ?s "ix_syms ix"] by (simp add: add_sym_def Let_def)
  then show ?case using Cons.IH [of "add_sym f lang s ix"] by simp
qed simp

lemma numbered_append: "numbered syms \<Longrightarrow> numbered (syms @ place_syms f lang (length syms) ss)"
  by (auto simp: numbered_def nth_append place_syms_nth)

lemma sym_places_append:
  "sym_places (syms @ place_syms f lang (length syms) ss) g =
     (if g = f then sym_places syms f \<union> {length syms..<length syms + length ss} else sym_places syms g)"
proof (rule set_eqI)
  show "j \<in> sym_places (syms @ place_syms f lang (length syms) ss) g \<longleftrightarrow>
      j \<in> (if g = f then sym_places syms f \<union> {length syms..<length syms + length ss} else sym_places syms g)" for j
    by (cases "j < length syms") (auto simp: sym_places_def nth_append place_syms_nth)
qed

lemma places_append_replicate:
  "places g (xs @ replicate n f) = (if g = f then places f xs \<union> {length xs..<length xs + n} else places g xs)"
proof (rule set_eqI)
  show "j \<in> places g (xs @ replicate n f) \<longleftrightarrow>
      j \<in> (if g = f then places f xs \<union> {length xs..<length xs + n} else places g xs)" for j
    by (cases "j < length xs") (auto simp: places_def nth_append)
qed

lemma name_to_id_SomeD:
  assumes "name_to_id b ss n = Some i"
  obtains k where "k < length ss" "i = int (b + k) + 1" "sy_name (ss ! k) = n"
proof -
  have "(n, i) \<in> set (zip (map sy_name ss) (map (\<lambda>k. int (b + k) + 1) [0..<length ss]))"
    using assms unfolding name_to_id_def by (rule map_of_SomeD)
  then show thesis using that by (auto simp: in_set_zip)
qed

lemma link_dep_simps [simp]: "dp_from_file (link_dep f b m d) = f" "dp_to_name (link_dep f b m d) = dp_to_name d" "dp_kind (link_dep f b m d) = dp_kind d"
  by (simp_all add: link_dep_def)

lemma owns_append:
  assumes "ix_syms ix' = ix_syms ix @ new" "owns ix g i s"
  shows "owns ix' g i s"
proof -
  have s: "1 \<le> i" "i \<le> int (length (ix_syms ix))" "ix_syms ix ! (nat i - 1) = s" "sy_id s = i" "sy_file s = g"
    using assms(2) by (auto simp: owns_def live_def Let_def split: if_splits)
  moreover have "nat i - 1 < length (ix_syms ix)" using s(1,2) by linarith
  ultimately show ?thesis using assms(1) by (simp add: owns_def live_def Let_def nth_append)
qed

lemma owns_placed:
  assumes "ix_syms ix' = ix_syms ix @ place_syms f lang (length (ix_syms ix)) ss" "k < length ss"
  shows "owns ix' f (int (length (ix_syms ix) + k) + 1)
    ((ss ! k)\<lparr>sy_id := int (length (ix_syms ix) + k) + 1, sy_file := f, sy_lang := lang\<rparr>)"
proof -
  have "nat (int (length (ix_syms ix) + k) + 1) - 1 = length (ix_syms ix) + k" by simp
  then show ?thesis using assms by (simp add: owns_def live_def Let_def nth_append place_syms_nth)
qed

lemma extract_into_simps:
  fixes f lang syms deps ix
  defines "ix' \<equiv> extract_into f lang syms deps ix" and "b \<equiv> length (ix_syms ix)"
    and "ss \<equiv> take (lim_max_syms_per_file (ix_limits ix)) syms" and "ds \<equiv> take (lim_max_deps_per_file (ix_limits ix)) deps"
  assumes "ix_by_name ix = name_table (ix_syms ix)"
  shows "ix_syms ix' = ix_syms ix @ place_syms f lang b ss" "ix_by_name ix' = name_table (ix_syms ix')"
    "ix_deps ix' = ix_deps ix @ map (link_dep f b (name_to_id b ss)) ds"
    "ix_files ix' = AList.update f \<lparr>pf_mtime = 0, pf_size = 0, pf_sym_first = b, pf_sym_count = length ss,
       pf_dep_first = length (ix_deps ix), pf_dep_count = length ds, pf_lang = lang\<rparr> (ix_files ix)"
    "ix_limits ix' = ix_limits ix" "ix_touch ix' = ix_touch ix" "ix_touch_clock ix' = ix_touch_clock ix"
  using assms by (simp_all add: extract_into_def Let_def fold_add_sym)

lemma link_dep_ok:
  assumes "ix_syms ix' = ix_syms ix @ place_syms f lang (length (ix_syms ix)) ss" "ss = take m syms"
    "local_dep (length syms) d" "length ss = m \<longrightarrow> crowded ix' f"
  shows "link_ok ix' (link_dep f (length (ix_syms ix)) (name_to_id (length (ix_syms ix)) ss) d)"
proof -
  let ?b = "length (ix_syms ix)" and ?ids = "name_to_id (length (ix_syms ix)) ss"
  let ?d = "link_dep f ?b ?ids d"
  have "dp_to_sym ?d = 0 \<or> (\<exists>s. owns ix' f (dp_to_sym ?d) s \<and> sy_name s = dp_to_name d)"
  proof (cases "?ids (dp_to_name d)")
    case None
    then show ?thesis using assms(3) by (simp add: link_dep_def local_dep_def)
  next
    case (Some i)
    then obtain k where "k < length ss" "i = int (?b + k) + 1" "sy_name (ss ! k) = dp_to_name d" by (rule name_to_id_SomeD)
    moreover have "dp_to_sym ?d = i" using Some by (simp add: link_dep_def)
    ultimately show ?thesis using owns_placed [OF assms(1)] by fastforce
  qed
  moreover have "dp_from_sym ?d = 0 \<or> (\<exists>s. owns ix' f (dp_from_sym ?d) s) \<or> crowded ix' f"
  proof (cases "dp_from_sym d = 0")
    case False
    define k where "k = nat (dp_from_sym d) - 1"
    have k: "dp_from_sym ?d = int (?b + k) + 1" "k < length syms"
      using False assms(3) by (auto simp: link_dep_def local_dep_def k_def)
    show ?thesis
    proof (cases "k < length ss")
      case True
      then show ?thesis using owns_placed [OF assms(1) True] k(1) by metis
    next
      case False
      then have "length ss = m" using k(2) assms(2) by auto
      then show ?thesis using assms(4) by simp
    qed
  qed (simp add: link_dep_def)
  ultimately show ?thesis by (simp add: link_ok_def)
qed

lemma extract_into_ok:
  assumes "index_ok ix" "map_of (ix_files ix) f = None" "f \<noteq> []" "list_all (local_dep (length syms)) deps"
  shows "index_ok (extract_into f lang syms deps ix)"
proof -
  let ?ix = "extract_into f lang syms deps ix" and ?b = "length (ix_syms ix)"
  define ss where "ss = take (lim_max_syms_per_file (ix_limits ix)) syms"
  define ds where "ds = take (lim_max_deps_per_file (ix_limits ix)) deps"
  have nt: "ix_by_name ix = name_table (ix_syms ix)" and num: "numbered (ix_syms ix)"
    and sp: "\<And>g. sym_places (ix_syms ix) g = sym_range (ix_files ix) g"
    using assms(1) by (auto simp: index_ok_def syms_ok_def)
  note x = extract_into_simps [OF nt, of f lang syms deps, folded ss_def ds_def]
  have "syms_ok ?ix"
    using num sp assms(2) by (simp add: syms_ok_def x numbered_append sym_places_append sym_range_def update_conv' del: map_of_eq_None_iff)
  moreover have "deps_ok ?ix"
  proof -
    have m: "map dp_from_file (ix_deps ?ix) = map dp_from_file (ix_deps ix) @ replicate (length ds) f"
      by (simp add: x o_def map_replicate_const)
    have pl: "\<And>g. g \<noteq> [] \<Longrightarrow> places g (map dp_from_file (ix_deps ix)) = dep_range (ix_files ix) g"
      and c: "contiguous (filter (\<lambda>f. f \<noteq> []) (map dp_from_file (ix_deps ix)))"
      using assms(1) by (auto simp: index_ok_def deps_ok_def)
    have e: "places f (map dp_from_file (ix_deps ix)) = {}"
      using pl [OF assms(3)] assms(2) by (simp add: dep_range_def del: map_of_eq_None_iff)
    then have "f \<notin> set (filter (\<lambda>f. f \<noteq> []) (map dp_from_file (ix_deps ix)))" by (simp only: places_empty) simp
    from contiguous_append_replicate [OF c this] show ?thesis
      unfolding deps_ok_def m
      using pl e assms(3) by (simp add: places_append_replicate dep_range_def x(4) update_conv' filter_replicate)
  qed
  moreover have "files_ok ?ix"
    using assms(1,3) by (auto simp: index_ok_def files_ok_def x update_conv' distinct_update simp del: map_of_eq_None_iff)
  moreover have "links_ok ?ix"
    unfolding links_ok_def list_all_iff x(3)
  proof
    fix d assume "d \<in> set (ix_deps ix @ map (link_dep f ?b (name_to_id ?b ss)) ds)"
    then consider "d \<in> set (ix_deps ix)" | d0 where "d0 \<in> set ds" "d = link_dep f ?b (name_to_id ?b ss) d0" by auto
    then show "dp_from_file d = [] \<or> link_ok ?ix d"
    proof cases
      case 1
      show ?thesis
      proof (cases "dp_from_file d = []")
        case False
        have "dp_from_file d \<noteq> f"
        proof
          assume "dp_from_file d = f"
          then have "places f (map dp_from_file (ix_deps ix)) \<noteq> {}" using 1 by (auto simp: places_empty)
          then show False using assms(1,2,3) by (simp add: index_ok_def deps_ok_def dep_range_def del: map_of_eq_None_iff)
        qed
        then have "crowded ix (dp_from_file d) \<Longrightarrow> crowded ?ix (dp_from_file d)" 
          by (simp add: crowded_def x update_conv' split: option.splits)
        moreover have "link_ok ix d" using assms(1) 1 False by (auto simp: index_ok_def links_ok_def list_all_iff)
        ultimately show ?thesis using owns_append [OF x(1)] by (auto simp: link_ok_def)
      qed simp
    next
      case (2 d0)
      have "local_dep (length syms) d0" using 2(1) assms(4) by (auto simp: ds_def list_all_iff dest: in_set_takeD)
      moreover have "length ss = lim_max_syms_per_file (ix_limits ix) \<longrightarrow> crowded ?ix f" by (simp add: crowded_def x update_conv')
      ultimately show ?thesis using link_dep_ok [OF x(1) ss_def] 2(2) by simp
    qed
  qed
  ultimately show ?thesis by (simp add: index_ok_def)
qed

text \<open>
  What a reader sees of a file: its symbols without their numbers, its dependencies without the numbers they were
  linked with, and its fingerprint.
\<close>

record FileView =
  fv_syms :: "Sym list"
  fv_deps :: "Dep list"
  fv_print :: "u64 \<times> u64"

definition plain_sym :: "Sym \<Rightarrow> Sym" where
  "plain_sym s = s\<lparr>sy_id := 0\<rparr>"

definition plain_dep :: "Dep \<Rightarrow> Dep" where
  "plain_dep d = d\<lparr>dp_from_sym := 0, dp_to_sym := 0\<rparr>"

definition view :: "SymbolIndex \<Rightarrow> string \<Rightarrow> FileView option" where
  "view ix f = map_option (\<lambda>p. \<lparr>fv_syms = map plain_sym (file_syms ix f), fv_deps = map plain_dep (file_deps ix f), fv_print = p\<rparr>)
     (fingerprint ix f)"

text \<open>What a parse of a text should show, up to the limits.\<close>

definition parsed_view :: "IndexLimits \<Rightarrow> string \<Rightarrow> Lang \<Rightarrow> Sym list \<Rightarrow> Dep list \<Rightarrow> u64 \<times> u64 \<Rightarrow> FileView" where
  "parsed_view lim f lang syms deps p =
     \<lparr>fv_syms = map (\<lambda>s. plain_sym (s\<lparr>sy_file := f, sy_lang := lang\<rparr>)) (take (lim_max_syms_per_file lim) syms),
      fv_deps = map (\<lambda>d. plain_dep (d\<lparr>dp_from_file := f\<rparr>)) (take (lim_max_deps_per_file lim) deps), fv_print = p\<rparr>"

lemma plain_placed: "map plain_sym (place_syms f lang b ss) = map (\<lambda>s. plain_sym (s\<lparr>sy_file := f, sy_lang := lang\<rparr>)) ss"
  by (induction ss arbitrary: b) (simp_all add: plain_sym_def)

lemma plain_linked: "plain_dep (link_dep f b m d) = plain_dep (d\<lparr>dp_from_file := f\<rparr>)"
  by (simp add: plain_dep_def link_dep_def)

lemma placed_all: "s \<in> set (place_syms f lang b ss) \<Longrightarrow> sy_id s \<noteq> 0 \<and> sy_file s = f"
  by (induction ss arbitrary: b) auto

lemma extract_into_view:
  assumes "index_ok ix" "map_of (ix_files ix) f = None" "f \<noteq> []"
  shows "view (extract_into f lang syms deps ix) g =
    (if g = f then Some (parsed_view (ix_limits ix) f lang syms deps (0, 0)) else view ix g)"
proof -
  let ?ix = "extract_into f lang syms deps ix" and ?b = "length (ix_syms ix)"
  define ss where "ss = take (lim_max_syms_per_file (ix_limits ix)) syms"
  define ds where "ds = take (lim_max_deps_per_file (ix_limits ix)) deps"
  have nt: "ix_by_name ix = name_table (ix_syms ix)" using assms(1) by (simp add: index_ok_def syms_ok_def)
  note x = extract_into_simps [OF nt, of f lang syms deps, folded ss_def ds_def]
  have fp: "fingerprint ?ix g = (if g = f then Some (0, 0) else fingerprint ix g)" by (simp add: fingerprint_def x update_conv')
  have r: "remove_file f ix = ix" using assms(2) by (simp add: remove_file_def del: map_of_eq_None_iff)
  have e: "file_syms ix f = []" "file_deps ix f = []"
    using remove_file_effect [OF assms(1), of f f] r assms(3) by simp_all
  have pl: "filter (\<lambda>s. sy_id s \<noteq> 0 \<and> sy_file s = g) (place_syms f lang ?b ss) = (if g = f then place_syms f lang ?b ss else [])"
    using placed_all [of _ f lang ?b ss] by (auto simp: filter_id_conv filter_empty_conv)
  have sy: "file_syms ?ix g = (if g = f then place_syms f lang ?b ss else file_syms ix g)"
    using e(1) pl by (auto simp: file_syms_def x)
  have dp: "file_deps ?ix g = (if g = f then map (link_dep f ?b (name_to_id ?b ss)) ds else file_deps ix g)"
    using e(2) by (auto simp: file_deps_def x filter_map o_def filter_empty_conv)
  show ?thesis
    by (simp add: view_def fp sy dp parsed_view_def plain_placed plain_linked ss_def ds_def o_def)
qed

lemma remove_file_view:
  assumes "index_ok ix"
  shows "view (remove_file f ix) g = (if g = f then None else view ix g)"
proof (cases "g = []")
  case True
  have "map_of (ix_files ix) [] = None" using assms by (simp add: index_ok_def files_ok_def)
  then have "fingerprint ix g = None" using True by (simp add: fingerprint_def del: map_of_eq_None_iff)
  then show ?thesis using remove_file_effect [OF assms, of f g] by (simp add: view_def)
qed (use remove_file_effect [OF assms, of f g] in \<open>simp add: view_def\<close>)

lemma detect_lang_empty: "detect_lang [] = lang_unknown"
  by (simp add: detect_lang_def rfind_char_def)

lemma index_text_spec:
  assumes "index_ok ix" "f \<noteq> []" "index_text f lang src ix = Some (ec, ix')"
  shows "index_ok ix' \<and> ix_limits ix' = ix_limits ix \<and> (case extract_lang lang f src of
      Some (Inr (syms, deps)) \<Rightarrow> is_ok ec \<and>
        (\<forall>g. view ix' g = (if g = f then Some (parsed_view (ix_limits ix) f lang syms deps (0, 0)) else view ix g)) \<and>
        map_of (ix_files ix') f \<noteq> None \<and> ix_touch ix' = AList.delete f (ix_touch ix) \<and> ix_touch_clock ix' = ix_touch_clock ix \<and>
        set (map fst (ix_files ix')) = insert f (set (map fst (ix_files ix)))
    | Some (Inl e) \<Rightarrow> ec = e \<and> ix' = ix | None \<Rightarrow> False)"
proof (cases "extract_lang lang f src")
  case None
  then show ?thesis using assms(3) by (simp add: index_text_def)
next
  case (Some r)
  show ?thesis
  proof (cases r)
    case (Inl e)
    then show ?thesis using assms Some by (simp add: index_text_def)
  next
    case (Inr p)
    obtain syms deps where p: "p = (syms, deps)" by (cases p)
    define ix1 where "ix1 = remove_file f ix"
    have 1: "(if map_of (ix_files ix) f \<noteq> None then remove_file f ix else ix) = ix1"
      by (simp add: ix1_def remove_file_def split: option.splits)
    have ix': "ec = ok" "ix' = extract_into f lang syms deps ix1"
      using assms(3) Some Inr p 1 by (simp_all add: index_text_def Let_def)
    note r1 = remove_file_effect [OF assms(1), of f, folded ix1_def]
    have ok1: "index_ok ix1" and fst1: "map fst (ix_files ix1) = removeAll f (map fst (ix_files ix))" using r1 by blast+
    have none: "map_of (ix_files ix1) f = None"
      using arg_cong [OF fst1, of set] by (simp add: map_of_eq_None_iff)
    have nt: "ix_by_name ix1 = name_table (ix_syms ix1)" using ok1 by (simp add: index_ok_def syms_ok_def)
    note x = extract_into_simps [OF nt, of f lang syms deps, folded ix'(2)]
    have "index_ok ix'" unfolding ix'(2)
      by (rule extract_into_ok [OF ok1 none assms(2)]) (use extract_local [of lang f src] Some Inr p in simp)
    moreover have "view ix' g = (if g = f then Some (parsed_view (ix_limits ix) f lang syms deps (0, 0)) else view ix g)" for g
      using extract_into_view [OF ok1 none assms(2)] remove_file_view [OF assms(1), of f g, folded ix1_def] r1 ix'(2) by simp
    moreover have "set (map fst (ix_files ix')) = insert f (set (map fst (ix_files ix)))"
      using arg_cong [OF fst1, of set] by (simp add: x AList.dom_update)
    ultimately show ?thesis using Some Inr p ix' r1 x by (simp add: update_conv')
  qed
qed

subsection \<open>The lazy cache\<close>

lemma view_cong:
  "ix_syms ix' = ix_syms ix \<Longrightarrow> ix_deps ix' = ix_deps ix \<Longrightarrow> ix_files ix' = ix_files ix \<Longrightarrow> view ix' = view ix"
  by (simp add: view_def fun_eq_iff fingerprint_def file_syms_def file_deps_def)

lemma snd_update: "set (map snd (AList.update k v xs)) \<subseteq> insert v (set (map snd xs))"
  by (induction xs) auto

lemma distinct_snd_update: "distinct (map snd xs) \<Longrightarrow> v \<notin> set (map snd xs) \<Longrightarrow> distinct (map snd (AList.update k v xs))"
proof (induction xs)
  case (Cons x xs)
  then show ?case using snd_update [of k v xs] by (cases x) auto
qed simp

lemma set_update: "(g, t) \<in> set (AList.update f v xs) \<Longrightarrow> (g, t) \<in> set xs \<or> (g, t) = (f, v)"
  by (induction xs) (auto split: if_splits)

lemma touch_file_ok:
  assumes "index_ok ix" "map_of (ix_files ix) f \<noteq> None"
  shows "index_ok (touch_file f ix)"
proof -
  let ?ix = "touch_file f ix"
  have [simp]: "ix_syms ?ix = ix_syms ix" "ix_deps ?ix = ix_deps ix" "ix_files ?ix = ix_files ix" "ix_by_name ?ix = ix_by_name ix"
    "ix_limits ?ix = ix_limits ix" "ix_touch_clock ?ix = ix_touch_clock ix + 1"
    "ix_touch ?ix = AList.update f (ix_touch_clock ix + 1) (ix_touch ix)"
    by (simp_all add: touch_file_def)
  have k: "files_ok ix" using assms(1) by (simp add: index_ok_def)
  then have old: "(g, t) \<in> set (ix_touch ix) \<Longrightarrow> t \<le> ix_touch_clock ix \<and> map_of (ix_files ix) g \<noteq> None" for g t
    unfolding files_ok_def by blast
  have "ix_touch_clock ix + 1 \<notin> set (map snd (ix_touch ix))"
  proof
    assume "ix_touch_clock ix + 1 \<in> set (map snd (ix_touch ix))"
    then obtain g where "(g, ix_touch_clock ix + 1) \<in> set (ix_touch ix)" by auto
    then show False using old by fastforce
  qed
  then have "distinct (map snd (AList.update f (ix_touch_clock ix + 1) (ix_touch ix)))"
    using k by (intro distinct_snd_update) (auto simp: files_ok_def)
  moreover have "map_of (ix_files ix) g \<noteq> None \<and> t \<le> ix_touch_clock ix + 1"
    if "(g, t) \<in> set (AList.update f (ix_touch_clock ix + 1) (ix_touch ix))" for g t
    using set_update [OF that]
  proof
    assume "(g, t) \<in> set (ix_touch ix)"
    then show ?thesis using old [of g t] by simp
  qed (use assms(2) in simp)
  ultimately have "files_ok ?ix" using k unfolding files_ok_def by (simp add: distinct_update del: map_of_eq_None_iff) blast
  moreover have "owns ?ix = owns ix" "crowded ?ix = crowded ix"
    by (simp_all add: fun_eq_iff owns_def live_def crowded_def split: option.splits)
  then have "links_ok ?ix = links_ok ix" by (simp add: links_ok_def link_ok_def)
  moreover have "syms_ok ?ix = syms_ok ix" "deps_ok ?ix = deps_ok ix" by (simp_all add: syms_ok_def deps_ok_def)
  ultimately show ?thesis using assms(1) by (simp add: index_ok_def)
qed

lemma touch_file_view: "view (touch_file f ix) = view ix"
  by (rule view_cong) (simp_all add: touch_file_def)

lemma stamp_file_ok:
  assumes "index_ok ix"
  shows "index_ok (stamp_file f m z ix)"
proof (cases "map_of (ix_files ix) f")
  case (Some pf)
  let ?ix = "stamp_file f m z ix" and ?pf = "pf\<lparr>pf_mtime := m, pf_size := z\<rparr>"
  have [simp]: "ix_syms ?ix = ix_syms ix" "ix_deps ?ix = ix_deps ix" "ix_by_name ?ix = ix_by_name ix" "ix_touch ?ix = ix_touch ix"
    "ix_limits ?ix = ix_limits ix" "ix_touch_clock ?ix = ix_touch_clock ix" "ix_files ?ix = AList.update f ?pf (ix_files ix)"
    using Some by (simp_all add: stamp_file_def)
  have [simp]: "sym_range (AList.update f ?pf (ix_files ix)) g = sym_range (ix_files ix) g"
    "dep_range (AList.update f ?pf (ix_files ix)) g = dep_range (ix_files ix) g" "crowded ?ix g = crowded ix g" for g
    using Some by (auto simp: sym_range_def dep_range_def crowded_def update_conv' split: option.splits)
  have "f \<noteq> []" using assms Some by (auto simp: index_ok_def files_ok_def)
  then have "files_ok ?ix" using assms by (auto simp: index_ok_def files_ok_def update_conv' distinct_update simp del: map_of_eq_None_iff)
  then show ?thesis using assms
    by (auto simp: index_ok_def syms_ok_def deps_ok_def links_ok_def list_all_iff link_ok_def owns_def live_def)
qed (use assms in \<open>simp add: stamp_file_def\<close>)

lemma stamp_file_view:
  assumes "map_of (ix_files ix) f \<noteq> None"
  shows "view (stamp_file f m z ix) g = (if g = f then map_option (\<lambda>v. v\<lparr>fv_print := (m, z)\<rparr>) (view ix f) else view ix g)"
  using assms by (auto simp: view_def fingerprint_def file_syms_def file_deps_def stamp_file_def update_conv' simp del: map_of_eq_None_iff split: option.splits)

text \<open>The victim has the least stamp of all.\<close>

lemma lru_step:
  "lru m w xs = w \<and> (\<forall>(g, u) \<in> set xs. m \<le> u) \<or> (\<exists>t < m. (lru m w xs, t) \<in> set xs \<and> (\<forall>(g, u) \<in> set xs. t \<le> u))"
proof (induction m w xs rule: lru.induct)
  case (2 m w f t xs)
  show ?case
  proof (cases "t < m")
    case True
    from 2(1) [OF True] show ?thesis
    proof
      assume "lru t f xs = f \<and> (\<forall>(g, u) \<in> set xs. t \<le> u)"
      then show ?thesis using True by auto
    next
      assume "\<exists>t' < t. (lru t f xs, t') \<in> set xs \<and> (\<forall>(g, u) \<in> set xs. t' \<le> u)"
      then obtain t' where "t' < t" "(lru t f xs, t') \<in> set xs" "\<forall>(g, u) \<in> set xs. t' \<le> u" by blast
      then show ?thesis using True by (intro disjI2 exI [of _ t']) auto
    qed
  next
    case False
    from 2(2) [OF False] show ?thesis
    proof
      assume "\<exists>t' < m. (lru m w xs, t') \<in> set xs \<and> (\<forall>(g, u) \<in> set xs. t' \<le> u)"
      then obtain t' where "t' < m" "(lru m w xs, t') \<in> set xs" "\<forall>(g, u) \<in> set xs. t' \<le> u" by blast
      then show ?thesis using False by (intro disjI2 exI [of _ t']) auto
    qed (use False in auto)
  qed
qed simp

lemma lru_least:
  assumes "(g, u) \<in> set ts" "u < mn"
  shows "\<exists>t. (lru mn v ts, t) \<in> set ts \<and> (\<forall>(g, u) \<in> set ts. t \<le> u)"
  using lru_step [of mn v ts] assms by fastforce

lemma evict_lru_cases:
  "evict_lru ix = ix \<or> (length (ix_files ix) > lim_cache_files (ix_limits ix) \<and> (\<exists>v. evict_lru ix = remove_file v ix))"
  by (auto simp: evict_lru_def Let_def)

definition evicted :: "nat \<Rightarrow> SymbolIndex \<Rightarrow> string set \<Rightarrow> bool" where
  "evicted n ix vs \<longleftrightarrow> vs = {} \<or> (n > lim_cache_files (ix_limits ix) \<and> (\<exists>v. vs = {v}))"

lemma evict_lru_view:
  assumes "index_ok ix2" "ix_limits ix2 = ix_limits ix" "length (ix_files ix2) \<le> n"
  shows "index_ok (evict_lru ix2) \<and> (\<exists>vs. evicted n ix vs \<and> (\<forall>g. view (evict_lru ix2) g = (if g \<in> vs then None else view ix2 g)))"
proof (cases "evict_lru ix2 = ix2")
  case True
  then show ?thesis using assms(1) by (auto simp: evicted_def intro: exI [of _ "{}"])
next
  case False
  then obtain v where v: "evict_lru ix2 = remove_file v ix2" "length (ix_files ix2) > lim_cache_files (ix_limits ix2)"
    using evict_lru_cases [of ix2] by blast
  then have "evicted n ix {v}" using assms(2,3) by (auto simp: evicted_def)
  then show ?thesis
    using v(1) remove_file_effect [OF assms(1), of v] remove_file_view [OF assms(1), of v] by (intro conjI exI [of _ "{v}"]) auto
qed

lemma ensure_parse:
  fixes m z :: u64
  assumes "index_ok ix" "extract_lang (detect_lang f) f src = Some (Inr (syms, deps))"
    and "index_text f (detect_lang f) src ix = Some (ec, ix1)"
  defines "ix2 \<equiv> touch_file f (stamp_file f m z ix1)"
  shows "index_ok ix2 \<and> is_ok ec \<and> ix_limits ix2 = ix_limits ix \<and> length (ix_files ix2) \<le> length (ix_files ix) + 1 \<and>
    (\<forall>g. view ix2 g = (if g = f then Some (parsed_view (ix_limits ix) f (detect_lang f) syms deps (m, z)) else view ix g))"
proof -
  have f: "f \<noteq> []" using assms(2) detect_lang_empty by (auto simp: extract_lang_def)
  note t = index_text_spec [OF assms(1) f assms(3), unfolded assms(2), simplified]
  have k1: "index_ok ix1" "map_of (ix_files ix1) f \<noteq> None" using t by auto
  have fst2: "map fst (ix_files ix2) = map fst (ix_files ix1)"
    using k1(2) by (auto simp: ix2_def touch_file_def stamp_file_def AList.update_keys split: option.splits dest: map_of_SomeD)
      (metis fst_conv image_eqI map_of_SomeD)
  have "map_of (ix_files (stamp_file f m z ix1)) f \<noteq> None" using k1(2) by (auto simp: stamp_file_def update_conv' split: option.splits)
  then have "index_ok ix2" unfolding ix2_def using touch_file_ok stamp_file_ok [OF k1(1)] by blast
  moreover have "length (ix_files ix2) \<le> length (ix_files ix) + 1"
  proof -
    have d: "distinct (map fst (ix_files ix1))" "distinct (map fst (ix_files ix))"
      using k1(1) assms(1) by (auto simp: index_ok_def files_ok_def)
    have "length (ix_files ix2) = card (set (map fst (ix_files ix1)))"
      using distinct_card [OF d(1)] arg_cong [OF fst2, of length] by simp
    also have "\<dots> = card (insert f (set (map fst (ix_files ix))))" using t by (simp only: list.set_map)
    also have "\<dots> \<le> card (set (map fst (ix_files ix))) + 1" by (simp add: card_insert_if)
    also have "card (set (map fst (ix_files ix))) = length (ix_files ix)" using distinct_card [OF d(2)] by simp
    finally show ?thesis .
  qed
  moreover have "ix_limits ix2 = ix_limits ix" using t by (simp add: ix2_def touch_file_def stamp_file_def split: option.splits)
  moreover have "view ix2 g = (if g = f then Some (parsed_view (ix_limits ix) f (detect_lang f) syms deps (m, z)) else view ix g)" for g
    using t by (auto simp: ix2_def touch_file_view stamp_file_view [OF k1(2)] parsed_view_def)
  ultimately show ?thesis using t by blast
qed


lemma index_text_ok:
  assumes "index_ok ix" "index_text f (detect_lang f) src ix = Some (ec, ix1)"
  shows "index_ok ix1 \<and> (is_ok ec \<longrightarrow> map_of (ix_files ix1) f \<noteq> None)"
proof (cases "f = []")
  case True
  then show ?thesis using assms by (auto simp: index_text_def detect_lang_empty extract_lang_def)
next
  case False
  have "\<not> is_ok e" if "extract_lang (detect_lang f) f src = Some (Inl e)" for e
    using that by (auto simp: extract_lang_def split: Lang.splits)
  then show ?thesis using index_text_spec [OF assms(1) False assms(2)] by (auto split: option.splits sum.splits)
qed

lemma evict_lru_ok: "index_ok ix \<Longrightarrow> index_ok (evict_lru ix)"
  using evict_lru_cases [of ix] remove_file_effect by metis

lemma ensure_indexed_ok:
  assumes "index_ok ix" "ensure_indexed st f ix = Some (ec, changed, ix')"
  shows "index_ok ix'"
proof -
  consider "ix' = ix" | "ix' = touch_file f ix" "map_of (ix_files ix) f \<noteq> None"
    | e src ix1 where "index_text f (detect_lang f) src ix = Some (e, ix1)" "ix' = ix1"
    | e src m z ix1 where "index_text f (detect_lang f) src ix = Some (e, ix1)" "is_ok e"
        "ix' = evict_lru (touch_file f (stamp_file f m z ix1))"
    using assms(2) by (auto simp: ensure_indexed_def split: option.splits if_splits)
  then show ?thesis
  proof cases
    case (4 e src m z ix1)
    then have k: "index_ok ix1" "map_of (ix_files ix1) f \<noteq> None" using index_text_ok [OF assms(1)] by blast+
    then have "map_of (ix_files (stamp_file f m z ix1)) f \<noteq> None" by (auto simp: stamp_file_def update_conv' split: option.splits)
    then show ?thesis using 4(3) stamp_file_ok [OF k(1)] touch_file_ok evict_lru_ok by blast
  qed (use assms(1) touch_file_ok index_text_ok in auto)
qed


section \<open>Any sequence of operations\<close>

datatype graph_op = do_extract "string \<Rightarrow> string option" string
  | do_ensure "string \<Rightarrow> (string \<times> u64 \<times> u64) option" string | do_cap nat

fun graph_step :: "graph_op \<Rightarrow> SymbolIndex \<Rightarrow> SymbolIndex option" where
  "graph_step (do_extract rd f) ix = map_option snd (extract_file rd f ix)"
| "graph_step (do_ensure st f) ix = map_option (\<lambda>(_, _, ix'). ix') (ensure_indexed st f ix)"
| "graph_step (do_cap n) ix = Some (set_cache_cap n ix)"

fun run_graph :: "graph_op list \<Rightarrow> SymbolIndex \<Rightarrow> SymbolIndex option" where
  "run_graph [] ix = Some ix"
| "run_graph (x # xs) ix = (case graph_step x ix of None \<Rightarrow> None | Some ix' \<Rightarrow> run_graph xs ix')"

lemma set_cache_cap_ok: "index_ok ix \<Longrightarrow> index_ok (set_cache_cap n ix)"
proof -
  let ?ix = "set_cache_cap n ix"
  have [simp]: "ix_syms ?ix = ix_syms ix" "ix_deps ?ix = ix_deps ix" "ix_files ?ix = ix_files ix" "ix_by_name ?ix = ix_by_name ix"
    "ix_touch ?ix = ix_touch ix" "ix_touch_clock ?ix = ix_touch_clock ix"
    "lim_max_syms_per_file (ix_limits ?ix) = lim_max_syms_per_file (ix_limits ix)"
    by (simp_all add: set_cache_cap_def)
  have "owns ?ix = owns ix" "crowded ?ix = crowded ix"
    by (simp_all add: fun_eq_iff owns_def live_def crowded_def split: option.splits)
  then have "links_ok ?ix = links_ok ix" by (simp add: links_ok_def link_ok_def)
  moreover have "syms_ok ?ix = syms_ok ix" "deps_ok ?ix = deps_ok ix" "files_ok ?ix = files_ok ix"
    by (simp_all add: syms_ok_def deps_ok_def files_ok_def)
  ultimately show "index_ok ix \<Longrightarrow> index_ok ?ix" by (simp add: index_ok_def)
qed

lemma extract_file_ok:
  assumes "index_ok ix" "extract_file rd f ix = Some (ec, ix')"
  shows "index_ok ix'"
proof (cases "detect_lang f = lang_unknown \<or> rd f = None")
  case True
  then show ?thesis using assms by (auto simp: extract_file_def Let_def split: if_splits option.splits)
next
  case False
  then obtain src where "index_text f (detect_lang f) src ix = Some (ec, ix')"
    using assms(2) by (auto simp: extract_file_def Let_def)
  moreover have "f \<noteq> []" using False detect_lang_empty by auto
  ultimately show ?thesis using index_text_spec [OF assms(1)] by blast
qed

lemma graph_step_ok: "index_ok ix \<Longrightarrow> graph_step x ix = Some ix' \<Longrightarrow> index_ok ix'"
  by (cases x) (auto dest: extract_file_ok ensure_indexed_ok set_cache_cap_ok)

lemma run_graph_ok: "index_ok ix \<Longrightarrow> run_graph xs ix = Some ix' \<Longrightarrow> index_ok ix'"
  by (induction xs arbitrary: ix) (auto split: option.splits dest: graph_step_ok)

section \<open>What the queries answer\<close>

lemma live_iff:
  assumes "numbered (ix_syms ix)"
  shows "live ix i = Some s \<longleftrightarrow> s \<in> set (ix_syms ix) \<and> sy_id s = i \<and> i \<noteq> 0"
proof
  assume "live ix i = Some s"
  then have "1 \<le> i" "i \<le> int (length (ix_syms ix))" "s = ix_syms ix ! (nat i - 1)" "sy_id s = i"
    by (auto simp: live_def Let_def split: if_splits)
  moreover have "nat i - 1 < length (ix_syms ix)" using calculation(1,2) by linarith
  ultimately show "s \<in> set (ix_syms ix) \<and> sy_id s = i \<and> i \<noteq> 0" by auto
next
  assume s: "s \<in> set (ix_syms ix) \<and> sy_id s = i \<and> i \<noteq> 0"
  then obtain k where k: "k < length (ix_syms ix)" "ix_syms ix ! k = s" by (auto simp: in_set_conv_nth)
  then have "i = int k + 1" using numbered_nth [OF assms k(1)] s by simp
  moreover have "nat (int k + 1) - 1 = k" by simp
  ultimately show "live ix i = Some s" using k s by (simp add: live_def Let_def)
qed

lemma best_of_mem:
  "best_of ix hint best is = Some s \<Longrightarrow> best = Some s \<or> (\<exists>i \<in> set is. live ix i = Some s)"
  by (induction ix hint best "is" rule: best_of.induct) (auto split: option.splits if_splits)

lemma best_of_Some: "best \<noteq> None \<Longrightarrow> best_of ix hint best is \<noteq> None"
  by (induction ix hint best "is" rule: best_of.induct) (auto split: option.splits)

lemma best_of_live: "i \<in> set is \<Longrightarrow> live ix i \<noteq> None \<Longrightarrow> best_of ix hint best is \<noteq> None"
proof (induction ix hint best "is" rule: best_of.induct)
  case (2 ix hint best i' "is")
  show ?case
  proof (cases "live ix i'")
    case None
    then show ?thesis using 2 by auto
  next
    case (Some s)
    have "(if best = None \<or> hint \<noteq> [] \<and> sy_file s = hint then Some s else best) \<noteq> None" by auto
    from best_of_Some [OF this] show ?thesis using Some by simp
  qed
qed simp

lemma best_of_hint_stays:
  "hint \<noteq> [] \<Longrightarrow> best = Some s \<Longrightarrow> sy_file s = hint \<Longrightarrow> \<exists>t. best_of ix hint best is = Some t \<and> sy_file t = hint"
  by (induction ix hint best "is" arbitrary: s rule: best_of.induct) (auto split: option.splits)

lemma best_of_hint:
  "hint \<noteq> [] \<Longrightarrow> i \<in> set is \<Longrightarrow> live ix i = Some s \<Longrightarrow> sy_file s = hint \<Longrightarrow>
   \<exists>t. best_of ix hint best is = Some t \<and> sy_file t = hint"
proof (induction ix hint best "is" rule: best_of.induct)
  case (2 ix hint best i' "is")
  show ?case
  proof (cases "i' = i")
    case True
    then show ?thesis using 2(5,6) best_of_hint_stays [OF 2(3), of "Some s" s] 2(3) by simp
  next
    case False
    then show ?thesis using 2 by (auto split: option.splits)
  qed
qed simp

text \<open>The live symbols of the index.\<close>

definition live_syms :: "SymbolIndex \<Rightarrow> Sym set" where
  "live_syms ix = {s \<in> set (ix_syms ix). sy_id s \<noteq> 0}"

text \<open>
  An answer to a lookup is a live symbol of an indexed file, with the name or the qualified name that was asked for,
  from the hinted file if that has a symbol of this name; no answer means that there is no such symbol.
\<close>

definition lookup_right :: "SymbolIndex \<Rightarrow> string \<Rightarrow> string \<Rightarrow> bool" where
  "lookup_right ix q hint \<longleftrightarrow> (case lookup ix q hint of
     Inr s \<Rightarrow> s \<in> live_syms ix \<and> (sy_name s = q \<or> sy_qual s = q) \<and> sym_by_id ix (sy_id s) = Inr s \<and>
       map_of (ix_files ix) (sy_file s) \<noteq> None \<and>
       (if \<exists>t \<in> live_syms ix. sy_name t = q \<and> sy_file t = hint \<and> hint \<noteq> [] then sy_file s = hint else True)
   | Inl _ \<Rightarrow> live_syms ix \<inter> {s. sy_name s = q \<or> sy_qual s = q} = {})"

lemma live_file:
  assumes "index_ok ix" "s \<in> live_syms ix"
  shows "map_of (ix_files ix) (sy_file s) \<noteq> None"
proof -
  obtain k where "k < length (ix_syms ix)" "ix_syms ix ! k = s" "sy_id s \<noteq> 0"
    using assms(2) by (auto simp: live_syms_def in_set_conv_nth)
  then have "sym_places (ix_syms ix) (sy_file s) \<noteq> {}" by (auto simp: sym_places_def)
  then show ?thesis using assms(1) by (auto simp: index_ok_def syms_ok_def sym_range_def split: option.splits)
qed

lemma live_by_id: "index_ok ix \<Longrightarrow> s \<in> live_syms ix \<Longrightarrow> sym_by_id ix (sy_id s) = Inr s"
  using live_iff [of ix "sy_id s" s] by (simp add: index_ok_def syms_ok_def live_syms_def sym_by_id_def)

lemma by_name_live:
  assumes "index_ok ix"
  shows "case ix_by_name ix q of None \<Rightarrow> \<forall>s \<in> live_syms ix. sy_name s \<noteq> q
    | Some v \<Rightarrow> v \<noteq> [] \<and> (\<forall>i. i \<in> set v \<longleftrightarrow> (\<exists>s \<in> live_syms ix. sy_name s = q \<and> live ix i = Some s))"
proof -
  have n: "numbered (ix_syms ix)" and b: "ix_by_name ix q = some_ids (ids_of (ix_syms ix) q)"
    using assms by (auto simp: index_ok_def syms_ok_def name_table_def)
  have "i \<in> set (ids_of (ix_syms ix) q) \<longleftrightarrow> (\<exists>s \<in> live_syms ix. sy_name s = q \<and> live ix i = Some s)" for i
    by (auto simp: ids_of_def live_syms_def live_iff [OF n])
  moreover have "ids_of (ix_syms ix) q = [] \<Longrightarrow> \<forall>s \<in> live_syms ix. sy_name s \<noteq> q"
    by (auto simp: ids_of_def live_syms_def filter_empty_conv)
  ultimately show ?thesis using b by (auto simp: some_ids_def)
qed

lemma find_right:
  "find P xs = Some s \<Longrightarrow> s \<in> set xs \<and> P s"
  by (auto simp: find_Some_iff)

lemma lookup_correct:
  assumes "index_ok ix"
  shows "lookup_right ix q hint"
proof (cases "ix_by_name ix q")
  case None
  then have no: "\<forall>s \<in> live_syms ix. sy_name s \<noteq> q" using by_name_live [OF assms, of q] by simp
  show ?thesis
  proof (cases "lookup ix q hint")
    case (Inl e)
    then show ?thesis using None no
      by (auto simp: lookup_right_def lookup_def live_syms_def find_None_iff split: option.splits)
  next
    case (Inr s)
    then have s: "s \<in> live_syms ix" "sy_name s = q \<or> sy_qual s = q"
      using None by (auto simp: lookup_def live_syms_def split: option.splits dest!: find_right)
    then show ?thesis using Inr no live_by_id [OF assms s(1)] live_file [OF assms s(1)] by (auto simp: lookup_right_def)
  qed
next
  case (Some v)
  then have v: "v \<noteq> []" "\<And>i. i \<in> set v \<longleftrightarrow> (\<exists>s \<in> live_syms ix. sy_name s = q \<and> live ix i = Some s)"
    using by_name_live [OF assms, of q] by simp_all
  then obtain s where s: "best_of ix hint None v = Some s" using best_of_live [of "hd v" v ix hint None] by fastforce
  then obtain i where "i \<in> set v" "live ix i = Some s" using best_of_mem [OF s] by blast
  then have l: "s \<in> live_syms ix" "sy_name s = q" using v(2) by auto
  have h: "sy_file s = hint" if t: "t \<in> live_syms ix" "sy_name t = q" "sy_file t = hint" "hint \<noteq> []" for t
  proof -
    have n: "numbered (ix_syms ix)" using assms by (simp add: index_ok_def syms_ok_def)
    have "live ix (sy_id t) = Some t" using t(1) by (simp add: live_iff [OF n] live_syms_def)
    moreover have "sy_id t \<in> set v" using v(2) t(1,2) calculation by blast
    ultimately show ?thesis using best_of_hint [OF t(4), of "sy_id t" v ix t None] t(3) s by auto
  qed
  have "lookup ix q hint = Inr s" using Some s by (simp add: lookup_def)
  then show ?thesis using l h live_by_id [OF assms l(1)] live_file [OF assms l(1)] by (auto simp: lookup_right_def)
qed

text \<open>A caller is a live symbol of an indexed file, unless its file had more symbols than the index keeps.\<close>

lemma fold_unique_mem:
  "x \<in> set (fold (\<lambda>d out. if A d then out else if B d then append_unique out (f d) else out) ds acc) \<longleftrightarrow>
     x \<in> set acc \<or> (\<exists>d \<in> set ds. \<not> A d \<and> B d \<and> f d = x)"
  by (induction ds arbitrary: acc) (auto simp: append_unique_def)

lemma callers_of_mem:
  "c \<in> set (callers_of ix i) \<longleftrightarrow>
     (\<exists>d \<in> set (ix_deps ix). dp_from_file d \<noteq> [] \<and> dp_to_sym d = i \<and> dp_kind d = dep_call \<and> dp_from_sym d = c \<and> c \<noteq> 0)"
  unfolding callers_of_def fold_unique_mem by auto

lemma callers_live:
  assumes "index_ok ix" "c \<in> set (callers_of ix i)" "i \<noteq> 0"
  shows "\<exists>callee \<in> live_syms ix. sy_id callee = i \<and>
    ((\<exists>s \<in> live_syms ix. sy_id s = c \<and> sy_file s = sy_file callee) \<or> crowded ix (sy_file callee))"
proof -
  have n: "numbered (ix_syms ix)" using assms(1) by (simp add: index_ok_def syms_ok_def)
  have own: "owns ix f j s \<Longrightarrow> s \<in> live_syms ix \<and> sy_id s = j \<and> sy_file s = f" for f j s
    by (auto simp: owns_def live_iff [OF n] live_syms_def)
  obtain d where d: "d \<in> set (ix_deps ix)" "dp_from_file d \<noteq> []" "dp_to_sym d = i" "dp_from_sym d = c" "c \<noteq> 0"
    using assms(2) unfolding callers_of_mem by blast
  then have "link_ok ix d" using assms(1) by (auto simp: index_ok_def links_ok_def list_all_iff)
  then obtain t where t: "owns ix (dp_from_file d) i t" "(\<exists>s. owns ix (dp_from_file d) c s) \<or> crowded ix (dp_from_file d)"
    unfolding link_ok_def using d(3-5) assms(3) by metis
  have "t \<in> live_syms ix" "sy_id t = i" "sy_file t = dp_from_file d" using own [OF t(1)] by simp_all
  moreover have "(\<exists>s \<in> live_syms ix. sy_id s = c \<and> sy_file s = dp_from_file d) \<or> crowded ix (dp_from_file d)"
    using t(2) own by blast
  ultimately show ?thesis by (intro bexI [of _ t]) simp_all
qed


section \<open>Retrieved text stays within the budget\<close>

definition spent :: "Snippet list \<Rightarrow> nat" where
  "spent out = sum_list (map sn_bytes out)"

definition sized :: "Snippet \<Rightarrow> bool" where
  "sized sn \<longleftrightarrow> sn_bytes sn = length (sn_text sn)"

lemma sym_text_length: "sym_text src s cap = (long, t) \<Longrightarrow> length t \<le> cap"
  by (auto simp: sym_text_def substr_def Let_def not_less intro: min.coboundedI2 split: if_splits)

lemma snippet_sized:
  assumes "snippet rd ix i mb out = (ec, sn)" "is_ok ec"
  shows "sized sn \<and> length (sn_text sn) \<le> (if mb \<noteq> 0 then mb else lim_snippet_bytes (ix_limits ix))"
  using assms
  by (auto simp: snippet_def sized_def empty_snippet_def Let_def split: if_splits option.splits prod.splits dest!: sym_text_length)

lemma push_snippet_budget:
  assumes "push_snippet rd ix i budget out = (left, budget', out')" "list_all sized out"
  shows "spent out' + budget' = spent out + budget \<and> list_all sized out'"
proof -
  obtain ec sn where sn: "snippet rd ix i 0 empty_snippet = (ec, sn)" by (cases "snippet rd ix i 0 empty_snippet")
  show ?thesis
  proof (cases "is_ok ec")
    case True
    then have "sn_bytes sn = length (sn_text sn)" using snippet_sized [OF sn True] by (simp add: sized_def)
    then show ?thesis using assms sn True by (auto simp: push_snippet_def spent_def sized_def split: if_splits)
  qed (use assms sn in \<open>simp add: push_snippet_def\<close>)
qed

lemma push_callees_budget:
  "list_all sized out \<Longrightarrow> spent (push_callees rd ix file cs budget out) \<le> spent out + budget \<and>
     list_all sized (push_callees rd ix file cs budget out)"
proof (induction cs arbitrary: budget out)
  case (Cons c cs)
  show ?case
  proof (cases "budget = 0 \<or> (\<exists>e. lookup ix c file = Inl e)")
    case False
    then obtain s where s: "lookup ix c file = Inr s" by (cases "lookup ix c file") auto
    obtain left b' out' where p: "push_snippet rd ix (sy_id s) budget out = (left, b', out')" by (cases "push_snippet rd ix (sy_id s) budget out") auto
    note b = push_snippet_budget [OF p Cons.prems]
    show ?thesis using False s p b Cons.IH [of out' b'] by (cases left) auto
  qed (use Cons in auto)
qed simp

text \<open>The state of a change scan accounts for every byte of its budget.\<close>

definition scan_ok :: "nat \<Rightarrow> ChangeScan \<Rightarrow> bool" where
  "scan_ok n cs \<longleftrightarrow> spent (cs_out cs) + cs_budget cs = n \<and> list_all sized (cs_out cs)"

lemma push_seen_ok: "push_seen rd ix i cs = (left, cs') \<Longrightarrow> scan_ok n cs \<Longrightarrow> scan_ok n cs'"
  by (auto simp: push_seen_def scan_ok_def split: prod.splits dest!: push_snippet_budget)

lemma change_callers_ok: "change_callers rd ix is cs = (left, cs') \<Longrightarrow> scan_ok n cs \<Longrightarrow> scan_ok n cs'"
  by (induction rd ix "is" cs rule: change_callers.induct) (auto split: if_splits prod.splits dest: push_seen_ok)

lemma change_syms_ok: "change_syms rd ix f is cs = (left, cs') \<Longrightarrow> scan_ok n cs \<Longrightarrow> scan_ok n cs'"
  by (induction rd ix f "is" cs rule: change_syms.induct)
     (auto simp: Let_def split: if_splits prod.splits dest: push_seen_ok change_callers_ok)

lemma change_files_ok: "scan_ok n cs \<Longrightarrow> scan_ok n (change_files rd ix fs cs)"
proof (induction fs arbitrary: cs)
  case (Cons f fs)
  show ?case
  proof (cases "map_of (ix_files ix) f")
    case (Some pf)
    obtain left cs' where c: "change_syms rd ix f [pf_sym_first pf..<pf_sym_first pf + pf_sym_count pf] cs = (left, cs')" by fastforce
    then show ?thesis using Some change_syms_ok [OF c Cons.prems] Cons.IH by simp
  qed (use Cons in simp)
qed simp

theorem context_bounded:
  "spent (snd (context_for_change rd ix files)) \<le> lim_context_total_bytes (ix_limits ix) \<and>
   spent (snd (snippet_for_call rd ix call_file call_name)) \<le> lim_context_total_bytes (ix_limits ix)"
proof
  let ?n = "lim_context_total_bytes (ix_limits ix)"
  have "scan_ok ?n \<lparr>cs_budget = ?n, cs_seen = [], cs_out = []\<rparr>" by (simp add: scan_ok_def spent_def)
  from change_files_ok [OF this, of rd ix files] show "spent (snd (context_for_change rd ix files)) \<le> ?n"
    by (simp add: context_for_change_def scan_ok_def)
  show "spent (snd (snippet_for_call rd ix call_file call_name)) \<le> ?n"
  proof (cases "lookup ix call_name call_file")
    case (Inr s)
    obtain left b' out' where p: "push_snippet rd ix (sy_id s) ?n [] = (left, b', out')" by (cases "push_snippet rd ix (sy_id s) ?n []") auto
    have b: "spent out' + b' = ?n \<and> list_all sized out'" using push_snippet_budget [OF p] by (simp add: spent_def)
    then show ?thesis using Inr p push_callees_budget [of out' rd ix "sy_file s" "callees ix (sy_id s)" b']
      by (auto simp: snippet_for_call_def Let_def)
  qed (simp add: snippet_for_call_def spent_def)
qed

section \<open>Deviations\<close>

text \<open>
  The victim is chosen among the files that were indexed lazily. When the cache is full of files that were indexed
  directly, the file just indexed is the only candidate: the call reports success and the file is not in the index.
\<close>

definition two_files :: "SymbolIndex option" where
  "two_files = (case extract_file (\<lambda>_. Some []) ''a.c'' (new_index (default_limits\<lparr>lim_cache_files := 1\<rparr>)) of
     None \<Rightarrow> None
   | Some (_, ix) \<Rightarrow> map_option (\<lambda>(_, _, ix'). ix') (ensure_indexed (\<lambda>_. Some ([], 1, 0)) ''b.c'' ix))"

theorem just_indexed_is_evicted: "map_option (\<lambda>ix. map fst (ix_files ix)) two_files = Some [''a.c'']"
proof -
  have "extract_lang lang_c ''a.c'' [] = Some (Inr ([], []))" "extract_lang lang_c ''b.c'' [] = Some (Inr ([], []))"
    "detect_lang ''a.c'' = lang_c" "detect_lang ''b.c'' = lang_c" by code_simp+
  then show ?thesis
    by (simp add: two_files_def extract_file_def ensure_indexed_def index_text_def extract_into_def new_index_def default_limits_def
        stamp_file_def touch_file_def evict_lru_def remove_file_def maybe_compact_deps_def Let_def)
qed

text \<open>
  A caller beyond the limit of symbols per file gets a number that the next file's symbols take: the call from the
  second function of the first file is attributed to the function of the second file.
\<close>

theorem truncated_caller_misattributed:
  "map_option (\<lambda>ix. (callers_of_name ix ''h'', map (\<lambda>i. map_option sy_file (live ix i)) (callers_of_name ix ''h'')))
     (run_graph [do_extract (\<lambda>_. Some (''f(){}'' @ [nl] @ ''g(){h();}'')) ''a.c'', do_extract (\<lambda>_. Some ''k(){}'') ''b.c'']
       (new_index \<lparr>lim_snippet_bytes = 9, lim_context_total_bytes = 9, lim_max_syms_per_file = 1, lim_max_deps_per_file = 9,
          lim_cache_files = 9\<rparr>)) = Some ([2], [Some ''b.c''])"
  by code_simp

end
