(* ===== verification/Env_Snapshot.thy ===== *)
theory Env_Snapshot
  imports Prelude
begin

text \<open>
  The environment snapshot of \<open>src/config/env_snapshot.cpp\<close> and \<open>env_snapshot.hpp\<close>. The probes are functions of the host:
  the macros the compiler defines, environment variables, the working directory, the times of files, their contents and
  \<open>strtod\<close>. The snapshot lives in a cache that is built on first use and rebuilt after an invalidation.

  The theorems say that the probe for a repository finds the nearest enclosing one below the root directory, that a
  branch name written by git is read back, and that the cache probes once per invalidation.
\<close>

section \<open>The host\<close>

record 'd Host =
  ho_macros :: "string list"
  ho_getenv :: "string \<Rightarrow> string option"
  ho_getcwd :: "string option"
  ho_mtime :: "string \<Rightarrow> int option"
  ho_read :: "string \<Rightarrow> string option"
  ho_strtod :: "string \<Rightarrow> 'd"

record 'd EnvSnapshot =
  es_platform :: string
  es_arch :: string
  es_shell :: string
  es_is_git_repo :: bool
  es_git_branch :: string
  es_git_dirty :: bool
  es_free_mem_mb :: u64
  es_load_avg :: 'd

definition empty_snapshot :: "'d \<Rightarrow> 'd EnvSnapshot" where
  "empty_snapshot zero = \<lparr>es_platform = [], es_arch = [], es_shell = [], es_is_git_repo = False, es_git_branch = [],
     es_git_dirty = False, es_free_mem_mb = 0, es_load_avg = zero\<rparr>"

definition has_macro :: "'d Host \<Rightarrow> string \<Rightarrow> bool" where
  "has_macro H m \<longleftrightarrow> m \<in> set (ho_macros H)"

definition detect_platform :: "'d Host \<Rightarrow> string" where
  "detect_platform H =
     (if has_macro H ''__ANDROID__'' then ''android'' else if has_macro H ''__APPLE__'' then ''macos''
      else if has_macro H ''_WIN32'' then ''windows'' else if has_macro H ''__linux__'' then ''linux'' else ''unknown'')"

definition detect_arch :: "'d Host \<Rightarrow> string" where
  "detect_arch H =
     (if has_macro H ''__aarch64__'' then ''aarch64''
      else if has_macro H ''__x86_64__'' \<or> has_macro H ''_M_X64'' then ''x86_64''
      else if has_macro H ''__arm__'' \<or> has_macro H ''_M_ARM'' then ''arm''
      else if has_macro H ''__riscv'' then ''riscv'' else ''unknown'')"

definition is_unix :: "'d Host \<Rightarrow> bool" where
  "is_unix H \<longleftrightarrow> has_macro H ''__unix__'' \<or> has_macro H ''__APPLE__''"

definition read_small_file :: "'d Host \<Rightarrow> string \<Rightarrow> string option" where
  "read_small_file H path = (if is_unix H then ho_read H path else None)"

section \<open>The probes\<close>

lemma rfind_char_less: "rfind_char c s = Some n \<Longrightarrow> n < length s"
  by (auto simp: rfind_char_def dest: find_char_SomeD)

function probe_from :: "'d Host \<Rightarrow> string \<Rightarrow> (string \<times> bool) option" where
  "probe_from H dir =
     (let candidate = dir @ ''/.git'' in
      case ho_mtime H candidate of
        Some _ \<Rightarrow>
          Some (candidate, (case (ho_mtime H (candidate @ ''/HEAD''), ho_mtime H (candidate @ ''/index'')) of
            (Some head_mt, Some index_mt) \<Rightarrow> index_mt > head_mt | _ \<Rightarrow> False))
      | None \<Rightarrow>
          (case rfind_char (CHR ''/'') dir of
             None \<Rightarrow> None
           | Some slash \<Rightarrow> (let dir' = take slash dir in if dir' = [] then None else probe_from H dir')))"
  by pat_completeness auto
termination by (relation "measure (\<lambda>(H, dir). length dir)") (auto dest: rfind_char_less)

declare probe_from.simps [simp del]

definition probe_git :: "'d Host \<Rightarrow> (string \<times> bool) option" where
  "probe_git H = (if is_unix H then (case ho_getcwd H of None \<Rightarrow> None | Some cwd \<Rightarrow> probe_from H cwd) else None)"

definition head_end :: "char \<Rightarrow> bool" where
  "head_end c \<longleftrightarrow> c = nl \<or> c = cr \<or> c = sp"

definition ref_heads :: string where
  "ref_heads = ''ref: refs/heads/''"

definition read_git_branch :: "'d Host \<Rightarrow> string \<Rightarrow> string option" where
  "read_git_branch H git_dir =
     (case (if is_unix H then read_small_file H (git_dir @ ''/HEAD'') else None) of
        None \<Rightarrow> None
      | Some head \<Rightarrow>
          (case find_sub ref_heads head of
             Some pos \<Rightarrow> Some (rev (dropWhile head_end (rev (drop (pos + length ref_heads) head))))
           | None \<Rightarrow>
               (let commit = takeWhile (\<lambda>c. \<not> head_end c) head in
                if commit = [] then None else Some (''(detached) '' @ take 12 commit))))"

definition mem_available :: "string \<Rightarrow> u64 option" where
  "mem_available s = (case find_sub ''MemAvailable:'' s of
     None \<Rightarrow> None
   | Some p \<Rightarrow> Some (foldl (\<lambda>kb c. kb * 10 + of_nat (digit_val c)) 0
       (takeWhile is_digit (dropWhile (\<lambda>c. c = sp) (drop (p + 13) s))) div 1024))"

definition probe_memory_load :: "'d Host \<Rightarrow> 'd EnvSnapshot \<Rightarrow> 'd EnvSnapshot" where
  "probe_memory_load H out =
     (if has_macro H ''__linux__'' then
        (let o1 = (case read_small_file H ''/proc/meminfo'' of
                     None \<Rightarrow> out
                   | Some meminfo \<Rightarrow> (case mem_available meminfo of None \<Rightarrow> out | Some mb \<Rightarrow> out\<lparr>es_free_mem_mb := mb\<rparr>)) in
         case read_small_file H ''/proc/loadavg'' of
           None \<Rightarrow> o1
         | Some load \<Rightarrow> o1\<lparr>es_load_avg := ho_strtod H (takeWhile (\<lambda>c. c \<noteq> sp) load)\<rparr>)
      else out)"

lemma probe_memory_load_git [simp]:
  "es_is_git_repo (probe_memory_load H out) = es_is_git_repo out"
  "es_git_branch (probe_memory_load H out) = es_git_branch out" "es_git_dirty (probe_memory_load H out) = es_git_dirty out"
  by (simp_all add: probe_memory_load_def Let_def split: option.splits)

definition build :: "'d Host \<Rightarrow> 'd EnvSnapshot \<Rightarrow> 'd EnvSnapshot" where
  "build H out =
     (let o1 = out\<lparr>es_platform := detect_platform H, es_arch := detect_arch H,
                   es_shell := (case ho_getenv H ''SHELL'' of Some sh \<Rightarrow> (if sh \<noteq> [] then sh else ''/bin/sh'') | None \<Rightarrow> ''/bin/sh'')\<rparr>;
          o2 = (case probe_git H of
                  None \<Rightarrow> o1
                | Some (git_dir, dirty) \<Rightarrow>
                    o1\<lparr>es_is_git_repo := True, es_git_dirty := dirty,
                       es_git_branch := (case read_git_branch H git_dir of Some b \<Rightarrow> b | None \<Rightarrow> [])\<rparr>)
      in probe_memory_load H o2)"

section \<open>The cache\<close>

record 'd SnapshotCache =
  sc_snap :: "'d EnvSnapshot"
  sc_built :: bool
  sc_builds :: u64

definition new_cache :: "'d \<Rightarrow> 'd SnapshotCache" where
  "new_cache zero = \<lparr>sc_snap = empty_snapshot zero, sc_built = False, sc_builds = 0\<rparr>"

definition env_snapshot :: "'d Host \<Rightarrow> 'd SnapshotCache \<Rightarrow> 'd EnvSnapshot \<times> 'd SnapshotCache" where
  "env_snapshot H c =
     (let c1 = (if sc_built c then c
                else \<lparr>sc_snap = build H (sc_snap c), sc_built = True, sc_builds = sc_builds c + 1\<rparr>)
      in (sc_snap c1, c1))"

definition env_snapshot_invalidate :: "'d SnapshotCache \<Rightarrow> 'd SnapshotCache" where
  "env_snapshot_invalidate c = c\<lparr>sc_built := False\<rparr>"

definition env_snapshot_build_count :: "'d SnapshotCache \<Rightarrow> u64" where
  "env_snapshot_build_count c = sc_builds c"

section \<open>The nearest repository\<close>

text \<open>The directories the walk visits: the directory itself and those around it, without the root.\<close>

function enclosing :: "string \<Rightarrow> string list" where
  "enclosing dir = dir # (case rfind_char (CHR ''/'') dir of
     None \<Rightarrow> [] | Some slash \<Rightarrow> (if take slash dir = [] then [] else enclosing (take slash dir)))"
  by pat_completeness auto
termination by (relation "measure length") (auto dest: rfind_char_less)

declare enclosing.simps [simp del]

definition is_repo :: "'d Host \<Rightarrow> string \<Rightarrow> bool" where
  "is_repo H dir \<longleftrightarrow> ho_mtime H (dir @ ''/.git'') \<noteq> None"

theorem probe_finds_nearest:
  "map_option fst (probe_from H dir) = map_option (\<lambda>d. d @ ''/.git'') (List.find (is_repo H) (enclosing dir))"
proof (induction H dir rule: probe_from.induct)
  case (1 H dir)
  show ?case
  proof (cases "ho_mtime H (dir @ ''/.git'')")
    case None
    then have "\<not> is_repo H dir" by (simp add: is_repo_def)
    then show ?thesis
      using 1 [OF refl None] None
      by (simp add: probe_from.simps [of H dir] enclosing.simps [of dir] Let_def split: option.splits)
  next
    case (Some mt)
    then have "is_repo H dir" by (simp add: is_repo_def)
    then show ?thesis using Some by (simp add: probe_from.simps [of H dir] enclosing.simps [of dir] Let_def)
  qed
qed

text \<open>
  The root directory is never visited on the way up, so a repository there is found only when it is the working
  directory itself.
\<close>

lemma root_not_visited: "rfind_char (CHR ''/'') dir = Some 0 \<Longrightarrow> enclosing dir = [dir]"
  by (simp add: enclosing.simps [of dir])

lemma root_repo_missed:
  fixes H :: "'d Host"
  assumes "\<And>f. ho_mtime H f = (if f = ''/.git'' then Some 0 else None)"
  shows "probe_from H ''/a'' = None" "probe_from H ''/a/b'' = None"
  by (simp_all add: probe_from.simps assms rfind_char_def Let_def)

section \<open>Branches\<close>

text \<open>What git writes for a branch is read back as its name.\<close>

theorem branch_read_back:
  assumes "is_unix H" "ho_read H (git_dir @ ''/HEAD'') = Some (ref_heads @ branch @ [nl])" "branch \<noteq> []" "\<not> head_end (last branch)"
  shows "read_git_branch H git_dir = Some branch"
proof -
  obtain x xs where ref: "ref_heads = x # xs" by (simp add: ref_heads_def)
  have "find_sub ref_heads (ref_heads @ branch @ [nl]) = Some 0" by (simp add: ref starts_with_prefix)
  moreover have "rev branch = last branch # tl (rev branch)" using assms(3) by (simp add: last_rev hd_Cons_tl flip: hd_rev)
  then have "dropWhile head_end (nl # rev branch) = rev branch" using assms(4) by (metis dropWhile.simps(2) head_end_def)
  ultimately show ?thesis using assms by (simp add: read_git_branch_def read_small_file_def)
qed

section \<open>Probing once\<close>

text \<open>
  Whatever the host has become, a built snapshot is returned as it is; an invalidation makes the next call probe once,
  and any number of calls behind it none.
\<close>

theorem snapshot_cached:
  assumes "env_snapshot H c = (e, c')"
  shows "sc_built c' \<and> env_snapshot H' c' = (e, c') \<and>
    env_snapshot_build_count c' = env_snapshot_build_count c + (if sc_built c then 0 else 1)"
  using assms by (auto simp: env_snapshot_def env_snapshot_build_count_def Let_def split: if_splits)

text \<open>
  A rebuild starts from the old snapshot and only ever sets what it finds: after leaving a repository the snapshot still
  reports it, with its branch.
\<close>

theorem left_repository_reported:
  assumes "probe_git H = None" "env_snapshot H (env_snapshot_invalidate c) = (e, c')"
  shows "es_is_git_repo e = es_is_git_repo (sc_snap c) \<and> es_git_branch e = es_git_branch (sc_snap c) \<and> es_git_dirty e = es_git_dirty (sc_snap c)"
  using assms
  by (auto simp: env_snapshot_def env_snapshot_invalidate_def build_def Let_def)

end
