(* ===== verification/Graph_Tools.thy ===== *)
theory Graph_Tools
  imports File_Tools Graph_Index Env_Snapshot Json_Roundtrip
begin

text \<open>
  The front ends of the symbol index and of the environment snapshot, \<open>sym.*\<close> and \<open>workspace.info\<close> of
  \<open>src/tools/exec/read_only.cpp\<close>, and the set of read-only tools that \<open>make_read_tools\<close> registers. The world of these tools
  is the world of the file tools together with the index and the cache of the snapshot. How the index reads a source
  file, \<open>rd\<close>, and the host are parameters.

  The theorems say that over any history of the index the tools answer from the symbols and calls that the
  indexed files have at that moment, and that no read-only tool but the git probes changes more than the cache.
\<close>

section \<open>Text of the answers\<close>

fun sym_kind_name :: "SymKind \<Rightarrow> string" where
  "sym_kind_name sym_function = ''function''"
| "sym_kind_name sym_method = ''method''"
| "sym_kind_name sym_class = ''class''"
| "sym_kind_name sym_struct = ''struct''"
| "sym_kind_name sym_type = ''type''"
| "sym_kind_name sym_global = ''global''"
| "sym_kind_name sym_import = ''import''"
| "sym_kind_name sym_namespace = ''namespace''"
| "sym_kind_name sym_enum = ''enum''"
| "sym_kind_name sym_const = ''const''"
| "sym_kind_name sym_macro = ''macro''"
| "sym_kind_name sym_package = ''package''"
| "sym_kind_name sym_unknown = ''unknown''"

definition sym_object :: "string \<Rightarrow> string \<Rightarrow> string \<Rightarrow> string \<Rightarrow> 'd \<Rightarrow> 'd jval" where
  "sym_object kind name qual file line =
     JObj [(''kind'', JStr kind), (''name'', JStr name), (''qual'', JStr qual), (''file'', JStr file), (''line'', JNum line)]"

definition sym_to_json :: "'d tool_env \<Rightarrow> string \<Rightarrow> string \<Rightarrow> string \<Rightarrow> string \<Rightarrow> int \<Rightarrow> string" where
  "sym_to_json E kind name qual file line = to_json (te_print E) (sym_object kind name qual file (te_of_int E line))"

definition sym_json :: "'d tool_env \<Rightarrow> Sym \<Rightarrow> string" where
  "sym_json E s = sym_to_json E (sym_kind_name (sy_kind s)) (sy_name s) (sy_qual s) (sy_file s) (uint (sy_line s))"

definition snippet_to_text :: "string \<Rightarrow> string \<Rightarrow> string \<Rightarrow> string" where
  "snippet_to_text file symbol text = ''== '' @ file @ '' :: '' @ symbol @ '' =='' @ [nl] @ text"

section \<open>The tools\<close>

record 'd RWorld =
  rw_tools :: tool_world
  rw_index :: SymbolIndex
  rw_cache :: "'d SnapshotCache"

definition workspace_info_spec :: "'d tool_env \<Rightarrow> ToolSpec" where
  "workspace_info_spec E = make_spec (te_from_chars E) (te_print E) ''workspace.info''
     ''Host + repo environment snapshot (cheap probes)'' [] True cat_workspace"

definition workspace_info :: "'d tool_env \<Rightarrow> 'd Host \<Rightarrow> Invocation \<Rightarrow> 'd RWorld \<Rightarrow> tool_result \<times> 'd RWorld" where
  "workspace_info E H call w =
     (case env_snapshot H (rw_cache w) of (e, c) \<Rightarrow>
        (tool_ok ''workspace.info'' (to_json (te_print E) (JObj
           [(''platform'', JStr (es_platform e)), (''arch'', JStr (es_arch e)), (''shell'', JStr (es_shell e)),
            (''is_git_repo'', JBool (es_is_git_repo e)), (''git_branch'', JStr (es_git_branch e)),
            (''git_dirty'', JBool (es_git_dirty e)), (''free_mem_mb'', JNum (te_of_int E (uint (es_free_mem_mb e)))),
            (''load_avg'', JNum (es_load_avg e))])), w\<lparr>rw_cache := c\<rparr>))"

definition sym_lookup_spec :: "'d tool_env \<Rightarrow> ToolSpec" where
  "sym_lookup_spec E = make_spec (te_from_chars E) (te_print E) ''sym.lookup'' ''Resolve a symbol name to its definition''
     [param ''name'' pt_string ''symbol name'' True,
      param ''file'' pt_string ''hint file for unambiguous resolution'' True] True cat_graph"

text \<open>The argument \<open>name\<close>, which all of them need.\<close>

definition with_name :: "'d tool_env \<Rightarrow> string \<Rightarrow> Invocation \<Rightarrow> ('d jval \<Rightarrow> string \<Rightarrow> tool_result) \<Rightarrow> tool_result" where
  "with_name E tool call f = (case arg_root (te_from_chars E) (inv_args_json call) of
     None \<Rightarrow> tool_err tool ''missing required arg: name''
   | Some a \<Rightarrow> (case arg_string a ''name'' of
       None \<Rightarrow> tool_err tool ''missing required arg: name''
     | Some name \<Rightarrow> f a name))"

definition sym_lookup :: "'d tool_env \<Rightarrow> Invocation \<Rightarrow> 'd RWorld \<Rightarrow> tool_result \<times> 'd RWorld" where
  "sym_lookup E call w = (with_name E ''sym.lookup'' call (\<lambda>a name.
     case lookup (rw_index w) name (or_default [] (arg_string a ''file'')) of
       Inl c \<Rightarrow> tool_err ''sym.lookup'' (''symbol not found: '' @ name)
     | Inr s \<Rightarrow> tool_ok ''sym.lookup'' (sym_json E s)), w)"

definition sym_refs_spec :: "'d tool_env \<Rightarrow> ToolSpec" where
  "sym_refs_spec E = make_spec (te_from_chars E) (te_print E) ''sym.refs'' ''1-hop callers of a symbol (by name)''
     [param ''name'' pt_string ''symbol name'' True] True cat_graph"

definition ref_line :: "Sym \<Rightarrow> string" where
  "ref_line s = sy_name s @ [tab] @ sy_file s @ [nl]"

definition sym_refs :: "'d tool_env \<Rightarrow> Invocation \<Rightarrow> 'd RWorld \<Rightarrow> tool_result \<times> 'd RWorld" where
  "sym_refs E call w = (with_name E ''sym.refs'' call (\<lambda>a name.
     tool_ok ''sym.refs'' (concat (map (\<lambda>i. case sym_by_id (rw_index w) i of Inl c \<Rightarrow> [] | Inr s \<Rightarrow> ref_line s)
       (callers_of_name (rw_index w) name)))), w)"

definition sym_snippet_spec :: "'d tool_env \<Rightarrow> ToolSpec" where
  "sym_snippet_spec E = make_spec (te_from_chars E) (te_print E) ''sym.snippet'' ''Declaration + capped body of a symbol''
     [param ''name'' pt_string ''symbol name'' True, param ''file'' pt_string ''hint file'' True,
      param ''max_bytes'' pt_integer ''snippet cap'' False] True cat_graph"

definition snippet_cap :: "int \<Rightarrow> u32" where
  "snippet_cap max_bytes = (if max_bytes > 0 then of_int max_bytes else 4096)"

definition sym_snippet ::
    "'d tool_env \<Rightarrow> (files \<Rightarrow> string \<Rightarrow> string option) \<Rightarrow> Invocation \<Rightarrow> 'd RWorld \<Rightarrow> tool_result \<times> 'd RWorld" where
  "sym_snippet E rd call w = (with_name E ''sym.snippet'' call (\<lambda>a name.
     case lookup (rw_index w) name (or_default [] (arg_string a ''file'')) of
       Inl c \<Rightarrow> tool_err ''sym.snippet'' (''symbol not found: '' @ name)
     | Inr s \<Rightarrow>
         (case snippet (rd (tw_files (rw_tools w))) (rw_index w) (sy_id s)
                 (unat (snippet_cap (or_default 0 (arg_int (te_to_int E) a ''max_bytes'')))) empty_snippet of (c, sn) \<Rightarrow>
            if \<not> is_ok c then tool_err ''sym.snippet'' (''no snippet for: '' @ name)
            else tool_ok ''sym.snippet'' (snippet_to_text (sn_file sn) (sn_sym sn) (sn_text sn)))), w)"

definition sym_callees_spec :: "'d tool_env \<Rightarrow> ToolSpec" where
  "sym_callees_spec E = make_spec (te_from_chars E) (te_print E) ''sym.callees'' ''1-hop callees of a symbol (by name)''
     [param ''name'' pt_string ''symbol name'' True, param ''file'' pt_string ''hint file'' True] True cat_graph"

definition sym_callees :: "'d tool_env \<Rightarrow> Invocation \<Rightarrow> 'd RWorld \<Rightarrow> tool_result \<times> 'd RWorld" where
  "sym_callees E call w = (with_name E ''sym.callees'' call (\<lambda>a name.
     case lookup (rw_index w) name (or_default [] (arg_string a ''file'')) of
       Inl c \<Rightarrow> tool_err ''sym.callees'' (''symbol not found: '' @ name)
     | Inr s \<Rightarrow> tool_ok ''sym.callees'' (concat (map (\<lambda>c. c @ [nl]) (callees (rw_index w) (sy_id s))))), w)"

section \<open>The toolset\<close>

text \<open>A file tool acts on its part of the world.\<close>

definition on_files :: "tool_world Tool \<Rightarrow> 'd RWorld Tool" where
  "on_files t = \<lparr>tool_spec = tool_spec t,
     tool_run = (\<lambda>call w. case tool_run t call (rw_tools w) of (r, tw) \<Rightarrow> (r, w\<lparr>rw_tools := tw\<rparr>))\<rparr>"

definition sym_tools :: "'d tool_env \<Rightarrow> (files \<Rightarrow> string \<Rightarrow> string option) \<Rightarrow> 'd RWorld Tool list" where
  "sym_tools E rd =
     [\<lparr>tool_spec = sym_lookup_spec E, tool_run = sym_lookup E\<rparr>, \<lparr>tool_spec = sym_refs_spec E, tool_run = sym_refs E\<rparr>,
      \<lparr>tool_spec = sym_snippet_spec E, tool_run = sym_snippet E rd\<rparr>, \<lparr>tool_spec = sym_callees_spec E, tool_run = sym_callees E\<rparr>]"

definition make_read_tools ::
    "'d tool_env \<Rightarrow> 'd Host \<Rightarrow> (files \<Rightarrow> string \<Rightarrow> string option) \<Rightarrow> string \<Rightarrow> bool \<Rightarrow> 'd RWorld Tool list" where
  "make_read_tools E H rd workspace has_index =
     map on_files (read_file_tools E workspace) @
     [\<lparr>tool_spec = workspace_info_spec E, tool_run = workspace_info E H\<rparr>] @
     (if has_index then sym_tools E rd else []) @ map on_files (git_tools E workspace)"

section \<open>Answers\<close>

text \<open>The callers of a name are the live symbols with a call of it, each once.\<close>

lemma collect_distinct:
  "distinct acc \<Longrightarrow> distinct (fold (\<lambda>d out. if A d then out else if B d then append_unique out (f d) else out) ds acc)"
  by (induction ds arbitrary: acc) (auto simp: append_unique_def)

definition calls_name :: "SymbolIndex \<Rightarrow> string \<Rightarrow> Sym \<Rightarrow> bool" where
  "calls_name ix name s \<longleftrightarrow>
     (\<exists>d\<in>set (ix_deps ix). dp_from_file d \<noteq> [] \<and> dp_kind d = dep_call \<and> dp_from_sym d = sy_id s \<and> dp_to_name d = name)"

lemma live_iff_by_id:
  assumes "index_ok ix"
  shows "sym_by_id ix i = Inr s \<longleftrightarrow> s \<in> live_syms ix \<and> sy_id s = i"
proof -
  have n: "numbered (ix_syms ix)" using assms by (simp add: index_ok_def syms_ok_def)
  show ?thesis using live_iff [OF n, of i s] by (auto simp: sym_by_id_def live_syms_def split: option.splits)
qed

lemma callers_of_name_set: "i \<in> set (callers_of_name ix name) \<longleftrightarrow>
   (\<exists>d\<in>set (ix_deps ix). dp_from_file d \<noteq> [] \<and> dp_kind d = dep_call \<and> dp_from_sym d \<noteq> 0 \<and> dp_to_name d = name \<and> i = dp_from_sym d)"
  unfolding callers_of_name_def by (auto simp: fold_unique_mem)

lemma callers_of_name_distinct: "distinct (callers_of_name ix name)"
  unfolding callers_of_name_def by (rule collect_distinct) simp

lemma refs_text:
  assumes "index_ok ix"
  shows "\<exists>ss. concat (map (\<lambda>i. case sym_by_id ix i of Inl c \<Rightarrow> [] | Inr s \<Rightarrow> ref_line s) is) = concat (map ref_line ss) \<and>
    (distinct is \<longrightarrow> distinct ss) \<and> set ss = {s \<in> live_syms ix. sy_id s \<in> set is}"
proof (induction "is")
  case (Cons i "is")
  then obtain ss where ss: "concat (map (\<lambda>i. case sym_by_id ix i of Inl c \<Rightarrow> [] | Inr s \<Rightarrow> ref_line s) is) = concat (map ref_line ss)"
    "distinct is \<longrightarrow> distinct ss" "set ss = {s \<in> live_syms ix. sy_id s \<in> set is}" by blast
  show ?case
  proof (cases "sym_by_id ix i")
    case (Inl c)
    then have "s \<in> live_syms ix \<Longrightarrow> sy_id s \<noteq> i" for s using live_iff_by_id [OF assms, of i s] by auto
    then show ?thesis using ss Inl by (intro exI [of _ ss]) auto
  next
    case (Inr s)
    then have s: "t \<in> live_syms ix \<and> sy_id t = i \<longleftrightarrow> t = s" for t using live_iff_by_id [OF assms, of i t] by auto
    then have "{t \<in> live_syms ix. sy_id t \<in> set (i # is)} = insert s (set ss)" using ss(3) by auto
    then show ?thesis using ss Inr s [of s] by (intro exI [of _ "s # ss"]) auto
  qed
qed simp

lemma sym_object_json_ok [simp]:
  "json_ok fin (sym_object kind name qual file line) \<longleftrightarrow> fin line"
  by (simp add: sym_object_def plain_char_def byte_val_def)

text \<open>
  C29: the symbol tools answer from the index. Over any history of the index, for a call that names a symbol,
  \<open>sym.lookup\<close> fails exactly when no live symbol has that name or qualified name, and otherwise its text is a JSON
  object that reads back as the kind, name, qualified name, file and line of such a symbol; and \<open>sym.refs\<close> lists the live
  symbols with a recorded call of the name, every one exactly once.
\<close>

theorem sym_tools_answer:
  assumes "run_graph ops (new_index lim) = Some (rw_index w)"
    and "arg_root (te_from_chars E) (inv_args_json call) = Some a" "arg_string a ''name'' = Some name"
    and "number_text_ok fin (te_print E) (te_from_chars E)" "\<And>n :: u32. fin (te_of_int E (uint n))"
  shows "(let r = fst (sym_lookup E call w); named = {s \<in> live_syms (rw_index w). sy_name s = name \<or> sy_qual s = name} in
      (tr_status r = ts_ok \<longleftrightarrow> named \<noteq> {}) \<and>
      (tr_status r = ts_ok \<longrightarrow> (\<exists>s\<in>named. parse_json (te_from_chars E) (tr_content r) = Some (Inr
         (sym_object (sym_kind_name (sy_kind s)) (sy_name s) (sy_qual s) (sy_file s) (te_of_int E (uint (sy_line s)))))))) \<and>
    (\<exists>ss. tr_content (fst (sym_refs E call w)) = concat (map ref_line ss) \<and> distinct ss \<and>
       set ss = {s \<in> live_syms (rw_index w). calls_name (rw_index w) name s})"
proof -
  let ?ix = "rw_index w"
  have ok: "index_ok ?ix" using run_graph_ok [OF new_index_ok assms(1)] .
  have right: "lookup_right ?ix name hint" for hint using lookup_correct [OF ok] .
  have rb: "parse_json (te_from_chars E) (sym_json E s) = Some (Inr
      (sym_object (sym_kind_name (sy_kind s)) (sy_name s) (sy_qual s) (sy_file s) (te_of_int E (uint (sy_line s)))))" for s
    unfolding sym_json_def sym_to_json_def by (rule reads_back_parse [OF assms(4)]) (simp add: assms(5))
  obtain ss where ss: "tr_content (fst (sym_refs E call w)) = concat (map ref_line ss)"
    "distinct ss" "set ss = {s \<in> live_syms ?ix. sy_id s \<in> set (callers_of_name ?ix name)}"
    using refs_text [OF ok, of "callers_of_name ?ix name"] callers_of_name_distinct
    by (auto simp: sym_refs_def with_name_def assms(2,3))
  moreover have "s \<in> live_syms ?ix \<Longrightarrow> sy_id s \<in> set (callers_of_name ?ix name) \<longleftrightarrow> calls_name ?ix name s" for s
    by (auto simp: callers_of_name_set calls_name_def live_syms_def)
  ultimately have refs: "\<exists>ss. tr_content (fst (sym_refs E call w)) = concat (map ref_line ss) \<and> distinct ss \<and>
      set ss = {s \<in> live_syms ?ix. calls_name ?ix name s}" by (intro exI [of _ ss]) auto
  show ?thesis
    using right [of "or_default [] (arg_string a ''file'')"] rb refs
    by (cases "lookup ?ix name (or_default [] (arg_string a ''file''))")
      (auto simp: sym_lookup_def with_name_def assms(2,3) lookup_right_def Let_def)
qed

text \<open>An environment over natural numbers, and a call of a symbol tool.\<close>

definition nat_env :: "nat tool_env" where
  "nat_env = \<lparr>te_from_chars = dec_value 0, te_print = show_nat, te_to_int = int, te_of_int = nat, te_partial = (\<lambda>_. JObj []),
     te_stat = (\<lambda>_ _. None), te_os = os_fine, te_walk = (\<lambda>_ _ _. None), te_regex = (\<lambda>_. None),
     te_process = (\<lambda>_ fs. (Inl (make_error e_internal), fs)), te_cancelled = False\<rparr>"

definition name_call :: Invocation where
  "name_call = \<lparr>inv_tool_name = ''sym.refs'', inv_args_json = to_json show_nat (JObj [(''name'', JStr ''g'')]), inv_span_id = 0\<rparr>"

lemma nat_env_numbers: "number_text_ok (\<lambda>_. True) (te_print nat_env) (te_from_chars nat_env)"
  by (simp add: nat_env_def nat_text_ok)

lemma name_call_args: "arg_root (te_from_chars nat_env) (inv_args_json name_call) = Some (JObj [(''name'', JStr ''g'')])"
proof -
  let ?v = "JObj [(''name'', JStr ''g'')] :: nat jval"
  have "parse_json (dec_value 0) (to_json show_nat ?v) = Some (Inr ?v)"
    using reads_back_parse [OF nat_env_numbers, of ?v] by (simp add: nat_env_def plain_char_def byte_val_def)
  moreover have "to_json show_nat ?v \<noteq> []" by (auto simp: to_json_def)
  ultimately show ?thesis by (simp add: arg_root_def name_call_def nat_env_def)
qed

theorem sym_tools_answer_witness:
  "\<exists>ix. run_graph [do_extract (\<lambda>_. Some ''f(){g();}'') ''a.c''] (new_index \<lparr>lim_snippet_bytes = 9, lim_context_total_bytes = 9,
        lim_max_syms_per_file = 9, lim_max_deps_per_file = 9, lim_cache_files = 9\<rparr>) = Some ix \<and>
     (\<exists>ss. tr_content (fst (sym_refs nat_env name_call \<lparr>rw_tools = \<lparr>tw_files = (\<lambda>_. None), tw_store = None, tw_progress = []\<rparr>,
             rw_index = ix, rw_cache = new_cache 0\<rparr>)) = concat (map ref_line ss) \<and>
           set ss = {s \<in> live_syms ix. calls_name ix ''g'' s})"
proof -
  let ?run = "run_graph [do_extract (\<lambda>_. Some ''f(){g();}'') ''a.c''] (new_index \<lparr>lim_snippet_bytes = 9, lim_context_total_bytes = 9,
        lim_max_syms_per_file = 9, lim_max_deps_per_file = 9, lim_cache_files = 9\<rparr>)"
  have "map_option (\<lambda>_. ()) ?run = Some ()" by code_simp
  then obtain ix where ix: "?run = Some ix" by auto
  define w where "w = \<lparr>rw_tools = \<lparr>tw_files = (\<lambda>_. None), tw_store = None, tw_progress = []\<rparr>, rw_index = ix, rw_cache = new_cache (0 :: nat)\<rparr>"
  have w: "?run = Some (rw_index w)" using ix by (simp add: w_def)
  have n: "arg_string (JObj [(''name'', JStr ''g'')] :: nat jval) ''name'' = Some ''g''" by (simp add: arg_string_def jfind_def)
  show ?thesis using sym_tools_answer [OF w name_call_args n nat_env_numbers] ix by (auto simp: w_def)
qed

text \<open>No read-only tool but the git probes changes more than the cache of the snapshot.\<close>

theorem read_tools_inert:
  assumes "t \<in> set (map on_files (read_file_tools E ws) @ [\<lparr>tool_spec = workspace_info_spec E, tool_run = workspace_info E H\<rparr>] @ sym_tools E rd)"
  shows "rw_tools (snd (tool_run t call w)) = rw_tools w \<and> rw_index (snd (tool_run t call w)) = rw_index w"
  using assms
  by (auto simp: on_files_def read_file_tools_def read_tools_pure sym_tools_def workspace_info_def sym_lookup_def sym_refs_def
      sym_snippet_def sym_callees_def case_prod_beta)

end
