(* ===== verification/Arena.thy ===== *)
theory Arena
  imports Prelude
begin

unbundle bit_operations_syntax

text \<open>
  The bump allocator of \<open>src/core/arena.h\<close> and \<open>arena.cpp\<close>, with 64-bit sizes and addresses. The blocks form a list with
  the newest first, which is the chain from \<open>head_\<close> along \<open>older\<close>; \<open>cur_\<close> is a position in it. A block is known by the
  address that \<open>malloc\<close> gave it. The header of a block has 32 bytes, and \<open>max_align_t\<close> has alignment 16, as on all
  64-bit targets. What \<open>malloc\<close> answers is a parameter.

  The theorem says that, while no single request reaches \<open>2 ^ 63\<close> bytes, all memory handed out since the last reset is
  aligned, lies within memory that \<open>malloc\<close> gave, and does not overlap.
\<close>

section \<open>The allocator\<close>

record Block =
  bk_raw :: u64
  bk_cap :: u64
  bk_off :: u64

record Arena =
  ar_blocks :: "Block list"
  ar_cur :: nat
  ar_next_cap :: u64
  ar_used :: u64
  ar_total :: u64
  ar_nblocks :: u64

definition kDefaultChunk :: u64 where "kDefaultChunk = 16384"
definition kMaxChunk :: u64 where "kMaxChunk = 1048576"
definition kAlign :: u64 where "kAlign = 64"
definition block_header :: u64 where "block_header = 32"

definition new_arena :: "u64 \<Rightarrow> Arena" where
  "new_arena first_chunk = \<lparr>ar_blocks = [], ar_cur = 0, ar_next_cap = first_chunk, ar_used = 0, ar_total = 0, ar_nblocks = 0\<rparr>"

definition align_up :: "u64 \<Rightarrow> u64 \<Rightarrow> u64" where
  "align_up v a = (v + a - 1) AND NOT (a - 1)"

definition block_data :: "Block \<Rightarrow> u64" where
  "block_data b = align_up (bk_raw b + block_header) kAlign"

text \<open>\<open>mal bs sz\<close> is the answer to \<open>malloc(sz)\<close> while the blocks \<open>bs\<close> are in use.\<close>

type_synonym malloc = "Block list \<Rightarrow> u64 \<Rightarrow> u64 option"

definition grow :: "malloc \<Rightarrow> u64 \<Rightarrow> Arena \<Rightarrow> bool \<times> Arena" where
  "grow mal need a =
     (let cap = (if ar_next_cap a < need then need else ar_next_cap a);
          a1 = a\<lparr>ar_next_cap := (if ar_next_cap a \<ge> kMaxChunk then ar_next_cap a + kMaxChunk else ar_next_cap a * 2)\<rparr> in
      if cap > - 1 - block_header - kAlign then (False, a1)
      else case mal (ar_blocks a) (block_header + cap + kAlign - 1) of
        None \<Rightarrow> (False, a1)
      | Some raw \<Rightarrow>
          (True, a1\<lparr>ar_blocks := \<lparr>bk_raw = raw, bk_cap = cap, bk_off = 0\<rparr> # ar_blocks a, ar_cur := 0,
                    ar_nblocks := ar_nblocks a + 1, ar_total := ar_total a + (block_header + cap + kAlign - 1)\<rparr>))"

fun first_fit :: "u64 \<Rightarrow> u64 \<Rightarrow> nat \<Rightarrow> Block list \<Rightarrow> nat option" where
  "first_fit n align i [] = None"
| "first_fit n align i (b # bs) = (if align_up (bk_off b) align + n \<le> bk_cap b then Some i else first_fit n align (i + 1) bs)"

definition clamp_align :: "u64 \<Rightarrow> u64" where
  "clamp_align align = (let al = (if align < 16 then 16 else align) in if al > kAlign then kAlign else al)"

definition alloc :: "malloc \<Rightarrow> u64 \<Rightarrow> u64 \<Rightarrow> Arena \<Rightarrow> u64 option \<times> Arena" where
  "alloc mal n0 align0 a =
     (let align = clamp_align align0; n = (if n0 = 0 then 1 else n0) in
      case first_fit n align (ar_cur a) (drop (ar_cur a) (ar_blocks a)) of
        Some i \<Rightarrow>
          (let b = ar_blocks a ! i; off = align_up (bk_off b) align; consumed = off + n - bk_off b in
           (Some (block_data b + off),
            a\<lparr>ar_blocks := (ar_blocks a)[i := b\<lparr>bk_off := off + n\<rparr>], ar_used := ar_used a + consumed, ar_cur := i\<rparr>))
      | None \<Rightarrow>
          (case grow mal n a of
             (False, a1) \<Rightarrow> (None, a1)
           | (True, a1) \<Rightarrow>
               (let b = hd (ar_blocks a1); off = align_up 0 align in
                (Some (block_data b + off),
                 a1\<lparr>ar_blocks := b\<lparr>bk_off := off + n\<rparr> # tl (ar_blocks a1), ar_used := ar_used a1 + (off + n)\<rparr>))))"

definition alloc_array :: "malloc \<Rightarrow> u64 \<Rightarrow> u64 \<Rightarrow> u64 \<Rightarrow> Arena \<Rightarrow> u64 option \<times> Arena" where
  "alloc_array mal elem elem_align count a = (if count > (- 1) div elem then (None, a) else alloc mal (count * elem) elem_align a)"

definition arena_reset :: "Arena \<Rightarrow> Arena" where
  "arena_reset a = a\<lparr>ar_blocks := map (\<lambda>b. b\<lparr>bk_off := 0\<rparr>) (ar_blocks a), ar_cur := 0, ar_used := 0\<rparr>"

definition arena_clear :: "Arena \<Rightarrow> Arena" where
  "arena_clear a = a\<lparr>ar_blocks := [], ar_cur := 0, ar_used := 0, ar_total := 0, ar_nblocks := 0, ar_next_cap := kDefaultChunk\<rparr>"

text \<open>Moving: the new or assigned arena, and what is left of the source.\<close>

definition arena_move :: "Arena \<Rightarrow> Arena \<times> Arena" where
  "arena_move src = (src, new_arena kDefaultChunk)"

definition arena_move_assign :: "Arena \<Rightarrow> Arena \<times> Arena" where
  "arena_move_assign src = (src, (new_arena (ar_next_cap src)))"

section \<open>Alignment\<close>

lemma and_not_mask_word: "(x :: u64) AND NOT (mask k) = x - take_bit k x"
proof -
  have "x - take_bit k x = x AND NOT (take_bit k x)"
    by (rule disjunctive_diff_eq_and_not) (auto simp: bit_eq_iff bit_simps)
  also have "\<dots> = x AND NOT (mask k)" by (rule bit_eqI) (auto simp: bit_simps)
  finally show ?thesis by simp
qed

definition aligned_at :: "nat \<Rightarrow> nat \<Rightarrow> nat" where
  "aligned_at v a = (v + a - 1) div a * a"

lemma aligned_at_bounds: "0 < a \<Longrightarrow> v \<le> aligned_at v a \<and> aligned_at v a < v + a \<and> a dvd aligned_at v a"
proof -
  assume a: "0 < a"
  have "(v + a - 1) div a * a = (v + a - 1) - (v + a - 1) mod a" by (simp add: minus_mod_eq_div_mult)
  moreover have "(v + a - 1) mod a < a" using a by simp
  ultimately have "v \<le> (v + a - 1) div a * a" "(v + a - 1) div a * a < v + a" using a by linarith+
  then show ?thesis by (simp add: aligned_at_def)
qed

lemma unat_align_up:
  assumes a: "a \<in> {16, 32, 64}" and v: "unat v + unat a - 1 < 2 ^ 64"
  shows "unat (align_up v a) = aligned_at (unat v) (unat a)"
proof -
  obtain k where k: "k < 64" "a = 2 ^ k" "unat a = 2 ^ k" "1 \<le> unat a"
    using a that [of 4] that [of 5] that [of 6] by auto
  let ?x = "v + a - 1"
  have m: "a - 1 = mask k" using k(2) by (simp add: mask_eq_exp_minus_1)
  have x: "unat ?x = unat v + unat a - 1"
  proof -
    have "?x = of_nat (unat v + unat a - 1)" using k(4) by (simp add: of_nat_diff)
    then show ?thesis using v by (simp only:) (simp add: unat_of_nat)
  qed
  have t: "unat (take_bit k ?x) = unat ?x mod 2 ^ k" by (subst unsigned_take_bit_eq) (simp add: take_bit_eq_mod)
  have le: "take_bit k ?x \<le> ?x" unfolding word_le_nat_alt t by simp
  have "unat (align_up v a) = unat ?x - unat ?x mod 2 ^ k"
    unfolding align_up_def m and_not_mask_word unat_sub [OF le] t by simp
  then show ?thesis using x k(3) by (simp add: aligned_at_def minus_mod_eq_div_mult)
qed

lemma clamp_align_cases:
  "unat al \<in> {1, 2, 4, 8, 16, 32, 64} \<Longrightarrow> clamp_align al \<in> {16, 32, 64} \<and> unat al dvd unat (clamp_align al)"
proof -
  assume "unat al \<in> {1, 2, 4, 8, 16, 32, 64}"
  then have "of_nat (unat al) \<in> (of_nat ` {1, 2, 4, 8, 16, 32, 64} :: u64 set)" by (rule imageI)
  then have "al \<in> {1, 2, 4, 8, 16, 32, 64}" by simp
  then show ?thesis by (auto simp: clamp_align_def kAlign_def Let_def)
qed

section \<open>Memory regions\<close>

definition raw_region :: "Block \<Rightarrow> nat set" where
  "raw_region b = {unat (bk_raw b)..<unat (bk_raw b) + unat (bk_cap b) + 95}"

definition used_region :: "Block \<Rightarrow> nat set" where
  "used_region b = {unat (block_data b)..<unat (block_data b) + unat (bk_off b)}"

definition block_fits :: "Block \<Rightarrow> bool" where
  "block_fits b \<longleftrightarrow> unat (bk_raw b) + unat (bk_cap b) + 95 \<le> 2 ^ 64 \<and> 1 \<le> unat (bk_cap b) \<and> unat (bk_cap b) + 95 < 2 ^ 63 \<and>
     bk_off b \<le> bk_cap b"

text \<open>What \<open>malloc\<close> promises: the memory exists, is at most \<open>PTRDIFF_MAX\<close> bytes, and is not in use.\<close>

definition malloc_ok :: "malloc \<Rightarrow> bool" where
  "malloc_ok mal \<longleftrightarrow> (\<forall>bs sz raw. mal bs sz = Some raw \<longrightarrow>
     unat raw + unat sz \<le> 2 ^ 64 \<and> unat sz < 2 ^ 63 \<and> (\<forall>b \<in> set bs. {unat raw..<unat raw + unat sz} \<inter> raw_region b = {}))"

lemma len64: "LENGTH(64) = 64"
  by simp

lemma block_data_bounds:
  assumes "block_fits b"
  shows "unat (bk_raw b) + 32 \<le> unat (block_data b) \<and> unat (block_data b) \<le> unat (bk_raw b) + 95 \<and> 64 dvd unat (block_data b)"
proof -
  have w: "unat (bk_raw b + 32) = unat (bk_raw b) + 32"
    using assms by (simp add: block_fits_def unat_word_ariths(1))
  have "unat (block_data b) = aligned_at (unat (bk_raw b) + 32) 64"
    using unat_align_up [of 64 "bk_raw b + 32"] assms w by (simp add: block_data_def kAlign_def block_header_def block_fits_def)
  then show ?thesis using aligned_at_bounds [of 64 "unat (bk_raw b) + 32"] by auto
qed

lemma used_in_raw: "block_fits b \<Longrightarrow> used_region b \<subseteq> raw_region b"
  using block_data_bounds [of b] by (auto simp: used_region_def raw_region_def block_fits_def word_le_nat_alt)

text \<open>Bumping a block: the new piece is aligned, inside the block and behind everything used before.\<close>

lemma bump:
  assumes b: "block_fits b" and al: "al \<in> {16, 32, 64}" and n: "1 \<le> unat n" "unat n < 2 ^ 63" and fit: "align_up (bk_off b) al + n \<le> bk_cap b"
  defines "p \<equiv> block_data b + align_up (bk_off b) al" and "b' \<equiv> b\<lparr>bk_off := align_up (bk_off b) al + n\<rparr>"
  shows "block_fits b'" "raw_region b' = raw_region b" "used_region b \<subseteq> used_region b'"
    "{unat p..<unat p + unat n} \<subseteq> used_region b'" "{unat p..<unat p + unat n} \<inter> used_region b = {}" "unat al dvd unat p"
proof -
  have A: "unat al \<in> {16, 32, 64}" "0 < unat al" "unat al \<le> 64" "unat al dvd 64" using al by auto
  have fb: "unat (bk_raw b) + unat (bk_cap b) + 95 \<le> 2 ^ 64" "unat (bk_cap b) + 95 < 2 ^ 63" "unat (bk_off b) \<le> unat (bk_cap b)"
    using b by (simp_all add: block_fits_def word_le_nat_alt)
  have u: "unat (align_up (bk_off b) al) = aligned_at (unat (bk_off b)) (unat al)"
    by (rule unat_align_up [OF al]) (use fb A in simp)
  note ab = aligned_at_bounds [OF A(2), of "unat (bk_off b)"]
  let ?o = "aligned_at (unat (bk_off b)) (unat al)"
  have "?o + unat n < 2 ^ 64" using conjunct1 [OF conjunct2 [OF ab]] fb(2,3) A(3) n(2) by simp
  then have sum: "unat (align_up (bk_off b) al + n) = ?o + unat n" using u by (simp only: unat_word_ariths(1) len64 mod_less)
  then have le: "?o + unat n \<le> unat (bk_cap b)" using fit by (simp add: word_le_nat_alt)
  note d = block_data_bounds [OF b]
  have "unat (block_data b) + ?o < 2 ^ 64" using conjunct1 [OF conjunct2 [OF d]] le fb(1) n(1) by simp
  then have p: "unat p = unat (block_data b) + ?o" using u by (simp only: p_def unat_word_ariths(1) len64 mod_less)
  have dat: "block_data b' = block_data b" by (simp add: b'_def block_data_def)
  have off: "unat (bk_off b') = ?o + unat n" using sum by (simp add: b'_def)
  show "block_fits b'" using b off le by (simp add: block_fits_def b'_def word_le_nat_alt)
  show "raw_region b' = raw_region b" by (simp add: raw_region_def b'_def)
  show "used_region b \<subseteq> used_region b'" using ab off by (auto simp: used_region_def dat)
  show "{unat p..<unat p + unat n} \<subseteq> used_region b'" using p off by (auto simp: used_region_def dat)
  show "{unat p..<unat p + unat n} \<inter> used_region b = {}" using p ab by (auto simp: used_region_def)
  show "unat al dvd unat p" using p ab d A(4) by (simp add: dvd_trans [of _ 64])
qed

section \<open>Safety of the arena\<close>

text \<open>
  \<open>rs\<close> lists what was handed out since the last reset: address, size and the alignment that was asked for.
\<close>

type_synonym piece = "u64 \<times> u64 \<times> u64"

definition piece_mem :: "piece \<Rightarrow> nat set" where
  "piece_mem = (\<lambda>(p, n, al). {unat p..<unat p + unat n})"

definition apart :: "piece \<Rightarrow> piece \<Rightarrow> bool" where
  "apart x y \<longleftrightarrow> piece_mem x \<inter> piece_mem y = {}"

definition blocks_ok :: "Block list \<Rightarrow> bool" where
  "blocks_ok bs \<longleftrightarrow> list_all block_fits bs \<and> sorted_wrt (\<lambda>b c. raw_region b \<inter> raw_region c = {}) bs"

definition arena_ok :: "Arena \<Rightarrow> piece list \<Rightarrow> bool" where
  "arena_ok a rs \<longleftrightarrow> blocks_ok (ar_blocks a) \<and> sorted_wrt apart rs \<and>
     list_all (\<lambda>r. \<exists>b \<in> set (ar_blocks a). piece_mem r \<subseteq> used_region b) rs \<and>
     list_all (\<lambda>(p, n, al). unat al dvd unat p) rs"

lemma first_fit_SomeD:
  "first_fit n al i bs = Some j \<Longrightarrow> i \<le> j \<and> j - i < length bs \<and> align_up (bk_off (bs ! (j - i))) al + n \<le> bk_cap (bs ! (j - i))"
proof (induction n al i bs rule: first_fit.induct)
  case (2 n al i b bs)
  show ?case
  proof (cases "align_up (bk_off b) al + n \<le> bk_cap b")
    case False
    then have "first_fit n al (i + 1) bs = Some j" using 2(2) by simp
    note IH = 2(1) [OF False this]
    then have "j - i = Suc (j - (i + 1))" by linarith
    then show ?thesis using IH by simp
  qed (use 2(2) in auto)
qed simp

lemma blocks_ok_update:
  assumes "blocks_ok bs" "i < length bs" "block_fits b'" "raw_region b' = raw_region (bs ! i)"
  shows "blocks_ok (bs[i := b'])"
proof -
  have "raw_region (bs[i := b'] ! k) = raw_region (bs ! k)" for k
    using assms(2,4) by (cases "k = i") simp_all
  then show ?thesis using assms by (auto simp: blocks_ok_def list_all_length sorted_wrt_iff_nth_less nth_list_update)
qed

text \<open>Pieces of one block and of another do not meet.\<close>

lemma other_block_apart:
  assumes "blocks_ok bs" "i < length bs" "k < length bs" "i \<noteq> k" "x \<subseteq> raw_region (bs ! i)" "y \<subseteq> raw_region (bs ! k)"
  shows "x \<inter> y = {}"
proof -
  have "raw_region (bs ! i) \<inter> raw_region (bs ! k) = {}"
    using assms(1-4) by (cases i k rule: linorder_cases) (auto simp: blocks_ok_def sorted_wrt_iff_nth_less)
  then show ?thesis using assms(5,6) by blast
qed

text \<open>Handing out one more piece from block \<open>i\<close>.\<close>

lemma bump_ok:
  assumes a: "blocks_ok bs" "sorted_wrt apart rs" "list_all (\<lambda>r. \<exists>b \<in> set bs. piece_mem r \<subseteq> used_region b) rs"
    and i: "i < length bs" and al: "al \<in> {16, 32, 64}" and n: "1 \<le> unat n" "unat n < 2 ^ 63"
    and fit: "align_up (bk_off (bs ! i)) al + n \<le> bk_cap (bs ! i)"
  defines "b \<equiv> bs ! i"
  defines "p \<equiv> block_data b + align_up (bk_off b) al" and "bs' \<equiv> bs[i := b\<lparr>bk_off := align_up (bk_off b) al + n\<rparr>]"
  shows "blocks_ok bs' \<and> sorted_wrt apart ((p, n, al') # rs) \<and>
    list_all (\<lambda>r. \<exists>b \<in> set bs'. piece_mem r \<subseteq> used_region b) ((p, n, al') # rs) \<and> unat al dvd unat p"
proof -
  have bf: "block_fits b" using a(1) i by (simp add: blocks_ok_def list_all_length b_def)
  note bp = bump [OF bf al n fit [folded b_def], folded p_def]
  let ?b' = "b\<lparr>bk_off := align_up (bk_off b) al + n\<rparr>"
  have nth': "bs' ! k = (if k = i then ?b' else bs ! k)" if "k < length bs" for k using that by (simp add: bs'_def nth_list_update)
  have kept: "\<exists>c \<in> set bs'. piece_mem r \<subseteq> used_region c" "apart (p, n, al') r" if r: "r \<in> set rs" for r
  proof -
    obtain c where "c \<in> set bs" "piece_mem r \<subseteq> used_region c" using a(3) r by (auto simp: list_all_iff)
    then obtain k where k: "k < length bs" "piece_mem r \<subseteq> used_region (bs ! k)" by (metis in_set_conv_nth)
    have "piece_mem r \<subseteq> used_region (bs' ! k)" using k nth' [OF k(1)] bp(3) by (auto simp: b_def)
    then show "\<exists>c \<in> set bs'. piece_mem r \<subseteq> used_region c" using k(1) by (metis bs'_def length_list_update nth_mem)
    show "apart (p, n, al') r"
    proof (cases "k = i")
      case True
      then show ?thesis using bp(5) k(2) by (auto simp: apart_def piece_mem_def b_def)
    next
      case False
      have fk: "block_fits (bs ! k)" using a(1) k(1) by (simp add: blocks_ok_def list_all_length)
      have "piece_mem (p, n, al') \<subseteq> raw_region (bs ! i)"
        using bp(2,4) used_in_raw [OF bp(1)] by (auto simp: piece_mem_def b_def)
      then show ?thesis using other_block_apart [OF a(1) i k(1)] False k(2) used_in_raw [OF fk] unfolding apart_def by blast
    qed
  qed
  have "piece_mem (p, n, al') \<subseteq> used_region (bs' ! i)" using bp(4) nth' [OF i] by (simp add: piece_mem_def)
  then have "\<exists>c \<in> set bs'. piece_mem (p, n, al') \<subseteq> used_region c" using i by (metis bs'_def length_list_update nth_mem)
  moreover have "blocks_ok bs'" unfolding bs'_def by (rule blocks_ok_update [OF a(1) i bp(1)]) (simp add: raw_region_def b_def)
  ultimately show ?thesis using kept a(2) bp(6) by (simp add: list_all_iff)
qed

lemma grow_ok:
  assumes "malloc_ok mal" "blocks_ok (ar_blocks a)" "grow mal need a = (done, a')" "1 \<le> unat need"
  shows "if done then blocks_ok (ar_blocks a') \<and> tl (ar_blocks a') = ar_blocks a \<and> ar_blocks a' \<noteq> [] \<and>
      bk_off (hd (ar_blocks a')) = 0 \<and> need \<le> bk_cap (hd (ar_blocks a')) else ar_blocks a' = ar_blocks a"
proof -
  let ?cap = "if ar_next_cap a < need then need else ar_next_cap a"
  show ?thesis
  proof (cases "?cap > - 1 - block_header - kAlign")
    case True
    then show ?thesis using assms(3) by (auto simp: grow_def Let_def)
  next
    case False
    let ?sz = "block_header + ?cap + kAlign - 1"
    show ?thesis
    proof (cases "mal (ar_blocks a) ?sz")
      case None
      then show ?thesis using assms(3) False by (auto simp: grow_def Let_def)
    next
      case (Some raw)
      let ?b = "\<lparr>bk_raw = raw, bk_cap = ?cap, bk_off = 0\<rparr>"
      have "unat ?cap \<le> 18446744073709551519" using False by (simp add: word_le_nat_alt block_header_def kAlign_def not_less)
      then have sz: "unat ?sz = unat ?cap + 95" by (simp add: block_header_def kAlign_def unat_word_ariths(1) flip: add.assoc)
      have m: "unat raw + unat ?sz \<le> 2 ^ 64" "unat ?sz < 2 ^ 63" "\<forall>b \<in> set (ar_blocks a). {unat raw..<unat raw + unat ?sz} \<inter> raw_region b = {}"
        using assms(1) Some unfolding malloc_ok_def by blast+
      have le: "need \<le> ?cap" by auto
      then have "1 \<le> unat ?cap" using assms(4) by (simp add: word_le_nat_alt)
      then have "block_fits ?b" using m(1,2) sz by (simp add: block_fits_def)
      moreover have "\<forall>b \<in> set (ar_blocks a). raw_region ?b \<inter> raw_region b = {}" using m(3) sz by (simp add: raw_region_def add.assoc)
      ultimately have "blocks_ok (?b # ar_blocks a)" using assms(2) by (simp add: blocks_ok_def)
      moreover have "done" "ar_blocks a' = ?b # ar_blocks a" using assms(3) False Some by (auto simp: grow_def Let_def)
      ultimately show ?thesis using le by simp
    qed
  qed
qed

definition piece_size :: "u64 \<Rightarrow> u64" where
  "piece_size n = (if n = 0 then 1 else n)"

lemma alloc_ok:
  assumes m: "malloc_ok mal" and ok: "arena_ok a rs" and n: "unat n < 2 ^ 63" and al: "unat al \<in> {1, 2, 4, 8, 16, 32, 64}"
    and r: "alloc mal n al a = (res, a')"
  shows "arena_ok a' (case res of None \<Rightarrow> rs | Some p \<Rightarrow> (p, piece_size n, al) # rs)"
proof -
  let ?n = "piece_size n" and ?al = "clamp_align al" and ?bs = "ar_blocks a"
  have N: "1 \<le> unat ?n" "unat ?n < 2 ^ 63" using n by (auto simp: piece_size_def word_eq_iff_unsigned Suc_le_eq word_greater_zero_iff unat_gt_0)
  note cl = clamp_align_cases [OF al]
  have bo: "blocks_ok ?bs" "sorted_wrt apart rs" "list_all (\<lambda>r. \<exists>b \<in> set ?bs. piece_mem r \<subseteq> used_region b) rs"
    "list_all (\<lambda>(p, n, al). unat al dvd unat p) rs"
    using ok by (auto simp: arena_ok_def)
  show ?thesis
  proof (cases "first_fit ?n ?al (ar_cur a) (drop (ar_cur a) ?bs)")
    case (Some i)
    from first_fit_SomeD [OF this] have i: "i < length ?bs" "align_up (bk_off (?bs ! i)) ?al + ?n \<le> bk_cap (?bs ! i)" by auto
    note bp = bump_ok [OF bo(1,2,3) i(1) conjunct1 [OF cl] N i(2), of al]
    let ?p = "block_data (?bs ! i) + align_up (bk_off (?bs ! i)) ?al"
    have "unat al dvd unat ?p" using cl bp dvd_trans by blast
    moreover have "res = Some ?p" "ar_blocks a' = ?bs[i := (?bs ! i)\<lparr>bk_off := align_up (bk_off (?bs ! i)) ?al + ?n\<rparr>]"
      using r Some by (auto simp: alloc_def piece_size_def [symmetric] Let_def)
    ultimately show ?thesis using bp bo(4) by (simp add: arena_ok_def)
  next
    case None
    obtain d a1 where g: "grow mal ?n a = (d, a1)" by (cases "grow mal ?n a")
    note go = grow_ok [OF m bo(1) g N(1)]
    show ?thesis
    proof (cases d)
      case False
      then show ?thesis using r None g go ok by (auto simp: alloc_def piece_size_def [symmetric] Let_def arena_ok_def)
    next
      case True
      let ?bs1 = "ar_blocks a1"
      have b1: "blocks_ok ?bs1" "?bs1 \<noteq> []" "bk_off (?bs1 ! 0) = 0" "?n \<le> bk_cap (?bs1 ! 0)" "set ?bs \<subseteq> set ?bs1"
        using go True by (auto simp: hd_conv_nth dest: list.set_sel(2))
      have z: "align_up 0 ?al = 0" using cl by (auto simp: align_up_def)
      have "list_all (\<lambda>r. \<exists>b \<in> set ?bs1. piece_mem r \<subseteq> used_region b) rs" using bo(3) b1(5) by (fastforce simp: list_all_iff)
      from bump_ok [OF b1(1) bo(2) this, of 0 ?al ?n al] b1 N z cl
      have "blocks_ok (?bs1[0 := (?bs1 ! 0)\<lparr>bk_off := ?n\<rparr>]) \<and> sorted_wrt apart ((block_data (?bs1 ! 0), ?n, al) # rs) \<and>
        list_all (\<lambda>r. \<exists>b \<in> set (?bs1[0 := (?bs1 ! 0)\<lparr>bk_off := ?n\<rparr>]). piece_mem r \<subseteq> used_region b) ((block_data (?bs1 ! 0), ?n, al) # rs) \<and>
        unat ?al dvd unat (block_data (?bs1 ! 0))" by simp
      moreover have "?bs1[0 := (?bs1 ! 0)\<lparr>bk_off := ?n\<rparr>] = (hd ?bs1)\<lparr>bk_off := ?n\<rparr> # tl ?bs1" using b1(2) by (cases ?bs1) auto
      moreover have "?bs1 ! 0 = hd ?bs1" using b1(2) by (simp add: hd_conv_nth)
      moreover have "res = Some (block_data (hd ?bs1))" "ar_blocks a' = (hd ?bs1)\<lparr>bk_off := ?n\<rparr> # tl ?bs1"
        using r None g True z by (auto simp: alloc_def piece_size_def [symmetric] Let_def)
      moreover have "unat al dvd unat (block_data (hd ?bs1))" using cl calculation dvd_trans by metis
      ultimately show ?thesis using bo(4) by (simp add: arena_ok_def)
    qed
  qed
qed

lemma reset_ok:
  assumes "arena_ok a rs"
  shows "arena_ok (arena_reset a) []"
proof -
  have "raw_region (b\<lparr>bk_off := 0\<rparr>) = raw_region b" "block_fits b \<Longrightarrow> block_fits (b\<lparr>bk_off := 0\<rparr>)" for b
    by (simp_all add: raw_region_def block_fits_def)
  then show ?thesis using assms by (auto simp: arena_ok_def blocks_ok_def arena_reset_def list_all_iff sorted_wrt_map)
qed

lemma clear_ok: "arena_ok (arena_clear a) []"
  by (simp add: arena_ok_def blocks_ok_def arena_clear_def)

datatype arena_op = do_alloc u64 u64 | do_reset | do_clear

fun arena_step :: "malloc \<Rightarrow> arena_op \<Rightarrow> Arena \<times> piece list \<Rightarrow> Arena \<times> piece list" where
  "arena_step mal (do_alloc n al) (a, rs) = (case alloc mal n al a of
     (None, a') \<Rightarrow> (a', rs) | (Some p, a') \<Rightarrow> (a', (p, piece_size n, al) # rs))"
| "arena_step mal do_reset (a, rs) = (arena_reset a, [])"
| "arena_step mal do_clear (a, rs) = (arena_clear a, [])"

fun op_sane :: "arena_op \<Rightarrow> bool" where
  "op_sane (do_alloc n al) = (unat n < 2 ^ 63 \<and> unat al \<in> {1, 2, 4, 8, 16, 32, 64})"
| "op_sane x = True"

lemma arena_step_ok: "malloc_ok mal \<Longrightarrow> op_sane x \<Longrightarrow> arena_ok a rs \<Longrightarrow> arena_step mal x (a, rs) = (a', rs') \<Longrightarrow> arena_ok a' rs'"
proof (cases x)
  case (do_alloc n al)
  assume m: "malloc_ok mal" "op_sane x" "arena_ok a rs" "arena_step mal x (a, rs) = (a', rs')"
  obtain res a1 where r: "alloc mal n al a = (res, a1)" by (cases "alloc mal n al a")
  show ?thesis using alloc_ok [OF m(1,3) _ _ r] m(2,4) r do_alloc by (cases res) auto
qed (auto intro: reset_ok clear_ok)

lemma arena_run_ok:
  "malloc_ok mal \<Longrightarrow> list_all op_sane ops \<Longrightarrow> arena_ok a rs \<Longrightarrow> fold (arena_step mal) ops (a, rs) = (a', rs') \<Longrightarrow> arena_ok a' rs'"
proof (induction ops arbitrary: a rs)
  case (Cons x ops)
  obtain a1 rs1 where s: "arena_step mal x (a, rs) = (a1, rs1)" by (cases "arena_step mal x (a, rs)")
  have "arena_ok a1 rs1" by (rule arena_step_ok [OF Cons.prems(1) _ Cons.prems(3) s]) (use Cons.prems(2) in simp)
  then show ?case using Cons s by simp
qed simp

text \<open>
  C34: over any sequence of allocations, resets and clears, with a \<open>malloc\<close> that gives memory not in use, requests below
  \<open>2 ^ 63\<close> bytes and alignments that are powers of two up to 64, the pieces handed out since the last reset are
  aligned as asked, lie inside the memory of blocks the arena holds, and do not overlap.
\<close>

theorem arena_safe:
  assumes "malloc_ok mal" and "list_all op_sane ops" and "fold (arena_step mal) ops (new_arena first, []) = (a, rs)"
  shows "sorted_wrt apart rs \<and> list_all (\<lambda>(p, n, al). unat al dvd unat p) rs \<and>
    list_all (\<lambda>r. \<exists>b \<in> set (ar_blocks a). piece_mem r \<subseteq> raw_region b) rs"
proof -
  have "arena_ok (new_arena first) []" by (simp add: arena_ok_def new_arena_def blocks_ok_def)
  then have k: "arena_ok a rs" using arena_run_ok assms by blast
  then have "list_all block_fits (ar_blocks a)" by (simp add: arena_ok_def blocks_ok_def)
  then show ?thesis using k used_in_raw by (fastforce simp: arena_ok_def list_all_iff)
qed

definition small_malloc :: malloc where
  "small_malloc bs sz = (if bs = [] \<and> sz < 1000000 then Some 4096 else None)"

theorem arena_safe_witness:
  "\<exists>a. fold (arena_step small_malloc) [do_alloc 10 16, do_alloc 100 64] (new_arena 1024, []) = (a, [(4224, 100, 64), (4160, 10, 16)]) \<and>
     sorted_wrt apart [(4224, 100, 64), (4160, 10, 16)]"
proof -
  let ?ops = "[do_alloc 10 16, do_alloc 100 64]"
  have "snd (fold (arena_step small_malloc) ?ops (new_arena 1024, [])) = [(4224, 100, 64), (4160, 10, 16)]" by code_simp
  then obtain a where a: "fold (arena_step small_malloc) ?ops (new_arena 1024, []) = (a, [(4224, 100, 64), (4160, 10, 16)])"
    by (metis prod.collapse)
  have "malloc_ok small_malloc" by (auto simp: malloc_ok_def small_malloc_def word_less_nat_alt)
  moreover have "list_all op_sane ?ops" by simp
  ultimately show ?thesis using arena_safe [OF _ _ a] a by blast
qed

section \<open>A request that wraps around\<close>

text \<open>
  The test \<open>off + n <= cap\<close> wraps: a request of nearly \<open>2 ^ 64\<close> bytes is granted from a block that already holds
  something, and the offset of the block moves back over it, so that the next piece overlaps.
\<close>

theorem huge_request_granted:
  "map (\<lambda>(p, n, al). (p, n)) (snd (fold (arena_step small_malloc) [do_alloc 48 16, do_alloc (- 48) 16, do_alloc 48 16] (new_arena 1024, []))) =
     [(4160, 48), (4208, - 48), (4160, 48)]"
  by code_simp

end
