(* ===== verification/Pool.thy ===== *)
theory Pool
  imports Errors "HOL-Library.Multiset"
begin

text \<open>
  The keep-alive connection pool of \<open>src/net/pool.h\<close> and \<open>pool.cpp\<close>. A transport is the connection it holds, whether its
  socket is connected, and its last use. Closing a transport is recorded in \<open>po_closed\<close>. The readings of the clock are
  arguments; opening a connection and pumping the event loop run callbacks, so both are effects on the pool and on the
  rest of the program, \<open>'h\<close>. A wait that has not come to its end is \<open>None\<close>.

  The theorem says that over every history of the clients, callbacks that use the pool from inside a waiting \<open>acquire\<close>
  included, a connection is in one place only: held by one client, parked, or closed for good; that the counters are the
  numbers of connections held, and that no host has more parked connections than the configured bound.
\<close>

section \<open>The pool\<close>

record Transport =
  tr_conn :: nat
  tr_connected :: bool
  tr_last_use_ms :: u64

record PoolConfig =
  pc_max_idle_per_host :: u64
  pc_max_in_flight_per_host :: u64
  pc_idle_timeout_ms :: u64
  pc_acquire_wait_ms :: u32

definition default_pool_config :: PoolConfig where
  "default_pool_config = \<lparr>pc_max_idle_per_host = 2, pc_max_in_flight_per_host = 4, pc_idle_timeout_ms = 60000, pc_acquire_wait_ms = 5000\<rparr>"

record PoolKey =
  pk_host :: string
  pk_port :: u16
  pk_tls :: bool

record PoolEntry =
  pe_t :: Transport
  pe_key :: PoolKey
  pe_parked_ms :: u64

record Pool =
  po_idle :: "PoolEntry list"
  po_inflight :: "(PoolKey \<times> int) list"
  po_cfg :: PoolConfig
  po_closed :: "nat list"

definition new_pool :: "PoolConfig \<Rightarrow> Pool" where
  "new_pool cfg = \<lparr>po_idle = [], po_inflight = [], po_cfg = cfg, po_closed = []\<rparr>"

definition touch :: "u64 \<Rightarrow> Transport \<Rightarrow> Transport" where
  "touch now t = t\<lparr>tr_last_use_ms := now\<rparr>"

definition close_transport :: "Transport \<Rightarrow> Pool \<Rightarrow> Pool" where
  "close_transport t p = p\<lparr>po_closed := po_closed p @ [tr_conn t]\<rparr>"

fun count_of :: "PoolKey \<Rightarrow> (PoolKey \<times> int) list \<Rightarrow> int" where
  "count_of key [] = 0"
| "count_of key ((k, n) # kvs) = (if k = key then n else count_of key kvs)"

definition inflight_for :: "PoolKey \<Rightarrow> Pool \<Rightarrow> int" where
  "inflight_for key p = count_of key (po_inflight p)"

fun add_count :: "PoolKey \<Rightarrow> int \<Rightarrow> (PoolKey \<times> int) list \<Rightarrow> (PoolKey \<times> int) list" where
  "add_count key delta [] = (if delta > 0 then [(key, delta)] else [])"
| "add_count key delta ((k, n) # kvs) = (if k = key then (k, n + delta) # kvs else (k, n) # add_count key delta kvs)"

definition add_inflight :: "PoolKey \<Rightarrow> int \<Rightarrow> Pool \<Rightarrow> Pool" where
  "add_inflight key delta p = p\<lparr>po_inflight := add_count key delta (po_inflight p)\<rparr>"

definition expired :: "u64 \<Rightarrow> Pool \<Rightarrow> PoolEntry \<Rightarrow> bool" where
  "expired now p e \<longleftrightarrow> now - pe_parked_ms e > pc_idle_timeout_ms (po_cfg p)"

text \<open>The connections of a list of entries, which closing all of them closes.\<close>

definition conns :: "PoolEntry list \<Rightarrow> nat list" where
  "conns es = map (\<lambda>e. tr_conn (pe_t e)) es"

definition reap_idle :: "u64 \<Rightarrow> Pool \<Rightarrow> Pool" where
  "reap_idle now p =
     p\<lparr>po_idle := filter (\<lambda>e. \<not> expired now p e) (po_idle p),
       po_closed := po_closed p @ conns (filter (expired now p) (po_idle p))\<rparr>"

text \<open>The freshest parked transport of a host, and the rest; the newest entry is the last of the list.\<close>

fun take_last :: "PoolKey \<Rightarrow> PoolEntry list \<Rightarrow> (PoolEntry \<times> PoolEntry list) option" where
  "take_last key [] = None"
| "take_last key (e # es) = (case take_last key es of
     Some (x, rest) \<Rightarrow> Some (x, e # rest)
   | None \<Rightarrow> (if pe_key e = key then Some (e, es) else None))"

text \<open>\<open>static_cast<int>(cap)\<close>.\<close>

definition flight_cap :: "Pool \<Rightarrow> int" where
  "flight_cap p = sint (ucast (pc_max_in_flight_per_host (po_cfg p)) :: 32 word)"

fun wait_slot :: "PoolKey \<Rightarrow> u64 \<Rightarrow> (u64 \<times> (Pool \<times> 'h \<Rightarrow> Pool \<times> 'h)) list \<Rightarrow> Pool \<times> 'h \<Rightarrow> (bool \<times> (Pool \<times> 'h)) option" where
  "wait_slot key wait_until ws (p, h) =
     (if inflight_for key p < flight_cap p then Some (True, (p, h))
      else case ws of
        [] \<Rightarrow> None
      | (now, pump) # ws' \<Rightarrow>
          (if wait_until \<noteq> 0 \<and> now \<ge> wait_until then Some (False, (p, h)) else wait_slot key wait_until ws' (pump (p, h))))"

declare wait_slot.simps [simp del]

definition acquire ::
    "u64 \<Rightarrow> u64 \<Rightarrow> u64 \<Rightarrow> (u64 \<times> (Pool \<times> 'h \<Rightarrow> Pool \<times> 'h)) list \<Rightarrow> (Pool \<times> 'h \<Rightarrow> (error_code \<times> Transport) \<times> (Pool \<times> 'h)) \<Rightarrow> PoolKey \<Rightarrow>
     Pool \<times> 'h \<Rightarrow> ((error_code \<times> Transport option) \<times> (Pool \<times> 'h)) option" where
  "acquire t_reap t_touch t_wait ws opener key = (\<lambda>(p0, h).
     let p = reap_idle t_reap p0 in
     case take_last key (po_idle p) of
       Some (e, rest) \<Rightarrow> Some ((ok, Some (touch t_touch (pe_t e))), (add_inflight key 1 (p\<lparr>po_idle := rest\<rparr>), h))
     | None \<Rightarrow>
         (let wait_until = (if pc_acquire_wait_ms (po_cfg p) \<noteq> 0 then t_wait + ucast (pc_acquire_wait_ms (po_cfg p)) else 0) in
          case wait_slot key wait_until ws (p, h) of
            None \<Rightarrow> None
          | Some (False, s) \<Rightarrow> Some ((make_error_code e_net_timeout 1, None), s)
          | Some (True, s) \<Rightarrow>
              (case opener s of ((ec, t), (p2, h2)) \<Rightarrow>
                 if is_ok ec then Some ((ec, Some t), (add_inflight key 1 p2, h2)) else Some ((ec, None), (p2, h2)))))"

text \<open>
  The default opener. What the socket, the TLS backend and the transport do are the fields of a record of operations
  on the state; \<open>out\<close> is the caller's transport, which is returned as it was when the connection fails before it is
  attached.
\<close>

record 's NetOps =
  no_connect :: "u32 \<Rightarrow> 's \<Rightarrow> error_code \<times> 's"
  no_sock_close :: "'s \<Rightarrow> 's"
  no_create_tls :: "'s \<Rightarrow> error_code \<times> 's"
  no_attach :: "Transport \<Rightarrow> 's \<Rightarrow> (error_code \<times> Transport) \<times> 's"
  no_handshake :: "u64 \<Rightarrow> Transport \<Rightarrow> 's \<Rightarrow> (error_code \<times> Transport) \<times> 's"
  no_close :: "Transport \<Rightarrow> 's \<Rightarrow> Transport \<times> 's"

definition connect_timeout :: "u64 \<Rightarrow> u64 \<Rightarrow> u32" where
  "connect_timeout now deadline_ms = (if deadline_ms \<noteq> 0 then (if deadline_ms > now then ucast (deadline_ms - now) else 1) else 0)"

definition open_transport ::
    "'s NetOps \<Rightarrow> u64 \<Rightarrow> u64 \<Rightarrow> PoolKey \<Rightarrow> u64 \<Rightarrow> Transport \<Rightarrow> 's \<Rightarrow> (error_code \<times> Transport) \<times> 's" where
  "open_transport net now t_touch key deadline_ms out s =
     (case no_connect net (connect_timeout now deadline_ms) s of (ec, s1) \<Rightarrow>
      if \<not> is_ok ec then ((ec, out), s1)
      else case (if pk_tls key then no_create_tls net s1 else (ok, s1)) of (ec, s2) \<Rightarrow>
      if \<not> is_ok ec then ((ec, out), no_sock_close net s2)
      else case no_attach net out s2 of ((ec, t), s3) \<Rightarrow>
      if \<not> is_ok ec then ((ec, t), s3)
      else if \<not> pk_tls key then ((ok, touch t_touch t), s3)
      else case no_handshake net deadline_ms t s3 of ((ec, t'), s4) \<Rightarrow>
        if \<not> is_ok ec then (case no_close net t' s4 of (t'', s5) \<Rightarrow> ((ec, t''), s5)) else ((ok, touch t_touch t'), s4))"

definition idle_of :: "PoolKey \<Rightarrow> PoolEntry list \<Rightarrow> nat" where
  "idle_of key es = length (filter (\<lambda>e. pe_key e = key) es)"

text \<open>The oldest parked transports of the host are closed until the bound holds.\<close>

fun drop_oldest :: "PoolKey \<Rightarrow> nat \<Rightarrow> PoolEntry list \<Rightarrow> PoolEntry list \<times> nat list" where
  "drop_oldest key 0 es = (es, [])"
| "drop_oldest key (Suc n) [] = ([], [])"
| "drop_oldest key (Suc n) (e # es) =
     (if pe_key e = key then (case drop_oldest key n es of (kept, cl) \<Rightarrow> (kept, tr_conn (pe_t e) # cl))
      else (case drop_oldest key (Suc n) es of (kept, cl) \<Rightarrow> (e # kept, cl)))"

definition push_idle :: "u64 \<Rightarrow> u64 \<Rightarrow> Transport \<Rightarrow> PoolKey \<Rightarrow> Pool \<Rightarrow> Pool" where
  "push_idle t_touch now t key p =
     (let es = po_idle p @ [\<lparr>pe_t = touch t_touch t, pe_key = key, pe_parked_ms = now\<rparr>] in
      case drop_oldest key (idle_of key es - unat (pc_max_idle_per_host (po_cfg p))) es of
        (kept, cl) \<Rightarrow> p\<lparr>po_idle := kept, po_closed := po_closed p @ cl\<rparr>)"

definition release :: "u64 \<Rightarrow> u64 \<Rightarrow> Transport \<Rightarrow> PoolKey \<Rightarrow> bool \<Rightarrow> Pool \<Rightarrow> Pool" where
  "release t_touch now t key healthy p =
     (let p1 = add_inflight key (-1) p in
      if \<not> healthy \<or> \<not> tr_connected t then close_transport t p1 else push_idle t_touch now t key p1)"

definition drop_idle :: "Pool \<Rightarrow> Pool" where
  "drop_idle p = p\<lparr>po_idle := [], po_closed := po_closed p @ conns (po_idle p)\<rparr>"

definition pool_shutdown :: "Pool \<Rightarrow> Pool" where
  "pool_shutdown p = (drop_idle p)\<lparr>po_inflight := []\<rparr>"

definition in_flight :: "PoolKey \<Rightarrow> Pool \<Rightarrow> nat" where
  "in_flight key p = nat (inflight_for key p)"

definition in_flight_total :: "Pool \<Rightarrow> u64" where
  "in_flight_total p = sum_list (map (\<lambda>kv. of_int (snd kv)) (po_inflight p))"

section \<open>Counting\<close>

lemma count_of_add:
  "delta > 0 \<or> count_of key kvs > 0 \<Longrightarrow> count_of k (add_count key delta kvs) = count_of k kvs + (if k = key then delta else 0)"
  by (induction key delta kvs rule: add_count.induct) auto

lemma take_last_SomeD:
  "take_last key es = Some (e, rest) \<Longrightarrow> \<exists>us vs. es = us @ e # vs \<and> rest = us @ vs \<and> pe_key e = key"
proof (induction key es arbitrary: rest rule: take_last.induct)
  case (2 key x es)
  show ?case
  proof (cases "take_last key es")
    case None
    then have "e = x" "rest = es" "pe_key x = key" using 2(2) by (auto split: if_splits)
    then show ?thesis by (intro exI [of _ "[]"] exI [of _ es]) simp
  next
    case (Some r)
    then obtain rest' where r: "take_last key es = Some (e, rest')" "rest = x # rest'" using 2(2) by (cases r) auto
    from 2(1) [OF r(1)] obtain us vs where "es = us @ e # vs" "rest' = us @ vs" "pe_key e = key" by blast
    then show ?thesis using r(2) by (intro exI [of _ "x # us"] exI [of _ vs]) simp
  qed
qed simp

lemma conns_simps [simp]:
  "conns [] = []" "conns (e # es) = tr_conn (pe_t e) # conns es" "conns (es @ fs) = conns es @ conns fs"
  by (simp_all add: conns_def)

lemma conns_filter: "mset (conns (filter P es)) + mset (conns (filter (\<lambda>e. \<not> P e) es)) = mset (conns es)"
  by (induction es) auto

lemma drop_oldest_split:
  "drop_oldest key n es = (kept, cl) \<Longrightarrow> n \<le> idle_of key es \<Longrightarrow>
   mset (conns kept) + mset cl = mset (conns es) \<and> idle_of k kept = idle_of k es - (if k = key then n else 0)"
proof (induction key n es arbitrary: kept cl rule: drop_oldest.induct)
  case (3 key n e es)
  then show ?case by (cases "pe_key e = key") (fastforce simp: idle_of_def split: prod.splits)+
qed (auto simp: idle_of_def)

section \<open>The clients\<close>

text \<open>
  The program around the pool: the connections its clients hold, with the host they asked for, and the number of the
  next connection to be opened.
\<close>

record Clients =
  cl_next :: nat
  cl_held :: "(nat \<times> PoolKey) list"

definition bump :: "Pool \<times> Clients \<Rightarrow> Pool \<times> Clients" where
  "bump = (\<lambda>(p, h). (p, h\<lparr>cl_next := Suc (cl_next h)\<rparr>))"

definition hold :: "PoolKey \<Rightarrow> Transport option \<Rightarrow> Pool \<times> Clients \<Rightarrow> Pool \<times> Clients" where
  "hold key ot = (\<lambda>(p, h). (p, (case ot of None \<Rightarrow> h | Some t \<Rightarrow> h\<lparr>cl_held := (tr_conn t, key) # cl_held h\<rparr>)))"

definition let_go :: "PoolKey \<Rightarrow> Transport \<Rightarrow> Clients \<Rightarrow> Clients" where
  "let_go key t h = h\<lparr>cl_held := remove1 (tr_conn t, key) (cl_held h)\<rparr>"

text \<open>
  A history of the clients. A client that acquires keeps the transport and gives it back under the host it asked for.
  While \<open>acquire\<close> pumps the event loop, and while the opener does, the callbacks have histories of their own; the opener
  hands out a connection that has not been seen before.
\<close>

inductive pool_run :: "Pool \<times> Clients \<Rightarrow> Pool \<times> Clients \<Rightarrow> bool" where
  run_start: "pool_run s s"
| run_acquire:
    "pool_run s s1 \<Longrightarrow> \<forall>w\<in>set ws. \<forall>x. pool_run x (snd w x) \<Longrightarrow>
     \<forall>x. \<exists>y ec t. pool_run x y \<and> opener x = ((ec, t), bump y) \<and> tr_conn t = cl_next (snd y) \<Longrightarrow>
     acquire t_reap t_touch t_wait ws opener key s1 = Some ((ec, ot), s2) \<Longrightarrow> pool_run s (hold key ot s2)"
| run_release:
    "pool_run s (p, h) \<Longrightarrow> (tr_conn t, key) \<in> set (cl_held h) \<Longrightarrow>
     pool_run s (release t_touch now t key healthy p, let_go key t h)"
| run_drop_idle: "pool_run s (p, h) \<Longrightarrow> pool_run s (drop_idle p, h)"

definition held_for :: "PoolKey \<Rightarrow> Clients \<Rightarrow> nat" where
  "held_for key h = length (filter (\<lambda>x. snd x = key) (cl_held h))"

definition conn_places :: "Pool \<times> Clients \<Rightarrow> nat list" where
  "conn_places = (\<lambda>(p, h). conns (po_idle p) @ map fst (cl_held h) @ po_closed p)"

definition pool_inv :: "PoolConfig \<Rightarrow> Pool \<times> Clients \<Rightarrow> bool" where
  "pool_inv cfg s \<longleftrightarrow>
     po_cfg (fst s) = cfg \<and>
     distinct (conn_places s) \<and> (\<forall>c\<in>set (conn_places s). c < cl_next (snd s)) \<and>
     (\<forall>key. inflight_for key (fst s) = int (held_for key (snd s))) \<and>
     (\<forall>key. idle_of key (po_idle (fst s)) \<le> unat (pc_max_idle_per_host cfg))"

text \<open>Only which connections are placed matters for the first half of the invariant, not where.\<close>

lemma pool_inv_transfer:
  assumes "pool_inv cfg s" "mset (conn_places s') = mset (conn_places s)" "cl_next (snd s') = cl_next (snd s)" "po_cfg (fst s') = cfg"
    "\<And>key. inflight_for key (fst s') = int (held_for key (snd s'))"
    "\<And>key. idle_of key (po_idle (fst s')) \<le> unat (pc_max_idle_per_host cfg)"
  shows "pool_inv cfg s'"
proof -
  have "set (conn_places s') = set (conn_places s)" using assms(2) by (rule mset_eq_setD)
  moreover have "distinct (conn_places s') = distinct (conn_places s)" using assms(2) by (rule mset_eq_imp_distinct_iff)
  ultimately show ?thesis using assms by (simp add: pool_inv_def)
qed

lemma idle_of_filter: "idle_of key (filter P es) \<le> idle_of key es"
  by (induction es) (auto simp: idle_of_def)

lemma inflight_for_add:
  "delta > 0 \<or> inflight_for key p > 0 \<Longrightarrow> inflight_for k (add_inflight key delta p) = inflight_for k p + (if k = key then delta else 0)"
  by (simp add: inflight_for_def add_inflight_def count_of_add)

lemma reap_idle_inv:
  assumes "pool_inv cfg (p, h)" shows "pool_inv cfg (reap_idle now p, h)"
proof (rule pool_inv_transfer [OF assms])
  show "mset (conn_places (reap_idle now p, h)) = mset (conn_places (p, h))"
    using conns_filter [of "expired now p" "po_idle p"] by (simp add: conn_places_def reap_idle_def ac_simps)
  show "idle_of key (po_idle (fst (reap_idle now p, h))) \<le> unat (pc_max_idle_per_host cfg)" for key
    using assms le_trans [OF idle_of_filter] by (auto simp: pool_inv_def reap_idle_def)
qed (use assms in \<open>simp_all add: pool_inv_def reap_idle_def inflight_for_def\<close>)

lemma drop_idle_inv:
  assumes "pool_inv cfg (p, h)" shows "pool_inv cfg (drop_idle p, h)"
  by (rule pool_inv_transfer [OF assms])
    (use assms in \<open>simp_all add: pool_inv_def conn_places_def drop_idle_def inflight_for_def idle_of_def\<close>)

lemma pool_inv_fresh:
  assumes "pool_inv cfg (p, h)"
  shows "pool_inv cfg (add_inflight key 1 p, h\<lparr>cl_next := Suc (cl_next h), cl_held := (cl_next h, key) # cl_held h\<rparr>)"
    and "pool_inv cfg (p, h\<lparr>cl_next := Suc (cl_next h)\<rparr>)"
proof -
  have P: "distinct (conn_places (p, h))" "\<forall>c\<in>set (conn_places (p, h)). c < cl_next h" using assms by (simp_all add: pool_inv_def)
  then have lt: "\<forall>c\<in>set (conn_places (p, h)). c < Suc (cl_next h)" by (auto intro: less_SucI)
  then show "pool_inv cfg (p, h\<lparr>cl_next := Suc (cl_next h)\<rparr>)"
    using assms P by (simp add: pool_inv_def held_for_def conn_places_def)
  let ?s = "(add_inflight key 1 p, h\<lparr>cl_next := Suc (cl_next h), cl_held := (cl_next h, key) # cl_held h\<rparr>)"
  have m: "mset (conn_places ?s) = mset (cl_next h # conn_places (p, h))" by (simp add: conn_places_def add_inflight_def)
  have "distinct (cl_next h # conn_places (p, h))" using P by auto
  then have "distinct (conn_places ?s)" using mset_eq_imp_distinct_iff [OF m] by simp
  moreover have "set (conn_places ?s) = insert (cl_next h) (set (conn_places (p, h)))" using mset_eq_setD [OF m] by simp
  moreover have "inflight_for k (add_inflight key 1 p) = int (held_for k (snd ?s))" for k
    using assms by (simp add: pool_inv_def inflight_for_add held_for_def)
  ultimately show "pool_inv cfg ?s" using assms lt by (simp add: pool_inv_def) (simp add: add_inflight_def)
qed

lemma reuse_inv:
  assumes "pool_inv cfg (p, h)" "take_last key (po_idle p) = Some (e, rest)"
  shows "pool_inv cfg (hold key (Some (touch now (pe_t e))) (add_inflight key 1 (p\<lparr>po_idle := rest\<rparr>), h))"
    (is "pool_inv cfg ?s")
proof (rule pool_inv_transfer [OF assms(1)])
  obtain us vs where es: "po_idle p = us @ e # vs" "rest = us @ vs" using take_last_SomeD [OF assms(2)] by blast
  show "mset (conn_places ?s) = mset (conn_places (p, h))"
    by (simp add: hold_def conn_places_def add_inflight_def touch_def es)
  show "inflight_for k (fst ?s) = int (held_for k (snd ?s))" for k
    using assms(1) by (simp add: pool_inv_def hold_def inflight_for_add held_for_def) (simp add: inflight_for_def)
  have "idle_of k (po_idle (fst ?s)) \<le> idle_of k (po_idle p)" for k
    by (simp add: hold_def add_inflight_def idle_of_def es)
  then show "idle_of k (po_idle (fst ?s)) \<le> unat (pc_max_idle_per_host cfg)" for k
    using assms(1) le_trans unfolding pool_inv_def fst_conv by blast
qed (use assms in \<open>simp_all add: pool_inv_def hold_def add_inflight_def\<close>)

lemma wait_slot_inv:
  assumes "\<forall>w\<in>set ws. \<forall>x. pool_inv cfg x \<longrightarrow> pool_inv cfg (snd w x)" "pool_inv cfg s" "wait_slot key u ws s = Some (b, s')"
  shows "pool_inv cfg s'"
  using assms
proof (induction key u ws s rule: wait_slot.induct)
  case (1 key u ws p h)
  show ?case
  proof (cases "inflight_for key p < flight_cap p")
    case True
    then show ?thesis using 1 by (simp add: wait_slot.simps)
  next
    case False
    then obtain now pump ws' where ws: "ws = (now, pump) # ws'" using 1 by (cases ws) (auto simp: wait_slot.simps)
    show ?thesis
    proof (cases "u \<noteq> 0 \<and> now \<ge> u")
      case True
      then show ?thesis using 1(3,4) False ws by (simp add: wait_slot.simps)
    next
      case go: False
      show ?thesis
        by (rule 1(1) [OF False ws refl go]) (use 1(2-) False go ws in \<open>auto simp: wait_slot.simps [of _ _ "(now, pump) # ws'" p h]\<close>)
    qed
  qed
qed

lemma acquire_inv:
  assumes ws: "\<forall>w\<in>set ws. \<forall>x. pool_inv cfg x \<longrightarrow> pool_inv cfg (snd w x)"
    and op: "\<forall>x. \<exists>y ec t. (pool_inv cfg x \<longrightarrow> pool_inv cfg y) \<and> opener x = ((ec, t), bump y) \<and> tr_conn t = cl_next (snd y)"
    and s: "pool_inv cfg s" and acq: "acquire t_reap t_touch t_wait ws opener key s = Some ((ec, ot), s')"
  shows "pool_inv cfg (hold key ot s')"
proof -
  obtain p0 h where s_eq: "s = (p0, h)" by (cases s)
  define p where "p = reap_idle t_reap p0"
  have p: "pool_inv cfg (p, h)" using s reap_idle_inv unfolding s_eq p_def by blast
  show ?thesis
  proof (cases "take_last key (po_idle p)")
    case (Some er)
    then obtain e rest where er: "take_last key (po_idle p) = Some (e, rest)" by (cases er) auto
    then have "ot = Some (touch t_touch (pe_t e))" "s' = (add_inflight key 1 (p\<lparr>po_idle := rest\<rparr>), h)"
      using acq by (simp_all add: acquire_def s_eq p_def [symmetric] Let_def)
    then show ?thesis using reuse_inv [OF p er] by simp
  next
    case None
    then obtain u b s1 where w: "wait_slot key u ws (p, h) = Some (b, s1)"
      and acq': "(if b then case opener s1 of ((ec, t), (p2, h2)) \<Rightarrow>
                   if is_ok ec then Some ((ec, Some t), (add_inflight key 1 p2, h2)) else Some ((ec, None), (p2, h2))
                 else Some ((make_error_code e_net_timeout 1, None), s1)) = Some ((ec, ot), s')"
      using acq by (fastforce simp: acquire_def s_eq p_def [symmetric] Let_def split: option.splits bool.splits)
    have s1: "pool_inv cfg s1" using wait_slot_inv [OF ws p w] .
    obtain p2 h2 ec' t where o1: "opener s1 = ((ec', t), bump (p2, h2))" "tr_conn t = cl_next h2" "pool_inv cfg (p2, h2)"
      using op s1 by (metis prod.collapse snd_conv)
    then show ?thesis
      using acq' s1 pool_inv_fresh [OF o1(3)] by (auto simp: hold_def bump_def split: if_splits prod.splits)
  qed
qed

lemma push_idle_effect:
  assumes "\<And>k. idle_of k (po_idle p) \<le> unat (pc_max_idle_per_host (po_cfg p))"
  shows "mset (conns (po_idle (push_idle t_touch now t key p)) @ po_closed (push_idle t_touch now t key p)) =
           add_mset (tr_conn t) (mset (conns (po_idle p) @ po_closed p))"
    and "idle_of k (po_idle (push_idle t_touch now t key p)) \<le> unat (pc_max_idle_per_host (po_cfg p))"
    and "po_cfg (push_idle t_touch now t key p) = po_cfg p" "inflight_for k (push_idle t_touch now t key p) = inflight_for k p"
proof -
  let ?e = "\<lparr>pe_t = touch t_touch t, pe_key = key, pe_parked_ms = now\<rparr>"
  define n where "n = idle_of key (po_idle p @ [?e]) - unat (pc_max_idle_per_host (po_cfg p))"
  obtain kept cl where d: "drop_oldest key n (po_idle p @ [?e]) = (kept, cl)" by fastforce
  have n: "n \<le> idle_of key (po_idle p @ [?e])" by (simp add: n_def)
  have q: "push_idle t_touch now t key p = p\<lparr>po_idle := kept, po_closed := po_closed p @ cl\<rparr>"
    using d by (simp add: push_idle_def n_def)
  note sp = drop_oldest_split [OF d n]
  show "mset (conns (po_idle (push_idle t_touch now t key p)) @ po_closed (push_idle t_touch now t key p)) =
          add_mset (tr_conn t) (mset (conns (po_idle p) @ po_closed p))"
    using sp by (simp add: q touch_def ac_simps)
  show "idle_of k (po_idle (push_idle t_touch now t key p)) \<le> unat (pc_max_idle_per_host (po_cfg p))"
    using sp [of k] assms [of k] by (auto simp: q n_def idle_of_def split: if_splits)
qed (simp_all add: push_idle_def inflight_for_def Let_def split: prod.splits)

lemma release_effect:
  assumes "\<And>k. idle_of k (po_idle p) \<le> unat (pc_max_idle_per_host (po_cfg p))"
  shows "mset (conns (po_idle (release t_touch now t key healthy p)) @ po_closed (release t_touch now t key healthy p)) =
           add_mset (tr_conn t) (mset (conns (po_idle p) @ po_closed p))"
    and "idle_of k (po_idle (release t_touch now t key healthy p)) \<le> unat (pc_max_idle_per_host (po_cfg p))"
    and "po_cfg (release t_touch now t key healthy p) = po_cfg p"
    and "inflight_for k (release t_touch now t key healthy p) = inflight_for k (add_inflight key (-1) p)"
proof -
  have a: "po_idle (add_inflight key (-1) p) = po_idle p" "po_closed (add_inflight key (-1) p) = po_closed p"
    "po_cfg (add_inflight key (-1) p) = po_cfg p" by (simp_all add: add_inflight_def)
  note pe = push_idle_effect [of "add_inflight key (-1) p", unfolded a, OF assms]
  show "mset (conns (po_idle (release t_touch now t key healthy p)) @ po_closed (release t_touch now t key healthy p)) =
          add_mset (tr_conn t) (mset (conns (po_idle p) @ po_closed p))"
    using pe(1) by (simp add: release_def Let_def close_transport_def a)
  show "idle_of k (po_idle (release t_touch now t key healthy p)) \<le> unat (pc_max_idle_per_host (po_cfg p))"
    using pe(2) assms by (simp add: release_def Let_def close_transport_def a)
  show "po_cfg (release t_touch now t key healthy p) = po_cfg p"
    "inflight_for k (release t_touch now t key healthy p) = inflight_for k (add_inflight key (-1) p)"
    using pe(3,4) by (simp_all add: release_def Let_def close_transport_def a inflight_for_def)
qed

lemma release_inv:
  assumes "pool_inv cfg (p, h)" "(tr_conn t, key) \<in> set (cl_held h)"
  shows "pool_inv cfg (release t_touch now t key healthy p, let_go key t h)" (is "pool_inv cfg ?s")
proof (rule pool_inv_transfer [OF assms(1)])
  obtain xs ys where h: "cl_held h = xs @ (tr_conn t, key) # ys" "cl_held (let_go key t h) = xs @ ys"
    using split_list_first [OF assms(2)] by (auto simp: let_go_def remove1_append)
  have cfg: "po_cfg p = cfg" and idle: "idle_of k (po_idle p) \<le> unat (pc_max_idle_per_host (po_cfg p))"
    and cnt: "inflight_for k p = int (held_for k h)" for k
    using assms(1) by (auto simp: pool_inv_def)
  note re = release_effect [of p, OF idle]
  show "mset (conn_places ?s) = mset (conn_places (p, h))" using re(1) [of t_touch now t key healthy] by (simp add: conn_places_def h)
  have "inflight_for key p > 0" using cnt [of key] by (simp add: held_for_def h)
  then show "inflight_for k (fst ?s) = int (held_for k (snd ?s))" for k
    using cnt [of k] by (simp add: re(4) inflight_for_add held_for_def h)
  show "idle_of k (po_idle (fst ?s)) \<le> unat (pc_max_idle_per_host cfg)" for k using re(2) cfg by simp
  show "po_cfg (fst ?s) = cfg" using re(3) cfg by simp
qed (simp add: let_go_def)

lemma pool_run_inv: "pool_run s s' \<Longrightarrow> pool_inv cfg s \<Longrightarrow> pool_inv cfg s'"
proof (induction rule: pool_run.induct)
  case (run_acquire s s1 ws opener t_reap t_touch t_wait key ec ot s2)
  show ?case
    by (rule acquire_inv [where ws = ws and opener = opener and s = s1]) (use run_acquire in \<open>blast+\<close>)
qed (simp_all add: release_inv drop_idle_inv)

lemma new_pool_inv: "pool_inv cfg (new_pool cfg, \<lparr>cl_next = 0, cl_held = []\<rparr>)"
  by (simp add: pool_inv_def new_pool_def conn_places_def inflight_for_def held_for_def idle_of_def)

text \<open>
  C25: a connection has one owner. Whatever the clients do with a new pool, and whatever callbacks run while an \<open>acquire\<close>
  waits for a slot or opens a connection, the connections that are parked, held by a client or closed are all different
  ones, so a parked or closed connection is in nobody's hands, no two clients share one and no closed one comes back; the
  counter of a host is the number of its connections held by clients; and no host has more than \<open>max_idle_per_host\<close>
  parked connections.
\<close>

theorem connections_owned:
  assumes "pool_run (new_pool cfg, \<lparr>cl_next = 0, cl_held = []\<rparr>) (p, h)"
  shows "distinct (map (\<lambda>e. tr_conn (pe_t e)) (po_idle p) @ map fst (cl_held h) @ po_closed p) \<and>
    inflight_for key p = int (length (filter (\<lambda>x. snd x = key) (cl_held h))) \<and>
    in_flight key p = length (filter (\<lambda>x. snd x = key) (cl_held h)) \<and>
    idle_of key (po_idle p) \<le> unat (pc_max_idle_per_host cfg)"
  using pool_run_inv [OF assms new_pool_inv]
  by (simp add: pool_inv_def conn_places_def conns_def held_for_def in_flight_def)

text \<open>An opener that always succeeds, for the examples.\<close>

definition dial :: "Pool \<times> Clients \<Rightarrow> (error_code \<times> Transport) \<times> (Pool \<times> Clients)" where
  "dial s = ((ok, \<lparr>tr_conn = cl_next (snd s), tr_connected = True, tr_last_use_ms = 0\<rparr>), bump s)"

lemma run_acquire_dial:
  assumes "pool_run s s1" "\<forall>w\<in>set ws. \<forall>x. pool_run x (snd w x)" "acquire 0 0 0 ws dial key s1 = Some ((ec, ot), s2)"
  shows "pool_run s (hold key ot s2)"
  by (rule run_acquire [OF assms(1,2) _ assms(3)]) (auto simp: dial_def intro: run_start)

definition example_key :: PoolKey where
  "example_key = \<lparr>pk_host = ''h'', pk_port = 443, pk_tls = True\<rparr>"

definition conn :: "nat \<Rightarrow> Transport" where
  "conn n = \<lparr>tr_conn = n, tr_connected = True, tr_last_use_ms = 0\<rparr>"

lemmas pool_eval = acquire_def new_pool_def reap_idle_def conns_def dial_def bump_def hold_def let_go_def add_inflight_def
  inflight_for_def flight_cap_def wait_slot.simps release_def push_idle_def close_transport_def touch_def idle_of_def
  expired_def conn_def default_pool_config_def

lemma example_run:
  "pool_run (new_pool default_pool_config, \<lparr>cl_next = 0, cl_held = []\<rparr>)
     (\<lparr>po_idle = [], po_inflight = [(example_key, 1)], po_cfg = default_pool_config, po_closed = []\<rparr>,
      \<lparr>cl_next = 1, cl_held = [(0, example_key)]\<rparr>)"
  using run_acquire_dial [OF run_start, of "[]" example_key "(new_pool default_pool_config, \<lparr>cl_next = 0, cl_held = []\<rparr>)"]
  by (simp add: pool_eval is_ok_def ok_def)

lemma connections_owned_witness:
  "in_flight example_key \<lparr>po_idle = [], po_inflight = [(example_key, 1)], po_cfg = default_pool_config, po_closed = []\<rparr> =
   length (filter (\<lambda>x. snd x = example_key) [(0::nat, example_key)])"
  using connections_owned [OF example_run, of example_key] by simp

text \<open>
  The bound on the connections in flight is not kept. A client that waited for a slot opens a connection although the
  one that was given back meanwhile is parked, and reusing a parked connection does not look at the bound: with a bound
  of one, one client ends up holding connection 1 and another connection 0.
\<close>

definition tight_config :: PoolConfig where
  "tight_config = default_pool_config\<lparr>pc_max_in_flight_per_host := 1\<rparr>"

definition tight_pool :: "PoolEntry list \<Rightarrow> int \<Rightarrow> Pool" where
  "tight_pool es n = \<lparr>po_idle = es, po_inflight = [(example_key, n)], po_cfg = tight_config, po_closed = []\<rparr>"

definition parked :: "PoolEntry" where
  "parked = \<lparr>pe_t = conn 0, pe_key = example_key, pe_parked_ms = 0\<rparr>"

definition give_back :: "Pool \<times> Clients \<Rightarrow> Pool \<times> Clients" where
  "give_back = (\<lambda>(p, h). if (0, example_key) \<in> set (cl_held h)
     then (release 0 0 (conn 0) example_key True p, let_go example_key (conn 0) h) else (p, h))"

lemma give_back_run: "pool_run x (give_back x)"
proof (cases x)
  case (Pair p h)
  show ?thesis
  proof (cases "(0, example_key) \<in> set (cl_held h)")
    case True
    then show ?thesis
      using run_release [OF run_start, of "conn 0" example_key h p 0 0 True] by (simp add: Pair give_back_def conn_def)
  qed (simp add: Pair give_back_def run_start)
qed

lemma waiting_client_opens:
  "acquire 0 0 0 [(0, give_back)] dial example_key (tight_pool [] 1, \<lparr>cl_next = 1, cl_held = [(0, example_key)]\<rparr>) =
     Some ((ok, Some (conn 1)), (tight_pool [parked] 1, \<lparr>cl_next = 2, cl_held = []\<rparr>))"
  by (simp add: pool_eval tight_pool_def tight_config_def give_back_def parked_def)

lemma parked_one_reused:
  "acquire 0 0 0 [] dial example_key (tight_pool [parked] 1, \<lparr>cl_next = 2, cl_held = [(1, example_key)]\<rparr>) =
     Some ((ok, Some (conn 0)), (tight_pool [] 2, \<lparr>cl_next = 2, cl_held = [(1, example_key)]\<rparr>))"
  by (simp add: pool_eval tight_pool_def tight_config_def parked_def)

lemma capacity_exceeded:
  "\<exists>p h. pool_run (new_pool tight_config, \<lparr>cl_next = 0, cl_held = []\<rparr>) (p, h) \<and>
         int (in_flight example_key p) = flight_cap p + 1 \<and> flight_cap p = 1"
proof -
  let ?s0 = "(new_pool tight_config, \<lparr>cl_next = 0, cl_held = []\<rparr>)"
  have "pool_run ?s0 (tight_pool [] 1, \<lparr>cl_next = 1, cl_held = [(0, example_key)]\<rparr>)"
    using run_acquire_dial [OF run_start, of "[]" example_key ?s0]
    by (simp add: pool_eval tight_pool_def tight_config_def)
  from run_acquire_dial [OF this _ waiting_client_opens]
  have "pool_run ?s0 (tight_pool [parked] 1, \<lparr>cl_next = 2, cl_held = [(1, example_key)]\<rparr>)"
    by (simp add: give_back_run hold_def conn_def)
  from run_acquire_dial [OF this _ parked_one_reused]
  have "pool_run ?s0 (tight_pool [] 2, \<lparr>cl_next = 2, cl_held = [(0, example_key), (1, example_key)]\<rparr>)"
    by (simp add: hold_def conn_def)
  moreover have "flight_cap (tight_pool [] 2) = 1" "in_flight example_key (tight_pool [] 2) = 2"
    by (simp_all add: flight_cap_def tight_pool_def tight_config_def in_flight_def inflight_for_def)
  ultimately show ?thesis by (intro exI conjI) (assumption, simp_all)
qed

text \<open>With \<open>acquire_wait_ms = 0\<close> the wait has no deadline: as long as no slot comes free it does not end.\<close>

lemma zero_wait_never_times_out: "wait_slot key 0 ws s \<noteq> Some (False, s')"
proof (induction ws arbitrary: s)
  case Nil
  then show ?case by (cases s) (simp add: wait_slot.simps)
next
  case (Cons w ws)
  then show ?case by (cases s; cases w) (simp add: wait_slot.simps [of _ _ "_ # _"])
qed

text \<open>After a shutdown, connections that are still held are given back to counters that start again from zero.\<close>

lemma count_below_zero:
  "\<exists>p. inflight_for example_key
     (release 0 0 (conn 1) example_key False (release 0 0 (conn 0) example_key False (add_inflight example_key 1 (pool_shutdown p)))) = -1"
  by (rule exI [of _ "tight_pool [] 2"])
    (simp add: pool_eval tight_pool_def tight_config_def pool_shutdown_def drop_idle_def)

text \<open>
  A deadline always gives the connection a time limit, unless the time left does not fit in the 32 bits of the timeout:
  its low 32 bits are passed on, and they are 0, no limit, for a multiple of \<open>2 ^ 32\<close> milliseconds.
\<close>

lemma connect_timeout_limit:
  assumes "deadline_ms \<noteq> 0" "unat deadline_ms < unat now + 2 ^ 32"
  shows "connect_timeout now deadline_ms \<noteq> 0 \<and> (now < deadline_ms \<longrightarrow> unat (connect_timeout now deadline_ms) = unat deadline_ms - unat now)"
proof (cases "now < deadline_ms")
  case True
  then have d: "unat (deadline_ms - now) = unat deadline_ms - unat now" by (simp add: unat_sub less_imp_le)
  have "unat (ucast (deadline_ms - now) :: u32) = unat deadline_ms - unat now"
    using assms(2) by (simp add: unsigned_ucast_eq d take_bit_nat_eq_self)
  then show ?thesis using True by (auto simp: connect_timeout_def word_less_nat_alt unat_eq_0)
qed (use assms(1) in \<open>simp add: connect_timeout_def\<close>)

lemma connect_timeout_wraps: "connect_timeout 0 (2 ^ 32) = 0"
  by (simp add: connect_timeout_def)

text \<open>A connection is handed out only when every step succeeded, and over TLS only after the handshake.\<close>

lemma open_transport_ok:
  assumes "open_transport net now u key d out s = ((ec, t), s')" "is_ok ec"
  shows "\<exists>s1 s2 e1 e2 e3 t1 s3. no_connect net (connect_timeout now d) s = (e1, s1) \<and> is_ok e1 \<and>
    (if pk_tls key then no_create_tls net s1 = (e2, s2) \<and> is_ok e2 else s2 = s1) \<and> no_attach net out s2 = ((e3, t1), s3) \<and> is_ok e3 \<and>
    (if pk_tls key then \<exists>e4 t2. no_handshake net d t1 s3 = ((e4, t2), s') \<and> is_ok e4 \<and> t = touch u t2 else t = touch u t1 \<and> s' = s3)"
  using assms by (fastforce simp: open_transport_def split: prod.splits if_splits)

end
