(* ===== verification/Timer_Heap.thy ===== *)
theory Timer_Heap
  imports Prelude "HOL-Library.Multiset"
begin

text \<open>
  The timer queue of \<open>src/core/event_loop.cpp\<close>: a vector that \<open>std::push_heap\<close> and \<open>std::pop_heap\<close> keep in heap order, with the
  comparison \<open>a.deadline_ms > b.deadline_ms\<close> that puts the earliest deadline in front. The two operations move a hole: up
  from the new last place, or down to a leaf and up again, as the library does.

  The locale \<open>heap_queue\<close> states what the loop relies on: the order is kept, nothing is lost, and the front is
  earliest.
\<close>

record 'u Timer =
  tm_id :: u64
  tm_deadline_ms :: u64
  tm_period_ms :: u64
  tm_handler :: 'u
  tm_oneshot :: bool
  tm_cancelled :: bool

section \<open>The library's heap operations\<close>

fun sift_up :: "nat \<Rightarrow> 'u Timer \<Rightarrow> 'u Timer list \<Rightarrow> 'u Timer list" where
  "sift_up 0 v xs = xs[0 := v]"
| "sift_up (Suc k) v xs =
     (let parent = k div 2 in
      if tm_deadline_ms (xs ! parent) > tm_deadline_ms v then sift_up parent v (xs[Suc k := xs ! parent]) else xs[Suc k := v])"

definition push_heap :: "'u Timer list \<Rightarrow> 'u Timer \<Rightarrow> 'u Timer list" where
  "push_heap xs v = sift_up (length xs) v (xs @ [v])"

function sift_down :: "nat \<Rightarrow> 'u Timer list \<Rightarrow> nat \<times> 'u Timer list" where
  "sift_down hole xs =
     (let right = 2 * hole + 2 in
      if right < length xs then
        (let child = (if tm_deadline_ms (xs ! right) > tm_deadline_ms (xs ! (right - 1)) then right - 1 else right) in
         sift_down child (xs[hole := xs ! child]))
      else if right = length xs then (right - 1, xs[hole := xs ! (right - 1)])
      else (hole, xs))"
  by pat_completeness auto
termination by (relation "measure (\<lambda>(hole, xs). length xs - hole)") (auto simp: Let_def)

declare sift_down.simps [simp del]

definition pop_heap :: "'u Timer list \<Rightarrow> 'u Timer list" where
  "pop_heap xs =
     (if length xs \<le> 1 then []
      else case sift_down 0 (butlast xs) of (hole, ys) \<Rightarrow> sift_up hole (last xs) ys)"

section \<open>Heap order\<close>

abbreviation dl :: "'u Timer \<Rightarrow> u64" where
  "dl \<equiv> tm_deadline_ms"

definition is_heap :: "'u Timer list \<Rightarrow> bool" where
  "is_heap xs \<longleftrightarrow> (\<forall>i. Suc i < length xs \<longrightarrow> dl (xs ! (i div 2)) \<le> dl (xs ! Suc i))"

text \<open>Heap order everywhere but around the place \<open>h\<close>, whose element is to be filled in.\<close>

definition heap_but :: "nat \<Rightarrow> 'u Timer list \<Rightarrow> bool" where
  "heap_but h xs \<longleftrightarrow>
     (\<forall>i. Suc i < length xs \<longrightarrow> Suc i \<noteq> h \<longrightarrow> i div 2 \<noteq> h \<longrightarrow> dl (xs ! (i div 2)) \<le> dl (xs ! Suc i)) \<and>
     (\<forall>k i. h = Suc k \<longrightarrow> Suc i < length xs \<longrightarrow> i div 2 = h \<longrightarrow> dl (xs ! (k div 2)) \<le> dl (xs ! Suc i))"

definition children_from :: "u64 \<Rightarrow> nat \<Rightarrow> 'u Timer list \<Rightarrow> bool" where
  "children_from d h xs \<longleftrightarrow> (\<forall>i. Suc i < length xs \<longrightarrow> i div 2 = h \<longrightarrow> d \<le> dl (xs ! Suc i))"

lemma heap_front:
  assumes "is_heap xs" "i < length xs" shows "dl (xs ! 0) \<le> dl (xs ! i)"
  using assms(2)
proof (induction i rule: less_induct)
  case (less i)
  show ?case
  proof (cases i)
    case (Suc k)
    then have "dl (xs ! 0) \<le> dl (xs ! (k div 2))" using less by simp
    then show ?thesis using assms(1) less.prems Suc by (fastforce simp: is_heap_def intro: order_trans)
  qed simp
qed

lemma sift_up_heap: "h < length xs \<Longrightarrow> heap_but h xs \<Longrightarrow> children_from (dl v) h xs \<Longrightarrow> is_heap (sift_up h v xs)"
proof (induction h v xs rule: sift_up.induct)
  case (1 v xs)
  then show ?case by (auto simp: is_heap_def heap_but_def children_from_def nth_list_update)
next
  case (2 k v xs)
  let ?p = "k div 2"
  show ?case
  proof (cases "dl (xs ! ?p) > dl v")
    case True
    let ?ys = "xs[Suc k := xs ! ?p]"
    have p: "?p < length xs" "?p \<noteq> Suc k" using 2(2) by auto
    have nb: "dl (xs ! (i div 2)) \<le> dl (xs ! Suc i)" if "Suc i < length xs" "i \<noteq> k" "i div 2 \<noteq> Suc k" for i
      using 2(3) that by (auto simp: heap_but_def)
    have gp: "dl (xs ! ?p) \<le> dl (xs ! Suc i)" if "Suc i < length xs" "i div 2 = Suc k" for i
      using 2(3) that by (auto simp: heap_but_def)
    have "heap_but ?p ?ys"
      unfolding heap_but_def
    proof (intro conjI allI impI)
      fix i assume i: "Suc i < length ?ys" "Suc i \<noteq> ?p" "i div 2 \<noteq> ?p"
      show "dl (?ys ! (i div 2)) \<le> dl (?ys ! Suc i)"
        using i gp [of i] nb [of i] 2(2) by (auto simp: nth_list_update)
    next
      fix q i assume i: "?p = Suc q" "Suc i < length ?ys" "i div 2 = ?p"
      have "dl (xs ! (q div 2)) \<le> dl (xs ! ?p)" using nb [of q] i(1) p by auto
      moreover have "dl (xs ! ?p) \<le> dl (?ys ! Suc i)" using i nb [of i] p 2(2) by (auto simp: nth_list_update)
      moreover have "q div 2 \<noteq> Suc k" using i(1) by auto
      ultimately show "dl (?ys ! (q div 2)) \<le> dl (?ys ! Suc i)" by (auto simp: nth_list_update)
    qed
    moreover have "children_from (dl v) ?p ?ys"
      unfolding children_from_def
    proof (intro allI impI)
      fix i assume "Suc i < length ?ys" "i div 2 = ?p"
      then have "dl (xs ! ?p) \<le> dl (?ys ! Suc i)" using nb [of i] p by (cases "i = k") (auto simp: nth_list_update)
      then show "dl v \<le> dl (?ys ! Suc i)" using True by simp
    qed
    ultimately show ?thesis using 2(1) [OF refl True] True p by (simp add: Let_def)
  next
    case False
    have "is_heap (xs[Suc k := v])"
      unfolding is_heap_def
    proof (intro allI impI)
      fix i assume "Suc i < length (xs[Suc k := v])"
      then show "dl (xs[Suc k := v] ! (i div 2)) \<le> dl (xs[Suc k := v] ! Suc i)"
        using 2(3,4) False
        by (cases "i = k"; cases "i div 2 = Suc k") (auto simp: heap_but_def children_from_def nth_list_update)
    qed
    then show ?thesis using False by (simp add: Let_def)
  qed
qed

lemma update_swap: "h < length xs \<Longrightarrow> p < length xs \<Longrightarrow> p \<noteq> h \<Longrightarrow> mset (xs[h := xs ! p, p := v]) = mset (xs[h := v])"
  using mset_swap [of p "xs[h := v]" h] by simp

lemma sift_up_mset [simp]: "h < length xs \<Longrightarrow> mset (sift_up h v xs) = mset (xs[h := v])"
proof (induction h v xs rule: sift_up.induct)
  case (2 k v xs)
  have "k div 2 < length xs" "k div 2 \<noteq> Suc k" using 2(2) by auto
  then show ?case using 2 by (simp add: Let_def update_swap)
qed simp

lemma heap_but_down:
  assumes "heap_but h xs" "Suc c < length xs" "c div 2 = h"
    and "\<And>i. Suc i < length xs \<Longrightarrow> i div 2 = h \<Longrightarrow> dl (xs ! Suc c) \<le> dl (xs ! Suc i)"
  shows "heap_but (Suc c) (xs[h := xs ! Suc c])"
proof -
  let ?ys = "xs[h := xs ! Suc c]"
  have h: "h < length xs" "h \<noteq> Suc c" using assms(2,3) by auto
  have nb: "dl (xs ! (i div 2)) \<le> dl (xs ! Suc i)" if "Suc i < length xs" "Suc i \<noteq> h" "i div 2 \<noteq> h" for i
    using assms(1) that by (auto simp: heap_but_def)
  show ?thesis
    unfolding heap_but_def
  proof (intro conjI allI impI)
    fix i assume i: "Suc i < length ?ys" "Suc i \<noteq> Suc c" "i div 2 \<noteq> Suc c"
    show "dl (?ys ! (i div 2)) \<le> dl (?ys ! Suc i)"
    proof (cases "Suc i = h")
      case True
      then have "i div 2 \<noteq> h" by auto
      moreover have "dl (xs ! (i div 2)) \<le> dl (xs ! Suc c)" using assms(1-3) True by (auto simp: heap_but_def)
      ultimately show ?thesis using True h by (simp add: nth_list_update)
    next
      case False
      then show ?thesis using i nb [of i] assms(4) [of i] h by (auto simp: nth_list_update)
    qed
  next
    fix k i assume i: "Suc c = Suc k" "Suc i < length ?ys" "i div 2 = Suc c"
    then have "Suc i \<noteq> h" "i div 2 \<noteq> h" using assms(3) h by auto
    then show "dl (?ys ! (k div 2)) \<le> dl (?ys ! Suc i)" using i nb [of i] assms(3) h by (auto simp: nth_list_update)
  qed
qed

lemma two_children: "i div 2 = h \<Longrightarrow> i = 2 * h \<or> i = Suc (2 * h)" for i h :: nat
  by arith

lemma sift_down_heap:
  "hole < length xs \<Longrightarrow> heap_but hole xs \<Longrightarrow> sift_down hole xs = (h, ys) \<Longrightarrow>
   h < length ys \<and> length ys = length xs \<and> heap_but h ys \<and> length ys \<le> 2 * h + 1 \<and> mset (ys[h := v]) = mset (xs[hole := v])"
proof (induction hole xs rule: sift_down.induct)
  case (1 hole xs)
  let ?right = "2 * hole + 2"
  consider (two) "?right < length xs" | (one) "?right = length xs" | (leaf) "?right > length xs" by linarith
  then show ?case
  proof cases
    case two
    define child where "child = (if dl (xs ! ?right) > dl (xs ! (?right - 1)) then ?right - 1 else ?right)"
    define c where "c = child - 1"
    have c: "child = Suc c" "c div 2 = hole" by (auto simp: child_def c_def)
    have lt: "child < length xs" using two by (auto simp: child_def)
    have "dl (xs ! child) \<le> dl (xs ! Suc i)" if "i div 2 = hole" for i
      using two_children [OF that] by (auto simp: child_def)
    then have hb: "heap_but child (xs[hole := xs ! child])" using heap_but_down [OF 1(3), of c] lt c by simp
    have "sift_down child (xs[hole := xs ! child]) = (h, ys)" using 1(4) two by (simp add: sift_down.simps [of hole] child_def Let_def split: if_splits)
    then have "h < length ys \<and> length ys = length xs \<and> heap_but h ys \<and> length ys \<le> 2 * h + 1 \<and>
        mset (ys[h := v]) = mset (xs[hole := xs ! child, child := v])"
      using 1(1) [OF refl two child_def] lt hb by simp
    moreover have "child \<noteq> hole" using c by auto
    ultimately show ?thesis using update_swap [of hole xs child v] 1(2) lt by simp
  next
    case one
    then have r: "h = ?right - 1" "ys = xs[hole := xs ! Suc (2 * hole)]" using 1(4)
      by (auto simp add: sift_down.simps [of hole] Let_def simp flip: one)
    have "dl (xs ! Suc (2 * hole)) \<le> dl (xs ! Suc i)" if "Suc i < length xs" "i div 2 = hole" for i
      using two_children [OF that(2)] that(1) one by auto
    then have "heap_but (Suc (2 * hole)) ys" using heap_but_down [OF 1(3), of "2 * hole"] one r by simp
    then show ?thesis using r one update_swap [of hole xs "Suc (2 * hole)" v] 1(2) by simp
  next
    case leaf
    then show ?thesis using 1(2-4) by (auto simp: sift_down.simps [of hole])
  qed
qed

section \<open>The queue\<close>

text \<open>What the loop relies on, of any vector of timers with a push and a pop.\<close>

locale heap_queue =
  fixes push :: "'u Timer list \<Rightarrow> 'u Timer \<Rightarrow> 'u Timer list"
    and pop :: "'u Timer list \<Rightarrow> 'u Timer list"
    and ordered :: "'u Timer list \<Rightarrow> bool"
  assumes ordered_push: "ordered xs \<Longrightarrow> ordered (push xs t)"
    and push_mset: "mset (push xs t) = add_mset t (mset xs)"
    and ordered_pop: "ordered (t # xs) \<Longrightarrow> ordered (pop (t # xs))"
    and pop_mset: "ordered (t # xs) \<Longrightarrow> mset (pop (t # xs)) = mset xs"
    and front: "ordered (t # xs) \<Longrightarrow> u \<in> set xs \<Longrightarrow> tm_deadline_ms t \<le> tm_deadline_ms u"
begin

text \<open>Taking the front until nothing is due takes the due timers in the order of their deadlines.\<close>

lemma pop_later:
  assumes "ordered (t # xs)" "u \<in> set (pop (t # xs))"
  shows "tm_deadline_ms t \<le> tm_deadline_ms u"
  using assms front pop_mset [OF assms(1)] by (metis set_mset_mset)

lemma none_due:
  assumes "ordered (t # xs)" "now < tm_deadline_ms t"
  shows "{#u \<in># mset (t # xs). P u \<and> tm_deadline_ms u \<le> now#} = {#}"
  using assms front [OF assms(1)] by (fastforce simp: filter_mset_eq_conv)

end

lemma is_heap_but0: "is_heap xs \<Longrightarrow> heap_but 0 xs"
  by (auto simp: is_heap_def heap_but_def)

lemma is_heap_butlast: "is_heap xs \<Longrightarrow> is_heap (butlast xs)"
  by (auto simp: is_heap_def nth_butlast)

lemma push_heap_heap: "is_heap xs \<Longrightarrow> is_heap (push_heap xs t)"
  unfolding push_heap_def
  by (rule sift_up_heap) (auto simp: is_heap_def heap_but_def children_from_def nth_append)

lemma push_heap_mset: "mset (push_heap xs t) = add_mset t (mset xs)"
  by (simp add: push_heap_def)

lemma pop_heap_effect:
  assumes "is_heap (t # xs)"
  shows "is_heap (pop_heap (t # xs))" "mset (pop_heap (t # xs)) = mset xs"
proof -
  have "is_heap (pop_heap (t # xs)) \<and> mset (pop_heap (t # xs)) = mset xs"
  proof (cases xs rule: rev_cases)
    case (snoc ys v)
    obtain h zs where z: "sift_down 0 (t # ys) = (h, zs)" by fastforce
    have b: "heap_but 0 (t # ys)" using is_heap_butlast [OF assms] is_heap_but0 snoc by (simp add: butlast_append)
    have d: "h < length zs \<and> length zs = Suc (length ys) \<and> heap_but h zs \<and> length zs \<le> 2 * h + 1 \<and>
        mset (zs[h := v]) = mset (v # ys)" using sift_down_heap [OF _ b z, of v] by simp
    have "length zs \<le> 2 * h + 1" using d by simp
    then have "\<not> (Suc i < length zs \<and> i div 2 = h)" for i by auto
    then have "children_from (dl v) h zs" by (auto simp: children_from_def)
    then show ?thesis using sift_up_heap [of h zs v] d snoc z by (simp add: pop_heap_def butlast_append)
  qed (simp add: pop_heap_def is_heap_def)
  then show "is_heap (pop_heap (t # xs))" "mset (pop_heap (t # xs)) = mset xs" by blast+
qed

interpretation heap: heap_queue push_heap pop_heap is_heap
proof
  show "is_heap (t # xs) \<Longrightarrow> u \<in> set xs \<Longrightarrow> dl t \<le> dl u" for t u :: "'a Timer" and xs
    using heap_front [of "t # xs"] by (fastforce simp: in_set_conv_nth)
qed (simp_all add: push_heap_heap push_heap_mset pop_heap_effect)

end
