(* ===== verification/Event_Loop.thy ===== *)
theory Event_Loop
  imports Timer_Heap
begin

text \<open>
  The event loop of \<open>src/core/event_loop.h\<close> and \<open>event_loop.cpp\<close>: the registry of file descriptors with its slots and free
  list, the timers and \<open>run_once\<close>. A slot is an object of its own, \<open>sl_obj\<close>, since the kernel hands back the pointer that was
  registered; object 0 is the slot of the wakeup pipe. The clock, the outcome of \<open>epoll_ctl\<close>, what \<open>epoll_wait\<close> returns and
  the handlers are parameters; a handler may change the loop. A loop that does not come to an end is \<open>None\<close>; following a
  pointer to a slot that has been deleted is the outcome \<open>Some None\<close> of \<open>run_once\<close>.

  The theorems say that the registry refines a map from descriptors to interest and handler, and that exactly the due
  timers fire, in the order of their deadlines.
\<close>

section \<open>State\<close>

record 'u FdSlot =
  sl_obj :: nat
  sl_fd :: int
  sl_interest :: u32
  sl_handler :: "'u option"

record 'u Loop =
  lp_wake_rd :: int
  lp_wake_wr :: int
  lp_wake_bytes :: nat
  lp_slots :: "'u FdSlot option list"
  lp_free_slots :: "nat list"
  lp_fd_slot :: "int \<rightharpoonup> nat"
  lp_heap :: "'u Timer list"
  lp_next_timer_id :: u64
  lp_next_obj :: nat

definition kRead :: u32 where "kRead = 1"
definition kWrite :: u32 where "kWrite = 2"
definition kErr :: u32 where "kErr = 4"
definition kHup :: u32 where "kHup = 8"

text \<open>\<open>pipe_fds\<close> are the ends of the wakeup pipe, if it could be opened.\<close>

definition new_loop :: "(int \<times> int) option \<Rightarrow> 'u Loop" where
  "new_loop pipe_fds =
     (let (rd, wr) = (case pipe_fds of Some p \<Rightarrow> p | None \<Rightarrow> (-1, -1)) in
      \<lparr>lp_wake_rd = rd, lp_wake_wr = wr, lp_wake_bytes = 0,
       lp_slots = [Some \<lparr>sl_obj = 0, sl_fd = rd, sl_interest = kRead, sl_handler = None\<rparr>], lp_free_slots = [],
       lp_fd_slot = Map.empty, lp_heap = [], lp_next_timer_id = 1, lp_next_obj = 1\<rparr>)"

section \<open>Descriptors\<close>

definition take_slot :: "'u Loop \<Rightarrow> nat \<times> 'u Loop" where
  "take_slot lp =
     (if lp_free_slots lp \<noteq> [] then (last (lp_free_slots lp), lp\<lparr>lp_free_slots := butlast (lp_free_slots lp)\<rparr>)
      else (length (lp_slots lp), lp\<lparr>lp_slots := lp_slots lp @ [None]\<rparr>))"

definition add_fd :: "bool \<Rightarrow> int \<Rightarrow> u32 \<Rightarrow> 'u option \<Rightarrow> 'u Loop \<Rightarrow> bool \<times> 'u Loop" where
  "add_fd ctl_ok fd interest h lp =
     (if fd < 0 \<or> lp_fd_slot lp fd \<noteq> None then (False, lp)
      else case take_slot lp of (slot, lp1) \<Rightarrow>
        let s = \<lparr>sl_obj = lp_next_obj lp, sl_fd = fd, sl_interest = interest, sl_handler = h\<rparr>;
            lp2 = lp1\<lparr>lp_slots := (lp_slots lp1)[slot := Some s], lp_fd_slot := (lp_fd_slot lp1)(fd \<mapsto> slot),
                      lp_next_obj := lp_next_obj lp + 1\<rparr> in
        if \<not> ctl_ok then (False, lp2\<lparr>lp_slots := (lp_slots lp2)[slot := None], lp_fd_slot := (lp_fd_slot lp2)(fd := None)\<rparr>)
        else (True, lp2))"

definition mod_fd :: "bool \<Rightarrow> int \<Rightarrow> u32 \<Rightarrow> 'u Loop \<Rightarrow> bool \<times> 'u Loop" where
  "mod_fd ctl_ok fd interest lp = (case lp_fd_slot lp fd of
     None \<Rightarrow> (False, lp)
   | Some slot \<Rightarrow> (ctl_ok, lp\<lparr>lp_slots := (lp_slots lp)[slot := map_option (\<lambda>s. s\<lparr>sl_interest := interest\<rparr>) (lp_slots lp ! slot)]\<rparr>))"

definition del_fd :: "int \<Rightarrow> 'u Loop \<Rightarrow> bool \<times> 'u Loop" where
  "del_fd fd lp = (case lp_fd_slot lp fd of
     None \<Rightarrow> (False, lp)
   | Some slot \<Rightarrow> (True, lp\<lparr>lp_slots := (lp_slots lp)[slot := None], lp_fd_slot := (lp_fd_slot lp)(fd := None),
                             lp_free_slots := lp_free_slots lp @ [slot]\<rparr>))"

definition has_fd :: "int \<Rightarrow> 'u Loop \<Rightarrow> bool" where
  "has_fd fd lp \<longleftrightarrow> lp_fd_slot lp fd \<noteq> None"

section \<open>Timers\<close>

definition add_timer :: "u64 \<Rightarrow> u64 \<Rightarrow> 'u \<Rightarrow> bool \<Rightarrow> 'u Loop \<Rightarrow> u64 \<times> 'u Loop" where
  "add_timer now delay_ms h oneshot lp =
     (let t = \<lparr>tm_id = lp_next_timer_id lp, tm_deadline_ms = now + delay_ms, tm_period_ms = delay_ms, tm_handler = h,
               tm_oneshot = oneshot, tm_cancelled = False\<rparr> in
      (tm_id t, lp\<lparr>lp_next_timer_id := lp_next_timer_id lp + 1, lp_heap := push_heap (lp_heap lp) t\<rparr>))"

fun cancel_in :: "u64 \<Rightarrow> 'u Timer list \<Rightarrow> bool \<times> 'u Timer list" where
  "cancel_in timer_id [] = (False, [])"
| "cancel_in timer_id (t # ts) =
     (if tm_id t = timer_id then (True, t\<lparr>tm_cancelled := True\<rparr> # ts)
      else case cancel_in timer_id ts of (found, ts') \<Rightarrow> (found, t # ts'))"

definition cancel_timer :: "u64 \<Rightarrow> 'u Loop \<Rightarrow> bool \<times> 'u Loop" where
  "cancel_timer timer_id lp = (case cancel_in timer_id (lp_heap lp) of (found, hp) \<Rightarrow> (found, lp\<lparr>lp_heap := hp\<rparr>))"

type_synonym ('u, 's) timer_handler = "'u \<Rightarrow> u64 \<Rightarrow> 'u Loop \<times> 's \<Rightarrow> 'u Loop \<times> 's"
type_synonym ('u, 's) fd_handler = "'u \<Rightarrow> u32 \<Rightarrow> 'u Loop \<times> 's \<Rightarrow> 'u Loop \<times> 's"

partial_function (option) fire_loop ::
    "('s \<Rightarrow> u64 \<times> 's) \<Rightarrow> ('u, 's) timer_handler \<Rightarrow> u64 \<Rightarrow> nat \<Rightarrow> 'u Loop \<times> 's \<Rightarrow> (nat \<times> ('u Loop \<times> 's)) option" where
  "fire_loop clock on_timer now handled st =
     (case lp_heap (fst st) of
        [] \<Rightarrow> Some (handled, st)
      | t # _ \<Rightarrow>
          if \<not> tm_deadline_ms t \<le> now then Some (handled, st)
          else let lp1 = (fst st)\<lparr>lp_heap := pop_heap (lp_heap (fst st))\<rparr> in
            if tm_cancelled t then fire_loop clock on_timer now handled (lp1, snd st)
            else let st2 = (if tm_oneshot t then (lp1, snd st)
                            else let (n, s') = clock (snd st) in
                              (lp1\<lparr>lp_heap := push_heap (lp_heap lp1) (t\<lparr>tm_deadline_ms := n + tm_period_ms t\<rparr>)\<rparr>, s'))
              in fire_loop clock on_timer now (handled + 1) (on_timer (tm_handler t) (tm_id t) st2))"

definition fire_due_timers ::
    "('s \<Rightarrow> u64 \<times> 's) \<Rightarrow> ('u, 's) timer_handler \<Rightarrow> 'u Loop \<times> 's \<Rightarrow> (nat \<times> ('u Loop \<times> 's)) option" where
  "fire_due_timers clock on_timer = (\<lambda>(lp, s). case clock s of (now, s') \<Rightarrow> fire_loop clock on_timer now 0 (lp, s'))"

section \<open>One pass\<close>

text \<open>The bits of \<open>epoll\<close>: \<open>EPOLLIN\<close> is 1, \<open>EPOLLOUT\<close> 4, \<open>EPOLLERR\<close> 8 and \<open>EPOLLHUP\<close> 16.\<close>

unbundle bit_operations_syntax

definition to_epoll :: "u32 \<Rightarrow> u32" where
  "to_epoll interest = 24 OR (if interest AND kRead \<noteq> 0 then 1 else 0) OR (if interest AND kWrite \<noteq> 0 then 4 else 0)"

definition from_epoll :: "u32 \<Rightarrow> u32" where
  "from_epoll e = (if e AND 1 \<noteq> 0 then kRead else 0) OR (if e AND 4 \<noteq> 0 then kWrite else 0) OR
     (if e AND 8 \<noteq> 0 then kErr else 0) OR (if e AND 16 \<noteq> 0 then kHup else 0)"

definition drain_wakeup :: "'u Loop \<Rightarrow> 'u Loop" where
  "drain_wakeup lp = lp\<lparr>lp_wake_bytes := 0\<rparr>"

definition slot_of_obj :: "nat \<Rightarrow> 'u Loop \<Rightarrow> 'u FdSlot option" where
  "slot_of_obj obj lp = (case find (\<lambda>x. case x of None \<Rightarrow> False | Some s \<Rightarrow> sl_obj s = obj) (lp_slots lp) of
     Some (Some s) \<Rightarrow> Some s | _ \<Rightarrow> None)"

fun dispatch_events :: "('u, 's) fd_handler \<Rightarrow> (nat \<times> u32) list \<Rightarrow> nat \<Rightarrow> 'u Loop \<times> 's \<Rightarrow> (nat \<times> ('u Loop \<times> 's)) option" where
  "dispatch_events on_fd [] handled st = Some (handled, st)"
| "dispatch_events on_fd ((obj, ev) # evs) handled (lp, s) =
     (if obj = 0 then dispatch_events on_fd evs handled (drain_wakeup lp, s)
      else case slot_of_obj obj lp of
        None \<Rightarrow> None
      | Some x \<Rightarrow> (case sl_handler x of
          None \<Rightarrow> dispatch_events on_fd evs handled (lp, s)
        | Some u \<Rightarrow> dispatch_events on_fd evs (handled + 1) (on_fd u (from_epoll ev) (lp, s))))"

definition int_max :: int where "int_max = 2147483647"

text \<open>How long to wait; \<open>None\<close> when the caller's time is over, \<open>-1\<close> for ever.\<close>

definition poll_wait :: "int \<Rightarrow> int \<Rightarrow> 'u Timer list \<Rightarrow> int option" where
  "poll_wait deadline now hp =
     (if deadline \<ge> 0 \<and> deadline - now \<le> 0 then None
      else let wait = (if deadline < 0 then -1 else min (deadline - now) int_max) in
        Some (case hp of
          [] \<Rightarrow> wait
        | t # _ \<Rightarrow> (let d = max 0 (sint (tm_deadline_ms t) - now) in
            if wait < 0 \<or> d < wait then min d int_max else wait)))"

partial_function (option) run_loop ::
    "('s \<Rightarrow> u64 \<times> 's) \<Rightarrow> ('u, 's) timer_handler \<Rightarrow> ('u, 's) fd_handler \<Rightarrow> (int \<Rightarrow> 'u Loop \<times> 's \<Rightarrow> (nat \<times> u32) list \<times> ('u Loop \<times> 's)) \<Rightarrow>
     int \<Rightarrow> nat \<Rightarrow> 'u Loop \<times> 's \<Rightarrow> (nat \<times> ('u Loop \<times> 's)) option option" where
  "run_loop clock on_timer on_fd epoll deadline handled st =
     (case fire_due_timers clock on_timer st of
        None \<Rightarrow> None
      | Some (k, st1) \<Rightarrow>
          if handled + k > 0 then Some (Some (handled + k, st1))
          else case clock (snd st1) of (now, s2) \<Rightarrow>
            case poll_wait deadline (sint now) (lp_heap (fst st1)) of
              None \<Rightarrow> Some (Some (handled + k, (fst st1, s2)))
            | Some wait \<Rightarrow>
                if wait = 0 then run_loop clock on_timer on_fd epoll deadline (handled + k) (fst st1, s2)
                else case epoll wait (fst st1, s2) of (evs, st3) \<Rightarrow>
                  case dispatch_events on_fd evs (handled + k) st3 of
                    None \<Rightarrow> Some None
                  | Some (n, st4) \<Rightarrow>
                      if evs \<noteq> [] then Some (Some (n, st4)) else run_loop clock on_timer on_fd epoll deadline n st4)"

definition run_once ::
    "('s \<Rightarrow> u64 \<times> 's) \<Rightarrow> ('u, 's) timer_handler \<Rightarrow> ('u, 's) fd_handler \<Rightarrow> (int \<Rightarrow> 'u Loop \<times> 's \<Rightarrow> (nat \<times> u32) list \<times> ('u Loop \<times> 's)) \<Rightarrow>
     int \<Rightarrow> 'u Loop \<times> 's \<Rightarrow> (nat \<times> ('u Loop \<times> 's)) option option" where
  "run_once clock on_timer on_fd epoll timeout_ms = (\<lambda>(lp, s).
     let (deadline, s1) = (if timeout_ms < 0 then (-1, s) else let (now, s') = clock s in (sint now + timeout_ms, s')) in
     run_loop clock on_timer on_fd epoll deadline 0 (lp, s1))"

text \<open>\<open>wrote\<close> is what the \<open>write\<close> of one byte to the pipe returned, \<open>again\<close> whether the pipe was full.\<close>

definition wakeup :: "int \<Rightarrow> bool \<Rightarrow> 'u Loop \<Rightarrow> bool \<times> 'u Loop" where
  "wakeup wrote again lp =
     (if lp_wake_wr lp < 0 then (False, lp)
      else (wrote = 1 \<or> again, if wrote = 1 then lp\<lparr>lp_wake_bytes := lp_wake_bytes lp + 1\<rparr> else lp))"

section \<open>Due timers\<close>

text \<open>What the program sees of a timer that fires: the clock is read again for one that repeats, and its handler runs.\<close>

definition run_timer :: "('s \<Rightarrow> u64 \<times> 's) \<Rightarrow> ('u \<Rightarrow> u64 \<Rightarrow> 's \<Rightarrow> 's) \<Rightarrow> 'u Timer \<Rightarrow> 's \<Rightarrow> 's" where
  "run_timer clock act t s = act (tm_handler t) (tm_id t) (if tm_oneshot t then s else snd (clock s))"

definition due :: "u64 \<Rightarrow> 'u Timer \<Rightarrow> bool" where
  "due now t \<longleftrightarrow> \<not> tm_cancelled t \<and> tm_deadline_ms t \<le> now"

definition stays :: "u64 \<Rightarrow> 'u Timer \<Rightarrow> bool" where
  "stays now t \<longleftrightarrow> now < tm_deadline_ms t \<or> \<not> tm_cancelled t \<and> \<not> tm_oneshot t"

text \<open>The outcome of a pass from the timers \<open>hp\<close>: the timers \<open>ts\<close> fire, and \<open>hp'\<close> is left.\<close>

definition fired :: "u64 \<Rightarrow> 'u Timer list \<Rightarrow> 'u Timer list \<Rightarrow> 'u Timer list \<Rightarrow> bool" where
  "fired now hp ts hp' \<longleftrightarrow>
     sorted (map tm_deadline_ms ts) \<and> mset ts = filter_mset (due now) (mset hp) \<and>
     is_heap hp' \<and> (\<forall>t\<in>set hp'. now < tm_deadline_ms t) \<and>
     image_mset tm_id (mset hp') = image_mset tm_id (filter_mset (stays now) (mset hp))"

lemma fired_none:
  assumes "is_heap hp" "hp = [] \<or> now < tm_deadline_ms (hd hp)"
  shows "fired now hp [] hp"
proof -
  have later: "\<forall>t\<in>set hp. now < tm_deadline_ms t"
  proof (cases hp)
    case (Cons t xs)
    then have "now < tm_deadline_ms t" using assms(2) by simp
    then show ?thesis using heap.front [of t xs] assms(1) Cons by (auto intro: less_le_trans)
  qed simp
  then have "filter (due now) hp = []" "filter (stays now) hp = hp"
    by (auto simp: filter_empty_conv filter_id_conv due_def stays_def)
  then show ?thesis using assms(1) later by (simp add: fired_def flip: mset_filter)
qed

lemma fired_step:
  assumes h: "is_heap (t # xs)" and d: "tm_deadline_ms t \<le> now"
    and q: "mset q = mset (pop_heap (t # xs)) + mset back'" and f: "fired now q ts hp'"
    and r: "if tm_cancelled t \<or> tm_oneshot t then back' = []
            else \<exists>t'. back' = [t'] \<and> now < tm_deadline_ms t' \<and> tm_id t' = tm_id t"
  shows "fired now (t # xs) (if tm_cancelled t then ts else t # ts) hp'"
proof -
  have pm: "mset (pop_heap (t # xs)) = mset xs" using heap.pop_mset [OF h] .
  have b: "filter_mset (due now) (mset back') = {#}" using r by (auto simp: due_def split: if_splits)
  have "image_mset tm_id (filter_mset (stays now) (mset q)) = image_mset tm_id (filter_mset (stays now) (mset (t # xs)))"
    using r d by (auto simp: q pm stays_def split: if_splits)
  moreover have ts: "mset ts = filter_mset (due now) (mset xs)" using f by (simp add: fired_def q pm b)
  moreover have "sorted (map tm_deadline_ms (t # ts))"
    using f heap.front [OF h] mset_eq_setD [of ts "filter (due now) xs"] ts by (auto simp: fired_def)
  ultimately show ?thesis using f d by (auto simp: fired_def due_def)
qed

definition late :: "u64 \<Rightarrow> 'u Timer list \<Rightarrow> nat" where
  "late now hp = size {#t \<in># mset hp. tm_deadline_ms t \<le> now#}"

lemma fire_loop_fires:
  fixes lp :: "'u Loop" and clock :: "'s \<Rightarrow> u64 \<times> 's"
  assumes pure: "\<And>u i l x. on_timer u i (l, x) = (l, act u i x)"
    and "is_heap (lp_heap lp)"
    and "\<And>t x. t \<in> set (lp_heap lp) \<Longrightarrow> \<not> tm_oneshot t \<Longrightarrow> now < fst (clock x) + tm_period_ms t"
  shows "\<exists>ts hp. fire_loop clock on_timer now k (lp, s) =
      Some (k + length ts, (lp\<lparr>lp_heap := hp\<rparr>, fold (run_timer clock act) ts s)) \<and> fired now (lp_heap lp) ts hp"
  using assms(2,3)
proof (induction "late now (lp_heap lp)" arbitrary: lp k s rule: less_induct)
  case less
  show ?case
  proof (cases "lp_heap lp = [] \<or> now < tm_deadline_ms (hd (lp_heap lp))")
    case True
    then have "fire_loop clock on_timer now k (lp, s) = Some (k, (lp, s))"
      by (cases "lp_heap lp") (auto simp add: fire_loop.simps)
    then show ?thesis using fired_none [OF less.prems(1) True] by (intro exI [of _ "[]"] exI [of _ "lp_heap lp"]) simp
  next
    case False
    then obtain t xs where hp: "lp_heap lp = t # xs" and d: "tm_deadline_ms t \<le> now" by (cases "lp_heap lp") auto
    have h: "is_heap (t # xs)" using less.prems(1) hp by simp
    have pm: "mset (pop_heap (t # xs)) = mset xs" using heap.pop_mset [OF h] .
    define again where "again = (if tm_cancelled t \<or> tm_oneshot t then []
      else [t\<lparr>tm_deadline_ms := fst (clock s) + tm_period_ms t\<rparr>])"
    define q where "q = fold (\<lambda>u hp. push_heap hp u) again (pop_heap (t # xs))"
    have q: "mset q = mset (pop_heap (t # xs)) + mset again" "is_heap q"
      using heap.ordered_pop [OF h] by (auto simp: q_def again_def heap.push_mset heap.ordered_push)
    have r: "if tm_cancelled t \<or> tm_oneshot t then again = []
        else \<exists>t'. again = [t'] \<and> now < tm_deadline_ms t' \<and> tm_id t' = tm_id t"
      using less.prems(2) [of t s] hp by (auto simp: again_def)
    have l: "late now q < late now (lp_heap lp)"
      using r d by (auto simp: late_def q(1) pm hp split: if_splits)
    have "u \<in> set q \<Longrightarrow> u \<in> set xs \<or> (\<exists>t'. u = t\<lparr>tm_deadline_ms := t'\<rparr>)" for u
      using mset_eq_setD [of q "pop_heap (t # xs) @ again"] mset_eq_setD [OF pm] q(1) by (auto simp: again_def split: if_splits)
    then have p: "u \<in> set q \<Longrightarrow> \<not> tm_oneshot u \<Longrightarrow> now < fst (clock x) + tm_period_ms u" for u x
      using less.prems(2) [of u x] less.prems(2) [of t x] hp by fastforce
    define k' s' where "k' = (if tm_cancelled t then k else k + 1)"
      and "s' = (if tm_cancelled t then s else run_timer clock act t s)"
    have step: "fire_loop clock on_timer now k (lp, s) = fire_loop clock on_timer now k' (lp\<lparr>lp_heap := q\<rparr>, s')"
      using d by (subst fire_loop.simps)
        (simp add: hp pure k'_def s'_def q_def again_def run_timer_def case_prod_beta Let_def)
    from less.hyps [of "lp\<lparr>lp_heap := q\<rparr>" k' s'] l q(2) p obtain ts hp' where ts:
      "fire_loop clock on_timer now k' (lp\<lparr>lp_heap := q\<rparr>, s') =
         Some (k' + length ts, (lp\<lparr>lp_heap := hp'\<rparr>, fold (run_timer clock act) ts s'))" "fired now q ts hp'" by auto
    show ?thesis
      using step ts(1) fired_step [OF h d q(1) ts(2) r]
      by (intro exI [of _ "if tm_cancelled t then ts else t # ts"] exI [of _ hp']) (simp add: k'_def s'_def hp)
  qed
qed

section \<open>Histories\<close>

datatype 'u loop_op = op_add bool int u32 "'u option" | op_mod bool int u32 | op_del int
  | op_timer u64 u64 'u bool | op_cancel u64

fun loop_step :: "'u loop_op \<Rightarrow> 'u Loop \<Rightarrow> bool \<times> 'u Loop" where
  "loop_step (op_add ctl_ok fd i h) lp = add_fd ctl_ok fd i h lp"
| "loop_step (op_mod ctl_ok fd i) lp = mod_fd ctl_ok fd i lp"
| "loop_step (op_del fd) lp = del_fd fd lp"
| "loop_step (op_timer now delay h oneshot) lp = (True, snd (add_timer now delay h oneshot lp))"
| "loop_step (op_cancel i) lp = cancel_timer i lp"

fun run_loop_ops :: "'u loop_op list \<Rightarrow> 'u Loop \<Rightarrow> bool list \<times> 'u Loop" where
  "run_loop_ops [] lp = ([], lp)"
| "run_loop_ops (x # xs) lp = (case loop_step x lp of (b, lp') \<Rightarrow> case run_loop_ops xs lp' of (bs, lp'') \<Rightarrow> (b # bs, lp''))"

lemma cancel_in_deadlines: "map tm_deadline_ms (snd (cancel_in i ts)) = map tm_deadline_ms ts"
  by (induction i ts rule: cancel_in.induct) (auto split: prod.splits)

lemma is_heap_deadlines:
  assumes "map tm_deadline_ms xs = map tm_deadline_ms ys"
  shows "is_heap xs \<longleftrightarrow> is_heap ys"
proof -
  have "length xs = length ys" using assms map_eq_imp_length_eq by blast
  moreover have "dl (xs ! i) = dl (ys ! i)" if "i < length xs" for i
    using assms that calculation by (metis nth_map)
  ultimately show ?thesis by (auto simp: is_heap_def)
qed

lemma loop_step_heap: "is_heap (lp_heap lp) \<Longrightarrow> is_heap (lp_heap (snd (loop_step x lp)))"
proof (cases x)
  case (op_cancel i)
  assume "is_heap (lp_heap lp)"
  then show ?thesis
    using is_heap_deadlines [OF cancel_in_deadlines [of i "lp_heap lp"]] op_cancel
    by (simp add: cancel_timer_def case_prod_beta)
qed (auto simp: add_fd_def take_slot_def mod_fd_def del_fd_def add_timer_def Let_def heap.ordered_push split: option.splits)

lemma run_loop_ops_heap: "is_heap (lp_heap lp) \<Longrightarrow> is_heap (lp_heap (snd (run_loop_ops xs lp)))"
proof (induction xs lp rule: run_loop_ops.induct)
  case (2 x xs lp)
  then show ?case using loop_step_heap [of lp x] by (auto split: prod.splits)
qed simp

lemma new_loop_heap: "is_heap (lp_heap (new_loop p))"
  by (simp add: new_loop_def is_heap_def case_prod_beta Let_def)



section \<open>The registry is a map\<close>

definition watched :: "'u Loop \<Rightarrow> int \<rightharpoonup> u32 \<times> 'u option" where
  "watched lp fd = (case lp_fd_slot lp fd of
     None \<Rightarrow> None | Some slot \<Rightarrow> map_option (\<lambda>s. (sl_interest s, sl_handler s)) (lp_slots lp ! slot))"

fun watch_step :: "'u loop_op \<Rightarrow> (int \<rightharpoonup> u32 \<times> 'u option) \<Rightarrow> int \<rightharpoonup> u32 \<times> 'u option" where
  "watch_step (op_add ctl_ok fd i h) m = (if fd \<ge> 0 \<and> m fd = None \<and> ctl_ok then m(fd \<mapsto> (i, h)) else m)"
| "watch_step (op_mod ctl_ok fd i) m = (case m fd of None \<Rightarrow> m | Some (_, h) \<Rightarrow> m(fd \<mapsto> (i, h)))"
| "watch_step (op_del fd) m = m(fd := None)"
| "watch_step _ m = m"

fun watch_result :: "'u loop_op \<Rightarrow> (int \<rightharpoonup> u32 \<times> 'u option) \<Rightarrow> bool option" where
  "watch_result (op_add ctl_ok fd i h) m = Some (fd \<ge> 0 \<and> m fd = None \<and> ctl_ok)"
| "watch_result (op_mod ctl_ok fd i) m = Some (m fd \<noteq> None \<and> ctl_ok)"
| "watch_result (op_del fd) m = Some (m fd \<noteq> None)"
| "watch_result _ m = None"

text \<open>Every registered descriptor has a slot of its own behind the one of the wakeup pipe; free slots are empty.\<close>

definition slots_ok :: "'u Loop \<Rightarrow> bool" where
  "slots_ok lp \<longleftrightarrow>
     (\<forall>fd slot. lp_fd_slot lp fd = Some slot \<longrightarrow>
        0 < slot \<and> slot < length (lp_slots lp) \<and> (\<exists>s. lp_slots lp ! slot = Some s \<and> sl_fd s = fd)) \<and>
     distinct (lp_free_slots lp) \<and>
     (\<forall>slot\<in>set (lp_free_slots lp). 0 < slot \<and> slot < length (lp_slots lp) \<and> lp_slots lp ! slot = None) \<and>
     lp_slots lp \<noteq> [] \<and> lp_slots lp ! 0 \<noteq> None"

lemma slots_okD:
  assumes "slots_ok lp" "lp_fd_slot lp fd = Some slot"
  shows "0 < slot" "slot < length (lp_slots lp)" "\<exists>s. lp_slots lp ! slot = Some s \<and> sl_fd s = fd"
  using assms by (auto simp: slots_ok_def)

lemma free_slotD:
  assumes "slots_ok lp" "slot \<in> set (lp_free_slots lp)"
  shows "0 < slot" "slot < length (lp_slots lp)" "lp_slots lp ! slot = None"
  using assms by (auto simp: slots_ok_def)

lemma slots_okI:
  assumes "slots_ok lp" "length (lp_slots lp) \<le> length (lp_slots lp')" "lp_slots lp' ! 0 = lp_slots lp ! 0"
    "\<And>fd slot. lp_fd_slot lp' fd = Some slot \<Longrightarrow>
       0 < slot \<and> slot < length (lp_slots lp') \<and> (\<exists>s. lp_slots lp' ! slot = Some s \<and> sl_fd s = fd)"
    "distinct (lp_free_slots lp')"
    "\<And>slot. slot \<in> set (lp_free_slots lp') \<Longrightarrow> 0 < slot \<and> slot < length (lp_slots lp') \<and> lp_slots lp' ! slot = None"
  shows "slots_ok lp'"
  using assms by (auto simp: slots_ok_def)

lemma slot_unique: "slots_ok lp \<Longrightarrow> lp_fd_slot lp fd = Some slot \<Longrightarrow> lp_fd_slot lp fd' = Some slot \<Longrightarrow> fd = fd'"
  by (metis option.inject slots_okD(3))

lemma watched_None: "slots_ok lp \<Longrightarrow> watched lp fd = None \<longleftrightarrow> lp_fd_slot lp fd = None"
  by (auto simp: watched_def dest: slots_okD split: option.splits)

lemma take_slot_ok:
  assumes "slots_ok lp" "take_slot lp = (slot, lp1)"
  shows "slots_ok lp1" "0 < slot" "slot < length (lp_slots lp1)" "lp_slots lp1 ! slot = None" "slot \<notin> set (lp_free_slots lp1)"
    "lp_fd_slot lp1 = lp_fd_slot lp" "watched lp1 = watched lp" "lp_fd_slot lp fd \<noteq> Some slot"
proof -
  have "slot \<ge> length (lp_slots lp) \<or> lp_slots lp ! slot = None"
    using assms last_in_set [of "lp_free_slots lp"] by (auto simp: take_slot_def slots_ok_def split: if_splits)
  then show "lp_fd_slot lp fd \<noteq> Some slot" using slots_okD(2,3) [OF assms(1), of fd slot] by auto
  show "slots_ok lp1"
  proof (rule slots_okI [OF assms(1)])
    show "0 < slot' \<and> slot' < length (lp_slots lp1) \<and> (\<exists>s. lp_slots lp1 ! slot' = Some s \<and> sl_fd s = fd')"
      if "lp_fd_slot lp1 fd' = Some slot'" for fd' slot'
      using assms(2) that slots_okD [OF assms(1), of fd' slot'] by (auto simp: take_slot_def nth_append split: if_splits)
    show "0 < slot' \<and> slot' < length (lp_slots lp1) \<and> lp_slots lp1 ! slot' = None" if "slot' \<in> set (lp_free_slots lp1)" for slot'
    proof -
      have "slot' \<in> set (lp_free_slots lp)" using that assms(2) by (auto simp: take_slot_def dest: in_set_butlastD split: if_splits)
      then show ?thesis using free_slotD [OF assms(1)] assms(2) by (auto simp: take_slot_def split: if_splits)
    qed
  qed (use assms in \<open>auto simp: take_slot_def slots_ok_def distinct_butlast nth_append split: if_splits\<close>)
  show "0 < slot" "slot < length (lp_slots lp1)" "lp_slots lp1 ! slot = None"
    using assms(2) free_slotD [OF assms(1), of slot] last_in_set [of "lp_free_slots lp"] assms(1)
    by (auto simp: take_slot_def slots_ok_def split: if_splits)
  have "distinct (lp_free_slots lp)" using assms(1) by (simp add: slots_ok_def)
  then show "slot \<notin> set (lp_free_slots lp1)"
    using assms(2) by (cases "lp_free_slots lp" rule: rev_cases) (auto simp: take_slot_def)
  show "lp_fd_slot lp1 = lp_fd_slot lp" using assms(2) by (auto simp: take_slot_def split: if_splits)
  show "watched lp1 = watched lp"
    using assms by (auto simp: take_slot_def watched_def fun_eq_iff nth_append slots_ok_def split: if_splits option.splits)
qed

lemma fill_slot_ok:
  assumes "slots_ok lp" "0 < slot" "slot < length (lp_slots lp)" "slot \<notin> set (lp_free_slots lp)"
    "\<And>fd. lp_fd_slot lp fd \<noteq> Some slot" "lp_fd_slot lp (sl_fd x) = None"
  shows "slots_ok (lp\<lparr>lp_slots := (lp_slots lp)[slot := Some x], lp_fd_slot := (lp_fd_slot lp)(sl_fd x \<mapsto> slot), lp_next_obj := n\<rparr>)"
    and "watched (lp\<lparr>lp_slots := (lp_slots lp)[slot := Some x], lp_fd_slot := (lp_fd_slot lp)(sl_fd x \<mapsto> slot), lp_next_obj := n\<rparr>) =
      (watched lp)(sl_fd x \<mapsto> (sl_interest x, sl_handler x))"
proof -
  show "slots_ok (lp\<lparr>lp_slots := (lp_slots lp)[slot := Some x], lp_fd_slot := (lp_fd_slot lp)(sl_fd x \<mapsto> slot), lp_next_obj := n\<rparr>)"
    using assms by (auto simp: slots_ok_def nth_list_update)
  show "watched (lp\<lparr>lp_slots := (lp_slots lp)[slot := Some x], lp_fd_slot := (lp_fd_slot lp)(sl_fd x \<mapsto> slot), lp_next_obj := n\<rparr>) =
      (watched lp)(sl_fd x \<mapsto> (sl_interest x, sl_handler x))"
    using assms(3,5) by (auto simp: watched_def fun_eq_iff nth_list_update split: option.splits)
qed

lemma add_fd_ok:
  assumes "slots_ok lp" "add_fd ctl_ok fd i h lp = (b, lp')"
  shows "slots_ok lp' \<and> watched lp' = watch_step (op_add ctl_ok fd i h) (watched lp) \<and>
    Some b = watch_result (op_add ctl_ok fd i h) (watched lp)"
proof (cases "fd < 0 \<or> lp_fd_slot lp fd \<noteq> None")
  case True
  then show ?thesis using assms watched_None [OF assms(1), of fd] by (auto simp: add_fd_def)
next
  case False
  obtain slot lp1 where t: "take_slot lp = (slot, lp1)" by fastforce
  note k = take_slot_ok [OF assms(1) t]
  define x where "x = \<lparr>sl_obj = lp_next_obj lp, sl_fd = fd, sl_interest = i, sl_handler = h\<rparr>"
  have f: "fd \<ge> 0 \<and> watched lp fd = None" using False watched_None [OF assms(1), of fd] by auto
  have fd: "sl_fd x = fd" "lp_fd_slot lp1 fd = None" using False k(6) by (auto simp: x_def)
  note fill = fill_slot_ok [OF k(1,2,3,5), of x, unfolded fd(1), OF _ fd(2), where n = "lp_next_obj lp + 1"]
  have same: "(lp_slots lp1)[slot := None] = lp_slots lp1" using k(4) by (metis list_update_id)
  show ?thesis
  proof (cases ctl_ok)
    case True
    then have "b" "lp' = lp1\<lparr>lp_slots := (lp_slots lp1)[slot := Some x], lp_fd_slot := (lp_fd_slot lp1)(fd \<mapsto> slot), lp_next_obj := lp_next_obj lp + 1\<rparr>"
      using assms(2) False t by (simp_all add: add_fd_def Let_def x_def)
    then show ?thesis using fill k(6,7,8) f True by (simp add: x_def)
  next
    case nok: False
    have "(lp_fd_slot lp1)(fd := None) = lp_fd_slot lp1" using fd(2) by auto
    then have r: "\<not> b" "lp_slots lp' = lp_slots lp1" "lp_fd_slot lp' = lp_fd_slot lp1" "lp_free_slots lp' = lp_free_slots lp1"
      using assms(2) False t same nok by (auto simp add: add_fd_def Let_def)
    then have "slots_ok lp'" "watched lp' = watched lp1" using k(1) by (auto simp: slots_ok_def watched_def fun_eq_iff split: option.splits)
    then show ?thesis using r(1) nok k(7) by simp
  qed
qed

lemma mod_fd_ok:
  assumes "slots_ok lp" "mod_fd ctl_ok fd i lp = (b, lp')"
  shows "slots_ok lp' \<and> watched lp' = watch_step (op_mod ctl_ok fd i) (watched lp) \<and>
    Some b = watch_result (op_mod ctl_ok fd i) (watched lp)"
proof (cases "lp_fd_slot lp fd")
  case None
  then show ?thesis using assms watched_None [OF assms(1), of fd] by (simp add: mod_fd_def)
next
  case (Some slot)
  note d = slots_okD [OF assms(1) Some]
  then obtain s where s: "lp_slots lp ! slot = Some s" "sl_fd s = fd" by blast
  have lp': "lp' = lp\<lparr>lp_slots := (lp_slots lp)[slot := Some (s\<lparr>sl_interest := i\<rparr>)]\<rparr>" "b = ctl_ok"
    using assms(2) Some s(1) by (simp_all add: mod_fd_def)
  have u: "lp_fd_slot lp fd' = Some slot \<Longrightarrow> fd' = fd" for fd' using slot_unique [OF assms(1) Some] by blast
  have "slots_ok lp'"
  proof (rule slots_okI [OF assms(1)])
    show "0 < slot' \<and> slot' < length (lp_slots lp') \<and> (\<exists>s. lp_slots lp' ! slot' = Some s \<and> sl_fd s = fd')"
      if "lp_fd_slot lp' fd' = Some slot'" for fd' slot'
      using that slots_okD [OF assms(1), of fd' slot'] u [of fd'] s d(2) by (auto simp: lp' nth_list_update)
    show "0 < slot' \<and> slot' < length (lp_slots lp') \<and> lp_slots lp' ! slot' = None" if "slot' \<in> set (lp_free_slots lp')" for slot'
      using that free_slotD [OF assms(1), of slot'] s by (cases "slot' = slot") (auto simp: lp')
  qed (use assms(1) d(1) in \<open>simp_all add: lp' slots_ok_def\<close>)
  moreover have "watched lp' = (watched lp)(fd \<mapsto> (i, sl_handler s))"
  proof
    show "watched lp' fd' = ((watched lp)(fd \<mapsto> (i, sl_handler s))) fd'" for fd'
      using Some d(2) u [of fd'] by (cases "lp_fd_slot lp fd'") (auto simp: lp' watched_def nth_list_update)
  qed
  moreover have "watched lp fd = Some (sl_interest s, sl_handler s)" using Some s by (simp add: watched_def)
  ultimately show ?thesis using lp'(2) by simp
qed

lemma del_fd_ok:
  assumes "slots_ok lp" "del_fd fd lp = (b, lp')"
  shows "slots_ok lp' \<and> watched lp' = watch_step (op_del fd) (watched lp) \<and> Some b = watch_result (op_del fd) (watched lp)"
proof (cases "lp_fd_slot lp fd")
  case None
  then show ?thesis using assms watched_None [OF assms(1), of fd] by (auto simp: del_fd_def)
next
  case (Some slot)
  note d = slots_okD [OF assms(1) Some]
  have lp': "lp' = lp\<lparr>lp_slots := (lp_slots lp)[slot := None], lp_fd_slot := (lp_fd_slot lp)(fd := None), lp_free_slots := lp_free_slots lp @ [slot]\<rparr>" "b"
    using assms(2) Some by (auto simp: del_fd_def)
  have u: "lp_fd_slot lp fd' = Some slot \<Longrightarrow> fd' = fd" for fd' using slot_unique [OF assms(1) Some] by blast
  have "slots_ok lp'" using assms(1) d u by (auto simp: lp' slots_ok_def nth_list_update)
  moreover have "watched lp' = (watched lp)(fd := None)"
    using d(2) u by (auto simp: lp' watched_def fun_eq_iff nth_list_update split: option.splits)
  ultimately show ?thesis using lp'(2) watched_None [OF assms(1), of fd] Some by simp
qed

lemma timers_keep_slots:
  "slots_ok (snd (add_timer now d h os lp)) = slots_ok lp" "watched (snd (add_timer now d h os lp)) = watched lp"
  "slots_ok (snd (cancel_timer i lp)) = slots_ok lp" "watched (snd (cancel_timer i lp)) = watched lp"
  by (auto simp: add_timer_def cancel_timer_def slots_ok_def watched_def fun_eq_iff Let_def split: prod.splits option.splits)

lemma loop_step_ok:
  assumes "slots_ok lp" "loop_step x lp = (b, lp')"
  shows "slots_ok lp' \<and> watched lp' = watch_step x (watched lp) \<and> (case watch_result x (watched lp) of None \<Rightarrow> True | Some r \<Rightarrow> b = r)"
proof (cases x)
  case (op_add c fd i h)
  then show ?thesis using add_fd_ok [OF assms(1), of c fd i h b lp'] assms(2) by simp
next
  case (op_mod c fd i)
  then show ?thesis using mod_fd_ok [OF assms(1), of c fd i b lp'] assms(2) by simp
next
  case (op_del fd)
  then show ?thesis using del_fd_ok [OF assms(1), of fd b lp'] assms(2) by simp
next
  case (op_timer now d h os)
  then show ?thesis using assms timers_keep_slots(1,2) [of now d h os lp] by auto
next
  case (op_cancel i)
  then show ?thesis using assms timers_keep_slots(3,4) [of i lp] by auto
qed

text \<open>
  Over any sequence of operations the registry is a map from descriptors to their interest and handler: an operation
  on descriptors changes this map, and answers, as if there were no slots; no two descriptors share a slot and none has
  the slot of the wakeup pipe.
\<close>

lemma run_loop_ops_ok:
  "slots_ok lp \<Longrightarrow> run_loop_ops xs lp = (bs, lp') \<Longrightarrow> slots_ok lp' \<and> watched lp' = fold watch_step xs (watched lp)"
proof (induction xs lp arbitrary: bs rule: run_loop_ops.induct)
  case (2 x xs lp)
  obtain b lp1 where x: "loop_step x lp = (b, lp1)" by fastforce
  obtain bs' where xs: "run_loop_ops xs lp1 = (bs', lp')" using 2(3) x by (auto split: prod.splits)
  show ?case using 2(1) [OF x [symmetric] _ xs] loop_step_ok [OF 2(2) x] by simp
qed simp

lemma new_loop_ok: "slots_ok (new_loop p)" "watched (new_loop p) = Map.empty"
  by (auto simp: new_loop_def slots_ok_def watched_def fun_eq_iff case_prod_beta Let_def)

theorem registry_refines:
  assumes "run_loop_ops xs (new_loop p) = (bs, lp)"
  shows "slots_ok lp" "watched lp = fold watch_step xs Map.empty"
    and "loop_step x lp = (b, lp') \<Longrightarrow> watched lp' = watch_step x (watched lp)"
    and "loop_step x lp = (b, lp') \<Longrightarrow> watch_result x (watched lp) = Some r \<Longrightarrow> b = r"
proof -
  show ok: "slots_ok lp" and "watched lp = fold watch_step xs Map.empty"
    using run_loop_ops_ok [OF new_loop_ok(1) assms, unfolded new_loop_ok(2)] by simp_all
  show "watched lp' = watch_step x (watched lp)" if "loop_step x lp = (b, lp')" using loop_step_ok [OF ok that] by simp
  show "b = r" if "loop_step x lp = (b, lp')" "watch_result x (watched lp) = Some r"
    using loop_step_ok [OF ok that(1)] that(2) by simp
qed

section \<open>Waiting\<close>

text \<open>The wait never outlasts the caller's time or the next timer, and is without limit only when there is neither.\<close>

theorem poll_wait_bounded:
  assumes "poll_wait deadline now hp = Some wait"
  shows "(0 \<le> deadline \<longrightarrow> 0 \<le> wait \<and> wait \<le> deadline - now) \<and>
    (hp \<noteq> [] \<longrightarrow> 0 \<le> wait \<and> wait \<le> max 0 (sint (tm_deadline_ms (hd hp)) - now)) \<and>
    (wait < 0 \<longrightarrow> deadline < 0 \<and> hp = [])"
  using assms by (cases hp) (auto simp: poll_wait_def int_max_def Let_def split: if_splits)

section \<open>Where the loop misbehaves\<close>

text \<open>A descriptor the kernel refuses uses up a slot: it is neither registered nor free again.\<close>

lemma refused_slot_lost:
  assumes "0 \<le> fd" "lp_fd_slot lp fd = None" "lp_free_slots lp = []"
  shows "add_fd False fd i h lp = (False, lp') \<Longrightarrow> length (lp_slots lp') = length (lp_slots lp) + 1 \<and> lp_free_slots lp' = []"
  using assms by (auto simp: add_fd_def take_slot_def Let_def)

text \<open>
  A handler that removes another descriptor which is ready in the same pass leaves a dangling pointer behind: the pass
  goes on with the slot that has been deleted.
\<close>

definition drop_other :: "(int, unit) fd_handler" where
  "drop_other other ev = (\<lambda>(lp, s). (snd (del_fd other lp), s))"

lemma deleted_slot_followed:
  "dispatch_events drop_other [(1, 1), (2, 1)] 0
     (snd (run_loop_ops [op_add True 7 kRead (Some 8), op_add True 8 kRead (Some 7)] (new_loop None)), ()) = None"
  by (simp add: add_fd_def take_slot_def new_loop_def slot_of_obj_def drop_other_def del_fd_def Let_def)

text \<open>
  Without \<open>epoll\<close> the loop polls the descriptors of the non-empty slots but reads the answers by the number of the slot: after
  a removal the two no longer agree, and an event of the last descriptor goes to an empty slot.
\<close>

definition poll_fds :: "'u Loop \<Rightarrow> int list" where
  "poll_fds lp = concat (map (\<lambda>x. case x of None \<Rightarrow> [] | Some s \<Rightarrow> [sl_fd s]) (lp_slots lp))"

definition poll_target :: "nat \<Rightarrow> 'u Loop \<Rightarrow> 'u FdSlot option" where
  "poll_target i lp = lp_slots lp ! i"

lemma poll_answers_shifted:
  "let lp = snd (run_loop_ops [op_add True 7 kRead (Some a), op_add True 8 kRead (Some b), op_del 7] (new_loop None)) in
   poll_fds lp ! 1 = 8 \<and> poll_target 1 lp = None"
  by (simp add: add_fd_def take_slot_def new_loop_def del_fd_def poll_fds_def poll_target_def Let_def)

end
