(* ===== verification/Counters.thy ===== *)
theory Counters
  imports Prelude
begin

text \<open>
  The counters of \<open>src/core/metrics.h\<close>, \<open>metrics.cpp\<close> and of \<open>src/net/meter.h\<close>, \<open>meter.cpp\<close>. The operations on \<open>double\<close> are the
  fields of a record. A counter value is the 64 bits of its \<open>int64_t\<close>; an overflow, undefined in C++, wraps here.

  The theorems say that over any sequence of operations a metric is what was recorded under its name, as far as
  the table of 64 names reaches; that a percentile is the edge of the first bucket that covers its share; and that the
  round-trip samples are the last 1024.
\<close>

section \<open>Metrics\<close>

datatype MKind = k_counter | k_gauge | k_histogram

record 'd fp_ops =
  f_add :: "'d \<Rightarrow> 'd \<Rightarrow> 'd"
  f_mul :: "'d \<Rightarrow> 'd \<Rightarrow> 'd"
  f_div :: "'d \<Rightarrow> 'd \<Rightarrow> 'd"
  f_le :: "'d \<Rightarrow> 'd \<Rightarrow> bool"
  f_less :: "'d \<Rightarrow> 'd \<Rightarrow> bool"
  f_log2 :: "'d \<Rightarrow> 'd"
  f_ceil :: "'d \<Rightarrow> 'd"
  f_to_u64 :: "'d \<Rightarrow> u64"
  f_of_u64 :: "u64 \<Rightarrow> 'd"
  f_of_i64 :: "int \<Rightarrow> 'd"
  f_pow2 :: "nat \<Rightarrow> 'd"
  f_micro :: 'd
  f_million :: 'd

definition kBuckets :: nat where "kBuckets = 64"
definition max_metrics :: nat where "max_metrics = 64"

record 'd MEntry =
  me_name :: string
  me_kind :: MKind
  me_value :: u64
  me_hcount :: "u64 list"
  me_hsamples :: u64
  me_hsum :: 'd

type_synonym 'd Metrics = "'d MEntry list"

fun find_metric :: "string \<Rightarrow> 'd Metrics \<Rightarrow> 'd MEntry option" where
  "find_metric name [] = None"
| "find_metric name (e # es) = (if me_name e = name then Some e else find_metric name es)"

definition new_metric :: "'d fp_ops \<Rightarrow> string \<Rightarrow> MKind \<Rightarrow> 'd MEntry" where
  "new_metric F name kind = \<lparr>me_name = name, me_kind = kind, me_value = 0, me_hcount = replicate kBuckets 0, me_hsamples = 0,
     me_hsum = f_of_i64 F 0\<rparr>"

text \<open>\<open>ensure\<close> returns a pointer into the table or nothing; here the change to be made through that pointer is its argument.\<close>

fun ensure :: "'d fp_ops \<Rightarrow> nat \<Rightarrow> string \<Rightarrow> MKind \<Rightarrow> ('d MEntry \<Rightarrow> 'd MEntry) \<Rightarrow> 'd Metrics \<Rightarrow> 'd Metrics" where
  "ensure F room name kind f [] = (if room = 0 then [] else [f (new_metric F name kind)])"
| "ensure F room name kind f (e # es) =
     (if me_name e = name then (if me_kind e = kind then f e # es else e # es)
      else e # ensure F (room - 1) name kind f es)"

definition inc :: "'d fp_ops \<Rightarrow> string \<Rightarrow> u64 \<Rightarrow> 'd Metrics \<Rightarrow> 'd Metrics" where
  "inc F name amount = ensure F max_metrics name k_counter (\<lambda>e. e\<lparr>me_value := me_value e + amount\<rparr>)"

definition dec :: "'d fp_ops \<Rightarrow> string \<Rightarrow> u64 \<Rightarrow> 'd Metrics \<Rightarrow> 'd Metrics" where
  "dec F name amount = ensure F max_metrics name k_counter (\<lambda>e. e\<lparr>me_value := me_value e - amount\<rparr>)"

definition set_gauge :: "'d fp_ops \<Rightarrow> string \<Rightarrow> u64 \<Rightarrow> 'd Metrics \<Rightarrow> 'd Metrics" where
  "set_gauge F name v = ensure F max_metrics name k_gauge (\<lambda>e. e\<lparr>me_value := v\<rparr>)"

definition bucket_for :: "'d fp_ops \<Rightarrow> 'd \<Rightarrow> nat" where
  "bucket_for F seconds =
     (if f_le F seconds (f_micro F) then 0
      else let idx = f_log2 F (f_mul F seconds (f_million F)) in
        if f_less F idx (f_of_i64 F 0) then 0
        else let i = f_to_u64 F (f_ceil F idx) in if unat i \<ge> kBuckets then kBuckets - 1 else unat i)"

definition observe :: "'d fp_ops \<Rightarrow> string \<Rightarrow> 'd \<Rightarrow> 'd Metrics \<Rightarrow> 'd Metrics" where
  "observe F name seconds = ensure F max_metrics name k_histogram (\<lambda>e.
     let b = bucket_for F seconds in
     e\<lparr>me_hcount := (me_hcount e)[b := me_hcount e ! b + 1], me_hsamples := me_hsamples e + 1, me_hsum := f_add F (me_hsum e) seconds\<rparr>)"

definition upper_edge :: "'d fp_ops \<Rightarrow> nat \<Rightarrow> 'd" where
  "upper_edge F i = (if i = 0 then f_micro F else f_mul F (f_pow2 F i) (f_micro F))"

fun scan_buckets :: "u64 \<Rightarrow> u64 \<Rightarrow> nat \<Rightarrow> u64 list \<Rightarrow> nat option" where
  "scan_buckets target cum i [] = None"
| "scan_buckets target cum i (n # ns) = (if cum + n \<ge> target then Some i else scan_buckets target (cum + n) (i + 1) ns)"

definition percentile_target :: "'d fp_ops \<Rightarrow> u64 \<Rightarrow> 'd \<Rightarrow> u64" where
  "percentile_target F samples pct =
     (let target = f_to_u64 F (f_div F (f_mul F (f_of_u64 F samples) pct) (f_of_i64 F 100)) in if target = 0 then 1 else target)"

definition percentile_entry :: "'d fp_ops \<Rightarrow> 'd MEntry \<Rightarrow> 'd \<Rightarrow> 'd" where
  "percentile_entry F e pct =
     (if me_kind e \<noteq> k_histogram \<or> me_hsamples e = 0 then f_of_i64 F (-1)
      else case scan_buckets (percentile_target F (me_hsamples e) pct) 0 0 (me_hcount e) of
        Some i \<Rightarrow> upper_edge F i | None \<Rightarrow> upper_edge F (kBuckets - 1))"

definition snapshot_raw :: "'d fp_ops \<Rightarrow> 'd Metrics \<Rightarrow> (string \<times> MKind \<times> 'd \<times> u64) list" where
  "snapshot_raw F = map (\<lambda>e. if me_kind e = k_histogram then (me_name e, me_kind e, percentile_entry F e (f_of_i64 F 50), me_hsamples e)
     else (me_name e, me_kind e, f_of_i64 F (sint (me_value e)), 0))"

definition percentile :: "'d fp_ops \<Rightarrow> string \<Rightarrow> 'd \<Rightarrow> 'd Metrics \<Rightarrow> 'd" where
  "percentile F name pct m = (case find_metric name m of None \<Rightarrow> f_of_i64 F (-1) | Some e \<Rightarrow> percentile_entry F e pct)"

section \<open>Round trips\<close>

record Meter =
  mt_bytes_out :: u64
  mt_bytes_in :: u64
  mt_tokens_in :: u64
  mt_tokens_out :: u64
  mt_offline_ms :: u64
  mt_round_trips :: u32
  mt_retries :: u32
  mt_reconnects :: u32
  mt_timeouts :: u32
  mt_rtts :: "u64 list"

definition kMaxRttSamples :: nat where "kMaxRttSamples = 1024"

definition meter_reset :: Meter where
  "meter_reset = \<lparr>mt_bytes_out = 0, mt_bytes_in = 0, mt_tokens_in = 0, mt_tokens_out = 0, mt_offline_ms = 0, mt_round_trips = 0,
     mt_retries = 0, mt_reconnects = 0, mt_timeouts = 0, mt_rtts = []\<rparr>"

definition record_rtt :: "u64 \<Rightarrow> Meter \<Rightarrow> Meter" where
  "record_rtt ms m = m\<lparr>mt_rtts := (if length (mt_rtts m) \<ge> kMaxRttSamples then tl (mt_rtts m) else mt_rtts m) @ [ms]\<rparr>"

definition add_bytes_out :: "u64 \<Rightarrow> Meter \<Rightarrow> Meter" where "add_bytes_out n m = m\<lparr>mt_bytes_out := mt_bytes_out m + n\<rparr>"
definition add_bytes_in :: "u64 \<Rightarrow> Meter \<Rightarrow> Meter" where "add_bytes_in n m = m\<lparr>mt_bytes_in := mt_bytes_in m + n\<rparr>"
definition add_tokens_in :: "u64 \<Rightarrow> Meter \<Rightarrow> Meter" where "add_tokens_in n m = m\<lparr>mt_tokens_in := mt_tokens_in m + n\<rparr>"
definition add_tokens_out :: "u64 \<Rightarrow> Meter \<Rightarrow> Meter" where "add_tokens_out n m = m\<lparr>mt_tokens_out := mt_tokens_out m + n\<rparr>"
definition inc_round_trip :: "Meter \<Rightarrow> Meter" where "inc_round_trip m = m\<lparr>mt_round_trips := mt_round_trips m + 1\<rparr>"
definition inc_retry :: "Meter \<Rightarrow> Meter" where "inc_retry m = m\<lparr>mt_retries := mt_retries m + 1\<rparr>"
definition inc_reconnect :: "Meter \<Rightarrow> Meter" where "inc_reconnect m = m\<lparr>mt_reconnects := mt_reconnects m + 1\<rparr>"
definition inc_timeout :: "Meter \<Rightarrow> Meter" where "inc_timeout m = m\<lparr>mt_timeouts := mt_timeouts m + 1\<rparr>"
definition add_offline_ms :: "u64 \<Rightarrow> Meter \<Rightarrow> Meter" where "add_offline_ms n m = m\<lparr>mt_offline_ms := mt_offline_ms m + n\<rparr>"

text \<open>\<open>share\<close> is \<open>static_cast<size_t>(p * n)\<close> for the share \<open>p\<close> that is asked for.\<close>

definition rtt_percentile :: "(nat \<Rightarrow> nat) \<Rightarrow> Meter \<Rightarrow> u64" where
  "rtt_percentile share m =
     (if mt_rtts m = [] then 0
      else let sorted = sort (mt_rtts m); idx = share (length sorted) in
        sorted ! (if idx \<ge> length sorted then length sorted - 1 else idx))"

section \<open>A metric is what was recorded\<close>

datatype 'd metric_op = m_inc string u64 | m_dec string u64 | m_set string u64 | m_observe string 'd

fun metric_step :: "'d fp_ops \<Rightarrow> 'd metric_op \<Rightarrow> 'd Metrics \<Rightarrow> 'd Metrics" where
  "metric_step F (m_inc name n) m = inc F name n m"
| "metric_step F (m_dec name n) m = dec F name n m"
| "metric_step F (m_set name v) m = set_gauge F name v m"
| "metric_step F (m_observe name x) m = observe F name x m"

fun op_name :: "'d metric_op \<Rightarrow> string" where
  "op_name (m_inc name _) = name" | "op_name (m_dec name _) = name" | "op_name (m_set name _) = name" | "op_name (m_observe name _) = name"

fun op_kind :: "'d metric_op \<Rightarrow> MKind" where
  "op_kind (m_inc _ _) = k_counter" | "op_kind (m_dec _ _) = k_counter" | "op_kind (m_set _ _) = k_gauge" | "op_kind (m_observe _ _) = k_histogram"

text \<open>The effect of an operation on an entry of its name and kind.\<close>

fun op_effect :: "'d fp_ops \<Rightarrow> 'd metric_op \<Rightarrow> 'd MEntry \<Rightarrow> 'd MEntry" where
  "op_effect F (m_inc _ n) e = e\<lparr>me_value := me_value e + n\<rparr>"
| "op_effect F (m_dec _ n) e = e\<lparr>me_value := me_value e - n\<rparr>"
| "op_effect F (m_set _ v) e = e\<lparr>me_value := v\<rparr>"
| "op_effect F (m_observe _ x) e = (let b = bucket_for F x in
     e\<lparr>me_hcount := (me_hcount e)[b := me_hcount e ! b + 1], me_hsamples := me_hsamples e + 1, me_hsum := f_add F (me_hsum e) x\<rparr>)"

lemma metric_step_ensure: "metric_step F x m = ensure F max_metrics (op_name x) (op_kind x) (op_effect F x) m"
proof -
  have "op_effect F (m_inc a n) = (\<lambda>e. e\<lparr>me_value := me_value e + n\<rparr>)" "op_effect F (m_dec a n) = (\<lambda>e. e\<lparr>me_value := me_value e - n\<rparr>)"
    "op_effect F (m_set a n) = (\<lambda>e. e\<lparr>me_value := n\<rparr>)"
    "op_effect F (m_observe a y) = (\<lambda>e. let b = bucket_for F y in e\<lparr>me_hcount := (me_hcount e)[b := me_hcount e ! b + 1],
       me_hsamples := me_hsamples e + 1, me_hsum := f_add F (me_hsum e) y\<rparr>)" for a n y
    by (rule ext, simp)+
  then show ?thesis by (cases x) (simp_all add: inc_def dec_def set_gauge_def observe_def)
qed

lemma op_effect_keeps [simp]: "me_name (op_effect F x e) = me_name e" "me_kind (op_effect F x e) = me_kind e"
  by (cases x; simp add: Let_def)+

lemma find_ensure:
  assumes "\<And>e. me_name (f e) = me_name e"
  shows "find_metric q (ensure F room name kind f m) =
    (if q \<noteq> name then find_metric q m
     else case find_metric name m of
       Some e \<Rightarrow> Some (if me_kind e = kind then f e else e)
     | None \<Rightarrow> if length m < room then Some (f (new_metric F name kind)) else None)"
  using assms by (induction F room name kind f m rule: ensure.induct) (auto simp: new_metric_def split: option.splits)

lemma ensure_length: "length m \<le> room \<Longrightarrow> length m \<le> length (ensure F room name kind f m) \<and> length (ensure F room name kind f m) \<le> room"
proof (induction F room name kind f m rule: ensure.induct)
  case (2 F room name kind f e es)
  then show ?case by (cases room) auto
qed auto

text \<open>The operations on a name that count: those of the kind of the first one.\<close>

definition recorded :: "string \<Rightarrow> 'd metric_op list \<Rightarrow> 'd metric_op list" where
  "recorded name ops = (case filter (\<lambda>x. op_name x = name) ops of
     [] \<Rightarrow> [] | x # xs \<Rightarrow> filter (\<lambda>y. op_kind y = op_kind x) (x # xs))"

lemma recorded_snoc:
  "recorded name (ops @ [x]) =
     (if op_name x \<noteq> name then recorded name ops
      else case recorded name ops of [] \<Rightarrow> [x] | y # ys \<Rightarrow> if op_kind x = op_kind y then y # ys @ [x] else y # ys)"
  by (auto simp: recorded_def split: list.splits)

definition entry_of :: "'d fp_ops \<Rightarrow> string \<Rightarrow> 'd metric_op list \<Rightarrow> 'd MEntry option" where
  "entry_of F name xs = (case xs of [] \<Rightarrow> None | x # _ \<Rightarrow> Some (fold (op_effect F) xs (new_metric F name (op_kind x))))"

theorem metrics_recorded:
  defines "run \<equiv> \<lambda>F ops. fold (metric_step F) ops []"
  shows "length (run F ops) \<le> max_metrics \<and>
    (find_metric name (run F ops) = entry_of F name (recorded name ops) \<or> find_metric name (run F ops) = None \<and> length (run F ops) = max_metrics)"
proof (induction ops rule: rev_induct)
  case Nil
  then show ?case by (simp add: run_def entry_of_def recorded_def)
next
  case (snoc x ops)
  let ?m = "run F ops"
  have step: "run F (ops @ [x]) = ensure F max_metrics (op_name x) (op_kind x) (op_effect F x) ?m"
    by (simp add: run_def metric_step_ensure)
  have len: "length ?m \<le> length (run F (ops @ [x]))" "length (run F (ops @ [x])) \<le> max_metrics"
    using snoc ensure_length [of ?m max_metrics F "op_name x" "op_kind x" "op_effect F x"] by (simp_all add: step)
  show ?case
  proof (cases "find_metric name ?m = entry_of F name (recorded name ops)")
    case True
    have k: "me_kind (fold (op_effect F) ys e) = me_kind e" for ys and e :: "'a MEntry" by (induction ys arbitrary: e) auto
    show ?thesis
      using True len
      by (cases "recorded name ops")
        (auto simp: step find_ensure recorded_snoc entry_of_def k new_metric_def [of _ _ "op_kind _"] split: list.splits)
  next
    case False
    then have "find_metric name ?m = None" "length ?m = max_metrics" using snoc by auto
    then show ?thesis using len by (auto simp: step find_ensure split: option.splits)
  qed
qed

text \<open>
  So a metric beyond the sixty-fourth name is dropped, and an operation of another kind than the first one of its name is
  ignored, both without a trace.
\<close>

lemma other_kind_ignored: "recorded name [m_set name v, m_inc name n] = [m_set name v]"
  by (simp add: recorded_def)

section \<open>Percentiles\<close>

text \<open>As long as the samples fit in 64 bits, the scan finds the first bucket up to which there are at least \<open>target\<close> samples.\<close>

lemma scan_buckets_first:
  assumes "unat cum + sum_list (map unat ns) < 2 ^ 64" "unat target \<le> unat cum + sum_list (map unat ns)" "cum < target"
  shows "\<exists>j < length ns. scan_buckets target cum i ns = Some (i + j) \<and>
    unat target \<le> unat cum + sum_list (map unat (take (Suc j) ns)) \<and> unat cum + sum_list (map unat (take j ns)) < unat target"
  using assms
proof (induction target cum i ns rule: scan_buckets.induct)
  case (1 target cum i)
  then show ?case by (simp add: word_less_nat_alt)
next
  case (2 target cum i n ns)
  have s: "unat (cum + n) = unat cum + unat n" using 2(2) by (intro unat_add_lem [THEN iffD1]) simp
  show ?case
  proof (cases "cum + n \<ge> target")
    case True
    then have "unat target \<le> unat cum + unat n" using s by (simp add: word_le_nat_alt)
    then show ?thesis using 2(4) True by (intro exI [of _ 0]) (simp add: word_less_nat_alt)
  next
    case False
    then obtain j where "j < length ns" "scan_buckets target (cum + n) (i + 1) ns = Some (i + 1 + j)"
      "unat target \<le> unat (cum + n) + sum_list (map unat (take (Suc j) ns))" "unat (cum + n) + sum_list (map unat (take j ns)) < unat target"
      using 2(1) [OF False] 2(2,3) s by (auto simp: not_le)
    then show ?thesis using False s by (intro exI [of _ "Suc j"]) simp
  qed
qed

section \<open>The window of samples\<close>

theorem rtt_window:
  "mt_rtts (fold record_rtt xs meter_reset) = drop (length xs - kMaxRttSamples) xs"
proof (induction xs rule: rev_induct)
  case (snoc x xs)
  show ?case
  proof (cases "length xs \<ge> kMaxRttSamples")
    case True
    moreover have "0 < kMaxRttSamples" by (simp add: kMaxRttSamples_def)
    ultimately have "Suc (length xs) - kMaxRttSamples = Suc (length xs - kMaxRttSamples)" "Suc (length xs - kMaxRttSamples) \<le> length xs" by simp_all
    then show ?thesis using snoc True by (simp add: record_rtt_def tl_drop drop_Suc)
  qed (use snoc in \<open>simp add: record_rtt_def\<close>)
qed (simp add: meter_reset_def)

text \<open>A percentile is one of the samples, and a larger share never gives a smaller one.\<close>

theorem rtt_percentile_sample: "mt_rtts m \<noteq> [] \<Longrightarrow> rtt_percentile share m \<in> set (mt_rtts m)"
proof -
  assume "mt_rtts m \<noteq> []"
  then have "sort (mt_rtts m) ! (if share (length (mt_rtts m)) \<ge> length (mt_rtts m) then length (mt_rtts m) - 1 else share (length (mt_rtts m)))
      \<in> set (sort (mt_rtts m))" by (intro nth_mem) auto
  then show ?thesis using \<open>mt_rtts m \<noteq> []\<close> by (auto simp: rtt_percentile_def Let_def split: if_splits)
qed

theorem rtt_percentile_mono:
  assumes "share (length (mt_rtts m)) \<le> share' (length (mt_rtts m))"
  shows "rtt_percentile share m \<le> rtt_percentile share' m"
  using assms sorted_sort [of "mt_rtts m"]
  by (auto simp: rtt_percentile_def Let_def intro!: sorted_nth_mono)

end
