(* ===== verification/Spec2Isabelle.thy ===== *)
theory Spec2Isabelle
  imports Errors Text_Util Base64 Tool_Util Patch Json Json_Roundtrip Messages Codec Tokens Sse Retry_Policy
    Channel Offline_Queue Mem_Store Provider Config_Load
    Agent_States Session Tools File_Tools Syntax_Check Verify_Gate
    Intent Sha1 Memory Session_Memory Summarizer Prompt Context Http1
    Adapters Agent_Stream Agent_Loop Graph_Symbols Graph_Index Graph_Tools
    Env_Snapshot Arena Pool Timer_Heap Event_Loop Counters
begin

text \<open>
  A verification library for the OpenCode++ engine, the C++ library under \<open>src/\<close> that drives a coding task from a
  user's message through calls to a language model and tools on a workspace to its end.

  \<^bold>\<open>How the program works.\<close> A host configures the engine (\<open>config/\<close>), opens a session (\<open>agent/session\<close>) on a workspace and
  calls \<open>Agent::drive\<close> (\<open>agent/loop\<close>). The loop classifies the message (\<open>agent/intent\<close>), assembles a context from
  prompts, memory and history (\<open>prompt/\<close>, \<open>memory/\<close>, \<open>msg/\<close>), lets the provider's adapter (\<open>provider/\<close>) build a request,
  sends it over HTTP (\<open>net/\<close>), reads the reply as a stream of frames, and carries out the tool calls in it (\<open>tools/\<close>).
  Writing tools pass the verification gate (\<open>verify/\<close>), every tool the permission gate. A store (\<open>store/\<close>) keeps
  sessions, messages and memory entries; failed requests are retried under a policy or queued while offline.

  \<^bold>\<open>Which theory models what.\<close> Every definition is the translation of the C++ lines it is mapped to, with the names of
  the source. Structs are records, enums datatypes, fixed-width integers words, strings and byte buffers
  \<open>string\<close>, error codes the record of \<open>core/error.h\<close>, and whatever may fail returns a sum or an option.
  \<^item> \<open>Prelude\<close>: bytes, decimal text, substring search and list facts shared by all.
  \<^item> \<open>Errors\<close> (\<open>core/error.h\<close>), \<open>Text_Util\<close> (\<open>util/string.h\<close>, \<open>util/path.h\<close>), \<open>Base64\<close>, \<open>Sha1\<close> (\<open>util/\<close>): classification
    and status mapping are faithful, number parsing is exact and bounded (C2), encoding round-trips (C3), the
    streaming digest is the standard's block-wise one (C35).
  \<^item> \<open>Json\<close>, \<open>Json_Roundtrip\<close> (\<open>util/json.cpp\<close>): the parser always returns (C9) and reads back what the writer writes (C10).
    Recursion is bounded by twice the length of the input, which C9 shows to be enough.
  \<^item> \<open>Messages\<close>, \<open>Codec\<close>, \<open>Tokens\<close> (\<open>msg/\<close>): JSON and binary round trips (C11, C12; the locale \<open>field_codec\<close> is the contract
    of a field's writer and reader) and the cached token estimate.
  \<^item> \<open>Sse\<close>, \<open>Http1\<close>, \<open>Retry_Policy\<close>, \<open>Offline_Queue\<close> (\<open>net/\<close>), \<open>Bounded_Fifo\<close> and \<open>Channel\<close> (\<open>core/channel\<close>): stream events and
    chunked bodies do not depend on how the network cuts the bytes (C14, C39), the retry decisions and delays
    (C15), FIFO queues that refine a bounded queue (C16) and drain in order (C17).
  \<^item> \<open>Pool\<close> (\<open>net/pool.cpp\<close>), \<open>Arena\<close> (\<open>core/arena.cpp\<close>): a connection has one owner over every history of the clients
    (C25, the inductive relation \<open>pool_run\<close>), the pieces of memory the arena hands out are disjoint and aligned (C34).
  \<^item> \<open>Timer_Heap\<close>, \<open>Event_Loop\<close> (\<open>core/event_loop.cpp\<close>): exactly the due timers fire, in order (C13; the locale \<open>heap_queue\<close> is the
    contract of the timer queue); the registry of descriptors refines a map (\<open>registry_refines\<close>).
  \<^item> \<open>Counters\<close> (\<open>core/metrics.cpp\<close>, \<open>net/meter.cpp\<close>): a metric is what was recorded under its name (\<open>metrics_recorded\<close>), the
    samples are the last 1024 (\<open>rtt_window\<close>).
  \<^item> \<open>Mem_Store\<close> (\<open>store/mem_store.cpp\<close>): the store refines a log of rows (C18).
  \<^item> \<open>Provider\<close> (\<open>model/catalog.hpp\<close>, \<open>provider/resolver.cpp\<close>, \<open>provider/factory.cpp\<close>), \<open>Adapters\<close> (\<open>provider/anthropic.cpp\<close>,
    \<open>openai.cpp\<close>, \<open>gemini.cpp\<close>): the edit distance is Levenshtein's (C19), URLs split into their parts, tool calls
    that arrive in pieces are put together (C28).
  \<^item> \<open>Config_Load\<close> (\<open>config/config.cpp\<close>): a loaded configuration is valid (C22). \<open>Env_Snapshot\<close> (\<open>config/env_snapshot.cpp\<close>):
    the nearest repository is found, the host is probed once per invalidation.
  \<^item> \<open>Tool_Util\<close>, \<open>Patch\<close>, \<open>Tools\<close>, \<open>File_Tools\<close> (\<open>tools/\<close>): paths stay in the sandbox (C4), glob matching (C5), patches
    apply exactly, undo, and are atomic on files (C6 to C8), the permission gate filters (C27; the locale
    \<open>guarded_dispatch\<close>), reading, the read-only policy and writing of files (C30, C31).
  \<^item> \<open>Syntax_Check\<close>, \<open>Verify_Gate\<close> (\<open>verify/\<close>): the scanner decides the bracket grammar (C32), the gate passes exactly what its
    stages have no objection to (C33).
  \<^item> \<open>Memory\<close>, \<open>Session_Memory\<close>, \<open>Summarizer\<close> (\<open>memory/\<close>, \<open>tools/memory_tool.cpp\<close>): the workspace memory is a bounded ring of
    valid entries (C36; the locale \<open>keyed_rows\<close>), a checkpoint is what is resumed (C37).
  \<^item> \<open>Prompt\<close>, \<open>Context\<close> (\<open>prompt/\<close>): nothing of the history is lost silently, and what is kept fits (C38).
  \<^item> \<open>Agent_States\<close>, \<open>Session\<close>, \<open>Intent\<close> (\<open>agent/\<close>): the phases of a session (C23), its history (C24), its budget and options,
    and the classifier.
  \<^item> \<open>Graph_Symbols\<close>, \<open>Graph_Index\<close> (\<open>graph/\<close>): the line scanner attributes calls to the definitions around them (C26); the
    index of symbols and dependencies, with its tombstones, compaction and eviction, stays consistent and its lookups
    answer from live symbols (C1); a lazy parse shows exactly the present text (C21); retrieved text stays within its
    budget (\<open>context_bounded\<close>). \<open>Graph_Tools\<close> (\<open>tools/exec/read_only.cpp\<close>): the symbol tools answer from the index (C29).
  \<^item> \<open>Agent_Stream\<close>, \<open>Agent_Loop\<close> (\<open>agent/loop.cpp\<close>, \<open>agent/feedback.cpp\<close>): the loop itself, on top of all of the above. The
    workspace changes only through registered, permitted and, for writes, verified tools, and the reported
    edits are exactly these writes (C40, on the paths of the inductive relation \<open>workspace_path\<close>); a task whose replies
    report their usage ends (C20).

  \<^bold>\<open>Parameters.\<close> What is not code of the repository is an argument: the conversions between text and \<open>double\<close> (\<open>num_ops\<close>,
  \<open>dbl_ops\<close>), the clock, the operating system's files, directories and processes, the symbol index behind the
  gate's function pointers, the host's callbacks, and for the agent the record \<open>io\<close>: the cancellation flag at each
  observation, the outcome of each socket operation, the files of the workspace. The properties that rely on
  them say so in a hypothesis (\<open>nums_ok\<close>: printed numbers are read back), and their witnesses instantiate
  them with concrete functions.

  \<^bold>\<open>Bounds.\<close> Loops are total functions with a proved measure wherever they end. The JSON parser has a bound that is proved
  to be enough. \<open>drive\<close> may run for ever, since a model that reports no usage is never charged
  (\<open>unmetered_round_is_free\<close>); it is bounded by a number of rounds, and C20 gives a number that is enough. The list of
  what a socket's reads and writes return is finite because each request has a deadline. An exception that leaves the
  code (\<open>huge_chunk_throws\<close>) is \<open>None\<close> in \<open>Http1\<close> and \<open>Graph_Symbols\<close> and \<open>Some None\<close> in \<open>drive\<close>.

  \<^bold>\<open>What modelling showed.\<close> Next to the properties stand lemmas on where the code does something else than it says, among
  them \<open>patch_refused\<close>, \<open>cancelled_task_is_done\<close>, \<open>base_path_doubled\<close>, \<open>done_sentinel_is_error\<close>, \<open>full_memory_keeps_old_value\<close>,
  \<open>tier2_budget_wraps\<close>, \<open>insert_on_top_refused\<close>, \<open>git_show_injection\<close> and \<open>shell_failure_reported_ok\<close>.

  \<^bold>\<open>Not modelled.\<close> The SQLite store (SQL text for a C library), TLS, sockets and transport
  (system calls), the logger, the task scheduler (C++ coroutines), the C interface \<open>abi/\<close> and the
  language bindings (forwarding calls), and the command line
  tools, examples and tests.
\<close>

end
